(* ===== verification/DH_Prelude.thy ===== *)
theory DH_Prelude
  imports Main "HOL-Library.Word" "HOL-Library.AList" "HOL-Library.Multiset"
begin

text \<open>
  Shared vocabulary of the development: the machine types of the x64 build, faults as values,
  sequencing of fallible operations, little-endian integers in byte buffers, \<open>memcpy_s\<close>, and the
  lemma collections the component theories use.

  Every operation of the program that can go wrong at run time (a failed \<open>assert\<close> of a debug
  build, a null dereference, a read past the end of a block, a busy loop that can never end, a
  bad \<open>delete\<close>) returns a value of type \<open>'a res\<close>: \<open>Fault e\<close> where that happens, \<open>Ok x\<close>
  otherwise.
\<close>

section \<open>Machine types\<close>

type_synonym byte = "8 word"
type_synonym u16 = "16 word"
type_synonym u32 = "32 word"
type_synonym u64 = "64 word"
type_synonym sock = "64 word"
type_synonym ptr = nat

section \<open>Faults and results\<close>

datatype fault =
    Assert_Fail      \<comment> \<open>an \<open>assert\<close> of a debug build does not hold\<close>
  | Null_Deref       \<comment> \<open>a null pointer or an empty accessor is dereferenced\<close>
  | Over_Read        \<comment> \<open>a read past the end of a memory block\<close>
  | Buffer_Overflow  \<comment> \<open>a write past the end of a memory block\<close>
  | Invalid_Param    \<comment> \<open>the invalid-parameter handler of a \<open>_s\<close> function runs\<close>
  | Spin             \<comment> \<open>a busy loop whose exit condition can never hold\<close>
  | Bad_Free         \<comment> \<open>\<open>delete\<close> of something that is not a live heap block\<close>
  | Use_After_Free   \<comment> \<open>a read of a block that was already released\<close>
  | Int_Overflow     \<comment> \<open>signed arithmetic leaves the range of \<open>int\<close>\<close>
  | No_Return        \<comment> \<open>control runs off the end of a function that returns a value\<close>
  | Uncaught         \<comment> \<open>a C++ exception nobody catches\<close>

type_synonym 'a res = "fault + 'a"

abbreviation Fault :: "fault \<Rightarrow> 'a res" where
  "Fault \<equiv> Inl"

abbreviation Ok :: "'a \<Rightarrow> 'a res" where
  "Ok \<equiv> Inr"

definition bindE :: "'a res \<Rightarrow> ('a \<Rightarrow> 'b res) \<Rightarrow> 'b res" where
  "bindE m f = (case m of Inl e \<Rightarrow> Inl e | Inr x \<Rightarrow> f x)"

lemma bindE_Fault [simp]: "bindE (Fault e) f = Fault e"
  by (simp add: bindE_def)

lemma bindE_Ok [simp]: "bindE (Ok x) f = f x"
  by (simp add: bindE_def)

lemma bindE_eq_Ok_iff: "bindE m f = Ok y \<longleftrightarrow> (\<exists>x. m = Ok x \<and> f x = Ok y)"
  by (cases m) simp_all

lemma bindE_eq_Fault_iff:
  "bindE m f = Fault e \<longleftrightarrow> m = Fault e \<or> (\<exists>x. m = Ok x \<and> f x = Fault e)"
  by (cases m) simp_all

lemma bindE_OkE:
  assumes "bindE m f = Ok y"
  obtains x where "m = Ok x" and "f x = Ok y"
  using assms by (auto simp: bindE_eq_Ok_iff)

lemma bindE_cong [fundef_cong]:
  "m = m' \<Longrightarrow> (\<And>x. m' = Ok x \<Longrightarrow> f x = g x) \<Longrightarrow> bindE m f = bindE m' g"
  by (cases m') auto

definition is_Ok :: "'a res \<Rightarrow> bool" where
  "is_Ok r = (case r of Inl _ \<Rightarrow> False | Inr _ \<Rightarrow> True)"

lemma is_Ok_simps [simp]: "is_Ok (Ok x)" "\<not> is_Ok (Fault e)"
  by (simp_all add: is_Ok_def)

lemma is_Ok_iff: "is_Ok r \<longleftrightarrow> (\<exists>x. r = Ok x)"
  by (cases r) auto

section \<open>Little-endian integers\<close>

fun le_to_nat :: "byte list \<Rightarrow> nat" where
  "le_to_nat [] = 0"
| "le_to_nat (b # bs) = unat b + 256 * le_to_nat bs"

primrec nat_to_le :: "nat \<Rightarrow> nat \<Rightarrow> byte list" where
  "nat_to_le 0 n = []"
| "nat_to_le (Suc k) n = word_of_nat (n mod 256) # nat_to_le k (n div 256)"

lemma length_nat_to_le [simp]: "length (nat_to_le k n) = k"
  by (induction k arbitrary: n) simp_all

lemma unat_byte_of_nat: "unat (word_of_nat (n mod 256) :: byte) = n mod 256"
  by (simp add: unat_of_nat)

lemma le_to_nat_nat_to_le: "le_to_nat (nat_to_le k n) = n mod 256 ^ k"
proof (induction k arbitrary: n)
  case 0
  then show ?case by simp
next
  case (Suc k)
  have "le_to_nat (nat_to_le (Suc k) n) = n mod 256 + 256 * (n div 256 mod 256 ^ k)"
    by (simp add: Suc.IH unat_byte_of_nat)
  also have "\<dots> = n mod (256 * 256 ^ k)"
    by (simp add: mod_mult2_eq)
  finally show ?case by simp
qed

lemma le_to_nat_bound: "le_to_nat bs < 256 ^ length bs"
proof (induction bs)
  case Nil
  then show ?case by simp
next
  case (Cons b bs)
  have "unat b < 256"
    using unsigned_less [of b] by simp
  with Cons.IH show ?case by simp
qed

lemma nat_to_le_le_to_nat: "nat_to_le (length bs) (le_to_nat bs) = bs"
proof (induction bs)
  case Nil
  then show ?case by simp
next
  case (Cons b bs)
  have "unat b < 256"
    using unsigned_less [of b] by simp
  then have "(unat b + 256 * le_to_nat bs) mod 256 = unat b"
    and "(unat b + 256 * le_to_nat bs) div 256 = le_to_nat bs"
    by simp_all
  with Cons.IH show ?case by simp
qed

text \<open>The two integers the wire format has: a \<open>size_t\<close> and an \<open>unsigned short\<close>.\<close>

definition read_u64 :: "byte list \<Rightarrow> u64" where
  "read_u64 bs = word_of_nat (le_to_nat (take 8 bs))"

definition read_u16 :: "byte list \<Rightarrow> u16" where
  "read_u16 bs = word_of_nat (le_to_nat (take 2 bs))"

definition bytes_u64 :: "u64 \<Rightarrow> byte list" where
  "bytes_u64 w = nat_to_le 8 (unat w)"

definition bytes_u16 :: "u16 \<Rightarrow> byte list" where
  "bytes_u16 w = nat_to_le 2 (unat w)"

lemma length_bytes_u64 [simp]: "length (bytes_u64 w) = 8"
  by (simp add: bytes_u64_def)

lemma length_bytes_u16 [simp]: "length (bytes_u16 w) = 2"
  by (simp add: bytes_u16_def)

lemma read_bytes_u64 [simp]: "read_u64 (bytes_u64 w @ bs) = w"
proof -
  have "unat w < 256 ^ 8"
    using unsigned_less [of w] by simp
  then show ?thesis
    by (simp add: read_u64_def bytes_u64_def le_to_nat_nat_to_le)
qed

lemma read_bytes_u16 [simp]: "read_u16 (bytes_u16 w @ bs) = w"
proof -
  have "unat w < 256 ^ 2"
    using unsigned_less [of w] by simp
  then show ?thesis
    by (simp add: read_u16_def bytes_u16_def le_to_nat_nat_to_le)
qed

lemma bytes_read_u64: "8 \<le> length bs \<Longrightarrow> bytes_u64 (read_u64 bs) = take 8 bs"
  using nat_to_le_le_to_nat [of "take 8 bs"] le_to_nat_bound [of "take 8 bs"]
  by (simp add: bytes_u64_def read_u64_def unat_of_nat min_absorb2)

lemma bytes_read_u16: "2 \<le> length bs \<Longrightarrow> bytes_u16 (read_u16 bs) = take 2 bs"
  using nat_to_le_le_to_nat [of "take 2 bs"] le_to_nat_bound [of "take 2 bs"]
  by (simp add: bytes_u16_def read_u16_def unat_of_nat min_absorb2)

lemma read_u64_take: "8 \<le> n \<Longrightarrow> read_u64 (take n bs) = read_u64 bs"
  by (simp add: read_u64_def min_absorb1)

lemma read_u64_append: "8 \<le> length xs \<Longrightarrow> read_u64 (xs @ ys) = read_u64 xs"
  by (simp add: read_u64_def)

lemma read_u16_append: "2 \<le> length xs \<Longrightarrow> read_u16 (xs @ ys) = read_u16 xs"
  by (simp add: read_u16_def)

section \<open>Memory blocks\<close>

text \<open>Writing \<open>src\<close> at offset \<open>off\<close> of a block.\<close>

definition mem_write :: "byte list \<Rightarrow> nat \<Rightarrow> byte list \<Rightarrow> byte list" where
  "mem_write dst off src = take off dst @ src @ drop (off + length src) dst"

lemma length_mem_write [simp]:
  "off + length src \<le> length dst \<Longrightarrow> length (mem_write dst off src) = length dst"
  by (simp add: mem_write_def)

lemma take_mem_write:
  "off + length src \<le> length dst \<Longrightarrow>
     take (off + length src) (mem_write dst off src) = take off dst @ src"
  by (simp add: mem_write_def)

lemma mem_write_0: "mem_write dst 0 src = src @ drop (length src) dst"
  by (simp add: mem_write_def)

text \<open>
  \<open>memcpy_s(dest + off, dest_size, src, count)\<close>. The library function refuses a count larger than
  \<open>dest_size\<close>; what it cannot see are the real sizes of the two blocks, so a read past the end of
  \<open>src\<close> or a write past the end of \<open>dest\<close> is a fault of the caller. Overlapping blocks (the
  program shifts a buffer onto itself) are copied as the Microsoft library does it, which is
  \<open>memmove\<close>.
\<close>

definition memcpy_s :: "byte list \<Rightarrow> nat \<Rightarrow> nat \<Rightarrow> byte list \<Rightarrow> nat \<Rightarrow> byte list res" where
  "memcpy_s dest off dest_size src n =
     (if dest_size < n then Fault Invalid_Param
      else if length src < n then Fault Over_Read
      else if length dest < off + n then Fault Buffer_Overflow
      else Ok (mem_write dest off (take n src)))"

lemma memcpy_s_Ok:
  "n \<le> dest_size \<Longrightarrow> n \<le> length src \<Longrightarrow> off + n \<le> length dest \<Longrightarrow>
     memcpy_s dest off dest_size src n = Ok (mem_write dest off (take n src))"
  by (simp add: memcpy_s_def)

lemma memcpy_s_OkD:
  "memcpy_s dest off dest_size src n = Ok r \<Longrightarrow>
     n \<le> dest_size \<and> n \<le> length src \<and> off + n \<le> length dest
     \<and> r = mem_write dest off (take n src)"
  by (simp add: memcpy_s_def split: if_splits)

section \<open>Word arithmetic without wrap-around\<close>

lemma unat_plus_nowrap64:
  "unat a + unat b < 2 ^ 64 \<Longrightarrow> unat (a + b :: u64) = unat a + unat b"
  by (simp add: unat_word_ariths)

lemma unat_minus_nowrap64: "b \<le> a \<Longrightarrow> unat (a - b :: u64) = unat a - unat b"
  by (simp add: unat_sub)

lemma unat_of_nat64: "n < 2 ^ 64 \<Longrightarrow> unat (word_of_nat n :: u64) = n"
  by (simp add: unat_of_nat)

lemma word_less_iff_unat: "(a :: 'a::len word) < b \<longleftrightarrow> unat a < unat b"
  by (rule word_less_nat_alt)

lemma word_le_iff_unat: "(a :: 'a::len word) \<le> b \<longleftrightarrow> unat a \<le> unat b"
  by (rule word_le_nat_alt)

section \<open>Association lists as concurrent hash maps\<close>

text \<open>
  A \<open>tbb::concurrent_hash_map\<close> is an association list with distinct keys; the order of the list
  stands for its iteration order, which the library leaves open. \<open>find\<close> is \<open>map_of\<close>, \<open>erase\<close> is
  \<open>AList.delete\<close>, and \<open>insert\<close> keeps an entry that is already there.
\<close>

definition hm_insert :: "'k \<Rightarrow> 'v \<Rightarrow> ('k \<times> 'v) list \<Rightarrow> ('k \<times> 'v) list" where
  "hm_insert k v m = (case map_of m k of None \<Rightarrow> m @ [(k, v)] | Some _ \<Rightarrow> m)"

definition hm_distinct :: "('k \<times> 'v) list \<Rightarrow> bool" where
  "hm_distinct m = distinct (map fst m)"

lemma hm_insert_distinct: "hm_distinct m \<Longrightarrow> hm_distinct (hm_insert k v m)"
  by (auto simp: hm_distinct_def hm_insert_def map_of_eq_None_iff split: option.splits)

lemma map_of_hm_insert:
  "map_of (hm_insert k v m) = (case map_of m k of None \<Rightarrow> (map_of m)(k \<mapsto> v) | Some _ \<Rightarrow> map_of m)"
  by (auto simp: hm_insert_def map_add_def fun_eq_iff split: option.splits)

lemma hm_delete_distinct: "hm_distinct m \<Longrightarrow> hm_distinct (AList.delete k m)"
  by (simp add: hm_distinct_def distinct_delete)

lemma hm_delete_length:
  "hm_distinct m \<Longrightarrow> map_of m k = Some v \<Longrightarrow> Suc (length (AList.delete k m)) = length m"
proof (induction m)
  case Nil
  then show ?case by simp
next
  case (Cons a m)
  show ?case
  proof (cases "fst a = k")
    case True
    with Cons.prems(1) have "k \<notin> fst ` set m"
      by (auto simp: hm_distinct_def)
    then have "AList.delete k m = m"
      by simp
    with True show ?thesis
      by (cases a) simp
  next
    case False
    with Cons show ?thesis
      by (cases a) (auto simp: hm_distinct_def)
  qed
qed

text \<open>A list of pairs with one first component.\<close>

lemma map_Pair_snd: "\<forall>m \<in> set xs. fst m = k \<Longrightarrow> xs = map (Pair k) (map snd xs)"
  by (induction xs) auto

lemma length_filter_remove1:
  "x \<in> set xs \<Longrightarrow>
     length (filter P xs) = length (filter P (remove1 x xs)) + (if P x then 1 else 0)"
  by (induction xs) auto

section \<open>Lemma collections\<close>

named_theorems inv_simps \<open>unfoldings of the state invariants\<close>
named_theorems inv_intros \<open>operations keep the invariants\<close>
named_theorems frame_simps \<open>fields an operation leaves alone\<close>

lemmas bindE_iffs = bindE_eq_Ok_iff bindE_eq_Fault_iff

end
