(* ===== verification/DH_Constants.thy ===== *)
theory DH_Constants
  imports DH_Prelude
begin

text \<open>
  The constants of \<open>NetWorkDefine.h\<close> and \<open>DHNetWorkAPIDefine.h\<close>, and the packet header both
  sides of a connection share: a \<open>size_t\<close> body size and an \<open>unsigned short\<close> type, packed to one
  byte alignment, so ten bytes on the x64 build, followed by the body. An abstract packet is its
  type and its body; \<open>encode_packet\<close> is its wire format.
\<close>

section \<open>NetWorkDefine.h\<close>

definition SERVER_OVERLAPPED_COUNT :: int where "SERVER_OVERLAPPED_COUNT = 10000"
definition SERVER_MEMORYPOOL_COUNT :: int where "SERVER_MEMORYPOOL_COUNT = 2000"
definition SERVER_TIME_EVENT_s :: int where "SERVER_TIME_EVENT_s = 10"
definition CLIENT_THREAD_COUNT :: nat where "CLIENT_THREAD_COUNT = 1"
definition CLIENT_IOCP_THREAD_COUNT :: nat where "CLIENT_IOCP_THREAD_COUNT = 2"
definition CLIENT_OVERLAPPED_COUNT :: int where "CLIENT_OVERLAPPED_COUNT = 1000"

definition OVERLAPPED_BUFIZE :: nat where "OVERLAPPED_BUFIZE = 2048"
definition MAX_PACKET_SIZE :: nat where "MAX_PACKET_SIZE = 20480"
definition ERROR_MSG_BUFIZE :: nat where "ERROR_MSG_BUFIZE = 128"

definition LOGIC_SUCCESS :: int where "LOGIC_SUCCESS = 1"
definition LOGIC_FAIL :: int where "LOGIC_FAIL = 0"

definition PACKET_TYPE_NONE :: u16 where "PACKET_TYPE_NONE = 0"

text \<open>\<open>INVALID_SOCKET\<close> of the Windows headers: all bits set.\<close>

definition INVALID_SOCKET :: sock where "INVALID_SOCKET = - 1"

text \<open>\<open>ERROR_IO_PENDING\<close> and \<open>WSA_IO_PENDING\<close>, the same number in the Windows headers.\<close>

definition WSA_IO_PENDING :: u32 where "WSA_IO_PENDING = 997"

text \<open>\<open>WSAECONNREFUSED\<close> of the Windows headers.\<close>

definition WSAECONNREFUSED :: u32 where "WSAECONNREFUSED = 10061"

section \<open>DHNetWorkAPIDefine.h\<close>

definition SEND_TYPE_BROADCAST :: int where "SEND_TYPE_BROADCAST = 0"
definition SEND_TYPE_TARGET :: int where "SEND_TYPE_TARGET = 1"
definition SEND_TYPE_EXCEPT_TARGET :: int where "SEND_TYPE_EXCEPT_TARGET = 2"

definition DHDEBUG_NONE :: u16 where "DHDEBUG_NONE = 0"
definition DHDEBUG_SIMPLE :: u16 where "DHDEBUG_SIMPLE = 1"
definition DHDEBUG_DETAIL :: u16 where "DHDEBUG_DETAIL = 2"

text \<open>
  \<open>struct Packet_Header\<close>: the two fields, in this order, with no padding. \<open>Packet_Size\<close> of a packet
  in memory is read at offset 0 and \<open>Packet_Type\<close> at offset 8; a block that is too short for the
  field is read past its end.
\<close>

record Packet_Header =
  Packet_Size :: u64
  Packet_Type :: u16

definition PACKET_HEADER_SIZE :: nat where "PACKET_HEADER_SIZE = 10"

definition get_Packet_Size :: "byte list \<Rightarrow> u64 res" where
  "get_Packet_Size blk = (if length blk < 8 then Fault Over_Read else Ok (read_u64 blk))"

definition get_Packet_Type :: "byte list \<Rightarrow> u16 res" where
  "get_Packet_Type blk = (if length blk < 10 then Fault Over_Read else Ok (read_u16 (drop 8 blk)))"

definition header_bytes :: "Packet_Header \<Rightarrow> byte list" where
  "header_bytes h = bytes_u64 (Packet_Size h) @ bytes_u16 (Packet_Type h)"

text \<open>\<open>PACKET_HEADER_SIZE + size\<close> as the code computes it: 64-bit, wrapping.\<close>

definition packet_total :: "u64 \<Rightarrow> u64" where
  "packet_total sz = word_of_nat PACKET_HEADER_SIZE + sz"

lemmas net_consts =
  OVERLAPPED_BUFIZE_def MAX_PACKET_SIZE_def PACKET_HEADER_SIZE_def PACKET_TYPE_NONE_def

section \<open>Abstract packets and the wire format\<close>

type_synonym packet = "u16 \<times> byte list"

definition encode_packet :: "packet \<Rightarrow> byte list" where
  "encode_packet p =
     header_bytes \<lparr>Packet_Size = word_of_nat (length (snd p)), Packet_Type = fst p\<rparr> @ snd p"

definition packet_size :: "packet \<Rightarrow> nat" where
  "packet_size p = PACKET_HEADER_SIZE + length (snd p)"

definition packet_ok :: "packet \<Rightarrow> bool" where
  "packet_ok p \<longleftrightarrow> fst p \<noteq> PACKET_TYPE_NONE \<and> packet_size p < 2 ^ 64"

lemma length_header_bytes [simp]: "length (header_bytes h) = PACKET_HEADER_SIZE"
  by (simp add: header_bytes_def PACKET_HEADER_SIZE_def)

lemma length_encode_packet [simp]: "length (encode_packet p) = packet_size p"
  by (simp add: encode_packet_def packet_size_def)

lemma packet_size_ge [simp]: "PACKET_HEADER_SIZE \<le> packet_size p"
  by (simp add: packet_size_def)

lemma read_u64_header: "read_u64 (header_bytes h @ bs) = Packet_Size h"
  by (simp add: header_bytes_def)

lemma drop8_header [simp]: "drop 8 (header_bytes h) = bytes_u16 (Packet_Type h)"
  by (simp add: header_bytes_def)

lemma read_u16_header: "read_u16 (drop 8 (header_bytes h @ bs)) = Packet_Type h"
  by (simp add: PACKET_HEADER_SIZE_def)

lemma get_Packet_Size_header [simp]: "get_Packet_Size (header_bytes h @ bs) = Ok (Packet_Size h)"
  by (simp add: get_Packet_Size_def read_u64_header PACKET_HEADER_SIZE_def)

lemma get_Packet_Type_header [simp]: "get_Packet_Type (header_bytes h @ bs) = Ok (Packet_Type h)"
  by (simp add: get_Packet_Type_def read_u16_header PACKET_HEADER_SIZE_def)

lemma get_Packet_Size_encode [simp]:
  "get_Packet_Size (encode_packet p @ bs) = Ok (word_of_nat (length (snd p)))"
  by (simp add: encode_packet_def)

lemma get_Packet_Type_encode [simp]: "get_Packet_Type (encode_packet p @ bs) = Ok (fst p)"
  by (simp add: encode_packet_def)

lemma read_u64_encode [simp]: "read_u64 (encode_packet p @ bs) = word_of_nat (length (snd p))"
  by (simp add: encode_packet_def read_u64_header)

lemma read_u16_encode [simp]: "read_u16 (drop 8 (encode_packet p @ bs)) = fst p"
  by (simp add: encode_packet_def PACKET_HEADER_SIZE_def)

text \<open>Conversely, the first packet's worth of a long enough buffer is the encoding of what it holds.\<close>

definition decode_packet :: "byte list \<Rightarrow> packet" where
  "decode_packet bs =
     (read_u16 (drop 8 bs), take (unat (read_u64 bs)) (drop PACKET_HEADER_SIZE bs))"

lemma take_eq_encode:
  assumes "PACKET_HEADER_SIZE + unat (read_u64 bs) \<le> length bs"
  shows "take (PACKET_HEADER_SIZE + unat (read_u64 bs)) bs = encode_packet (decode_packet bs)"
proof -
  let ?n = "unat (read_u64 bs)"
  have len: "10 + ?n \<le> length bs"
    using assms by (simp add: PACKET_HEADER_SIZE_def)
  then have body: "length (take ?n (drop 10 bs)) = ?n"
    by simp
  have "take (8 + 2 + ?n) bs = take 8 bs @ take 2 (drop 8 bs) @ take ?n (drop 2 (drop 8 bs))"
    by (simp only: take_add drop_drop append_assoc) (simp add: add.commute)
  also have "\<dots> = bytes_u64 (read_u64 bs) @ bytes_u16 (read_u16 (drop 8 bs)) @ take ?n (drop 10 bs)"
    using len by (simp add: bytes_read_u64 bytes_read_u16)
  also have "\<dots> = encode_packet (decode_packet bs)"
    using body by (simp add: encode_packet_def decode_packet_def header_bytes_def PACKET_HEADER_SIZE_def)
  finally show ?thesis
    by (simp add: PACKET_HEADER_SIZE_def)
qed

lemma packet_ok_decode:
  "PACKET_HEADER_SIZE + unat (read_u64 bs) < 2 ^ 64 \<Longrightarrow>
   PACKET_HEADER_SIZE + unat (read_u64 bs) \<le> length bs \<Longrightarrow>
   read_u16 (drop 8 bs) \<noteq> PACKET_TYPE_NONE \<Longrightarrow> packet_ok (decode_packet bs)"
  by (simp add: packet_ok_def decode_packet_def packet_size_def)

lemma unat_packet_total:
  "unat (packet_total sz) = (PACKET_HEADER_SIZE + unat sz) mod 2 ^ 64"
  by (simp add: packet_total_def PACKET_HEADER_SIZE_def unat_word_ariths)

lemma unat_packet_total_nowrap:
  "PACKET_HEADER_SIZE + unat sz < 2 ^ 64 \<Longrightarrow> unat (packet_total sz) = PACKET_HEADER_SIZE + unat sz"
  by (simp add: unat_packet_total)

lemma unat_packet_total_wrap:
  assumes "2 ^ 64 \<le> PACKET_HEADER_SIZE + unat sz"
  shows "unat (packet_total sz) < PACKET_HEADER_SIZE"
proof -
  have "unat sz < 2 ^ 64"
    using unsigned_less [of sz] by simp
  moreover have "unat (packet_total sz) = PACKET_HEADER_SIZE + unat sz - 2 ^ 64"
    using assms calculation by (simp add: unat_packet_total PACKET_HEADER_SIZE_def mod_if)
  ultimately show ?thesis
    using assms by (simp add: PACKET_HEADER_SIZE_def)
qed

lemma packet_total_encode:
  "packet_ok p \<Longrightarrow> unat (packet_total (word_of_nat (length (snd p)))) = packet_size p"
  by (simp add: packet_ok_def packet_size_def unat_packet_total unat_of_nat64 PACKET_HEADER_SIZE_def)

end
