(* ===== verification/DH_Heap.thy ===== *)
theory DH_Heap
  imports DH_Constants
begin

text \<open>
  The free store the network code allocates packets and messages in (\<open>malloc\<close>, \<open>new\<close>, \<open>delete\<close>):
  a finite map from block addresses to live blocks. A block is raw packet memory or a
  \<open>Network_Message\<close>. The program releases \<open>malloc\<close>ed packets with \<open>delete\<close>; both are the one
  operation \<open>heap_free\<close> here, which faults unless the address is that of a live block. The
  locale \<open>free_store\<close> is the contract the queues of the server and the client rely on.
\<close>

datatype cell =
    Packet_Block "byte list"  \<comment> \<open>a \<open>Packet_Header*\<close> block\<close>
  | Net_Msg sock ptr          \<comment> \<open>\<open>struct Network_Message { SOCKET Socket; Packet_Header* Packet; }\<close>\<close>

record heap =
  cells :: "ptr \<Rightarrow> cell option"
  next_ptr :: ptr

definition empty_heap :: heap where
  "empty_heap = \<lparr>cells = Map.empty, next_ptr = 0\<rparr>"

definition heap_ok :: "heap \<Rightarrow> bool" where
  "heap_ok h \<longleftrightarrow> (\<forall>p. next_ptr h \<le> p \<longrightarrow> cells h p = None)"

definition heap_alloc :: "cell \<Rightarrow> heap \<Rightarrow> ptr \<times> heap" where
  "heap_alloc c h =
     (next_ptr h, h\<lparr>cells := (cells h)(next_ptr h \<mapsto> c), next_ptr := Suc (next_ptr h)\<rparr>)"

definition heap_free :: "ptr \<Rightarrow> heap \<Rightarrow> heap res" where
  "heap_free p h =
     (case cells h p of None \<Rightarrow> Fault Bad_Free | Some _ \<Rightarrow> Ok (h\<lparr>cells := (cells h)(p := None)\<rparr>))"

definition heap_packet :: "ptr \<Rightarrow> heap \<Rightarrow> byte list res" where
  "heap_packet p h =
     (case cells h p of Some (Packet_Block bs) \<Rightarrow> Ok bs | _ \<Rightarrow> Fault Use_After_Free)"

definition heap_msg :: "ptr \<Rightarrow> heap \<Rightarrow> (sock \<times> ptr) res" where
  "heap_msg p h =
     (case cells h p of Some (Net_Msg sk q) \<Rightarrow> Ok (sk, q) | _ \<Rightarrow> Fault Use_After_Free)"

section \<open>The contract of a free store\<close>

locale free_store =
  fixes ok :: "'h \<Rightarrow> bool"
    and lookup :: "'h \<Rightarrow> ptr \<Rightarrow> 'c option"
    and alloc :: "'c \<Rightarrow> 'h \<Rightarrow> ptr \<times> 'h"
    and release :: "ptr \<Rightarrow> 'h \<Rightarrow> 'h res"
  assumes alloc_ok: "ok h \<Longrightarrow> alloc c h = (p, h') \<Longrightarrow> ok h'"
    and alloc_fresh: "ok h \<Longrightarrow> alloc c h = (p, h') \<Longrightarrow> lookup h p = None"
    and alloc_lookup: "ok h \<Longrightarrow> alloc c h = (p, h') \<Longrightarrow> lookup h' = (lookup h)(p \<mapsto> c)"
    and release_ok: "ok h \<Longrightarrow> release p h = Ok h' \<Longrightarrow> ok h'"
    and release_lookup: "ok h \<Longrightarrow> release p h = Ok h' \<Longrightarrow> lookup h' = (lookup h)(p := None)"
    and release_iff: "ok h \<Longrightarrow> is_Ok (release p h) \<longleftrightarrow> lookup h p \<noteq> None"
begin

lemma alloc_keeps:
  assumes "ok h" and "alloc c h = (p, h')" and "lookup h q = Some d"
  shows "lookup h' q = Some d" and "q \<noteq> p"
proof -
  show ne: "q \<noteq> p"
    using alloc_fresh [OF assms(1,2)] assms(3) by auto
  show "lookup h' q = Some d"
    using alloc_lookup [OF assms(1,2)] assms(3) ne by simp
qed

lemma alloc_new: "ok h \<Longrightarrow> alloc c h = (p, h') \<Longrightarrow> lookup h' p = Some c"
  using alloc_lookup by fastforce

lemma release_keeps:
  "ok h \<Longrightarrow> release p h = Ok h' \<Longrightarrow> q \<noteq> p \<Longrightarrow> lookup h' q = lookup h q"
  by (simp add: release_lookup)

lemma no_double_free: "ok h \<Longrightarrow> release p h = Ok h' \<Longrightarrow> \<not> is_Ok (release p h')"
  by (simp add: release_lookup release_ok release_iff)

lemma alloc_release:
  assumes "ok h" and "alloc c h = (p, h')"
  shows "\<exists>h''. release p h' = Ok h'' \<and> lookup h'' = lookup h"
proof -
  have ok': "ok h'" and at_p: "lookup h' p = Some c"
    using alloc_ok [OF assms] alloc_new [OF assms] by simp_all
  then obtain h'' where rel: "release p h' = Ok h''"
    using release_iff [OF ok', of p] by (auto simp: is_Ok_iff)
  have "lookup h'' = (lookup h)(p := None)"
    using release_lookup [OF ok' rel] alloc_lookup [OF assms] by simp
  also have "\<dots> = lookup h"
    using alloc_fresh [OF assms] by (simp add: fun_upd_idem_iff)
  finally show ?thesis
    using rel by blast
qed

end

interpretation hp: free_store heap_ok cells heap_alloc heap_free
proof unfold_locales
  fix h p h' and c :: cell
  assume ok: "heap_ok h" and al: "heap_alloc c h = (p, h')"
  show "heap_ok h'" and "cells h p = None" and "cells h' = (cells h)(p \<mapsto> c)"
    using ok al by (auto simp: heap_alloc_def heap_ok_def)
next
  fix h p h'
  assume ok: "heap_ok h" and fr: "heap_free p h = Ok h'"
  show "heap_ok h'" and "cells h' = (cells h)(p := None)"
    using ok fr by (auto simp: heap_free_def heap_ok_def split: option.splits)
next
  fix h p
  assume "heap_ok h"
  show "is_Ok (heap_free p h) \<longleftrightarrow> cells h p \<noteq> None"
    by (auto simp: heap_free_def split: option.splits)
qed

lemma heap_ok_empty [simp]: "heap_ok empty_heap"
  by (simp add: heap_ok_def empty_heap_def)

lemma heap_free_eq: "cells h p = Some c \<Longrightarrow> heap_free p h = Ok (h\<lparr>cells := (cells h)(p := None)\<rparr>)"
  by (simp add: heap_free_def)

lemma heap_packet_eq: "cells h p = Some (Packet_Block bs) \<Longrightarrow> heap_packet p h = Ok bs"
  by (simp add: heap_packet_def)

lemma heap_msg_eq: "cells h p = Some (Net_Msg sk q) \<Longrightarrow> heap_msg p h = Ok (sk, q)"
  by (simp add: heap_msg_def)

lemma heap_packet_OkD: "heap_packet p h = Ok bs \<Longrightarrow> cells h p = Some (Packet_Block bs)"
  by (simp add: heap_packet_def split: option.splits cell.splits)

lemma heap_msg_OkD: "heap_msg p h = Ok (sk, q) \<Longrightarrow> cells h p = Some (Net_Msg sk q)"
  by (simp add: heap_msg_def split: option.splits cell.splits)

end
