(* ===== verification/DH_Winsock.thy ===== *)
theory DH_Winsock
  imports DH_Constants
begin

text \<open>
  The operating system is not part of the repository. A run is parameterised by an environment
  \<open>os\<close>: for the calls made so far and the next call it says what the call returns. The state keeps
  the calls already made (\<open>calls\<close>, newest first) and the overlapped structures the system owns
  because an asynchronous operation on them is under way (\<open>in_flight\<close>). An asynchronous call puts
  its structure in flight when it succeeds at once or reports \<open>ERROR_IO_PENDING\<close>; in both cases a
  completion packet will be queued. Whether the program is a debug build, in which \<open>assert\<close> is
  checked, and what bytes uninitialised memory holds are part of the environment too.
\<close>

datatype syscall =
    Sys_CreatePort                          \<comment> \<open>\<open>CreateIoCompletionPort(INVALID_HANDLE_VALUE, ...)\<close>\<close>
  | Sys_Associate sock "ptr option"         \<comment> \<open>\<open>CreateIoCompletionPort(socket, port, key, 0)\<close>\<close>
  | Sys_WSASocket
  | Sys_Bind sock u16
  | Sys_Listen sock nat
  | Sys_AcceptEx sock sock nat              \<comment> \<open>listen socket, accept socket, overlapped\<close>
  | Sys_DisconnectEx sock nat
  | Sys_WSARecv sock nat nat                \<comment> \<open>socket, overlapped, buffer length\<close>
  | Sys_WSASend sock nat "byte list"        \<comment> \<open>socket, overlapped, the bytes of the buffer\<close>
  | Sys_Connect sock u16 string
  | Sys_Shutdown sock
  | Sys_CloseSocket sock
  | Sys_PostQuit                            \<comment> \<open>\<open>PostQueuedCompletionStatus(port, 0, 0, nullptr)\<close>\<close>
  | Sys_CloseHandle
  | Sys_WSAStartup
  | Sys_WSAIoctl sock
  | Sys_WSACleanup
  | Sys_ThreadStart string
  | Sys_ThreadJoin string

record sysret =
  ret_ok :: bool        \<comment> \<open>the call returned its success value\<close>
  last_error :: u32     \<comment> \<open>\<open>WSAGetLastError()\<close> after the call\<close>
  ret_sock :: sock      \<comment> \<open>the socket a \<open>WSASocket\<close> call returned\<close>

record os =
  os_ret :: "syscall list \<Rightarrow> syscall \<Rightarrow> sysret"
  debug_build :: bool
  raw_byte :: "nat \<Rightarrow> nat \<Rightarrow> byte"   \<comment> \<open>what fresh memory holds, by block and offset\<close>
  remote_addr :: "byte list \<Rightarrow> string \<times> u16"
    \<comment> \<open>the peer's address and port \<open>AcceptEx\<close> left in a buffer, as \<open>GetAcceptExSockaddrs\<close>,
        \<open>inet_ntop\<close> and \<open>ntohs\<close> read it\<close>

record sys =
  calls :: "syscall list"
  in_flight :: "nat list"

definition empty_sys :: sys where
  "empty_sys = \<lparr>calls = [], in_flight = []\<rparr>"

definition sys_call :: "os \<Rightarrow> syscall \<Rightarrow> sys \<Rightarrow> sysret \<times> sys" where
  "sys_call env c y = (os_ret env (calls y) c, y\<lparr>calls := c # calls y\<rparr>)"

definition goes_in_flight :: "sysret \<Rightarrow> bool" where
  "goes_in_flight r \<longleftrightarrow> ret_ok r \<or> last_error r = WSA_IO_PENDING"

definition sys_async :: "os \<Rightarrow> syscall \<Rightarrow> nat \<Rightarrow> sys \<Rightarrow> sysret \<times> sys" where
  "sys_async env c ov y =
     (let r = os_ret env (calls y) c;
          y' = y\<lparr>calls := c # calls y\<rparr>
      in (r, if goes_in_flight r then y'\<lparr>in_flight := ov # in_flight y'\<rparr> else y'))"

text \<open>A completion packet for \<open>ov\<close> is taken off the port: the program owns the structure again.\<close>

definition sys_complete :: "nat \<Rightarrow> sys \<Rightarrow> sys" where
  "sys_complete ov y = y\<lparr>in_flight := remove1 ov (in_flight y)\<rparr>"

text \<open>\<open>assert\<close>: checked in a debug build, nothing in a release build.\<close>

definition assertE :: "os \<Rightarrow> bool \<Rightarrow> unit res" where
  "assertE env b = (if debug_build env \<and> \<not> b then Fault Assert_Fail else Ok ())"

lemma assertE_True [simp]: "assertE env True = Ok ()"
  by (simp add: assertE_def)

lemma assertE_release [simp]: "\<not> debug_build env \<Longrightarrow> assertE env b = Ok ()"
  by (simp add: assertE_def)

lemma assertE_Ok_iff: "assertE env b = Ok u \<longleftrightarrow> \<not> debug_build env \<or> b"
  by (simp add: assertE_def)

text \<open>
  Two documented behaviours of the system the program relies on. \<open>AcceptEx\<close> and \<open>DisconnectEx\<close> on
  an asynchronous socket do not finish at once: whenever they have not failed, the last error is
  \<open>ERROR_IO_PENDING\<close>. And a new socket is a valid socket number.
\<close>

definition os_pending :: "os \<Rightarrow> bool" where
  "os_pending env \<longleftrightarrow>
     (\<forall>cs l a ov. ret_ok (os_ret env cs (Sys_AcceptEx l a ov)) \<longrightarrow>
        last_error (os_ret env cs (Sys_AcceptEx l a ov)) = WSA_IO_PENDING)
     \<and> (\<forall>cs a ov. ret_ok (os_ret env cs (Sys_DisconnectEx a ov)) \<longrightarrow>
        last_error (os_ret env cs (Sys_DisconnectEx a ov)) = WSA_IO_PENDING)"

text \<open>
  Two more: a socket is a new handle, one that is not open; and (a run in which the system refuses
  nothing) the calls of \<open>Accept\<close> succeed as long as fewer than \<open>B\<close> calls have been made.
\<close>

fun open_socks :: "os \<Rightarrow> syscall list \<Rightarrow> sock set" where
  "open_socks env [] = {}"
| "open_socks env (Sys_WSASocket # cs) =
     insert (ret_sock (os_ret env cs Sys_WSASocket)) (open_socks env cs)"
| "open_socks env (Sys_CloseSocket k # cs) = open_socks env cs - {k}"
| "open_socks env (c # cs) = open_socks env cs"

definition os_fresh :: "os \<Rightarrow> bool" where
  "os_fresh env \<longleftrightarrow> (\<forall>cs. ret_sock (os_ret env cs Sys_WSASocket) = INVALID_SOCKET
     \<or> ret_sock (os_ret env cs Sys_WSASocket) \<notin> open_socks env cs)"

definition accept_granted :: "os \<Rightarrow> nat \<Rightarrow> bool" where
  "accept_granted env B \<longleftrightarrow> (\<forall>cs. length cs < B \<longrightarrow>
     ret_ok (os_ret env cs Sys_CreatePort)
     \<and> ret_sock (os_ret env cs Sys_WSASocket) \<noteq> INVALID_SOCKET
     \<and> (\<forall>k q. ret_ok (os_ret env cs (Sys_Associate k q)))
     \<and> (\<forall>k q. ret_ok (os_ret env cs (Sys_Bind k q)))
     \<and> (\<forall>k n. ret_ok (os_ret env cs (Sys_Listen k n)))
     \<and> (\<forall>l k x. last_error (os_ret env cs (Sys_AcceptEx l k x)) = WSA_IO_PENDING))"

text \<open>
  An environment in which every call succeeds: sockets are numbered by the calls made so far, and
  there are no more after \<open>2 ^ 32\<close> calls.
\<close>

definition os_fine :: "os" where
  "os_fine = \<lparr>os_ret = (\<lambda>cs c. \<lparr>ret_ok = True, last_error = WSA_IO_PENDING,
                                ret_sock = (if length cs < 2 ^ 32 then word_of_nat (Suc (length cs))
                                            else INVALID_SOCKET)\<rparr>),
              debug_build = False, raw_byte = (\<lambda>_ _. 0),
              remote_addr = (\<lambda>_. (''127.0.0.1'', 5000))\<rparr>"

lemma os_fine_pending: "os_pending os_fine"
  by (simp add: os_pending_def os_fine_def)

lemma small_sock:
  assumes "n < 2 ^ 32"
  shows "unat (word_of_nat (Suc n) :: sock) = Suc n" and "word_of_nat (Suc n) \<noteq> INVALID_SOCKET"
proof -
  show n: "unat (word_of_nat (Suc n) :: sock) = Suc n"
    using assms by (simp add: unat_of_nat64 del: of_nat_Suc)
  have "unat (INVALID_SOCKET) = 2 ^ 64 - 1"
    by (simp add: INVALID_SOCKET_def unsigned_minus_1_eq_mask mask_eq_exp_minus_1)
  moreover have "Suc n < 2 ^ 64 - 1"
    using assms by simp
  ultimately have "unat (word_of_nat (Suc n) :: sock) \<noteq> unat INVALID_SOCKET"
    using n by simp
  then show "word_of_nat (Suc n) \<noteq> INVALID_SOCKET"
    by metis
qed

lemma open_socks_fine: "k \<in> open_socks os_fine cs \<Longrightarrow> k = INVALID_SOCKET \<or> unat k \<le> length cs"
proof (induction os_fine cs rule: open_socks.induct)
  case (2 cs)
  then show ?case
    using small_sock [of "length cs"] by (auto simp: os_fine_def split: if_splits)
qed (auto simp: le_SucI)

lemma os_fine_fresh: "os_fresh os_fine"
proof -
  have "ret_sock (os_ret os_fine cs Sys_WSASocket) \<notin> open_socks os_fine cs"
    if "length cs < 2 ^ 32" for cs
    using open_socks_fine [of "word_of_nat (Suc (length cs))" cs] small_sock [OF that] that
    by (auto simp: os_fine_def)
  then show ?thesis
    by (auto simp: os_fresh_def os_fine_def)
qed

lemma os_fine_granted: "accept_granted os_fine (2 ^ 32)"
  using small_sock(2) by (simp add: accept_granted_def os_fine_def)

lemma sys_call_frame [simp]:
  "in_flight (snd (sys_call env c y)) = in_flight y"
  "calls (snd (sys_call env c y)) = c # calls y"
  by (simp_all add: sys_call_def)

lemma sys_async_in_flight:
  "in_flight (snd (sys_async env c ov y)) =
     (if goes_in_flight (fst (sys_async env c ov y)) then ov # in_flight y else in_flight y)"
  by (simp add: sys_async_def Let_def)

end
