(* ===== verification/DH_ObjectPool.thy ===== *)
theory DH_ObjectPool
  imports DH_Prelude
begin

text \<open>
  \<open>ObjectPool.h\<close>: a template over the pooled type \<open>T\<close>. The type parameter is the record
  \<open>obj_class\<close> of what the template uses of \<open>T\<close>: the memory a fresh allocation happens to hold, the
  constructor and the destructor, both as functions on the object's memory (a placement \<open>new\<close>
  constructs over what is there). A pool holds the addresses of all the objects it ever made, the
  queue of available ones and the objects' memory.

  The locale \<open>resource_pool\<close> is the contract the network code relies on: an object handed out is
  held by nobody else until it is put back.
\<close>

record 'a obj_class =
  T_raw :: "ptr \<Rightarrow> 'a"
  T_ctor :: "'a \<Rightarrow> 'a"
  T_dtor :: "'a \<Rightarrow> 'a"

record 'a object_pool =
  m_Sample_Obj_Count :: int
  ALL_Object_List :: "ptr list"
  m_Available_Obj :: "ptr list"
  obj_mem :: "ptr \<Rightarrow> 'a"
  obj_next :: ptr

section \<open>The operations\<close>

text \<open>The body of the allocation loops: \<open>new T\<close>, \<open>push\<close>, \<open>push_back\<close>.\<close>

definition pool_add :: "'a obj_class \<Rightarrow> 'a object_pool \<Rightarrow> 'a object_pool" where
  "pool_add T p =
     (let x = obj_next p
      in p\<lparr>obj_mem := (obj_mem p)(x := T_ctor T (T_raw T x)),
           m_Available_Obj := m_Available_Obj p @ [x],
           ALL_Object_List := ALL_Object_List p @ [x],
           obj_next := Suc x\<rparr>)"

primrec pool_add_n :: "'a obj_class \<Rightarrow> nat \<Rightarrow> 'a object_pool \<Rightarrow> 'a object_pool" where
  "pool_add_n T 0 p = p"
| "pool_add_n T (Suc n) p = pool_add_n T n (pool_add T p)"

definition ObjectPool_new :: "'a obj_class \<Rightarrow> int \<Rightarrow> 'a object_pool" where
  "ObjectPool_new T Sample_Obj_Count =
     pool_add_n T (nat Sample_Obj_Count)
       \<lparr>m_Sample_Obj_Count = Sample_Obj_Count, ALL_Object_List = [], m_Available_Obj = [],
        obj_mem = T_raw T, obj_next = 0\<rparr>"

text \<open>
  \<open>GetObject\<close>: an empty queue is refilled with a tenth of the sample count; then the loop
  \<open>while (!try_pop(...)) {}\<close> takes the oldest available object, and never ends when the refill
  made none.
\<close>

definition GetObject :: "'a obj_class \<Rightarrow> 'a object_pool \<Rightarrow> (ptr \<times> 'a object_pool) res" where
  "GetObject T p =
     (let p1 = (if m_Available_Obj p = []
                then pool_add_n T (nat (m_Sample_Obj_Count p div 10)) p else p)
      in case m_Available_Obj p1 of
           [] \<Rightarrow> Fault Spin
         | x # xs \<Rightarrow> Ok (x, p1\<lparr>m_Available_Obj := xs\<rparr>))"

definition ResetObject :: "'a obj_class \<Rightarrow> ptr \<Rightarrow> 'a object_pool \<Rightarrow> 'a object_pool" where
  "ResetObject T x p =
     p\<lparr>obj_mem := (obj_mem p)(x := T_ctor T (T_dtor T (obj_mem p x))),
       m_Available_Obj := m_Available_Obj p @ [x]\<rparr>"

definition Non_ResetObject :: "ptr \<Rightarrow> 'a object_pool \<Rightarrow> 'a object_pool" where
  "Non_ResetObject x p = p\<lparr>m_Available_Obj := m_Available_Obj p @ [x]\<rparr>"

text \<open>The destructor: the addresses it deletes, and the pool it leaves.\<close>

definition ObjectPool_delete :: "'a object_pool \<Rightarrow> ptr list \<times> 'a object_pool" where
  "ObjectPool_delete p = (ALL_Object_List p, p\<lparr>m_Available_Obj := []\<rparr>)"

text \<open>Writing one object's memory, as the holder of the pointer does.\<close>

definition pool_write :: "ptr \<Rightarrow> ('a \<Rightarrow> 'a) \<Rightarrow> 'a object_pool \<Rightarrow> 'a object_pool" where
  "pool_write x f p = p\<lparr>obj_mem := (obj_mem p)(x := f (obj_mem p x))\<rparr>"

section \<open>What the allocation loop does\<close>

lemma pool_add_n_fields:
  "m_Sample_Obj_Count (pool_add_n T n p) = m_Sample_Obj_Count p"
  "ALL_Object_List (pool_add_n T n p) = ALL_Object_List p @ [obj_next p..<obj_next p + n]"
  "m_Available_Obj (pool_add_n T n p) = m_Available_Obj p @ [obj_next p..<obj_next p + n]"
  "obj_next (pool_add_n T n p) = obj_next p + n"
  by (induction n arbitrary: p) (simp_all add: pool_add_def Let_def upt_conv_Cons)

lemma pool_add_n_mem:
  "obj_mem (pool_add_n T n p) x =
     (if obj_next p \<le> x \<and> x < obj_next p + n then T_ctor T (T_raw T x) else obj_mem p x)"
proof (induction n arbitrary: p)
  case 0
  then show ?case by auto
next
  case (Suc n)
  show ?case
    by (auto simp: Suc.IH pool_add_def Let_def)
qed

section \<open>Well-formed pools\<close>

text \<open>
  Every address was made by this pool and is on the list once; an available object is on the queue
  once.
\<close>

definition pool_ok :: "'a object_pool \<Rightarrow> bool" where
  "pool_ok p \<longleftrightarrow> distinct (ALL_Object_List p) \<and> distinct (m_Available_Obj p)
     \<and> set (m_Available_Obj p) \<subseteq> set (ALL_Object_List p)
     \<and> (\<forall>x \<in> set (ALL_Object_List p). x < obj_next p)"

lemma pool_okI:
  assumes "distinct (ALL_Object_List p)" and "distinct (m_Available_Obj p)"
    and "set (m_Available_Obj p) \<subseteq> set (ALL_Object_List p)"
    and "\<And>x. x \<in> set (ALL_Object_List p) \<Longrightarrow> x < obj_next p"
  shows "pool_ok p"
  using assms by (simp add: pool_ok_def)

lemma pool_ok_add_n: "pool_ok p \<Longrightarrow> pool_ok (pool_add_n T n p)"
  by (fastforce simp: pool_ok_def pool_add_n_fields)

lemma pool_ok_new: "pool_ok (ObjectPool_new T n)"
  unfolding ObjectPool_new_def by (rule pool_ok_add_n) (simp add: pool_ok_def)

lemma pool_ok_write: "pool_ok (pool_write x f p) = pool_ok p"
  by (simp add: pool_ok_def pool_write_def)

lemma pool_write_fields [simp]:
  "m_Available_Obj (pool_write x f p) = m_Available_Obj p"
  "ALL_Object_List (pool_write x f p) = ALL_Object_List p"
  "m_Sample_Obj_Count (pool_write x f p) = m_Sample_Obj_Count p"
  "obj_next (pool_write x f p) = obj_next p"
  "obj_mem (pool_write x f p) = (obj_mem p)(x := f (obj_mem p x))"
  by (simp_all add: pool_write_def)

section \<open>GetObject and ResetObject\<close>

text \<open>The queue after a possible refill, as the popped object and the rest.\<close>

lemma GetObject_OkE:
  assumes "GetObject T p = Ok (x, p')"
  obtains new where "m_Available_Obj p @ new = x # m_Available_Obj p'"
    and "ALL_Object_List p' = ALL_Object_List p @ new"
    and "new = [obj_next p..<obj_next p + length new]"
    and "obj_next p' = obj_next p + length new"
    and "m_Available_Obj p \<noteq> [] \<Longrightarrow> new = []"
    and "m_Sample_Obj_Count p' = m_Sample_Obj_Count p"
    and "\<And>y. obj_mem p' y = (if y \<in> set new then T_ctor T (T_raw T y) else obj_mem p y)"
proof (cases "m_Available_Obj p")
  case Nil
  let ?n = "nat (m_Sample_Obj_Count p div 10)"
  let ?p1 = "pool_add_n T ?n p"
  let ?new = "[obj_next p..<obj_next p + ?n]"
  from assms Nil have av: "m_Available_Obj ?p1 = x # m_Available_Obj p'"
    and p': "p' = ?p1\<lparr>m_Available_Obj := m_Available_Obj p'\<rparr>"
    by (auto simp: GetObject_def Let_def split: list.splits)
  have fields: "ALL_Object_List p' = ALL_Object_List ?p1" "obj_next p' = obj_next ?p1"
    "m_Sample_Obj_Count p' = m_Sample_Obj_Count ?p1" "obj_mem p' = obj_mem ?p1"
    by (subst p', simp)+
  show thesis
  proof (rule that [of ?new])
    show "m_Available_Obj p @ ?new = x # m_Available_Obj p'"
      using av by (simp add: pool_add_n_fields)
  qed (simp_all add: fields pool_add_n_fields pool_add_n_mem Nil)
next
  case (Cons y ys)
  with assms have "p' = p\<lparr>m_Available_Obj := ys\<rparr>" and "y = x"
    by (auto simp: GetObject_def Let_def)
  with Cons show thesis
    by (intro that [of "[]"]) auto
qed

lemma GetObject_mem:
  assumes "GetObject T p = Ok (x, p')"
  shows "y < obj_next p \<Longrightarrow> obj_mem p' y = obj_mem p y"
    and "y \<in> set (ALL_Object_List p') \<Longrightarrow>
           obj_mem p' y = T_ctor T (T_raw T y)
           \<or> y \<in> set (ALL_Object_List p) \<and> obj_mem p' y = obj_mem p y"
    and "m_Sample_Obj_Count p' = m_Sample_Obj_Count p"
proof -
  obtain new where "ALL_Object_List p' = ALL_Object_List p @ new"
    and range: "new = [obj_next p..<obj_next p + length new]"
    and "m_Sample_Obj_Count p' = m_Sample_Obj_Count p"
    and "\<And>y. obj_mem p' y = (if y \<in> set new then T_ctor T (T_raw T y) else obj_mem p y)"
    by (rule GetObject_OkE [OF assms]) blast
  moreover have "y \<notin> set new" if "y < obj_next p"
    using that by (subst range) simp
  ultimately show "y < obj_next p \<Longrightarrow> obj_mem p' y = obj_mem p y"
    and "y \<in> set (ALL_Object_List p') \<Longrightarrow>
           obj_mem p' y = T_ctor T (T_raw T y)
           \<or> y \<in> set (ALL_Object_List p) \<and> obj_mem p' y = obj_mem p y"
    and "m_Sample_Obj_Count p' = m_Sample_Obj_Count p"
    by auto
qed

lemma GetObject_spin_iff:
  "GetObject T p = Fault Spin \<longleftrightarrow> m_Available_Obj p = [] \<and> m_Sample_Obj_Count p < 10"
proof (cases "m_Available_Obj p")
  case Nil
  let ?n = "nat (m_Sample_Obj_Count p div 10)"
  have "GetObject T p = Fault Spin \<longleftrightarrow> m_Available_Obj (pool_add_n T ?n p) = []"
    using Nil by (simp add: GetObject_def Let_def split: list.splits)
  also have "\<dots> \<longleftrightarrow> ?n = 0"
    by (auto simp only: pool_add_n_fields Nil append_Nil upt_eq_Nil_conv)
  also have "\<dots> \<longleftrightarrow> m_Sample_Obj_Count p < 10"
    by arith
  finally show ?thesis
    using Nil by simp
next
  case (Cons x xs)
  then show ?thesis by (simp add: GetObject_def Let_def)
qed

lemma GetObject_Ok:
  assumes "10 \<le> m_Sample_Obj_Count p"
  shows "\<exists>x p'. GetObject T p = Ok (x, p')"
proof -
  have "GetObject T p \<noteq> Fault Spin"
    using assms by (simp add: GetObject_spin_iff)
  then show ?thesis
    by (auto simp: GetObject_def Let_def split: list.splits)
qed

lemma GetObject_fault: "GetObject T p = Fault e \<Longrightarrow> e = Spin"
  by (auto simp: GetObject_def Let_def split: list.splits)

lemma ResetObject_fields [simp]:
  "m_Available_Obj (ResetObject T x p) = m_Available_Obj p @ [x]"
  "ALL_Object_List (ResetObject T x p) = ALL_Object_List p"
  "m_Sample_Obj_Count (ResetObject T x p) = m_Sample_Obj_Count p"
  "obj_next (ResetObject T x p) = obj_next p"
  "obj_mem (ResetObject T x p) = (obj_mem p)(x := T_ctor T (T_dtor T (obj_mem p x)))"
  by (simp_all add: ResetObject_def)

section \<open>The contract of a pool\<close>

locale resource_pool =
  fixes ok :: "'p \<Rightarrow> bool"
    and known :: "'p \<Rightarrow> ptr set"
    and avail :: "'p \<Rightarrow> ptr list"
    and get :: "'p \<Rightarrow> (ptr \<times> 'p) res"
    and put :: "ptr \<Rightarrow> 'p \<Rightarrow> 'p"
  assumes avail_known: "ok p \<Longrightarrow> set (avail p) \<subseteq> known p"
    and get_ok: "ok p \<Longrightarrow> get p = Ok (x, p') \<Longrightarrow> ok p'"
    and get_known: "ok p \<Longrightarrow> get p = Ok (x, p') \<Longrightarrow> known p \<subseteq> known p'"
    and get_taken: "ok p \<Longrightarrow> get p = Ok (x, p') \<Longrightarrow>
          x \<in> known p' \<and> x \<notin> set (avail p') \<and> (x \<in> set (avail p) \<or> x \<notin> known p)"
    and get_avail: "ok p \<Longrightarrow> get p = Ok (x, p') \<Longrightarrow>
          set (avail p') \<subseteq> set (avail p) \<union> (known p' - known p)"
    and put_ok: "ok p \<Longrightarrow> x \<in> known p \<Longrightarrow> x \<notin> set (avail p) \<Longrightarrow> ok (put x p)"
    and put_known: "known (put x p) = known p"
    and put_avail: "set (avail (put x p)) = insert x (set (avail p))"
begin

text \<open>\<open>owns own p\<close>: the objects of \<open>own\<close> are out of the pool, each held once.\<close>

definition owns :: "ptr list \<Rightarrow> 'p \<Rightarrow> bool" where
  "owns own p \<longleftrightarrow> ok p \<and> distinct own \<and> set own \<subseteq> known p \<and> set own \<inter> set (avail p) = {}"

lemma owns_get:
  assumes "owns own p" and "get p = Ok (x, p')"
  shows "owns (x # own) p'" and "x \<notin> set own"
proof -
  from assms(1) have ok: "ok p" and own: "distinct own" "set own \<subseteq> known p"
    "set own \<inter> set (avail p) = {}"
    by (simp_all add: owns_def)
  note g = get_taken [OF ok assms(2)]
  show new: "x \<notin> set own"
    using g own by auto
  have "set own \<inter> set (avail p') = {}"
    using get_avail [OF ok assms(2)] own by blast
  with g own new show "owns (x # own) p'"
    using get_ok [OF ok assms(2)] get_known [OF ok assms(2)] by (auto simp: owns_def)
qed

lemma owns_put: "owns (x # own) p \<Longrightarrow> owns own (put x p)"
  by (auto simp: owns_def put_known put_avail intro: put_ok)

lemma owns_mset: "mset own = mset own' \<Longrightarrow> owns own p \<longleftrightarrow> owns own' p"
  by (metis owns_def mset_eq_imp_distinct_iff mset_eq_setD)

lemma owns_drop: "owns (x # own) p \<Longrightarrow> owns own p"
  by (auto simp: owns_def)

lemma owns_remove1: "owns own p \<Longrightarrow> owns (remove1 x own) p"
  by (auto simp: owns_def dest: notin_set_remove1)

end

interpretation op: resource_pool pool_ok "\<lambda>p. set (ALL_Object_List p)" m_Available_Obj
  "GetObject T" "ResetObject T" for T :: "'a obj_class"
proof unfold_locales
  fix p p' :: "'a object_pool" and x
  assume ok: "pool_ok p" and get: "GetObject T p = Ok (x, p')"
  obtain new where new: "m_Available_Obj p @ new = x # m_Available_Obj p'"
    "ALL_Object_List p' = ALL_Object_List p @ new"
    "new = [obj_next p..<obj_next p + length new]" "obj_next p' = obj_next p + length new"
    using get by (rule GetObject_OkE)
  have new_range: "y \<in> set new \<longleftrightarrow> obj_next p \<le> y \<and> y < obj_next p + length new" for y
    by (subst new(3)) simp
  have dist: "distinct (m_Available_Obj p @ new)" and all: "distinct (ALL_Object_List p @ new)"
    using ok by (subst new(3), fastforce simp: pool_ok_def)+
  have sub: "set (x # m_Available_Obj p') \<subseteq> set (ALL_Object_List p')"
    using ok unfolding new(1) [symmetric] new(2) by (auto simp: pool_ok_def)
  have bound: "y < obj_next p'" if "y \<in> set (ALL_Object_List p')" for y
    using that ok by (auto simp: new(2,4) new_range pool_ok_def)
  show "pool_ok p'"
    using dist all sub bound new(1,2) by (intro pool_okI) (auto simp: new(1))
  show "set (ALL_Object_List p) \<subseteq> set (ALL_Object_List p')"
    by (simp add: new(2))
  have "x \<in> set (m_Available_Obj p) \<or> x \<in> set new"
    using arg_cong [OF new(1), of set] by auto
  then show "x \<in> set (ALL_Object_List p') \<and> x \<notin> set (m_Available_Obj p')
      \<and> (x \<in> set (m_Available_Obj p) \<or> x \<notin> set (ALL_Object_List p))"
    using dist sub all by (auto simp: new(1))
  have "set (m_Available_Obj p') \<subseteq> set (m_Available_Obj p @ new)"
    unfolding new(1) by auto
  with all show "set (m_Available_Obj p') \<subseteq>
      set (m_Available_Obj p) \<union> (set (ALL_Object_List p') - set (ALL_Object_List p))"
    by (auto simp: new(2))
qed (auto simp: pool_ok_def)

lemma op_owns_def:
  "op.owns own p \<longleftrightarrow> pool_ok p \<and> distinct own \<and> set own \<subseteq> set (ALL_Object_List p)
     \<and> set own \<inter> set (m_Available_Obj p) = {}"
  by (simp add: op.owns_def)

lemma op_owns_write: "op.owns own (pool_write x f p) = op.owns own p"
  by (simp add: op_owns_def pool_ok_write)

lemma op_owns_new: "op.owns [] (ObjectPool_new T n)"
  by (simp add: op_owns_def pool_ok_new)

end
