(* ===== verification/DH_Structs.thy ===== *)
theory DH_Structs
  imports DH_Winsock DH_ObjectPool
begin

text \<open>
  \<open>SharedDataStruct.h\<close>: the socket structure (the completion key of the port), the overlapped
  structure with its two buffers, and the two packet structures. Constructors and destructors are
  functions on the object's memory, because \<open>ObjectPool\<close> runs them over memory that held an object
  before. The constructor and the destructor of \<open>Overlapped_Struct\<close> clear \<open>sizeof(OVERLAPPED_BUFIZE)\<close>
  bytes of a buffer: the size of the \<open>int\<close> constant, four bytes, and not the size of the buffer.
\<close>

section \<open>Socket_Struct\<close>

record Socket_Struct =
  ss_Socket :: sock
  ss_IP :: string
  ss_PORT :: u16
  Is_Available :: bool

definition Socket_Struct_ctor :: "Socket_Struct" where
  "Socket_Struct_ctor =
     \<lparr>ss_Socket = INVALID_SOCKET, ss_IP = [], ss_PORT = 0, Is_Available = False\<rparr>"

definition Socket_Struct_dtor :: "os \<Rightarrow> Socket_Struct \<Rightarrow> sys \<Rightarrow> sys" where
  "Socket_Struct_dtor env ss y =
     (if INVALID_SOCKET \<noteq> ss_Socket ss
      then snd (sys_call env (Sys_CloseSocket (ss_Socket ss))
                  (snd (sys_call env (Sys_Shutdown (ss_Socket ss)) y)))
      else y)"

text \<open>
  \<open>inet_ntop(..., const_cast<PSTR>(IP.c_str()), sizeof(IP))\<close> writes into the character buffer of a
  \<open>std::string\<close>, which does not change the length of the string: its value afterwards is what the
  first \<open>length\<close> characters of the buffer have become.
\<close>

definition write_c_str :: "string \<Rightarrow> string \<Rightarrow> string" where
  "write_c_str text old =
     map (\<lambda>i. if i < length text then text ! i else if i = length text then CHR 0x00 else old ! i)
       [0..<length old]"

lemma write_c_str_empty [simp]: "write_c_str text [] = []"
  by (simp add: write_c_str_def)

section \<open>Overlapped_Struct\<close>

datatype IOType = IOType_Accept | IOType_Disconnect | IOType_Recv | IOType_Send | IOType_None

record Overlapped_Struct =
  hEvent :: u64
  Internal :: u64
  InternalHigh :: u64
  Offset :: u32
  OffsetHigh :: u32
  m_IOType :: IOType
  m_Socket :: sock
  m_WSABUF_len :: u32
  m_Data_Size :: u64
  m_Buffer :: "byte list"
  m_Processing_Packet_Size :: u64
  m_Processing_Packet_Buffer :: "byte list"
  m_Processed_Packet_Size :: u64

definition sizeof_int :: nat where
  "sizeof_int = 4"

definition Overlapped_Struct_ctor :: "Overlapped_Struct \<Rightarrow> Overlapped_Struct" where
  "Overlapped_Struct_ctor mem =
     \<lparr>hEvent = 0, Internal = 0, InternalHigh = 0, Offset = 0, OffsetHigh = 0,
      m_IOType = IOType_None, m_Socket = INVALID_SOCKET,
      m_WSABUF_len = 0, m_Data_Size = 0,
      m_Buffer = mem_write (m_Buffer mem) 0 (replicate sizeof_int 0),
      m_Processing_Packet_Size = 0,
      m_Processing_Packet_Buffer =
        mem_write (m_Processing_Packet_Buffer mem) 0 (replicate sizeof_int 0),
      m_Processed_Packet_Size = 0\<rparr>"

definition Overlapped_Struct_dtor :: "Overlapped_Struct \<Rightarrow> Overlapped_Struct" where
  "Overlapped_Struct_dtor ov =
     ov\<lparr>m_Buffer := mem_write (m_Buffer ov) 0 (replicate sizeof_int 0),
        m_Processing_Packet_Buffer :=
          mem_write (m_Processing_Packet_Buffer ov) 0 (replicate sizeof_int 0)\<rparr>"

text \<open>Uninitialised memory of the structure: its buffers have their size and the bytes they have.\<close>

definition Overlapped_Struct_raw :: "os \<Rightarrow> ptr \<Rightarrow> Overlapped_Struct" where
  "Overlapped_Struct_raw env x =
     \<lparr>hEvent = 0, Internal = 0, InternalHigh = 0, Offset = 0, OffsetHigh = 0,
      m_IOType = IOType_None, m_Socket = 0, m_WSABUF_len = 0, m_Data_Size = 0,
      m_Buffer = map (raw_byte env x) [0..<OVERLAPPED_BUFIZE],
      m_Processing_Packet_Size = 0,
      m_Processing_Packet_Buffer =
        map (\<lambda>i. raw_byte env x (OVERLAPPED_BUFIZE + i)) [0..<MAX_PACKET_SIZE],
      m_Processed_Packet_Size = 0\<rparr>"

definition ov_class :: "os \<Rightarrow> Overlapped_Struct obj_class" where
  "ov_class env = \<lparr>T_raw = Overlapped_Struct_raw env, T_ctor = Overlapped_Struct_ctor,
                   T_dtor = Overlapped_Struct_dtor\<rparr>"

text \<open>The buffers keep their sizes, and no more is stored than fits.\<close>

definition ov_ok :: "Overlapped_Struct \<Rightarrow> bool" where
  "ov_ok ov \<longleftrightarrow> length (m_Buffer ov) = OVERLAPPED_BUFIZE
     \<and> length (m_Processing_Packet_Buffer ov) = MAX_PACKET_SIZE
     \<and> unat (m_Processed_Packet_Size ov) \<le> MAX_PACKET_SIZE"

text \<open>The bytes received and not yet consumed.\<close>

definition ov_pending :: "Overlapped_Struct \<Rightarrow> byte list" where
  "ov_pending ov = take (unat (m_Processed_Packet_Size ov)) (m_Processing_Packet_Buffer ov)"

lemma ov_ok_ctor:
  "length (m_Buffer mem) = OVERLAPPED_BUFIZE \<Longrightarrow>
   length (m_Processing_Packet_Buffer mem) = MAX_PACKET_SIZE \<Longrightarrow>
     ov_ok (Overlapped_Struct_ctor mem)"
  by (simp add: ov_ok_def Overlapped_Struct_ctor_def sizeof_int_def net_consts)

lemma ov_ok_raw_ctor: "ov_ok (Overlapped_Struct_ctor (Overlapped_Struct_raw env x))"
  by (rule ov_ok_ctor) (simp_all add: Overlapped_Struct_raw_def)

lemma ov_ok_reset: "ov_ok ov \<Longrightarrow> ov_ok (Overlapped_Struct_ctor (Overlapped_Struct_dtor ov))"
  by (rule ov_ok_ctor) (simp_all add: Overlapped_Struct_dtor_def ov_ok_def sizeof_int_def net_consts)

lemma ov_pending_ctor [simp]: "ov_pending (Overlapped_Struct_ctor mem) = []"
  by (simp add: ov_pending_def Overlapped_Struct_ctor_def)

lemma length_ov_pending:
  "ov_ok ov \<Longrightarrow> length (ov_pending ov) = unat (m_Processed_Packet_Size ov)"
  by (simp add: ov_ok_def ov_pending_def)

text \<open>A reset object keeps every byte of its buffers from the fifth on.\<close>

lemma reset_keeps_buffer:
  "drop sizeof_int (m_Buffer (Overlapped_Struct_ctor (Overlapped_Struct_dtor ov)))
     = drop sizeof_int (m_Buffer ov)"
  "drop sizeof_int
     (m_Processing_Packet_Buffer (Overlapped_Struct_ctor (Overlapped_Struct_dtor ov)))
     = drop sizeof_int (m_Processing_Packet_Buffer ov)"
  by (simp_all add: Overlapped_Struct_ctor_def Overlapped_Struct_dtor_def mem_write_def)

section \<open>C2S_Packet and S2C_Packet\<close>

text \<open>
  The memory of a freshly constructed packet: \<open>Packet_Size = sizeof( *this) - sizeof(Packet_Size)\<close>,
  no type, and a zeroed payload buffer.
\<close>

definition C2S_Packet_ctor :: "byte list" where
  "C2S_Packet_ctor =
     header_bytes \<lparr>Packet_Size = word_of_nat (PACKET_HEADER_SIZE + MAX_PACKET_SIZE - 8),
                   Packet_Type = PACKET_TYPE_NONE\<rparr> @ replicate MAX_PACKET_SIZE 0"

definition S2C_Packet_ctor :: "byte list" where
  "S2C_Packet_ctor =
     header_bytes \<lparr>Packet_Size = word_of_nat (PACKET_HEADER_SIZE + MAX_PACKET_SIZE - 8),
                   Packet_Type = PACKET_TYPE_NONE\<rparr> @ replicate MAX_PACKET_SIZE 0"

text \<open>Assigning the header fields and filling the payload buffer of a packet in memory.\<close>

definition set_Packet_Size :: "u64 \<Rightarrow> byte list \<Rightarrow> byte list" where
  "set_Packet_Size w blk = mem_write blk 0 (bytes_u64 w)"

definition set_Packet_Type :: "u16 \<Rightarrow> byte list \<Rightarrow> byte list" where
  "set_Packet_Type w blk = mem_write blk 8 (bytes_u16 w)"

definition packet_buffer :: "byte list \<Rightarrow> byte list" where
  "packet_buffer blk = drop PACKET_HEADER_SIZE blk"

lemma length_C2S_Packet [simp]: "length C2S_Packet_ctor = PACKET_HEADER_SIZE + MAX_PACKET_SIZE"
  by (simp add: C2S_Packet_ctor_def)

lemma length_S2C_Packet [simp]: "length S2C_Packet_ctor = PACKET_HEADER_SIZE + MAX_PACKET_SIZE"
  by (simp add: S2C_Packet_ctor_def)

end
