(* ===== verification/DH_Stream.thy ===== *)
theory DH_Stream
  imports DH_Constants
begin

text \<open>
  The abstract specification of packet reassembly (the flow chart \<open>NetWork_Packet_FlowChart.drawio\<close>):
  TCP delivers a stream of bytes cut into arbitrary chunks, and the receiver must recover the
  packets. \<open>spec_parse\<close> says what a receiver makes of the bytes it has: the complete packets, the
  bytes left over, and whether it waits for more, met a packet without a type, or met a header whose
  size makes \<open>PACKET_HEADER_SIZE + size\<close> wrap around. The locale \<open>stream_receiver\<close> is the contract
  of one receive handler; the server's and the client's \<open>IOFunction_Recv\<close> both satisfy it.
\<close>

datatype parse_end = Need_More | No_Type | Size_Wraps

function spec_parse :: "byte list \<Rightarrow> packet list \<times> byte list \<times> parse_end" where
  "spec_parse bs =
     (if length bs < PACKET_HEADER_SIZE then ([], bs, Need_More)
      else let sz = unat (read_u64 bs); t = read_u16 (drop 8 bs) in
        if 2 ^ 64 \<le> PACKET_HEADER_SIZE + sz then ([], bs, Size_Wraps)
        else if length bs < PACKET_HEADER_SIZE + sz then ([], bs, Need_More)
        else if t = PACKET_TYPE_NONE then ([], drop (PACKET_HEADER_SIZE + sz) bs, No_Type)
        else case spec_parse (drop (PACKET_HEADER_SIZE + sz) bs) of
               (ps, r, e) \<Rightarrow> (decode_packet bs # ps, r, e))"
  by pat_completeness auto
termination
  by (relation "measure length") (auto simp: PACKET_HEADER_SIZE_def)

declare spec_parse.simps [simp del]

section \<open>One step of the parser\<close>

lemma spec_parse_short:
  "length bs < PACKET_HEADER_SIZE \<Longrightarrow> spec_parse bs = ([], bs, Need_More)"
  by (subst spec_parse.simps) simp

lemma spec_parse_Nil [simp]: "spec_parse [] = ([], [], Need_More)"
  by (rule spec_parse_short) (simp add: PACKET_HEADER_SIZE_def)

lemma spec_parse_wraps:
  "PACKET_HEADER_SIZE \<le> length bs \<Longrightarrow> 2 ^ 64 \<le> PACKET_HEADER_SIZE + unat (read_u64 bs) \<Longrightarrow>
     spec_parse bs = ([], bs, Size_Wraps)"
  by (subst spec_parse.simps) (simp add: Let_def)

lemma spec_parse_partial:
  "PACKET_HEADER_SIZE + unat (read_u64 bs) < 2 ^ 64 \<Longrightarrow>
   length bs < PACKET_HEADER_SIZE + unat (read_u64 bs) \<Longrightarrow> spec_parse bs = ([], bs, Need_More)"
  by (subst spec_parse.simps) (simp add: Let_def)

lemma spec_parse_no_type:
  assumes "PACKET_HEADER_SIZE + unat (read_u64 bs) < 2 ^ 64"
    and "PACKET_HEADER_SIZE + unat (read_u64 bs) \<le> length bs"
    and "read_u16 (drop 8 bs) = PACKET_TYPE_NONE"
  shows "spec_parse bs = ([], drop (PACKET_HEADER_SIZE + unat (read_u64 bs)) bs, No_Type)"
  using assms by (subst spec_parse.simps) (simp add: Let_def)

lemma spec_parse_packet:
  assumes "PACKET_HEADER_SIZE + unat (read_u64 bs) < 2 ^ 64"
    and "PACKET_HEADER_SIZE + unat (read_u64 bs) \<le> length bs"
    and "read_u16 (drop 8 bs) \<noteq> PACKET_TYPE_NONE"
  shows "spec_parse bs =
    (case spec_parse (drop (PACKET_HEADER_SIZE + unat (read_u64 bs)) bs) of
       (ps, r, e) \<Rightarrow> (decode_packet bs # ps, r, e))"
  using assms by (subst spec_parse.simps) (simp add: Let_def)

text \<open>The five cases, as a case rule on the bytes at hand.\<close>

lemma spec_parse_cases [case_names Short Wraps Partial No_Type Packet]:
  assumes "length bs < PACKET_HEADER_SIZE \<Longrightarrow> P"
    and "PACKET_HEADER_SIZE \<le> length bs \<Longrightarrow>
         2 ^ 64 \<le> PACKET_HEADER_SIZE + unat (read_u64 bs) \<Longrightarrow> P"
    and "PACKET_HEADER_SIZE \<le> length bs \<Longrightarrow>
         PACKET_HEADER_SIZE + unat (read_u64 bs) < 2 ^ 64 \<Longrightarrow>
         length bs < PACKET_HEADER_SIZE + unat (read_u64 bs) \<Longrightarrow> P"
    and "PACKET_HEADER_SIZE + unat (read_u64 bs) < 2 ^ 64 \<Longrightarrow>
         PACKET_HEADER_SIZE + unat (read_u64 bs) \<le> length bs \<Longrightarrow>
         read_u16 (drop 8 bs) = PACKET_TYPE_NONE \<Longrightarrow> P"
    and "PACKET_HEADER_SIZE + unat (read_u64 bs) < 2 ^ 64 \<Longrightarrow>
         PACKET_HEADER_SIZE + unat (read_u64 bs) \<le> length bs \<Longrightarrow>
         read_u16 (drop 8 bs) \<noteq> PACKET_TYPE_NONE \<Longrightarrow> P"
  shows P
  using assms by (meson not_le)

lemma spec_parse_encode:
  assumes "packet_ok p"
  shows "spec_parse (encode_packet p @ bs) = (case spec_parse bs of (ps, r, e) \<Rightarrow> (p # ps, r, e))"
proof -
  let ?bs = "encode_packet p @ bs"
  have n: "unat (word_of_nat (length (snd p)) :: u64) = length (snd p)"
    using assms by (simp add: packet_ok_def packet_size_def unat_of_nat64)
  have dec: "decode_packet ?bs = p"
    using read_u16_encode [of p bs]
    by (simp add: decode_packet_def n prod_eq_iff del: drop_append) (simp add: encode_packet_def)
  have sz: "PACKET_HEADER_SIZE + unat (read_u64 ?bs) = packet_size p"
    by (simp add: n packet_size_def)
  have "spec_parse ?bs = (case spec_parse (drop (packet_size p) ?bs) of
      (ps, r, e) \<Rightarrow> (decode_packet ?bs # ps, r, e))"
    unfolding sz [symmetric]
  proof (rule spec_parse_packet)
    show "read_u16 (drop 8 ?bs) \<noteq> PACKET_TYPE_NONE"
      using assms unfolding read_u16_encode by (simp add: packet_ok_def)
  qed (use assms in \<open>simp_all only: sz packet_ok_def length_append length_encode_packet le_add1\<close>)
  then show ?thesis
    by (simp add: dec)
qed

lemma spec_parse_encodes:
  "list_all packet_ok ps \<Longrightarrow>
     spec_parse (concat (map encode_packet ps) @ bs) =
       (case spec_parse bs of (qs, r, e) \<Rightarrow> (ps @ qs, r, e))"
  by (induction ps) (auto simp: spec_parse_encode split: prod.splits)

text \<open>Every packet the parser reports has a type, and is no longer than the bytes it was found in.\<close>

definition fits_buffer :: "nat \<Rightarrow> packet \<Rightarrow> bool" where
  "fits_buffer n p \<longleftrightarrow> packet_ok p \<and> packet_size p \<le> n"

lemma fits_buffer_mono: "m \<le> n \<Longrightarrow> list_all (fits_buffer m) ps \<Longrightarrow> list_all (fits_buffer n) ps"
  by (auto simp: fits_buffer_def list_all_iff)

lemma spec_parse_ok: "spec_parse bs = (ps, r, e) \<Longrightarrow> list_all (fits_buffer (length bs)) ps"
proof (induction bs arbitrary: ps r e rule: spec_parse.induct)
  case (1 bs)
  show ?case
  proof (cases bs rule: spec_parse_cases)
    case Packet
    let ?rest = "drop (PACKET_HEADER_SIZE + unat (read_u64 bs)) bs"
    obtain qs r' e' where rest: "spec_parse ?rest = (qs, r', e')"
      by (metis prod_cases3)
    have "list_all (fits_buffer (length ?rest)) qs"
      using "1.IH" [OF _ refl refl _ _ _ rest] Packet by (simp add: not_less)
    then have "list_all (fits_buffer (length bs)) qs"
      by (rule fits_buffer_mono [rotated]) simp
    moreover have "fits_buffer (length bs) (decode_packet bs)"
      using Packet packet_ok_decode [of bs]
      by (simp add: fits_buffer_def packet_size_def decode_packet_def)
    ultimately show ?thesis
      using "1.prems" Packet by (auto simp: spec_parse_packet rest)
  qed (use "1.prems" in \<open>auto simp: spec_parse_short spec_parse_wraps spec_parse_partial
                            spec_parse_no_type\<close>)
qed

text \<open>What is left over is a suffix, and nothing but the reported packets was consumed.\<close>

lemma spec_parse_split:
  "spec_parse bs = (ps, r, Need_More) \<Longrightarrow> bs = concat (map encode_packet ps) @ r"
proof (induction bs arbitrary: ps r rule: spec_parse.induct)
  case (1 bs)
  show ?case
  proof (cases bs rule: spec_parse_cases)
    case Packet
    let ?k = "PACKET_HEADER_SIZE + unat (read_u64 bs)"
    obtain qs r' e' where rest: "spec_parse (drop ?k bs) = (qs, r', e')"
      by (metis prod_cases3)
    with "1.prems" Packet have ps: "ps = decode_packet bs # qs" and end_eq: "r' = r" "e' = Need_More"
      by (auto simp: spec_parse_packet)
    have "drop ?k bs = concat (map encode_packet qs) @ r"
      using "1.IH" [OF _ refl refl _ _ _ rest [unfolded end_eq]] Packet by (simp add: not_less)
    then have "take ?k bs @ drop ?k bs = concat (map encode_packet ps) @ r"
      using Packet by (simp add: take_eq_encode ps)
    then show ?thesis by simp
  qed (use "1.prems" in \<open>auto simp: spec_parse_short spec_parse_wraps spec_parse_partial
                            spec_parse_no_type\<close>)
qed

text \<open>
  The bytes received so far are a prefix of the sender's stream: the parser has found a prefix of
  the packets, and what is left over is a proper prefix of the next one.
\<close>

lemma spec_parse_stream_prefix:
  assumes "list_all packet_ok ps" and "bs @ rest = concat (map encode_packet ps)"
  shows "\<exists>qs ps' r. ps = qs @ ps' \<and> spec_parse bs = (qs, r, Need_More)
           \<and> r @ rest = concat (map encode_packet ps')
           \<and> (r = [] \<or> ps' \<noteq> [] \<and> length r < packet_size (hd ps'))"
  using assms
proof (induction ps arbitrary: bs)
  case Nil
  then show ?case by simp
next
  case (Cons p ps)
  have ok: "packet_ok p" and oks: "list_all packet_ok ps"
    using Cons.prems(1) by simp_all
  have split: "bs @ rest = encode_packet p @ concat (map encode_packet ps)"
    using Cons.prems(2) by simp
  show ?case
  proof (cases "packet_size p \<le> length bs")
    case True
    define bs' where "bs' = drop (packet_size p) bs"
    have "take (packet_size p) (bs @ rest) = encode_packet p"
      unfolding split by simp
    then have bs: "bs = encode_packet p @ bs'"
      using True unfolding bs'_def by (metis append_take_drop_id append_eq_append_conv2
          diff_is_0_eq take0 take_append append_Nil2)
    with split have "bs' @ rest = concat (map encode_packet ps)"
      by simp
    from Cons.IH [OF oks this] obtain qs ps' r where
      "ps = qs @ ps'" "spec_parse bs' = (qs, r, Need_More)"
      "r @ rest = concat (map encode_packet ps')"
      "r = [] \<or> ps' \<noteq> [] \<and> length r < packet_size (hd ps')"
      by blast
    then show ?thesis
      by (intro exI [of _ "p # qs"] exI [of _ ps'] exI [of _ r]) (simp add: bs ok spec_parse_encode)
  next
    case False
    have "spec_parse bs = ([], bs, Need_More)"
    proof (cases "length bs < PACKET_HEADER_SIZE")
      case True
      then show ?thesis by (rule spec_parse_short)
    next
      case False
      then have "8 \<le> length bs"
        by (simp add: PACKET_HEADER_SIZE_def)
      then have "read_u64 bs = word_of_nat (length (snd p))"
        using read_u64_append [of bs rest] by (simp add: split)
      then have "PACKET_HEADER_SIZE + unat (read_u64 bs) = packet_size p"
        using ok by (simp add: packet_ok_def packet_size_def unat_of_nat64)
      then show ?thesis
        using ok \<open>\<not> packet_size p \<le> length bs\<close>
        by (intro spec_parse_partial) (simp_all add: packet_ok_def)
    qed
    then show ?thesis
      using False split by (intro exI [of _ "[]"] exI [of _ "p # ps"] exI [of _ bs]) simp
  qed
qed

section \<open>The contract of a receive handler\<close>

text \<open>Handing a receiver one chunk after the other.\<close>

primrec feed :: "('s \<Rightarrow> byte list \<Rightarrow> 's res) \<Rightarrow> 's \<Rightarrow> byte list list \<Rightarrow> 's res" where
  "feed f s [] = Ok s"
| "feed f s (c # cs) = bindE (f s c) (\<lambda>s'. feed f s' cs)"

text \<open>
  The largest packet whose delivery does not depend on how TCP cuts the stream: what is left of
  one packet and one more full receive buffer must fit into the processing buffer.
\<close>

definition max_stream_packet :: nat where
  "max_stream_packet = MAX_PACKET_SIZE - OVERLAPPED_BUFIZE + 1"

definition chunk_ok :: "byte list \<Rightarrow> bool" where
  "chunk_ok c \<longleftrightarrow> c \<noteq> [] \<and> length c \<le> OVERLAPPED_BUFIZE"

definition stream_packet :: "packet \<Rightarrow> bool" where
  "stream_packet p \<longleftrightarrow> packet_ok p \<and> packet_size p \<le> max_stream_packet"

locale stream_receiver =
  fixes recv :: "'s \<Rightarrow> byte list \<Rightarrow> 's res"
    and ready :: "'s \<Rightarrow> bool"
    and pend :: "'s \<Rightarrow> byte list"
    and delivered :: "'s \<Rightarrow> packet list"
  assumes recv_step:
    "ready s \<Longrightarrow> chunk_ok c \<Longrightarrow> length (pend s) + length c \<le> MAX_PACKET_SIZE \<Longrightarrow>
     spec_parse (pend s @ c) = (ps, r, Need_More) \<Longrightarrow>
       \<exists>s'. recv s c = Ok s' \<and> ready s' \<and> pend s' = r \<and> delivered s' = delivered s @ ps"
begin

lemma feed_prefix:
  assumes "ready s" and "list_all chunk_ok cs" and "list_all stream_packet ps"
    and "pend s @ concat cs @ rest = concat (map encode_packet ps)"
    and "length (pend s) < max_stream_packet"
  shows "\<exists>s' qs ps'. feed recv s cs = Ok s' \<and> ready s' \<and> ps = qs @ ps'
           \<and> delivered s' = delivered s @ qs
           \<and> pend s' @ rest = concat (map encode_packet ps')
           \<and> (cs = [] \<or> pend s' = [] \<or> ps' \<noteq> [] \<and> length (pend s') < packet_size (hd ps'))"
  using assms
proof (induction cs arbitrary: s ps)
  case Nil
  then show ?case by simp
next
  case (Cons c cs)
  have oks: "list_all packet_ok ps"
    using Cons.prems(3) by (auto simp: stream_packet_def list_all_iff)
  have "(pend s @ c) @ (concat cs @ rest) = concat (map encode_packet ps)"
    using Cons.prems(4) by simp
  from spec_parse_stream_prefix [OF oks this] obtain qs ps1 r where
    ps: "ps = qs @ ps1" and parse: "spec_parse (pend s @ c) = (qs, r, Need_More)"
    and rest: "r @ concat cs @ rest = concat (map encode_packet ps1)"
    and r: "r = [] \<or> ps1 \<noteq> [] \<and> length r < packet_size (hd ps1)"
    by blast
  have small: "length r < max_stream_packet"
    using r Cons.prems(3)
    by (cases ps1) (auto simp: ps stream_packet_def max_stream_packet_def)
  have c: "chunk_ok c"
    using Cons.prems(2) by simp
  then have "length (pend s) + length c \<le> MAX_PACKET_SIZE"
    using Cons.prems(5) by (simp add: chunk_ok_def max_stream_packet_def net_consts)
  from recv_step [OF Cons.prems(1) c this parse] obtain s1 where
    s1: "recv s c = Ok s1" "ready s1" "pend s1 = r" "delivered s1 = delivered s @ qs"
    by blast
  have "list_all chunk_ok cs" "list_all stream_packet ps1"
    using Cons.prems(2,3) by (simp_all add: ps)
  from Cons.IH [OF s1(2) this] rest small obtain s' qs' ps' where
    "feed recv s1 cs = Ok s'" "ready s'" "ps1 = qs' @ ps'" "delivered s' = delivered s1 @ qs'"
    "pend s' @ rest = concat (map encode_packet ps')"
    "cs = [] \<or> pend s' = [] \<or> ps' \<noteq> [] \<and> length (pend s') < packet_size (hd ps')"
    unfolding s1(3) by blast
  with s1 r ps show ?case
    by (intro exI [of _ s'] exI [of _ "qs @ qs'"] exI [of _ ps']) auto
qed

text \<open>However TCP cuts the stream, all packets are delivered, in order, and nothing is left.\<close>

lemma feed_all:
  assumes "ready s" and "pend s = []" and "list_all chunk_ok cs" and "list_all stream_packet ps"
    and "concat cs = concat (map encode_packet ps)"
  shows "\<exists>s'. feed recv s cs = Ok s' \<and> ready s' \<and> pend s' = [] \<and> delivered s' = delivered s @ ps"
proof -
  have "length (pend s) < max_stream_packet"
    using assms(2) by (simp add: max_stream_packet_def net_consts)
  from feed_prefix [OF assms(1,3,4) _ this, of "[]"] assms(2,5) obtain s' qs ps' where
    s': "feed recv s cs = Ok s'" "ready s'" "ps = qs @ ps'" "delivered s' = delivered s @ qs"
    "pend s' = concat (map encode_packet ps')"
    "cs = [] \<or> pend s' = [] \<or> ps' \<noteq> [] \<and> length (pend s') < packet_size (hd ps')"
    by auto
  have "ps' = []"
  proof (rule ccontr)
    assume ne: "ps' \<noteq> []"
    then have "packet_size (hd ps') \<le> length (pend s')"
      by (cases ps') (simp_all add: s'(5))
    moreover have "0 < packet_size (hd ps')"
      by (simp add: packet_size_def PACKET_HEADER_SIZE_def)
    ultimately have "cs = []"
      using s'(6) by auto
    with assms(5) have "length (concat (map encode_packet ps)) = 0"
      by simp
    with s'(3) ne \<open>0 < packet_size (hd ps')\<close> show False
      by (cases ps') (simp_all del: length_0_conv concat_eq_Nil_conv)
  qed
  with s' show ?thesis by auto
qed

end

end
