(* ===== verification/DH_Overlapped.thy ===== *)
theory DH_Overlapped
  imports DH_Structs DH_Stream
begin

text \<open>
  What the receive engines of the server and the client share on the level of one overlapped
  structure: the effect of appending the received bytes (\<open>BackUp_Overlapped\<close>) and of pulling a
  packet out (\<open>Push_RecvData\<close>) on the bytes pending, and the locale \<open>receive_loop\<close>: the contract
  between the \<open>while\<close> loop of an \<open>IOFunction_Recv\<close> and its \<open>Push_RecvData\<close>, from which the loop's
  outcome follows for every possible buffer.
\<close>

section \<open>Appending and pulling\<close>

text \<open>The bytes a completed receive of \<open>n\<close> bytes left in the buffer.\<close>

definition ov_chunk :: "Overlapped_Struct \<Rightarrow> byte list" where
  "ov_chunk ov = take (unat (m_Data_Size ov)) (m_Buffer ov)"

definition ov_append :: "byte list \<Rightarrow> Overlapped_Struct \<Rightarrow> Overlapped_Struct" where
  "ov_append buf ov =
     ov\<lparr>m_Processing_Packet_Buffer := buf,
        m_Processed_Packet_Size := m_Processed_Packet_Size ov + m_Data_Size ov\<rparr>"

definition ov_pull :: "byte list \<Rightarrow> u64 \<Rightarrow> Overlapped_Struct \<Rightarrow> Overlapped_Struct" where
  "ov_pull buf sz ov =
     ov\<lparr>m_Processing_Packet_Buffer := buf,
        m_Processed_Packet_Size := m_Processed_Packet_Size ov - sz\<rparr>"

lemma ov_append_spec:
  assumes "ov_ok ov" and "unat (m_Data_Size ov) \<le> OVERLAPPED_BUFIZE"
    and "unat (m_Processed_Packet_Size ov) + unat (m_Data_Size ov) \<le> MAX_PACKET_SIZE"
  defines "buf \<equiv> mem_write (m_Processing_Packet_Buffer ov) (unat (m_Processed_Packet_Size ov))
                   (ov_chunk ov)"
  shows "memcpy_s (m_Processing_Packet_Buffer ov) (unat (m_Processed_Packet_Size ov))
      (MAX_PACKET_SIZE - unat (m_Processed_Packet_Size ov)) (m_Buffer ov)
      (unat (m_Data_Size ov)) = Ok buf"
    and "ov_ok (ov_append buf ov)" and "ov_pending (ov_append buf ov) = ov_pending ov @ ov_chunk ov"
proof -
  let ?p = "unat (m_Processed_Packet_Size ov)" and ?n = "unat (m_Data_Size ov)"
  have len: "length (m_Buffer ov) = OVERLAPPED_BUFIZE"
    "length (m_Processing_Packet_Buffer ov) = MAX_PACKET_SIZE" "length (ov_chunk ov) = ?n"
    using assms(1,2) by (simp_all add: ov_ok_def ov_chunk_def)
  show "memcpy_s (m_Processing_Packet_Buffer ov) ?p (MAX_PACKET_SIZE - ?p) (m_Buffer ov) ?n = Ok buf"
    using assms(2,3) len by (simp add: memcpy_s_def buf_def ov_chunk_def)
  have size: "unat (m_Processed_Packet_Size ov + m_Data_Size ov) = ?p + ?n"
    using assms(3) by (intro unat_plus_nowrap64) (simp add: MAX_PACKET_SIZE_def)
  show "ov_ok (ov_append buf ov)"
    using assms(1,3) len size by (simp add: ov_ok_def ov_append_def buf_def)
  show "ov_pending (ov_append buf ov) = ov_pending ov @ ov_chunk ov"
    using assms(3) len size
      take_mem_write [of ?p "ov_chunk ov" "m_Processing_Packet_Buffer ov"]
    by (simp add: ov_pending_def ov_append_def buf_def)
qed

lemma ov_pull_spec:
  assumes "ov_ok ov" and "sz \<le> m_Processed_Packet_Size ov"
  defines "buf \<equiv> mem_write (m_Processing_Packet_Buffer ov) 0
                   (drop (unat sz) (m_Processing_Packet_Buffer ov))"
  shows "memcpy_s (m_Processing_Packet_Buffer ov) 0 MAX_PACKET_SIZE
      (drop (unat sz) (m_Processing_Packet_Buffer ov)) (MAX_PACKET_SIZE - unat sz) = Ok buf"
    and "ov_ok (ov_pull buf sz ov)" and "ov_pending (ov_pull buf sz ov) = drop (unat sz) (ov_pending ov)"
proof -
  let ?p = "unat (m_Processed_Packet_Size ov)"
  have len: "length (m_Processing_Packet_Buffer ov) = MAX_PACKET_SIZE" and p: "?p \<le> MAX_PACKET_SIZE"
    using assms(1) by (simp_all add: ov_ok_def)
  have le: "unat sz \<le> ?p"
    using assms(2) by (simp add: word_le_iff_unat)
  have size: "unat (m_Processed_Packet_Size ov - sz) = ?p - unat sz"
    using assms(2) by (rule unat_minus_nowrap64)
  show "memcpy_s (m_Processing_Packet_Buffer ov) 0 MAX_PACKET_SIZE
      (drop (unat sz) (m_Processing_Packet_Buffer ov)) (MAX_PACKET_SIZE - unat sz) = Ok buf"
    using len by (simp add: memcpy_s_def buf_def)
  have "length buf = MAX_PACKET_SIZE"
    using len by (simp add: buf_def)
  then show "ov_ok (ov_pull buf sz ov)"
    using assms(1) p size by (simp add: ov_ok_def ov_pull_def)
  have "take (?p - unat sz) buf = drop (unat sz) (take ?p (m_Processing_Packet_Buffer ov))"
    using len p le by (simp add: buf_def mem_write_0 drop_take)
  then show "ov_pending (ov_pull buf sz ov) = drop (unat sz) (ov_pending ov)"
    by (simp add: ov_pending_def ov_pull_def size)
qed

text \<open>The header at the front of the processing buffer is the header of the pending bytes.\<close>

lemma pending_header:
  assumes "ov_ok ov" and "PACKET_HEADER_SIZE \<le> unat (m_Processed_Packet_Size ov)"
  shows "read_u64 (m_Processing_Packet_Buffer ov) = read_u64 (ov_pending ov)"
  using assms by (simp add: ov_pending_def read_u64_take PACKET_HEADER_SIZE_def)

lemma pending_take:
  "ov_ok ov \<Longrightarrow> n \<le> unat (m_Processed_Packet_Size ov) \<Longrightarrow>
     take n (m_Processing_Packet_Buffer ov) = take n (ov_pending ov)"
  by (simp add: ov_pending_def min_absorb1)

text \<open>
  A size field for which header plus body exceed 64 bits: the sum wraps around to a few bytes, so the
  block allocated for the packet is shorter than a header, and reading its type reads past its end.
\<close>

lemma wrapping_front:
  assumes ok: "ov_ok v" and long: "PACKET_HEADER_SIZE \<le> length (ov_pending v)"
    and wrap: "2 ^ 64 \<le> PACKET_HEADER_SIZE + unat (read_u64 (ov_pending v))"
  defines "tot \<equiv> packet_total (read_u64 (m_Processing_Packet_Buffer v))"
  shows "\<exists>blk. memcpy_s (replicate (unat tot) 0) 0 (unat tot) (m_Processing_Packet_Buffer v) (unat tot) = Ok blk
           \<and> get_Packet_Type blk = Fault Over_Read"
    and "\<not> m_Processed_Packet_Size v < tot"
    and "\<not> m_Processed_Packet_Size v < word_of_nat PACKET_HEADER_SIZE" and "m_Processed_Packet_Size v \<noteq> 0"
proof -
  have len: "length (ov_pending v) = unat (m_Processed_Packet_Size v)"
    and buf: "length (m_Processing_Packet_Buffer v) = MAX_PACKET_SIZE"
    using ok by (simp_all add: length_ov_pending ov_ok_def)
  have "read_u64 (m_Processing_Packet_Buffer v) = read_u64 (ov_pending v)"
    using pending_header [OF ok] long len by simp
  then have small: "unat tot < PACKET_HEADER_SIZE"
    using unat_packet_total_wrap [OF wrap] by (simp add: tot_def)
  have "memcpy_s (replicate (unat tot) 0) 0 (unat tot) (m_Processing_Packet_Buffer v) (unat tot)
      = Ok (take (unat tot) (m_Processing_Packet_Buffer v))"
    using small buf by (simp add: memcpy_s_def mem_write_0 net_consts)
  moreover have "get_Packet_Type (take (unat tot) (m_Processing_Packet_Buffer v)) = Fault Over_Read"
    using small buf by (simp add: get_Packet_Type_def net_consts)
  ultimately show "\<exists>blk. memcpy_s (replicate (unat tot) 0) 0 (unat tot) (m_Processing_Packet_Buffer v) (unat tot)
      = Ok blk \<and> get_Packet_Type blk = Fault Over_Read"
    by blast
  show "\<not> m_Processed_Packet_Size v < tot" "m_Processed_Packet_Size v \<noteq> 0"
    "\<not> m_Processed_Packet_Size v < word_of_nat PACKET_HEADER_SIZE"
    using small long len by (auto simp: word_less_iff_unat PACKET_HEADER_SIZE_def)
qed

section \<open>The contract of the receive loop\<close>

text \<open>
  What the loop of an \<open>IOFunction_Recv\<close> does on a state, by the bytes pending: it stops when the
  packet at the front is not complete; it reads past a block when the size wraps; it pushes a
  complete packet and goes on; and a packet without a type ends it with \<open>kicked\<close>.
\<close>

locale receive_loop =
  fixes loop :: "'s \<Rightarrow> (bool \<times> 's) res"
    and good :: "'s \<Rightarrow> bool"
    and pend :: "'s \<Rightarrow> byte list"
    and delivered :: "'s \<Rightarrow> packet list"
    and push :: "'s \<Rightarrow> 's"
    and kicked :: "'s \<Rightarrow> (bool \<times> 's) res"
  assumes loop_short: "good s \<Longrightarrow> length (pend s) < PACKET_HEADER_SIZE \<Longrightarrow> loop s = Ok (True, s)"
    and loop_partial: "good s \<Longrightarrow> PACKET_HEADER_SIZE \<le> length (pend s) \<Longrightarrow>
      PACKET_HEADER_SIZE + unat (read_u64 (pend s)) < 2 ^ 64 \<Longrightarrow>
      length (pend s) < PACKET_HEADER_SIZE + unat (read_u64 (pend s)) \<Longrightarrow> loop s = Ok (True, s)"
    and loop_wraps: "good s \<Longrightarrow> PACKET_HEADER_SIZE \<le> length (pend s) \<Longrightarrow>
      2 ^ 64 \<le> PACKET_HEADER_SIZE + unat (read_u64 (pend s)) \<Longrightarrow> loop s = Fault Over_Read"
    and loop_no_type: "good s \<Longrightarrow> PACKET_HEADER_SIZE + unat (read_u64 (pend s)) < 2 ^ 64 \<Longrightarrow>
      PACKET_HEADER_SIZE + unat (read_u64 (pend s)) \<le> length (pend s) \<Longrightarrow>
      read_u16 (drop 8 (pend s)) = PACKET_TYPE_NONE \<Longrightarrow> loop s = kicked s"
    and loop_packet: "good s \<Longrightarrow> PACKET_HEADER_SIZE + unat (read_u64 (pend s)) < 2 ^ 64 \<Longrightarrow>
      PACKET_HEADER_SIZE + unat (read_u64 (pend s)) \<le> length (pend s) \<Longrightarrow>
      read_u16 (drop 8 (pend s)) \<noteq> PACKET_TYPE_NONE \<Longrightarrow>
        loop s = loop (push s) \<and> good (push s)
        \<and> pend (push s) = drop (PACKET_HEADER_SIZE + unat (read_u64 (pend s))) (pend s)
        \<and> delivered (push s) = delivered s @ [decode_packet (pend s)]"
begin

text \<open>The outcome of the loop is what the specification makes of the pending bytes.\<close>

lemma loop_outcome:
  "good s \<Longrightarrow> spec_parse (pend s) = (ps, r, e) \<Longrightarrow>
     \<exists>s'. good s' \<and> delivered s' = delivered s @ ps \<and>
       (case e of Need_More \<Rightarrow> pend s' = r \<and> loop s = Ok (True, s')
                | Size_Wraps \<Rightarrow> loop s = Fault Over_Read
                | No_Type \<Rightarrow> loop s = kicked s')"
proof (induction "length (pend s)" arbitrary: s ps rule: less_induct)
  case less
  show ?case
  proof (cases "pend s" rule: spec_parse_cases)
    case Short
    with less.prems show ?thesis
      by (intro exI [of _ s]) (auto simp: spec_parse_short loop_short)
  next
    case Wraps
    with less.prems show ?thesis
      by (intro exI [of _ s]) (auto simp: spec_parse_wraps loop_wraps)
  next
    case Partial
    with less.prems show ?thesis
      by (intro exI [of _ s]) (auto simp: spec_parse_partial loop_partial)
  next
    case No_Type
    with less.prems show ?thesis
      by (intro exI [of _ s]) (auto simp: spec_parse_no_type loop_no_type)
  next
    case Packet
    let ?k = "PACKET_HEADER_SIZE + unat (read_u64 (pend s))"
    note step = loop_packet [OF less.prems(1) Packet]
    obtain qs r' e' where rest: "spec_parse (drop ?k (pend s)) = (qs, r', e')"
      by (metis prod_cases3)
    then have ps: "ps = decode_packet (pend s) # qs" and eq: "r' = r" "e' = e"
      using less.prems(2) Packet by (auto simp: spec_parse_packet)
    have "length (pend (push s)) < length (pend s)"
      using step Packet(2) by (simp add: PACKET_HEADER_SIZE_def)
    moreover have "spec_parse (pend (push s)) = (qs, r, e)"
      using step rest eq by simp
    ultimately obtain s' where "good s'" "delivered s' = delivered (push s) @ qs"
      "case e of Need_More \<Rightarrow> pend s' = r \<and> loop (push s) = Ok (True, s')
        | Size_Wraps \<Rightarrow> loop (push s) = Fault Over_Read | No_Type \<Rightarrow> loop (push s) = kicked s'"
      using less.hyps step by blast
    then show ?thesis
      using step ps by (intro exI [of _ s']) (auto split: parse_end.splits)
  qed
qed

end

end
