(* ===== verification/DH_MemoryPool.thy ===== *)
theory DH_MemoryPool
  imports DH_Prelude
begin

text \<open>
  \<open>MemoryPool.cpp\<close>: eight queues of small memory blocks, keyed by the block size. Memory is a flat
  array of bytes (\<open>mp_mem\<close>) whose addresses below \<open>mp_next\<close> have been allocated, so that two blocks
  can overlap in principle; \<open>mp_owns\<close> states that the blocks handed out and the blocks in the queues
  never do. The theory shows that for every operation, when a request spins or returns null, and
  what a block handed out contains: zeros, unless it comes from the refill of an empty queue.
\<close>

section \<open>The pool\<close>

record memory_pool =
  m_4Byte_Block_Count :: int
  m_8Byte_Block_Count :: int
  m_16Byte_Block_Count :: int
  m_32Byte_Block_Count :: int
  m_64Byte_Block_Count :: int
  m_128Byte_Block_Count :: int
  m_256Byte_Block_Count :: int
  m_512Byte_Block_Count :: int
  m_Memory_Pool :: "(int \<times> ptr list) list"
  mp_mem :: "ptr \<Rightarrow> byte"
  mp_next :: ptr

definition memset0 :: "ptr \<Rightarrow> int \<Rightarrow> memory_pool \<Rightarrow> memory_pool" where
  "memset0 a n mp = mp\<lparr>mp_mem := (\<lambda>x. if a \<le> x \<and> x < a + nat n then 0 else mp_mem mp x)\<rparr>"

text \<open>\<open>m_accessor->second->push(p)\<close> after \<open>find(m_accessor, key)\<close>.\<close>

definition mp_push :: "int \<Rightarrow> ptr \<Rightarrow> memory_pool \<Rightarrow> memory_pool res" where
  "mp_push key a mp =
     (case map_of (m_Memory_Pool mp) key of
        None \<Rightarrow> Fault Null_Deref
      | Some q \<Rightarrow> Ok (mp\<lparr>m_Memory_Pool := AList.update key (q @ [a]) (m_Memory_Pool mp)\<rparr>))"

primrec create_loop :: "nat \<Rightarrow> int \<Rightarrow> ptr \<Rightarrow> memory_pool \<Rightarrow> memory_pool res" where
  "create_loop 0 key a mp = Ok mp"
| "create_loop (Suc n) key a mp =
     bindE (mp_push key a (memset0 a key mp)) (\<lambda>mp'. create_loop n key (a + nat key) mp')"

definition CreateMemory :: "int \<Rightarrow> int \<Rightarrow> memory_pool \<Rightarrow> memory_pool res" where
  "CreateMemory Sample_Key Sample_Count mp =
     (if Sample_Key * Sample_Count < 0 \<or> 2 ^ 31 \<le> Sample_Key * Sample_Count then Fault Int_Overflow
      else let Memory_Array = mp_next mp;
               mp1 = mp\<lparr>m_Memory_Pool := hm_insert Sample_Key [] (m_Memory_Pool mp),
                        mp_next := mp_next mp + nat (Sample_Key * Sample_Count)\<rparr>
           in create_loop (nat Sample_Count) Sample_Key Memory_Array mp1)"

primrec refill_loop :: "nat \<Rightarrow> int \<Rightarrow> memory_pool \<Rightarrow> memory_pool res" where
  "refill_loop 0 sz mp = Ok mp"
| "refill_loop (Suc n) sz mp =
     bindE (mp_push sz (mp_next mp) (mp\<lparr>mp_next := mp_next mp + nat sz\<rparr>))
       (\<lambda>mp'. refill_loop n sz mp')"

definition FindMemory :: "int \<Rightarrow> int \<Rightarrow> memory_pool \<Rightarrow> (ptr \<times> memory_pool) res" where
  "FindMemory Memory_Size Sample_Count mp =
     (case map_of (m_Memory_Pool mp) Memory_Size of
        None \<Rightarrow> Fault Null_Deref
      | Some q0 \<Rightarrow>
          bindE (if q0 = [] then refill_loop (nat (Sample_Count div 10)) Memory_Size mp else Ok mp)
            (\<lambda>mp1. case map_of (m_Memory_Pool mp1) Memory_Size of
                     Some (a # q) \<Rightarrow>
                       Ok (a, mp1\<lparr>m_Memory_Pool :=
                                    AList.update Memory_Size q (m_Memory_Pool mp1)\<rparr>)
                   | _ \<Rightarrow> Fault Spin))"

definition MemoryPool_new :: "(ptr \<Rightarrow> byte) \<Rightarrow> int \<Rightarrow> memory_pool res" where
  "MemoryPool_new raw Sample_Memory_Count =
     (let mp = \<lparr>m_4Byte_Block_Count = Sample_Memory_Count,
                m_8Byte_Block_Count = Sample_Memory_Count,
                m_16Byte_Block_Count = Sample_Memory_Count,
                m_32Byte_Block_Count = Sample_Memory_Count,
                m_64Byte_Block_Count = Sample_Memory_Count,
                m_128Byte_Block_Count = Sample_Memory_Count div 2,
                m_256Byte_Block_Count = Sample_Memory_Count div 2,
                m_512Byte_Block_Count = Sample_Memory_Count div 4,
                m_Memory_Pool = [], mp_mem = raw, mp_next = 0\<rparr>
      in bindE (CreateMemory 4 (m_4Byte_Block_Count mp) mp) (\<lambda>mp.
         bindE (CreateMemory 8 (m_8Byte_Block_Count mp) mp) (\<lambda>mp.
         bindE (CreateMemory 16 (m_16Byte_Block_Count mp) mp) (\<lambda>mp.
         bindE (CreateMemory 32 (m_32Byte_Block_Count mp) mp) (\<lambda>mp.
         bindE (CreateMemory 64 (m_64Byte_Block_Count mp) mp) (\<lambda>mp.
         bindE (CreateMemory 128 (m_128Byte_Block_Count mp) mp) (\<lambda>mp.
         bindE (CreateMemory 256 (m_256Byte_Block_Count mp) mp) (\<lambda>mp.
         CreateMemory 512 (m_512Byte_Block_Count mp) mp))))))))"

text \<open>The destructor clears the queues and the map; the blocks themselves stay allocated.\<close>

definition MemoryPool_delete :: "memory_pool \<Rightarrow> memory_pool" where
  "MemoryPool_delete mp = mp\<lparr>m_Memory_Pool := []\<rparr>"

definition block_count :: "memory_pool \<Rightarrow> int \<Rightarrow> int option" where
  "block_count mp Memory_Size =
     (if Memory_Size = 4 then Some (m_4Byte_Block_Count mp)
      else if Memory_Size = 8 then Some (m_8Byte_Block_Count mp)
      else if Memory_Size = 16 then Some (m_16Byte_Block_Count mp)
      else if Memory_Size = 32 then Some (m_32Byte_Block_Count mp)
      else if Memory_Size = 64 then Some (m_64Byte_Block_Count mp)
      else if Memory_Size = 128 then Some (m_128Byte_Block_Count mp)
      else if Memory_Size = 256 then Some (m_256Byte_Block_Count mp)
      else if Memory_Size = 512 then Some (m_512Byte_Block_Count mp)
      else None)"

definition GetMemory :: "int \<Rightarrow> memory_pool \<Rightarrow> (ptr option \<times> memory_pool) res" where
  "GetMemory Memory_Size mp =
     (case block_count mp Memory_Size of
        None \<Rightarrow> Ok (None, mp)
      | Some n \<Rightarrow> bindE (FindMemory Memory_Size n mp) (\<lambda>(a, mp'). Ok (Some a, mp')))"

definition ResetMemory :: "ptr option \<Rightarrow> int \<Rightarrow> memory_pool \<Rightarrow> memory_pool res" where
  "ResetMemory Used_Data_Pointer Used_Data_Size mp =
     (case Used_Data_Pointer of
        None \<Rightarrow> Fault Null_Deref
      | Some a \<Rightarrow> mp_push Used_Data_Size a (memset0 a Used_Data_Size mp))"

definition pool_sizes :: "int list" where
  "pool_sizes = [4, 8, 16, 32, 64, 128, 256, 512]"

section \<open>Blocks and overlap\<close>

text \<open>A block is its address and its size; the blocks in use are a multiset.\<close>

type_synonym block = "ptr \<times> nat"

definition in_block :: "ptr \<Rightarrow> block \<Rightarrow> bool" where
  "in_block x b \<longleftrightarrow> fst b \<le> x \<and> x < fst b + snd b"

definition blocks_ok :: "ptr \<Rightarrow> block multiset \<Rightarrow> bool" where
  "blocks_ok N M \<longleftrightarrow> (\<forall>x. size (filter_mset (in_block x) M) \<le> 1)
     \<and> (\<forall>b \<in># M. fst b + snd b \<le> N)"

definition blocks_disjoint :: "block \<Rightarrow> block \<Rightarrow> bool" where
  "blocks_disjoint b c \<longleftrightarrow> \<not> (\<exists>x. in_block x b \<and> in_block x c)"

lemma blocks_ok_empty [simp]: "blocks_ok N {#}"
  by (simp add: blocks_ok_def)

lemma blocks_ok_subset: "blocks_ok N M \<Longrightarrow> M' \<subseteq># M \<Longrightarrow> blocks_ok N M'"
  unfolding blocks_ok_def
  by (meson dual_order.trans mset_subset_eqD multiset_filter_mono size_mset_mono)

lemma blocks_ok_disjoint:
  assumes "blocks_ok N (add_mset b (add_mset c M))"
  shows "blocks_disjoint b c"
  unfolding blocks_disjoint_def
proof
  assume "\<exists>x. in_block x b \<and> in_block x c"
  then obtain x where x: "in_block x b" "in_block x c" by blast
  have "size (filter_mset (in_block x) (add_mset b (add_mset c M))) \<le> 1"
    using assms unfolding blocks_ok_def by blast
  with x show False by simp
qed

lemma blocks_ok_fresh:
  assumes "blocks_ok N M"
  shows "blocks_ok (N + k) (add_mset (N, k) M)"
proof -
  have one: "size (filter_mset (in_block x) (add_mset (N, k) M)) \<le> 1" for x
  proof (cases "N \<le> x")
    case True
    have "\<not> in_block x b" if "b \<in># M" for b
      using assms that True by (auto simp: blocks_ok_def in_block_def)
    then have none: "filter_mset (in_block x) M = {#}"
      by (metis (mono_tags, lifting) filter_mset_False filter_mset_cong)
    show ?thesis
      unfolding filter_mset_add_mset none by simp
  next
    case False
    then have "\<not> in_block x (N, k)" by (simp add: in_block_def)
    with assms show ?thesis by (simp add: blocks_ok_def)
  qed
  moreover have "fst b + snd b \<le> N + k" if "b \<in># add_mset (N, k) M" for b
    using assms that by (auto simp: blocks_ok_def)
  ultimately show ?thesis by (simp only: blocks_ok_def) blast
qed

text \<open>The blocks of one queue, and of all queues.\<close>

definition class_blocks :: "int \<Rightarrow> ptr list \<Rightarrow> block multiset" where
  "class_blocks k q = mset (map (\<lambda>a. (a, nat k)) q)"

primrec map_blocks :: "(int \<times> ptr list) list \<Rightarrow> block multiset" where
  "map_blocks [] = {#}"
| "map_blocks (e # m) = class_blocks (fst e) (snd e) + map_blocks m"

lemma class_blocks_simps [simp]:
  "class_blocks k [] = {#}"
  "class_blocks k (a # q) = add_mset (a, nat k) (class_blocks k q)"
  "class_blocks k (q @ q') = class_blocks k q + class_blocks k q'"
  by (simp_all add: class_blocks_def)

lemma map_blocks_append [simp]: "map_blocks (m @ m') = map_blocks m + map_blocks m'"
  by (induction m) (simp_all add: ac_simps)

lemma map_blocks_update:
  "hm_distinct m \<Longrightarrow> map_of m k = Some q \<Longrightarrow>
     \<exists>rest. map_blocks m = class_blocks k q + rest
       \<and> (\<forall>q'. map_blocks (AList.update k q' m) = class_blocks k q' + rest)"
proof (induction m)
  case Nil
  then show ?case by simp
next
  case (Cons e m)
  obtain j p where e: "e = (j, p)" by (cases e)
  show ?case
  proof (cases "j = k")
    case True
    with Cons.prems show ?thesis by (simp add: e)
  next
    case False
    with Cons.prems have "hm_distinct m" "map_of m k = Some q"
      by (simp_all add: e hm_distinct_def)
    from Cons.IH [OF this] obtain rest where
      "map_blocks m = class_blocks k q + rest"
      "\<forall>q'. map_blocks (AList.update k q' m) = class_blocks k q' + rest"
      by blast
    with False show ?thesis
      by (intro exI [of _ "class_blocks j p + rest"]) (simp add: e ac_simps)
  qed
qed

lemma map_blocks_hm_insert [simp]: "map_blocks (hm_insert k [] m) = map_blocks m"
  by (simp add: hm_insert_def split: option.splits)

lemma hm_update_distinct: "hm_distinct m \<Longrightarrow> hm_distinct (AList.update k v m)"
  by (simp add: hm_distinct_def distinct_update)

definition hm_keys :: "('k \<times> 'v) list \<Rightarrow> 'k set" where
  "hm_keys m = fst ` set m"

lemma hm_keys_iff: "k \<in> hm_keys m \<longleftrightarrow> map_of m k \<noteq> None"
  by (simp add: hm_keys_def map_of_eq_None_iff)

lemma keys_update:
  assumes "map_of m k = Some q"
  shows "hm_keys (AList.update k v m) = hm_keys m"
proof (rule set_eqI)
  fix x
  show "x \<in> hm_keys (AList.update k v m) \<longleftrightarrow> x \<in> hm_keys m"
    using assms by (cases "x = k") (simp_all add: hm_keys_iff update_conv')
qed

section \<open>Ownership\<close>

text \<open>
  \<open>mp_owns out mp\<close>: the blocks of \<open>out\<close> have been handed out; they and the blocks in the queues lie
  below \<open>mp_next\<close> and no byte belongs to two of them.
\<close>

definition mp_owns :: "block multiset \<Rightarrow> memory_pool \<Rightarrow> bool" where
  "mp_owns out mp \<longleftrightarrow> hm_distinct (m_Memory_Pool mp)
     \<and> blocks_ok (mp_next mp) (out + map_blocks (m_Memory_Pool mp))"

text \<open>The block counts of the constructor, and one queue for each of the eight sizes.\<close>

definition mp_ready :: "memory_pool \<Rightarrow> bool" where
  "mp_ready mp \<longleftrightarrow> hm_keys (m_Memory_Pool mp) = set pool_sizes"

lemma mp_memset0 [simp]:
  "m_Memory_Pool (memset0 a n mp) = m_Memory_Pool mp" "mp_next (memset0 a n mp) = mp_next mp"
  "block_count (memset0 a n mp) = block_count mp"
  "mp_owns out (memset0 a n mp) = mp_owns out mp"
  by (simp_all add: memset0_def mp_owns_def block_count_def fun_eq_iff)

lemma block_count_frame [simp]:
  "block_count (mp\<lparr>m_Memory_Pool := m\<rparr>) = block_count mp"
  "block_count (mp\<lparr>mp_next := x\<rparr>) = block_count mp"
  by (simp_all add: block_count_def fun_eq_iff)

lemma mp_push_Ok_iff: "is_Ok (mp_push k a mp) \<longleftrightarrow> k \<in> hm_keys (m_Memory_Pool mp)"
  by (auto simp: mp_push_def hm_keys_iff split: option.splits)

lemma mp_pushE:
  assumes "mp_push k a mp = Ok mp'"
  obtains q where "map_of (m_Memory_Pool mp) k = Some q"
    and "mp' = mp\<lparr>m_Memory_Pool := AList.update k (q @ [a]) (m_Memory_Pool mp)\<rparr>"
  using assms by (auto simp: mp_push_def split: option.splits)

lemma mp_push_frame:
  assumes "mp_push k a mp = Ok mp'"
  shows "mp_next mp' = mp_next mp" "mp_mem mp' = mp_mem mp" "block_count mp' = block_count mp"
    "hm_keys (m_Memory_Pool mp') = hm_keys (m_Memory_Pool mp)"
  by (rule mp_pushE [OF assms], simp add: keys_update)+

lemma mp_push_owns:
  assumes "mp_owns (add_mset (a, nat k) out) mp" and "mp_push k a mp = Ok mp'"
  shows "mp_owns out mp'"
proof -
  obtain q where q: "map_of (m_Memory_Pool mp) k = Some q"
    and mp': "mp' = mp\<lparr>m_Memory_Pool := AList.update k (q @ [a]) (m_Memory_Pool mp)\<rparr>"
    using assms(2) by (rule mp_pushE)
  have dist: "hm_distinct (m_Memory_Pool mp)"
    using assms(1) by (simp add: mp_owns_def)
  obtain rest where "map_blocks (m_Memory_Pool mp) = class_blocks k q + rest"
    "map_blocks (AList.update k (q @ [a]) (m_Memory_Pool mp)) = class_blocks k (q @ [a]) + rest"
    using map_blocks_update [OF dist q] by blast
  then show ?thesis
    using assms(1) by (simp add: mp_owns_def mp' hm_update_distinct)
qed

lemma mp_owns_fresh:
  "mp_owns out mp \<Longrightarrow> mp_owns (add_mset (mp_next mp, k) out) (mp\<lparr>mp_next := mp_next mp + k\<rparr>)"
  by (simp add: mp_owns_def blocks_ok_fresh)

lemma refill_loop_owns:
  "mp_owns out mp \<Longrightarrow> refill_loop n k mp = Ok mp' \<Longrightarrow> mp_owns out mp'"
proof (induction n arbitrary: mp)
  case 0
  then show ?case by simp
next
  case (Suc n)
  from Suc.prems(2) obtain mp1 where
    push: "mp_push k (mp_next mp) (mp\<lparr>mp_next := mp_next mp + nat k\<rparr>) = Ok mp1"
    and rest: "refill_loop n k mp1 = Ok mp'"
    by (auto simp: bindE_eq_Ok_iff)
  show ?case
    using Suc.IH [OF mp_push_owns [OF mp_owns_fresh [OF Suc.prems(1)] push] rest] .
qed

lemma refill_loop_frame:
  "refill_loop n k mp = Ok mp' \<Longrightarrow>
     mp_mem mp' = mp_mem mp \<and> block_count mp' = block_count mp
     \<and> hm_keys (m_Memory_Pool mp') = hm_keys (m_Memory_Pool mp)"
proof (induction n arbitrary: mp)
  case (Suc n)
  from Suc.prems obtain mp1 where
    push: "mp_push k (mp_next mp) (mp\<lparr>mp_next := mp_next mp + nat k\<rparr>) = Ok mp1"
    and rest: "refill_loop n k mp1 = Ok mp'"
    by (auto simp: bindE_eq_Ok_iff)
  show ?case
    using Suc.IH [OF rest] mp_push_frame [OF push] by simp
qed simp

lemma refill_loop_queue:
  "map_of (m_Memory_Pool mp) k = Some q \<Longrightarrow>
     \<exists>mp'. refill_loop n k mp = Ok mp' \<and>
       map_of (m_Memory_Pool mp') k = Some (q @ map (\<lambda>i. mp_next mp + i * nat k) [0..<n])"
proof (induction n arbitrary: mp q)
  case 0
  then show ?case by simp
next
  case (Suc n)
  let ?mp1 = "mp\<lparr>mp_next := mp_next mp + nat k,
                 m_Memory_Pool := AList.update k (q @ [mp_next mp]) (m_Memory_Pool mp)\<rparr>"
  have "mp_push k (mp_next mp) (mp\<lparr>mp_next := mp_next mp + nat k\<rparr>) = Ok ?mp1"
    using Suc.prems by (simp add: mp_push_def)
  moreover have "map_of (m_Memory_Pool ?mp1) k = Some (q @ [mp_next mp])"
    by (simp add: update_conv')
  from Suc.IH [OF this] obtain mp' where "refill_loop n k ?mp1 = Ok mp'"
    "map_of (m_Memory_Pool mp') k =
       Some ((q @ [mp_next mp]) @ map (\<lambda>i. mp_next ?mp1 + i * nat k) [0..<n])"
    by blast
  moreover have "map (\<lambda>i. mp_next mp + i * nat k) [0..<Suc n] =
      mp_next mp # map (\<lambda>i. mp_next ?mp1 + i * nat k) [0..<n]"
    by (simp add: map_upt_Suc algebra_simps del: upt_Suc)
  ultimately show ?case by (simp del: upt_Suc)
qed

section \<open>GetMemory and ResetMemory\<close>

text \<open>The queue a block is taken from, and where a block comes from.\<close>

lemma FindMemory_Ok:
  assumes "map_of (m_Memory_Pool mp) k = Some q" and "q \<noteq> [] \<or> 10 \<le> n"
  shows "\<exists>a mp'. FindMemory k n mp = Ok (a, mp')
           \<and> a = (if q = [] then mp_next mp else hd q)"
proof (cases q)
  case Nil
  obtain mp1 where "refill_loop (nat (n div 10)) k mp = Ok mp1"
    and q1: "map_of (m_Memory_Pool mp1) k =
       Some (map (\<lambda>i. mp_next mp + i * nat k) [0..<nat (n div 10)])"
    using refill_loop_queue [OF assms(1), of "nat (n div 10)"] Nil by auto
  moreover have "0 < nat (n div 10)"
    using assms(2) Nil by (simp add: pos_imp_zdiv_pos_iff)
  ultimately show ?thesis
    using assms(1) Nil by (simp add: FindMemory_def upt_conv_Cons)
next
  case (Cons a as)
  with assms(1) show ?thesis by (simp add: FindMemory_def)
qed

lemma FindMemory_spin:
  assumes "map_of (m_Memory_Pool mp) k = Some []" and "n < 10"
  shows "FindMemory k n mp = Fault Spin"
proof -
  have "nat (n div 10) = 0"
    using assms(2) by arith
  with assms(1) show ?thesis by (simp add: FindMemory_def)
qed

lemma FindMemoryE:
  assumes "FindMemory k n mp = Ok (a, mp')"
  obtains mp1 q where "mp1 = mp \<or> refill_loop (nat (n div 10)) k mp = Ok mp1"
    and "map_of (m_Memory_Pool mp1) k = Some (a # q)"
    and "mp' = mp1\<lparr>m_Memory_Pool := AList.update k q (m_Memory_Pool mp1)\<rparr>"
proof (cases "map_of (m_Memory_Pool mp) k")
  case None
  with assms show ?thesis by (simp add: FindMemory_def)
next
  case (Some q0)
  let ?r = "if q0 = [] then refill_loop (nat (n div 10)) k mp else Ok mp"
  from assms Some obtain mp1 where r: "?r = Ok mp1"
    and "(case map_of (m_Memory_Pool mp1) k of
        Some (b # q) \<Rightarrow> Ok (b, mp1\<lparr>m_Memory_Pool := AList.update k q (m_Memory_Pool mp1)\<rparr>)
      | _ \<Rightarrow> Fault Spin) = Ok (a, mp')"
    by (auto simp only: FindMemory_def option.case bindE_eq_Ok_iff)
  moreover have "mp1 = mp \<or> refill_loop (nat (n div 10)) k mp = Ok mp1"
    using r by (auto split: if_splits)
  ultimately show ?thesis
    by (auto intro: that split: option.splits list.splits)
qed

lemma FindMemory_owns:
  assumes "mp_owns out mp" and "FindMemory k n mp = Ok (a, mp')"
  shows "mp_owns (add_mset (a, nat k) out) mp'"
proof -
  obtain mp1 q where
    mp1: "mp1 = mp \<or> refill_loop (nat (n div 10)) k mp = Ok mp1"
    and q: "map_of (m_Memory_Pool mp1) k = Some (a # q)"
    and mp': "mp' = mp1\<lparr>m_Memory_Pool := AList.update k q (m_Memory_Pool mp1)\<rparr>"
    using assms(2) by (rule FindMemoryE)
  have own1: "mp_owns out mp1"
    using mp1 assms(1) refill_loop_owns by blast
  then have "hm_distinct (m_Memory_Pool mp1)"
    by (simp add: mp_owns_def)
  from map_blocks_update [OF this q] obtain rest where
    "map_blocks (m_Memory_Pool mp1) = class_blocks k (a # q) + rest"
    "map_blocks (AList.update k q (m_Memory_Pool mp1)) = class_blocks k q + rest"
    by blast
  then show ?thesis
    using own1 by (simp add: mp_owns_def mp' hm_update_distinct)
qed

lemma FindMemory_frame:
  assumes "FindMemory k n mp = Ok (a, mp')"
  shows "mp_mem mp' = mp_mem mp" "block_count mp' = block_count mp"
    "hm_keys (m_Memory_Pool mp') = hm_keys (m_Memory_Pool mp)"
proof -
  obtain mp1 q where
    mp1: "mp1 = mp \<or> refill_loop (nat (n div 10)) k mp = Ok mp1"
    and q: "map_of (m_Memory_Pool mp1) k = Some (a # q)"
    and mp': "mp' = mp1\<lparr>m_Memory_Pool := AList.update k q (m_Memory_Pool mp1)\<rparr>"
    using assms by (rule FindMemoryE)
  have "mp_mem mp1 = mp_mem mp \<and> block_count mp1 = block_count mp
      \<and> hm_keys (m_Memory_Pool mp1) = hm_keys (m_Memory_Pool mp)"
    using mp1 refill_loop_frame by blast
  then show "mp_mem mp' = mp_mem mp" "block_count mp' = block_count mp"
    "hm_keys (m_Memory_Pool mp') = hm_keys (m_Memory_Pool mp)"
    using q by (simp_all add: mp' keys_update)
qed

lemma block_count_sizes: "block_count mp k \<noteq> None \<longleftrightarrow> k \<in> set pool_sizes"
  by (simp add: block_count_def pool_sizes_def)

lemma GetMemory_None: "k \<notin> set pool_sizes \<Longrightarrow> GetMemory k mp = Ok (None, mp)"
  using block_count_sizes [of mp k] by (simp add: GetMemory_def)

lemma GetMemory_owns:
  assumes "mp_owns out mp" and "GetMemory k mp = Ok (Some a, mp')"
  shows "mp_owns (add_mset (a, nat k) out) mp'"
  using assms by (auto simp: GetMemory_def bindE_eq_Ok_iff split: option.splits
      intro: FindMemory_owns)

lemma GetMemoryE:
  assumes "GetMemory k mp = Ok (r, mp')"
  obtains "r = None" and "mp' = mp" and "k \<notin> set pool_sizes"
    | n a where "r = Some a" and "block_count mp k = Some n" and "FindMemory k n mp = Ok (a, mp')"
proof (cases "block_count mp k")
  case None
  with assms that(1) block_count_sizes [of mp k] show ?thesis
    by (simp add: GetMemory_def)
next
  case (Some n)
  with assms obtain a where "FindMemory k n mp = Ok (a, mp')" and "r = Some a"
    by (auto simp: GetMemory_def bindE_eq_Ok_iff)
  with Some that(2) show ?thesis by blast
qed

lemma GetMemory_ready:
  assumes "mp_ready mp" and "GetMemory k mp = Ok (r, mp')"
  shows "mp_ready mp'" and "block_count mp' = block_count mp"
  using assms(2)
  by (rule GetMemoryE, use assms(1) FindMemory_frame in \<open>simp_all add: mp_ready_def\<close>)+

lemma ResetMemory_owns:
  assumes "mp_owns (add_mset (a, nat k) out) mp" and "ResetMemory (Some a) k mp = Ok mp'"
  shows "mp_owns out mp'"
  using assms mp_push_owns [of a k out "memset0 a k mp"] by (simp add: ResetMemory_def)

lemma ResetMemory_Ok_iff:
  "mp_ready mp \<Longrightarrow> is_Ok (ResetMemory (Some a) k mp) \<longleftrightarrow> k \<in> set pool_sizes"
  by (simp add: ResetMemory_def mp_push_Ok_iff mp_ready_def)

lemma ResetMemoryE:
  assumes "ResetMemory r k mp = Ok mp'"
  obtains a where "r = Some a" and "mp_push k a (memset0 a k mp) = Ok mp'"
  using assms by (auto simp: ResetMemory_def split: option.splits)

lemma ResetMemory_ready:
  assumes "mp_ready mp" and "ResetMemory r k mp = Ok mp'"
  shows "mp_ready mp'" and "block_count mp' = block_count mp"
  using assms(2) by (rule ResetMemoryE, use assms(1) in \<open>simp add: mp_ready_def mp_push_frame\<close>)+

section \<open>The constructor\<close>

text \<open>Carving the first \<open>k\<close> bytes off a block.\<close>

lemma blocks_ok_carve:
  assumes "blocks_ok N (add_mset (a, k + m) M)"
  shows "blocks_ok N (add_mset (a, k) (add_mset (a + k, m) M))"
proof -
  have "size (filter_mset (in_block x) (add_mset (a, k) (add_mset (a + k, m) M)))
      = size (filter_mset (in_block x) (add_mset (a, k + m) M))" for x
    by (auto simp: in_block_def)
  with assms show ?thesis by (auto simp: blocks_ok_def)
qed

lemma create_loop_owns:
  "mp_owns (add_mset (a, n * nat k) out) mp \<Longrightarrow> create_loop n k a mp = Ok mp' \<Longrightarrow> mp_owns out mp'"
proof (induction n arbitrary: a mp)
  case 0
  then show ?case
    by (auto simp: mp_owns_def intro: blocks_ok_subset)
next
  case (Suc n)
  from Suc.prems(2) obtain mp1 where push: "mp_push k a (memset0 a k mp) = Ok mp1"
    and rest: "create_loop n k (a + nat k) mp1 = Ok mp'"
    by (auto simp: bindE_eq_Ok_iff)
  have "mp_owns (add_mset (a, nat k) (add_mset (a + nat k, n * nat k) out)) (memset0 a k mp)"
    using Suc.prems(1) blocks_ok_carve by (simp add: mp_owns_def)
  from Suc.IH [OF mp_push_owns [OF this push] rest] show ?case .
qed

lemma create_loop_frame:
  "create_loop n k a mp = Ok mp' \<Longrightarrow>
     block_count mp' = block_count mp \<and> hm_keys (m_Memory_Pool mp') = hm_keys (m_Memory_Pool mp)"
proof (induction n arbitrary: a mp)
  case (Suc n)
  from Suc.prems obtain mp1 where push: "mp_push k a (memset0 a k mp) = Ok mp1"
    and rest: "create_loop n k (a + nat k) mp1 = Ok mp'"
    by (auto simp: bindE_eq_Ok_iff)
  show ?case
    using Suc.IH [OF rest] mp_push_frame [OF push] by simp
qed simp

lemma create_loop_Ok:
  "k \<in> hm_keys (m_Memory_Pool mp) \<Longrightarrow> is_Ok (create_loop n k a mp)"
proof (induction n arbitrary: a mp)
  case (Suc n)
  then obtain mp1 where push: "mp_push k a (memset0 a k mp) = Ok mp1"
    using mp_push_Ok_iff [of k a "memset0 a k mp"] by (auto simp: is_Ok_iff)
  then show ?case
    using Suc.IH [of mp1] Suc.prems mp_push_frame [OF push] by simp
qed simp

lemma hm_keys_insert [simp]: "hm_keys (hm_insert k v m) = insert k (hm_keys m)"
  by (auto simp: hm_keys_iff map_of_hm_insert split: option.splits if_splits)

lemma CreateMemory_Ok:
  assumes "0 \<le> k" and "0 \<le> n" and "k * n < 2 ^ 31" and "mp_owns {#} mp"
  shows "\<exists>mp'. CreateMemory k n mp = Ok mp' \<and> mp_owns {#} mp' \<and> block_count mp' = block_count mp
           \<and> hm_keys (m_Memory_Pool mp') = insert k (hm_keys (m_Memory_Pool mp))"
proof -
  let ?mp1 = "mp\<lparr>m_Memory_Pool := hm_insert k [] (m_Memory_Pool mp),
                 mp_next := mp_next mp + nat (k * n)\<rparr>"
  have "is_Ok (create_loop (nat n) k (mp_next mp) ?mp1)"
    by (rule create_loop_Ok) simp
  then obtain mp' where mp': "create_loop (nat n) k (mp_next mp) ?mp1 = Ok mp'"
    by (auto simp: is_Ok_iff)
  have "mp_owns (add_mset (mp_next mp, nat (k * n)) {#}) ?mp1"
    using mp_owns_fresh [OF assms(4), of "nat (k * n)"]
    by (simp add: mp_owns_def hm_insert_distinct)
  then have "mp_owns (add_mset (mp_next mp, nat n * nat k) {#}) ?mp1"
    using assms(1,2) by (simp add: nat_mult_distrib mult.commute)
  then have "mp_owns {#} mp'"
    using mp' create_loop_owns by blast
  then show ?thesis
    using create_loop_frame [OF mp'] assms mp' by (simp add: CreateMemory_def mult_less_0_iff)
qed

lemma MemoryPool_new_Ok:
  assumes "0 \<le> n" and "n < 2 ^ 24"
  shows "\<exists>mp. MemoryPool_new raw n = Ok mp \<and> mp_owns {#} mp \<and> mp_ready mp
    \<and> block_count mp = (\<lambda>k. if k \<in> {4, 8, 16, 32, 64} then Some n
         else if k \<in> {128, 256} then Some (n div 2) else if k = 512 then Some (n div 4) else None)"
proof -
  define mp0 where "mp0 = \<lparr>m_4Byte_Block_Count = n, m_8Byte_Block_Count = n,
    m_16Byte_Block_Count = n, m_32Byte_Block_Count = n, m_64Byte_Block_Count = n,
    m_128Byte_Block_Count = n div 2, m_256Byte_Block_Count = n div 2,
    m_512Byte_Block_Count = n div 4, m_Memory_Pool = [], mp_mem = raw, mp_next = 0\<rparr>"
  have own0: "mp_owns {#} mp0" and keys0: "hm_keys (m_Memory_Pool mp0) = {}"
    by (simp_all add: mp0_def mp_owns_def hm_distinct_def hm_keys_def)
  have step: "\<exists>mp'. CreateMemory k c mp = Ok mp' \<and> mp_owns {#} mp'
        \<and> block_count mp' = block_count mp
        \<and> hm_keys (m_Memory_Pool mp') = insert k (hm_keys (m_Memory_Pool mp))"
    if "0 \<le> k" "0 \<le> c" "k * c < 2 ^ 31" "mp_owns {#} mp" for k c mp
    using that by (rule CreateMemory_Ok)
  have bound: "0 \<le> n div 2" "0 \<le> n div 4" "n div 2 * 256 < 2 ^ 31" "n div 4 * 512 < 2 ^ 31"
    using assms by auto
  have counts: "m_4Byte_Block_Count mp = n \<and> m_8Byte_Block_Count mp = n
      \<and> m_16Byte_Block_Count mp = n \<and> m_32Byte_Block_Count mp = n
      \<and> m_64Byte_Block_Count mp = n \<and> m_128Byte_Block_Count mp = n div 2
      \<and> m_256Byte_Block_Count mp = n div 2 \<and> m_512Byte_Block_Count mp = n div 4"
    if "block_count mp = block_count mp0" for mp
  proof -
    have "block_count mp k = block_count mp0 k" for k
      using that by simp
    from this [of 4] this [of 8] this [of 16] this [of 32] this [of 64] this [of 128]
      this [of 256] this [of 512] show ?thesis
      by (simp add: block_count_def mp0_def)
  qed
  obtain mp1 where c1: "CreateMemory 4 n mp0 = Ok mp1" "mp_owns {#} mp1"
    "block_count mp1 = block_count mp0" "hm_keys (m_Memory_Pool mp1) = {4}"
    using step [of 4 n mp0] assms own0 keys0 by auto
  obtain mp2 where c2: "CreateMemory 8 n mp1 = Ok mp2" "mp_owns {#} mp2"
    "block_count mp2 = block_count mp0" "hm_keys (m_Memory_Pool mp2) = {8, 4}"
    using step [of 8 n mp1] assms c1 by auto
  obtain mp3 where c3: "CreateMemory 16 n mp2 = Ok mp3" "mp_owns {#} mp3"
    "block_count mp3 = block_count mp0" "hm_keys (m_Memory_Pool mp3) = {16, 8, 4}"
    using step [of 16 n mp2] assms c2 by auto
  obtain mp4 where c4: "CreateMemory 32 n mp3 = Ok mp4" "mp_owns {#} mp4"
    "block_count mp4 = block_count mp0" "hm_keys (m_Memory_Pool mp4) = {32, 16, 8, 4}"
    using step [of 32 n mp3] assms c3 by auto
  obtain mp5 where c5: "CreateMemory 64 n mp4 = Ok mp5" "mp_owns {#} mp5"
    "block_count mp5 = block_count mp0" "hm_keys (m_Memory_Pool mp5) = {64, 32, 16, 8, 4}"
    using step [of 64 n mp4] assms c4 by auto
  obtain mp6 where c6: "CreateMemory 128 (n div 2) mp5 = Ok mp6" "mp_owns {#} mp6"
    "block_count mp6 = block_count mp0" "hm_keys (m_Memory_Pool mp6) = {128, 64, 32, 16, 8, 4}"
    using step [of 128 "n div 2" mp5] bound c5 by auto
  obtain mp7 where c7: "CreateMemory 256 (n div 2) mp6 = Ok mp7" "mp_owns {#} mp7"
    "block_count mp7 = block_count mp0"
    "hm_keys (m_Memory_Pool mp7) = {256, 128, 64, 32, 16, 8, 4}"
    using step [of 256 "n div 2" mp6] bound c6 by auto
  obtain mp8 where c8: "CreateMemory 512 (n div 4) mp7 = Ok mp8" "mp_owns {#} mp8"
    "block_count mp8 = block_count mp0"
    "hm_keys (m_Memory_Pool mp8) = {512, 256, 128, 64, 32, 16, 8, 4}"
    using step [of 512 "n div 4" mp7] bound c7 by auto
  have "MemoryPool_new raw n = Ok mp8"
    unfolding MemoryPool_new_def Let_def mp0_def [symmetric]
    by (simp add: c1 c2 c3 c4 c5 c6 c7 c8 counts [OF refl] counts [OF c1(3)] counts [OF c2(3)]
        counts [OF c3(3)] counts [OF c4(3)] counts [OF c5(3)] counts [OF c6(3)] counts [OF c7(3)])
  moreover have "mp_ready mp8"
    using c8(4) by (auto simp: mp_ready_def pool_sizes_def)
  moreover have "block_count mp8 = (\<lambda>k. if k \<in> {4, 8, 16, 32, 64} then Some n
      else if k \<in> {128, 256} then Some (n div 2) else if k = 512 then Some (n div 4) else None)"
    unfolding c8(3) by (simp add: fun_eq_iff block_count_def mp0_def)
  ultimately show ?thesis
    using c8(2) by blast
qed

end
