(* ===== verification/DH_ServerState.thy ===== *)
theory DH_ServerState
  imports DH_Heap DH_Overlapped DH_MemoryPool
begin

text \<open>
  The state of a \<open>DHServer\<close> object (\<open>DHServer.h\<close>) and the primitive accesses its functions are made
  of: reading and writing a pooled overlapped structure, taking one from the pool and giving it
  back, dereferencing a socket structure, and calling the system. The two hash maps are
  association lists from socket numbers to the addresses of socket structures, the queues are
  lists of heap addresses, the four counters wrap at 32 bits, and times are in ticks of the system
  clock (100 ns).
\<close>

datatype thread_ptr = Thread_Null | Thread_Live | Thread_Deleted

record server =
  MAX_USER_COUNT :: u16
  PORT :: u16
  Available_Overlapped :: "Overlapped_Struct object_pool"
  m_MemoryPool :: memory_pool
  Recv_Data_Queue :: "ptr list"
  Send_Data_Queue :: "(sock \<times> ptr) list"
  g_Socket_Struct_Pool :: "(sock \<times> ptr) list"
  g_Connected_Client :: "(sock \<times> ptr) list"
  g_Listen_Socket :: "sock option"
  g_Work_Thread :: nat
  g_Send_Thread :: thread_ptr
  g_IOCP :: bool
  g_Is_Exit :: bool
  g_Debug_Option :: u16
  g_Recv_Total_Packet :: u32
  g_Send_Total_Packet :: u32
  g_Enter_User_Count :: u32
  g_Exit_User_Count :: u32
  Start_Time :: int
  Prev_Time :: int
  Current_Time :: int
  g_Time_Check_Thread :: thread_ptr
  socket_mem :: "ptr \<Rightarrow> Socket_Struct option"
  socket_next :: ptr
  sheap :: heap
  ssys :: sys

section \<open>Primitive accesses\<close>

definition ov_at :: "server \<Rightarrow> nat \<Rightarrow> Overlapped_Struct" where
  "ov_at s x = obj_mem (Available_Overlapped s) x"

definition ov_upd :: "nat \<Rightarrow> (Overlapped_Struct \<Rightarrow> Overlapped_Struct) \<Rightarrow> server \<Rightarrow> server" where
  "ov_upd x f s = s\<lparr>Available_Overlapped := pool_write x f (Available_Overlapped s)\<rparr>"

definition ov_get :: "os \<Rightarrow> server \<Rightarrow> (nat \<times> server) res" where
  "ov_get env s = bindE (GetObject (ov_class env) (Available_Overlapped s))
     (\<lambda>(x, p). Ok (x, s\<lparr>Available_Overlapped := p\<rparr>))"

definition ov_reset :: "os \<Rightarrow> nat \<Rightarrow> server \<Rightarrow> server" where
  "ov_reset env x s =
     s\<lparr>Available_Overlapped := ResetObject (ov_class env) x (Available_Overlapped s)\<rparr>"

definition sock_at :: "server \<Rightarrow> ptr \<Rightarrow> Socket_Struct res" where
  "sock_at s p = (case socket_mem s p of None \<Rightarrow> Fault Use_After_Free | Some ss \<Rightarrow> Ok ss)"

definition sock_upd :: "ptr \<Rightarrow> Socket_Struct \<Rightarrow> server \<Rightarrow> server" where
  "sock_upd p ss s = s\<lparr>socket_mem := (socket_mem s)(p \<mapsto> ss)\<rparr>"

definition srv_call :: "os \<Rightarrow> syscall \<Rightarrow> server \<Rightarrow> sysret \<times> server" where
  "srv_call env c s = (let (r, y) = sys_call env c (ssys s) in (r, s\<lparr>ssys := y\<rparr>))"

definition srv_do :: "os \<Rightarrow> syscall \<Rightarrow> server \<Rightarrow> server" where
  "srv_do env c s = snd (srv_call env c s)"

definition srv_async :: "os \<Rightarrow> syscall \<Rightarrow> nat \<Rightarrow> server \<Rightarrow> sysret \<times> server" where
  "srv_async env c x s = (let (r, y) = sys_async env c x (ssys s) in (r, s\<lparr>ssys := y\<rparr>))"

section \<open>What the primitives leave alone\<close>

text \<open>
  \<open>same_but_io s s'\<close>: everything outside the overlapped pool and the system is unchanged. The
  primitives on overlapped structures and all system calls satisfy it.
\<close>

definition same_but_io :: "server \<Rightarrow> server \<Rightarrow> bool" where
  "same_but_io s s' \<longleftrightarrow>
     s' = s\<lparr>Available_Overlapped := Available_Overlapped s', ssys := ssys s'\<rparr>"

lemma same_but_io_refl [simp, intro]: "same_but_io s s"
  by (simp add: same_but_io_def)

lemma same_but_io_trans: "same_but_io s s' \<Longrightarrow> same_but_io s' s'' \<Longrightarrow> same_but_io s s''"
  unfolding same_but_io_def by (cases s, cases s', cases s'') simp

lemma same_but_ioD:
  assumes "same_but_io s s'"
  shows "MAX_USER_COUNT s' = MAX_USER_COUNT s" "PORT s' = PORT s"
    "m_MemoryPool s' = m_MemoryPool s" "Recv_Data_Queue s' = Recv_Data_Queue s"
    "Send_Data_Queue s' = Send_Data_Queue s" "g_Socket_Struct_Pool s' = g_Socket_Struct_Pool s"
    "g_Connected_Client s' = g_Connected_Client s" "g_Listen_Socket s' = g_Listen_Socket s"
    "g_Is_Exit s' = g_Is_Exit s" "g_Debug_Option s' = g_Debug_Option s"
    "socket_mem s' = socket_mem s" "sheap s' = sheap s" "g_IOCP s' = g_IOCP s"
    "g_Recv_Total_Packet s' = g_Recv_Total_Packet s"
    "g_Send_Total_Packet s' = g_Send_Total_Packet s"
    "g_Enter_User_Count s' = g_Enter_User_Count s" "g_Exit_User_Count s' = g_Exit_User_Count s"
  using assms unfolding same_but_io_def by (cases s, cases s', simp)+

lemma same_but_io_prims [simp, intro]:
  "same_but_io s (ov_upd x f s)" "same_but_io s (ov_reset env x s)"
  "same_but_io s (srv_do env c s)" "same_but_io s (snd (srv_call env c s))"
  "same_but_io s (snd (srv_async env c x s))"
  by (simp_all add: same_but_io_def ov_upd_def ov_reset_def srv_do_def srv_call_def srv_async_def
      split_def Let_def)

lemma ov_get_same: "ov_get env s = Ok (x, s') \<Longrightarrow> same_but_io s s' \<and> ssys s' = ssys s"
  by (auto simp: ov_get_def bindE_eq_Ok_iff same_but_io_def)

lemma ov_at_upd [simp]: "ov_at (ov_upd x f s) y = (if y = x then f (ov_at s x) else ov_at s y)"
  by (simp add: ov_at_def ov_upd_def)

lemma ov_upd_upd [simp]: "ov_upd x f (ov_upd x g s) = ov_upd x (f \<circ> g) s"
  by (simp add: ov_upd_def pool_write_def)

lemma ov_upd_sys [simp]: "ssys (ov_upd x f s) = ssys s"
  by (simp add: ov_upd_def)

lemma ov_reset_sys [simp]: "ssys (ov_reset env x s) = ssys s"
  by (simp add: ov_reset_def)

lemma srv_do_pool [simp]: "Available_Overlapped (srv_do env c s) = Available_Overlapped s"
  by (simp add: srv_do_def srv_call_def split_def Let_def)

lemma srv_do_in_flight [simp]: "in_flight (ssys (srv_do env c s)) = in_flight (ssys s)"
  by (simp add: srv_do_def srv_call_def split_def Let_def)

lemma srv_async_pool [simp]: "Available_Overlapped (snd (srv_async env c x s)) = Available_Overlapped s"
  by (simp add: srv_async_def split_def Let_def)

lemma srv_async_in_flight:
  "in_flight (ssys (snd (srv_async env c x s))) =
     (if goes_in_flight (fst (srv_async env c x s)) then x # in_flight (ssys s)
      else in_flight (ssys s))"
  by (simp add: srv_async_def split_def Let_def sys_async_in_flight)

lemma ov_at_same_pool: "Available_Overlapped s' = Available_Overlapped s \<Longrightarrow> ov_at s' = ov_at s"
  by (simp add: ov_at_def fun_eq_iff)

lemma ov_at_simps [simp]:
  "ov_at (srv_do env c s) = ov_at s" "ov_at (snd (srv_async env c x s)) = ov_at s"
  "ov_at (s\<lparr>ssys := y\<rparr>) = ov_at s" "ov_at (s\<lparr>sheap := h\<rparr>) = ov_at s"
  "ov_at (s\<lparr>Recv_Data_Queue := q\<rparr>) = ov_at s" "ov_at (s\<lparr>Send_Data_Queue := q'\<rparr>) = ov_at s"
  "ov_at (s\<lparr>g_Connected_Client := m\<rparr>) = ov_at s" "ov_at (s\<lparr>socket_mem := sm\<rparr>) = ov_at s"
  "ov_at (s\<lparr>g_Recv_Total_Packet := c1\<rparr>) = ov_at s"
  "ov_at (s\<lparr>g_Send_Total_Packet := c1\<rparr>) = ov_at s"
  "ov_at (s\<lparr>g_Enter_User_Count := c1\<rparr>) = ov_at s"
  "ov_at (s\<lparr>g_Exit_User_Count := c1\<rparr>) = ov_at s"
  "ov_at (sock_upd p ss s) = ov_at s"
  by (rule ov_at_same_pool, simp add: sock_upd_def)+

lemma ov_at_reset [simp]:
  "ov_at (ov_reset env x s) y =
     (if y = x then Overlapped_Struct_ctor (Overlapped_Struct_dtor (ov_at s x)) else ov_at s y)"
  by (simp add: ov_at_def ov_reset_def ov_class_def)

section \<open>Ownership of the overlapped structures\<close>

text \<open>
  \<open>srv_owns held s\<close>: the structures of \<open>held\<close> (those a handler works on) and those in flight are
  out of the pool, each exactly once, and all structures have buffers of the right size.
\<close>

definition ovs_ok :: "server \<Rightarrow> bool" where
  "ovs_ok s \<longleftrightarrow> (\<forall>x \<in> set (ALL_Object_List (Available_Overlapped s)). ov_ok (ov_at s x))"

definition srv_owns :: "nat list \<Rightarrow> server \<Rightarrow> bool" where
  "srv_owns held s \<longleftrightarrow>
     op.owns (held @ in_flight (ssys s)) (Available_Overlapped s) \<and> ovs_ok s
     \<and> 10 \<le> m_Sample_Obj_Count (Available_Overlapped s)"

lemma srv_owns_known:
  "srv_owns held s \<Longrightarrow> x \<in> set held \<union> set (in_flight (ssys s)) \<Longrightarrow>
     x \<in> set (ALL_Object_List (Available_Overlapped s)) \<and> ov_ok (ov_at s x)"
  by (auto simp: srv_owns_def op_owns_def ovs_ok_def)

lemma srv_owns_upd [inv_intros]:
  assumes "srv_owns held s" and "ov_ok (f (ov_at s x))"
  shows "srv_owns held (ov_upd x f s)"
  using assms by (auto simp: srv_owns_def ovs_ok_def op_owns_write ov_upd_def ov_at_def)

lemma srv_owns_cong:
  "Available_Overlapped s' = Available_Overlapped s \<Longrightarrow> in_flight (ssys s') = in_flight (ssys s) \<Longrightarrow>
     srv_owns held s' = srv_owns held s"
  by (simp add: srv_owns_def ovs_ok_def ov_at_def)

lemma srv_owns_do [simp]: "srv_owns held (srv_do env c s) = srv_owns held s"
  by (rule srv_owns_cong) simp_all

lemma srv_owns_frame [simp]:
  "srv_owns held (s\<lparr>sheap := h\<rparr>) = srv_owns held s"
  "srv_owns held (s\<lparr>Recv_Data_Queue := q\<rparr>) = srv_owns held s"
  "srv_owns held (s\<lparr>Send_Data_Queue := q'\<rparr>) = srv_owns held s"
  "srv_owns held (s\<lparr>g_Connected_Client := m\<rparr>) = srv_owns held s"
  "srv_owns held (s\<lparr>g_Recv_Total_Packet := c1\<rparr>) = srv_owns held s"
  "srv_owns held (s\<lparr>g_Send_Total_Packet := c1\<rparr>) = srv_owns held s"
  "srv_owns held (s\<lparr>g_Enter_User_Count := c1\<rparr>) = srv_owns held s"
  "srv_owns held (s\<lparr>g_Exit_User_Count := c1\<rparr>) = srv_owns held s"
  "srv_owns held (sock_upd p ss s) = srv_owns held s"
  by (rule srv_owns_cong, simp_all add: sock_upd_def)+

lemma GetObject_ovs:
  assumes "ovs_ok s" and "GetObject (ov_class env) (Available_Overlapped s) = Ok (x, p')"
  shows "\<forall>y \<in> set (ALL_Object_List p'). ov_ok (obj_mem p' y)"
proof
  fix y
  assume "y \<in> set (ALL_Object_List p')"
  from GetObject_mem(2) [OF assms(2) this] assms(1) show "ov_ok (obj_mem p' y)"
    by (auto simp: ovs_ok_def ov_at_def ov_class_def ov_ok_raw_ctor)
qed

lemma srv_owns_get:
  assumes "srv_owns held s" and "ov_get env s = Ok (x, s')"
  shows "srv_owns (x # held) s'" and "x \<notin> set held" and "x \<notin> set (in_flight (ssys s))"
proof -
  let ?T = "ov_class env"
  from assms(2) obtain p where get: "GetObject ?T (Available_Overlapped s) = Ok (x, p)"
    and s': "s' = s\<lparr>Available_Overlapped := p\<rparr>"
    by (auto simp: ov_get_def bindE_eq_Ok_iff)
  have owns: "op.owns (held @ in_flight (ssys s)) (Available_Overlapped s)" and ok: "ovs_ok s"
    and count: "10 \<le> m_Sample_Obj_Count (Available_Overlapped s)"
    using assms(1) by (simp_all add: srv_owns_def)
  have "op.owns (x # (held @ in_flight (ssys s))) p"
    using op.owns_get(1) [OF owns get] .
  moreover have "10 \<le> m_Sample_Obj_Count p"
    using get count by (simp add: GetObject_mem(3))
  ultimately show "srv_owns (x # held) s'"
    using GetObject_ovs [OF ok get] by (simp add: srv_owns_def s' ovs_ok_def ov_at_def)
  show "x \<notin> set held" "x \<notin> set (in_flight (ssys s))"
    using op.owns_get(2) [OF owns get] by simp_all
qed

lemma ov_get_Ok:
  assumes "srv_owns held s"
  shows "\<exists>x s'. ov_get env s = Ok (x, s')"
proof -
  obtain x p where "GetObject (ov_class env) (Available_Overlapped s) = Ok (x, p)"
    using assms GetObject_Ok [of "Available_Overlapped s" "ov_class env"]
    by (auto simp: srv_owns_def)
  then show ?thesis by (simp add: ov_get_def)
qed

lemma ov_get_at:
  assumes "srv_owns held s" and "ov_get env s = Ok (x, s')"
    and "y \<in> set held \<union> set (in_flight (ssys s))"
  shows "ov_at s' y = ov_at s y"
proof -
  from assms(2) obtain p where get: "GetObject (ov_class env) (Available_Overlapped s) = Ok (x, p)"
    and s': "s' = s\<lparr>Available_Overlapped := p\<rparr>"
    by (auto simp: ov_get_def bindE_eq_Ok_iff)
  have "y < obj_next (Available_Overlapped s)"
    using assms(1,3) by (auto simp: srv_owns_def op_owns_def pool_ok_def)
  from GetObject_mem(1) [OF get this] show ?thesis
    by (simp add: s' ov_at_def)
qed

lemma srv_owns_reset:
  assumes "srv_owns (x # held) s"
  shows "srv_owns held (ov_reset env x s)"
proof -
  have "op.owns (held @ in_flight (ssys s)) (ResetObject (ov_class env) x (Available_Overlapped s))"
    using assms by (intro op.owns_put) (simp add: srv_owns_def)
  moreover have "ov_ok (ov_at s x)"
    using assms by (intro srv_owns_known [THEN conjunct2]) auto
  then have "ovs_ok (ov_reset env x s)"
    using assms by (auto simp: srv_owns_def ovs_ok_def ov_reset_def ov_at_def ov_class_def ov_ok_reset)
  ultimately show ?thesis
    using assms by (simp add: srv_owns_def ov_reset_def)
qed

lemma srv_owns_async:
  assumes "srv_owns (x # held) s" and "srv_async env c x s = (r, s')"
  shows "goes_in_flight r \<Longrightarrow> srv_owns held s'" and "\<not> goes_in_flight r \<Longrightarrow> srv_owns (x # held) s'"
proof -
  have s': "s' = snd (srv_async env c x s)" and r: "r = fst (srv_async env c x s)"
    using assms(2) by simp_all
  note fl = srv_async_in_flight [of env c x s]
  have "mset (held @ x # in_flight (ssys s)) = mset ((x # held) @ in_flight (ssys s))"
    by simp
  then show "goes_in_flight r \<Longrightarrow> srv_owns held s'"
    using assms(1) op.owns_mset fl unfolding s' r by (fastforce simp: srv_owns_def ovs_ok_def)
  show "\<not> goes_in_flight r \<Longrightarrow> srv_owns (x # held) s'"
    using assms(1) fl unfolding s' r by (simp add: srv_owns_def ovs_ok_def)
qed

lemma srv_owns_drop: "srv_owns (x # held) s \<Longrightarrow> srv_owns held s"
  using op.owns_drop by (fastforce simp: srv_owns_def)

lemma srv_owns_mset: "mset held = mset held' \<Longrightarrow> srv_owns held s = srv_owns held' s"
  unfolding srv_owns_def by (metis op.owns_mset mset_append)

section \<open>Structures in flight\<close>

text \<open>\<open>flight_kept s s'\<close>: what was in flight is still in flight and its memory untouched.\<close>

definition flight_kept :: "server \<Rightarrow> server \<Rightarrow> bool" where
  "flight_kept s s' \<longleftrightarrow> set (in_flight (ssys s)) \<subseteq> set (in_flight (ssys s'))
     \<and> (\<forall>y \<in> set (in_flight (ssys s)). ov_at s' y = ov_at s y)"

lemma flight_kept_refl [simp, intro]: "flight_kept s s"
  by (simp add: flight_kept_def)

lemma flight_kept_trans [trans]: "flight_kept s s' \<Longrightarrow> flight_kept s' s'' \<Longrightarrow> flight_kept s s''"
  by (auto simp: flight_kept_def)

text \<open>\<open>new_flights k s s'\<close>: what is in flight and was not before is an operation on socket \<open>k\<close>.\<close>

definition new_flights :: "sock \<Rightarrow> server \<Rightarrow> server \<Rightarrow> bool" where
  "new_flights k s s' \<longleftrightarrow> (\<forall>y \<in> set (in_flight (ssys s')) - set (in_flight (ssys s)).
     m_Socket (ov_at s' y) = k)"

lemma new_flights_same [simp, intro]: "in_flight (ssys s') = in_flight (ssys s) \<Longrightarrow> new_flights k s s'"
  by (simp add: new_flights_def)

lemma new_flights_trans:
  "new_flights k s s' \<Longrightarrow> new_flights k s' s'' \<Longrightarrow> flight_kept s' s'' \<Longrightarrow> new_flights k s s''"
  unfolding new_flights_def flight_kept_def by (metis DiffD1 DiffD2 DiffI)

lemma new_flights_async:
  "srv_async env c x s = (r, s') \<Longrightarrow> m_Socket (ov_at s x) = k \<Longrightarrow> new_flights k s s'"
  using srv_async_in_flight [of env c x s] ov_at_simps(2) [of env c x s]
  by (auto simp: new_flights_def)

lemma flight_kept_upd:
  assumes "srv_owns (x # held) s"
  shows "flight_kept s (ov_upd x f s)" and "flight_kept s (ov_reset env x s)"
  using assms by (auto simp: flight_kept_def srv_owns_def op_owns_def)

lemma flight_kept_do [simp, intro]: "flight_kept s (srv_do env c s)"
  by (simp add: flight_kept_def)

lemma flight_kept_async: "srv_async env c x s = (r, s') \<Longrightarrow> flight_kept s s'"
  using srv_async_in_flight [of env c x s] ov_at_simps(2) [of env c x s]
  by (auto simp: flight_kept_def)

lemma flight_kept_get:
  assumes "srv_owns held s" and "ov_get env s = Ok (x, s')"
  shows "flight_kept s s'"
  using ov_get_at [OF assms] ov_get_same [OF assms(2)] by (simp add: flight_kept_def)

text \<open>
  A completion packet for \<open>x\<close> is dequeued: the structure comes back to the program, with the bytes
  \<open>data\<close> the system wrote into its buffer.
\<close>

definition complete_io :: "nat \<Rightarrow> byte list \<Rightarrow> server \<Rightarrow> server" where
  "complete_io x data s =
     ov_upd x (\<lambda>v. v\<lparr>m_Buffer := mem_write (m_Buffer v) 0 data\<rparr>)
       (s\<lparr>ssys := sys_complete x (ssys s)\<rparr>)"

lemma complete_io_at:
  "ov_at (complete_io x data s) =
     (ov_at s)(x := (ov_at s x)\<lparr>m_Buffer := mem_write (m_Buffer (ov_at s x)) 0 data\<rparr>)"
  by (simp add: complete_io_def fun_eq_iff)

lemma complete_io_same: "same_but_io s (complete_io x data s)"
  by (simp add: same_but_io_def complete_io_def ov_upd_def)

lemma complete_io_in_flight [simp]:
  "in_flight (ssys (complete_io x data s)) = remove1 x (in_flight (ssys s))"
  by (simp add: complete_io_def sys_complete_def)

lemma complete_io_owns:
  assumes "srv_owns held s" and "x \<in> set (in_flight (ssys s))" and "length data \<le> OVERLAPPED_BUFIZE"
  shows "srv_owns (x # held) (complete_io x data s)"
proof -
  let ?s = "s\<lparr>ssys := sys_complete x (ssys s)\<rparr>"
  have "mset ((x # held) @ remove1 x (in_flight (ssys s))) = mset (held @ in_flight (ssys s))"
    using assms(2) by simp
  then have "srv_owns (x # held) ?s"
    using assms(1) op.owns_mset unfolding srv_owns_def
    by (fastforce simp: sys_complete_def ovs_ok_def)
  moreover have "ov_ok (ov_at s x)"
    using srv_owns_known [OF assms(1), of x] assms(2) by simp
  then have "ov_ok ((ov_at s x)\<lparr>m_Buffer := mem_write (m_Buffer (ov_at s x)) 0 data\<rparr>)"
    using assms(3) by (simp add: ov_ok_def)
  ultimately show ?thesis
    unfolding complete_io_def by (intro srv_owns_upd) simp_all
qed

end
