(* ===== verification/DH_ServerSock.thy ===== *)
theory DH_ServerSock
  imports DH_ServerState
begin

text \<open>
  The socket bookkeeping of \<open>DHServer.cpp\<close>: the pool of socket structures, one for each socket of
  the server for its whole life, and the connected clients, a subset of the pool. \<open>Delete_in_Socket_List\<close>
  takes a client off, \<open>Reuse_Socket\<close> resets its structure and starts a \<open>DisconnectEx\<close> on the socket.
  \<open>maps_ok\<close> is the invariant of the two maps; every operation keeps it, and the outcome of each
  operation is given on every branch.
\<close>

section \<open>The operations\<close>

definition Disconnect_EX :: "os \<Rightarrow> sock \<Rightarrow> nat \<Rightarrow> server \<Rightarrow> server" where
  "Disconnect_EX env Disconnect_Socket ov s =
     (let (r, s) = srv_async env (Sys_DisconnectEx Disconnect_Socket ov) ov s
      in if last_error r \<noteq> WSA_IO_PENDING then srv_do env Sys_WSACleanup s else s)"

definition FindSocketOnClient :: "sock \<Rightarrow> server \<Rightarrow> bool" where
  "FindSocketOnClient Target s = (map_of (g_Connected_Client s) Target \<noteq> None)"

definition AddClientSocket :: "os \<Rightarrow> ptr option \<Rightarrow> server \<Rightarrow> (bool \<times> server) res" where
  "AddClientSocket env psSocket s =
     bindE (assertE env (psSocket \<noteq> None)) (\<lambda>_.
     case psSocket of
       None \<Rightarrow> Fault Null_Deref
     | Some p \<Rightarrow> bindE (sock_at s p) (\<lambda>ss.
         if \<not> FindSocketOnClient (ss_Socket ss) s
         then Ok (True, s\<lparr>g_Connected_Client := hm_insert (ss_Socket ss) p (g_Connected_Client s)\<rparr>)
         else Ok (False, s)))"

definition Reuse_Socket :: "os \<Rightarrow> sock \<Rightarrow> server \<Rightarrow> server res" where
  "Reuse_Socket env Socket s =
     (case map_of (g_Socket_Struct_Pool s) Socket of
        None \<Rightarrow> Fault Null_Deref
      | Some p \<Rightarrow> bindE (sock_at s p) (\<lambda>_.
          let s = sock_upd p (Socket_Struct_ctor\<lparr>ss_Socket := Socket\<rparr>) s;
              s = srv_do env (Sys_Shutdown Socket) s
          in bindE (ov_get env s) (\<lambda>(ov, s).
             let s = ov_upd ov (\<lambda>v. v\<lparr>m_IOType := IOType_Disconnect, m_Socket := Socket\<rparr>) s
             in Ok (Disconnect_EX env Socket ov s))))"

definition Delete_in_Socket_List :: "os \<Rightarrow> sock \<Rightarrow> server \<Rightarrow> server res" where
  "Delete_in_Socket_List env Socket s =
     (case map_of (g_Socket_Struct_Pool s) Socket of
        None \<Rightarrow> bindE (assertE env False) (\<lambda>_. Ok s)
      | Some p \<Rightarrow>
          if map_of (g_Connected_Client s) Socket = None then Fault Spin
          else
            let s = s\<lparr>g_Connected_Client := AList.delete Socket (g_Connected_Client s)\<rparr>
            in bindE (sock_at s p) (\<lambda>ss.
               let s = sock_upd p (ss\<lparr>Is_Available := False\<rparr>) s
               in if g_Debug_Option s = DHDEBUG_SIMPLE
                  then Ok (s\<lparr>g_Exit_User_Count := g_Exit_User_Count s + 1\<rparr>)
                  else Ok s))"

definition Disconnect :: "os \<Rightarrow> sock \<Rightarrow> server \<Rightarrow> (int \<times> server) res" where
  "Disconnect env Socket s =
     bindE (assertE env (Socket \<noteq> INVALID_SOCKET)) (\<lambda>_.
     bindE (assertE env (FindSocketOnClient Socket s)) (\<lambda>_.
     bindE (Delete_in_Socket_List env Socket s) (\<lambda>s.
     bindE (Reuse_Socket env Socket s) (\<lambda>s.
     Ok (LOGIC_SUCCESS, s)))))"

text \<open>
  The sequence the handlers use to drop a client and recycle the structure they hold:
  \<open>Delete_in_Socket_List(s); Reuse_Socket(s); Available_Overlapped->ResetObject(ov)\<close>.
\<close>

definition kick :: "os \<Rightarrow> sock \<Rightarrow> nat \<Rightarrow> server \<Rightarrow> server res" where
  "kick env Socket ov s =
     bindE (Delete_in_Socket_List env Socket s) (\<lambda>s.
     bindE (Reuse_Socket env Socket s) (\<lambda>s. Ok (ov_reset env ov s)))"

section \<open>The invariant of the two maps\<close>

text \<open>
  The pool maps every socket to a live structure of that socket; the connected clients are a part of
  it, at most \<open>MAX_USER_COUNT\<close>.
\<close>

definition maps_ok :: "server \<Rightarrow> bool" where
  "maps_ok s \<longleftrightarrow> hm_distinct (g_Socket_Struct_Pool s) \<and> hm_distinct (g_Connected_Client s)
     \<and> (\<forall>k p. map_of (g_Socket_Struct_Pool s) k = Some p \<longrightarrow>
          k \<noteq> INVALID_SOCKET \<and> (\<exists>ss. socket_mem s p = Some ss \<and> ss_Socket ss = k))
     \<and> (\<forall>k p. map_of (g_Connected_Client s) k = Some p \<longrightarrow>
          map_of (g_Socket_Struct_Pool s) k = Some p)
     \<and> length (g_Connected_Client s) \<le> unat (MAX_USER_COUNT s)"

definition connected :: "server \<Rightarrow> sock set" where
  "connected s = {k. map_of (g_Connected_Client s) k \<noteq> None}"

text \<open>
  Every connected client, except those of \<open>K\<close>, has an available structure, so that its completions
  are handled and not thrown away.
\<close>

definition avail_but :: "sock set \<Rightarrow> server \<Rightarrow> bool" where
  "avail_but K s \<longleftrightarrow> (\<forall>k p. k \<notin> K \<longrightarrow> map_of (g_Connected_Client s) k = Some p \<longrightarrow>
     (\<exists>ss. socket_mem s p = Some ss \<and> Is_Available ss))"

abbreviation avail_ok :: "server \<Rightarrow> bool" where
  "avail_ok \<equiv> avail_but {}"

lemma avail_but_mono: "avail_but K s \<Longrightarrow> K \<subseteq> K' \<Longrightarrow> avail_but K' s"
  by (auto simp: avail_but_def)

lemma maps_ok_poolE:
  assumes "maps_ok s" and "map_of (g_Socket_Struct_Pool s) k = Some p"
  obtains ss where "socket_mem s p = Some ss" and "ss_Socket ss = k" and "k \<noteq> INVALID_SOCKET"
  using assms by (auto simp: maps_ok_def)

lemma maps_ok_connE:
  assumes "maps_ok s" and "map_of (g_Connected_Client s) k = Some p"
  obtains ss where "map_of (g_Socket_Struct_Pool s) k = Some p" and "socket_mem s p = Some ss"
    and "ss_Socket ss = k" and "k \<noteq> INVALID_SOCKET"
  using assms maps_ok_poolE [of s k p] by (auto simp: maps_ok_def)

text \<open>The correspondence is one to one.\<close>

lemma maps_ok_inj:
  assumes "maps_ok s" and "map_of (g_Socket_Struct_Pool s) k = Some p"
    and "map_of (g_Socket_Struct_Pool s) k' = Some p"
  shows "k = k'"
  using assms by (metis maps_ok_poolE option.inject)

lemma maps_ok_cong:
  "g_Socket_Struct_Pool s' = g_Socket_Struct_Pool s \<Longrightarrow>
   g_Connected_Client s' = g_Connected_Client s \<Longrightarrow> socket_mem s' = socket_mem s \<Longrightarrow>
   MAX_USER_COUNT s' = MAX_USER_COUNT s \<Longrightarrow> maps_ok s' = maps_ok s"
  by (simp add: maps_ok_def)

lemma avail_ok_cong:
  "g_Connected_Client s' = g_Connected_Client s \<Longrightarrow> socket_mem s' = socket_mem s \<Longrightarrow>
     avail_but K s' = avail_but K s"
  by (simp add: avail_but_def)

lemma maps_ok_same_io: "same_but_io s s' \<Longrightarrow> maps_ok s' = maps_ok s"
  by (rule maps_ok_cong) (simp_all add: same_but_ioD)

lemma avail_ok_same_io: "same_but_io s s' \<Longrightarrow> avail_but K s' = avail_but K s"
  by (rule avail_ok_cong) (simp_all add: same_but_ioD)

text \<open>Writing the structure of one pooled socket.\<close>

lemma maps_ok_sock_upd:
  assumes "maps_ok s" and "map_of (g_Socket_Struct_Pool s) k = Some p" and "ss_Socket ss = k"
  shows "maps_ok (sock_upd p ss s)"
proof -
  have "k' \<noteq> INVALID_SOCKET \<and> (\<exists>ss'. socket_mem (sock_upd p ss s) p' = Some ss' \<and> ss_Socket ss' = k')"
    if "map_of (g_Socket_Struct_Pool s) k' = Some p'" for k' p'
  proof (cases "p' = p")
    case True
    then have "k' = k"
      using maps_ok_inj [OF assms(1) that] assms(2) by simp
    with True assms(3) show ?thesis
      using maps_ok_poolE [OF assms(1,2)] by (simp add: sock_upd_def)
  next
    case False
    then show ?thesis
      using maps_ok_poolE [OF assms(1) that] by (auto simp: sock_upd_def)
  qed
  then show ?thesis
    using assms(1) unfolding maps_ok_def by (simp add: sock_upd_def)
qed

lemma maps_ok_delete:
  assumes "maps_ok s"
  shows "maps_ok (s\<lparr>g_Connected_Client := AList.delete k (g_Connected_Client s)\<rparr>)"
proof -
  have "length (AList.delete k (g_Connected_Client s)) \<le> length (g_Connected_Client s)"
    by (rule AList.length_delete_le)
  with assms show ?thesis
    by (auto simp: maps_ok_def hm_delete_distinct delete_conv')
qed

lemma maps_ok_insert:
  assumes "maps_ok s" and "map_of (g_Socket_Struct_Pool s) k = Some p"
    and "map_of (g_Connected_Client s) k = None"
    and "length (g_Connected_Client s) < unat (MAX_USER_COUNT s)"
  shows "maps_ok (s\<lparr>g_Connected_Client := hm_insert k p (g_Connected_Client s)\<rparr>)"
proof -
  have "hm_insert k p (g_Connected_Client s) = g_Connected_Client s @ [(k, p)]"
    using assms(3) by (simp add: hm_insert_def)
  moreover have "hm_distinct (hm_insert k p (g_Connected_Client s))"
    using assms(1) by (simp add: maps_ok_def hm_insert_distinct)
  ultimately show ?thesis
    using assms by (auto simp: maps_ok_def map_add_def split: option.splits if_splits)
qed

section \<open>The outcome of the operations\<close>

lemma Disconnect_EX_same: "same_but_io s (Disconnect_EX env k x s)"
proof -
  obtain r s1 where "srv_async env (Sys_DisconnectEx k x) x s = (r, s1)"
    by force
  then show ?thesis
    using same_but_io_prims(5) [of s env "Sys_DisconnectEx k x" x]
    by (auto simp: Disconnect_EX_def intro: same_but_io_trans)
qed

lemma Disconnect_EX_at [simp]: "ov_at (Disconnect_EX env k x s) = ov_at s"
  using ov_at_simps(2) [of env "Sys_DisconnectEx k x" x s]
  by (cases "srv_async env (Sys_DisconnectEx k x) x s") (simp add: Disconnect_EX_def)

lemma Disconnect_EX_owns:
  assumes "srv_owns (x # held) s"
  shows "srv_owns held (Disconnect_EX env k x s)"
proof -
  obtain r s1 where r: "srv_async env (Sys_DisconnectEx k x) x s = (r, s1)"
    by force
  have "srv_owns held s1"
    using srv_owns_async [OF assms r] srv_owns_drop by blast
  with r show ?thesis by (simp add: Disconnect_EX_def)
qed

lemma FindSocketOnClient_iff: "FindSocketOnClient k s \<longleftrightarrow> k \<in> connected s"
  by (simp add: FindSocketOnClient_def connected_def)

text \<open>
  \<open>Delete_in_Socket_List\<close>: for a socket the pool does not know it fails the assertion, or does
  nothing in a release build; for a known one that is not connected it waits forever; for a
  connected one it takes the client off and marks the structure not available.
\<close>

lemma Delete_unknown:
  "map_of (g_Socket_Struct_Pool s) k = None \<Longrightarrow>
     Delete_in_Socket_List env k s = (if debug_build env then Fault Assert_Fail else Ok s)"
  by (simp add: Delete_in_Socket_List_def assertE_def)

lemma Delete_not_connected:
  "map_of (g_Socket_Struct_Pool s) k = Some p \<Longrightarrow> k \<notin> connected s \<Longrightarrow>
     Delete_in_Socket_List env k s = Fault Spin"
  by (simp add: Delete_in_Socket_List_def connected_def)

definition deleted :: "sock \<Rightarrow> server \<Rightarrow> server" where
  "deleted k s =
     (case map_of (g_Socket_Struct_Pool s) k of
        None \<Rightarrow> s
      | Some p \<Rightarrow>
          s\<lparr>g_Connected_Client := AList.delete k (g_Connected_Client s),
            socket_mem := (socket_mem s)(p := map_option (Is_Available_update (\<lambda>_. False)) (socket_mem s p)),
            g_Exit_User_Count :=
              (if g_Debug_Option s = DHDEBUG_SIMPLE then g_Exit_User_Count s + 1
               else g_Exit_User_Count s)\<rparr>)"

lemma Delete_connected:
  assumes "maps_ok s" and "k \<in> connected s"
  shows "Delete_in_Socket_List env k s = Ok (deleted k s)"
proof -
  obtain p where "map_of (g_Connected_Client s) k = Some p"
    using assms(2) by (auto simp: connected_def)
  then obtain ss where "map_of (g_Socket_Struct_Pool s) k = Some p" "socket_mem s p = Some ss"
    using maps_ok_connE [OF assms(1)] by metis
  then show ?thesis
    using \<open>map_of (g_Connected_Client s) k = Some p\<close>
    by (simp add: Delete_in_Socket_List_def deleted_def sock_at_def sock_upd_def)
qed

text \<open>The only ways the function returns normally.\<close>

lemma Delete_OkE:
  assumes "maps_ok s" and "Delete_in_Socket_List env k s = Ok s'"
  obtains "k \<in> connected s" and "s' = deleted k s"
    | "map_of (g_Socket_Struct_Pool s) k = None" and "\<not> debug_build env" and "s' = s"
proof (cases "k \<in> connected s")
  case True
  with assms that(1) show ?thesis by (simp add: Delete_connected)
next
  case False
  with assms(2) that(2) show ?thesis
    by (cases "map_of (g_Socket_Struct_Pool s) k")
      (auto simp: Delete_unknown Delete_not_connected split: if_splits)
qed

lemma deleted_frame [simp]:
  "ov_at (deleted k s) = ov_at s" "ssys (deleted k s) = ssys s" "sheap (deleted k s) = sheap s"
  "Available_Overlapped (deleted k s) = Available_Overlapped s"
  "srv_owns held (deleted k s) = srv_owns held s"
  "g_Socket_Struct_Pool (deleted k s) = g_Socket_Struct_Pool s"
  "Recv_Data_Queue (deleted k s) = Recv_Data_Queue s"
  "Send_Data_Queue (deleted k s) = Send_Data_Queue s"
  "MAX_USER_COUNT (deleted k s) = MAX_USER_COUNT s"
  "g_Debug_Option (deleted k s) = g_Debug_Option s"
  by (auto simp: deleted_def srv_owns_def ovs_ok_def ov_at_def fun_eq_iff split: option.splits)

lemma deleted_connected:
  "maps_ok s \<Longrightarrow> connected (deleted k s) = connected s - {k}"
  by (auto simp: deleted_def connected_def maps_ok_def delete_conv' split: option.splits if_splits)

lemma deleted_maps_ok:
  assumes "maps_ok s"
  shows "maps_ok (deleted k s)"
proof (cases "map_of (g_Socket_Struct_Pool s) k")
  case None
  then show ?thesis using assms by (simp add: deleted_def)
next
  case (Some p)
  then obtain ss where ss: "socket_mem s p = Some ss" "ss_Socket ss = k"
    using assms maps_ok_poolE by metis
  have "maps_ok (sock_upd p (ss\<lparr>Is_Available := False\<rparr>)
      (s\<lparr>g_Connected_Client := AList.delete k (g_Connected_Client s)\<rparr>))"
    using Some ss by (intro maps_ok_sock_upd maps_ok_delete assms) simp_all
  then show ?thesis
    using Some ss by (simp add: deleted_def sock_upd_def maps_ok_def)
qed

lemma deleted_avail_ok:
  assumes "maps_ok s" and "avail_but {k} s" and "k \<in> connected s"
  shows "avail_ok (deleted k s)"
proof (cases "map_of (g_Socket_Struct_Pool s) k")
  case None
  then show ?thesis
    using assms maps_ok_connE [OF assms(1)] by (fastforce simp: connected_def)
next
  case (Some p)
  have "\<exists>ss. socket_mem (deleted k s) p' = Some ss \<and> Is_Available ss"
    if "map_of (g_Connected_Client (deleted k s)) k' = Some p'" for k' p'
  proof -
    have conn: "map_of (g_Connected_Client s) k' = Some p'" and "k' \<noteq> k"
      using that Some by (auto simp: deleted_def delete_conv' split: if_splits)
    then have "p' \<noteq> p"
      using maps_ok_inj [OF assms(1) Some] maps_ok_connE [OF assms(1) conn] by metis
    then show ?thesis
      using assms(2) conn Some \<open>k' \<noteq> k\<close> by (auto simp: avail_but_def deleted_def)
  qed
  then show ?thesis by (simp add: avail_but_def)
qed

text \<open>
  \<open>Reuse_Socket\<close>: a null dereference for a socket the pool does not know; otherwise the structure is
  the constructor's, and one overlapped structure goes into a \<open>DisconnectEx\<close>.
\<close>

lemma Reuse_unknown:
  "map_of (g_Socket_Struct_Pool s) k = None \<Longrightarrow> Reuse_Socket env k s = Fault Null_Deref"
  by (simp add: Reuse_Socket_def)

lemma Reuse_Ok:
  assumes "maps_ok s" and "srv_owns held s" and "map_of (g_Socket_Struct_Pool s) k = Some p"
  shows "\<exists>s'. Reuse_Socket env k s = Ok s'"
proof -
  obtain ss where ss: "socket_mem s p = Some ss"
    using maps_ok_poolE [OF assms(1,3)] by metis
  let ?s1 = "srv_do env (Sys_Shutdown k) (sock_upd p (Socket_Struct_ctor\<lparr>ss_Socket := k\<rparr>) s)"
  have "srv_owns held ?s1"
    using assms(2) by simp
  then obtain x s2 where "ov_get env ?s1 = Ok (x, s2)"
    using ov_get_Ok by blast
  then show ?thesis
    using assms(3) ss by (simp add: Reuse_Socket_def sock_at_def)
qed

lemma Reuse_OkE:
  assumes "Reuse_Socket env k s = Ok s'"
  obtains p x s1 s2 where "map_of (g_Socket_Struct_Pool s) k = Some p"
    and "s1 = srv_do env (Sys_Shutdown k) (sock_upd p (Socket_Struct_ctor\<lparr>ss_Socket := k\<rparr>) s)"
    and "ov_get env s1 = Ok (x, s2)"
    and "s' = Disconnect_EX env k x
           (ov_upd x (\<lambda>v. v\<lparr>m_IOType := IOType_Disconnect, m_Socket := k\<rparr>) s2)"
  using assms by (auto simp: Reuse_Socket_def bindE_eq_Ok_iff Let_def split: option.splits)

lemma Reuse_effect:
  assumes "maps_ok s" and "srv_owns held s" and "Reuse_Socket env k s = Ok s'"
  shows "srv_owns held s'" and "maps_ok s'" and "same_but_io (s\<lparr>socket_mem := socket_mem s'\<rparr>) s'"
    and "\<And>y. y \<in> set held \<union> set (in_flight (ssys s)) \<Longrightarrow> ov_at s' y = ov_at s y"
    and "\<exists>p. map_of (g_Socket_Struct_Pool s) k = Some p
           \<and> socket_mem s' = (socket_mem s)(p \<mapsto> Socket_Struct_ctor\<lparr>ss_Socket := k\<rparr>)"
proof -
  obtain p x s1 s2 where p: "map_of (g_Socket_Struct_Pool s) k = Some p"
    and s1: "s1 = srv_do env (Sys_Shutdown k) (sock_upd p (Socket_Struct_ctor\<lparr>ss_Socket := k\<rparr>) s)"
    and get: "ov_get env s1 = Ok (x, s2)"
    and s': "s' = Disconnect_EX env k x
           (ov_upd x (\<lambda>v. v\<lparr>m_IOType := IOType_Disconnect, m_Socket := k\<rparr>) s2)"
    using Reuse_OkE [OF assms(3)] .
  let ?f = "\<lambda>v. v\<lparr>m_IOType := IOType_Disconnect, m_Socket := k\<rparr>"
  have own1: "srv_owns held s1"
    using assms(2) by (simp add: s1)
  note own2 = srv_owns_get [OF own1 get]
  have "ov_ok (?f (ov_at s2 x))"
    using srv_owns_known [OF own2(1), of x] by (simp add: ov_ok_def)
  then show "srv_owns held s'"
    unfolding s' using own2(1) by (intro Disconnect_EX_owns srv_owns_upd)
  have same1: "same_but_io (sock_upd p (Socket_Struct_ctor\<lparr>ss_Socket := k\<rparr>) s) s1"
    by (simp add: s1)
  have "same_but_io s1 s'"
    unfolding s' using ov_get_same [OF get]
    by (meson Disconnect_EX_same same_but_io_prims(1) same_but_io_trans)
  with same1 have same: "same_but_io (sock_upd p (Socket_Struct_ctor\<lparr>ss_Socket := k\<rparr>) s) s'"
    by (rule same_but_io_trans)
  show "maps_ok s'"
    unfolding maps_ok_same_io [OF same] using assms(1) p by (rule maps_ok_sock_upd) simp
  have mem: "socket_mem s' = (socket_mem s)(p \<mapsto> Socket_Struct_ctor\<lparr>ss_Socket := k\<rparr>)"
    using same_but_ioD(11) [OF same] by (simp add: sock_upd_def)
  with p show "\<exists>p. map_of (g_Socket_Struct_Pool s) k = Some p
       \<and> socket_mem s' = (socket_mem s)(p \<mapsto> Socket_Struct_ctor\<lparr>ss_Socket := k\<rparr>)"
    by blast
  show "same_but_io (s\<lparr>socket_mem := socket_mem s'\<rparr>) s'"
    using same mem by (simp add: sock_upd_def)
  show "ov_at s' y = ov_at s y" if y: "y \<in> set held \<union> set (in_flight (ssys s))" for y
  proof -
    have y1: "y \<in> set held \<union> set (in_flight (ssys s1))"
      using y by (simp add: s1 sock_upd_def)
    moreover have "y \<noteq> x"
      using own2(2,3) y1 by auto
    ultimately show ?thesis
      using ov_get_at [OF own1 get y1] by (simp add: s' s1)
  qed
qed

section \<open>Dropping a client\<close>

text \<open>
  \<open>same_but_sock s s'\<close>: only the overlapped pool, the system, the connected clients, the socket
  structures and the counter of exits may differ.
\<close>

definition same_but_sock :: "server \<Rightarrow> server \<Rightarrow> bool" where
  "same_but_sock s s' \<longleftrightarrow>
     s' = s\<lparr>Available_Overlapped := Available_Overlapped s', ssys := ssys s',
            g_Connected_Client := g_Connected_Client s', socket_mem := socket_mem s',
            g_Exit_User_Count := g_Exit_User_Count s'\<rparr>"

lemma same_but_sock_trans:
  "same_but_sock s s' \<Longrightarrow> same_but_sock s' s'' \<Longrightarrow> same_but_sock s s''"
  unfolding same_but_sock_def by (cases s, cases s', cases s'') simp

lemma same_but_sockD:
  assumes "same_but_sock s s'"
  shows "MAX_USER_COUNT s' = MAX_USER_COUNT s" "Recv_Data_Queue s' = Recv_Data_Queue s"
    "Send_Data_Queue s' = Send_Data_Queue s" "g_Socket_Struct_Pool s' = g_Socket_Struct_Pool s"
    "sheap s' = sheap s" "g_Debug_Option s' = g_Debug_Option s" "g_Is_Exit s' = g_Is_Exit s"
    "g_Listen_Socket s' = g_Listen_Socket s" "PORT s' = PORT s" "g_IOCP s' = g_IOCP s"
    "g_Recv_Total_Packet s' = g_Recv_Total_Packet s"
    "g_Send_Total_Packet s' = g_Send_Total_Packet s"
    "g_Enter_User_Count s' = g_Enter_User_Count s"
  using assms unfolding same_but_sock_def by (cases s, cases s', simp)+

lemma same_but_sock_io: "same_but_io s s' \<Longrightarrow> same_but_sock s s'"
  unfolding same_but_io_def same_but_sock_def by (cases s, cases s') simp

lemma same_but_sock_deleted: "same_but_sock s (deleted k s)"
  by (simp add: same_but_sock_def deleted_def split: option.splits)

lemma same_but_sock_reuse:
  assumes "same_but_io (s\<lparr>socket_mem := socket_mem s'\<rparr>) s'"
  shows "same_but_sock s s'"
  using assms unfolding same_but_io_def same_but_sock_def by (cases s, cases s') simp

text \<open>\<open>Delete_in_Socket_List\<close> and \<open>Reuse_Socket\<close>, as the handlers and \<open>Disconnect\<close> combine them.\<close>

definition drop_client :: "os \<Rightarrow> sock \<Rightarrow> server \<Rightarrow> server res" where
  "drop_client env k s = bindE (Delete_in_Socket_List env k s) (\<lambda>s. Reuse_Socket env k s)"

lemma kick_drop: "kick env k x s = bindE (drop_client env k s) (\<lambda>s. Ok (ov_reset env x s))"
  by (simp add: kick_def drop_client_def bindE_def split: sum.splits)

lemma Disconnect_drop:
  "Disconnect env k s =
     bindE (assertE env (k \<noteq> INVALID_SOCKET)) (\<lambda>_.
     bindE (assertE env (FindSocketOnClient k s)) (\<lambda>_.
     bindE (drop_client env k s) (\<lambda>s. Ok (LOGIC_SUCCESS, s))))"
  by (simp add: Disconnect_def drop_client_def bindE_def split: sum.splits)

lemma drop_client_Ok:
  assumes "maps_ok s" and "srv_owns held s" and "k \<in> connected s"
  shows "\<exists>s'. drop_client env k s = Ok s'"
proof -
  obtain p where p: "map_of (g_Connected_Client s) k = Some p"
    using assms(3) by (auto simp: connected_def)
  then have "map_of (g_Socket_Struct_Pool (deleted k s)) k = Some p"
    using maps_ok_connE [OF assms(1) p] by auto
  from Reuse_Ok [OF deleted_maps_ok [OF assms(1)] _ this, of held env]
  show ?thesis
    using assms by (auto simp: drop_client_def Delete_connected)
qed

lemma drop_client_fault:
  assumes "k \<notin> connected s"
  shows "\<exists>e. drop_client env k s = Fault e"
  using assms
  by (cases "map_of (g_Socket_Struct_Pool s) k")
    (auto simp: drop_client_def Delete_unknown Delete_not_connected Reuse_unknown)

lemma drop_client_effect:
  assumes "maps_ok s" and "avail_but {k} s" and "srv_owns held s" and "drop_client env k s = Ok s'"
  shows "k \<in> connected s" and "srv_owns held s'" and "maps_ok s'" and "avail_ok s'"
    and "connected s' = connected s - {k}" and "same_but_sock s s'"
    and "\<And>y. y \<in> set held \<union> set (in_flight (ssys s)) \<Longrightarrow> ov_at s' y = ov_at s y"
    and "\<And>p ss. socket_mem s p = Some ss \<Longrightarrow>
           \<exists>ss'. socket_mem s' p = Some ss' \<and> ss_Socket ss' = ss_Socket ss"
proof -
  show k: "k \<in> connected s"
    using assms(4) drop_client_fault [of k s env] by auto
  have reuse: "Reuse_Socket env k (deleted k s) = Ok s'"
    using assms(4) Delete_connected [OF assms(1) k] by (simp add: drop_client_def)
  have own: "srv_owns held (deleted k s)"
    using assms(3) by simp
  note eff = Reuse_effect [OF deleted_maps_ok [OF assms(1)] own reuse]
  show "srv_owns held s'" "maps_ok s'"
    using eff(1,2) .
  show "\<And>y. y \<in> set held \<union> set (in_flight (ssys s)) \<Longrightarrow> ov_at s' y = ov_at s y"
    using eff(4) by simp
  show "same_but_sock s s'"
    using same_but_sock_deleted same_but_sock_reuse [OF eff(3)] by (rule same_but_sock_trans)
  have conn: "g_Connected_Client s' = g_Connected_Client (deleted k s)"
    using same_but_ioD(7) [OF eff(3)] by simp
  then show "connected s' = connected s - {k}"
    using deleted_connected [OF assms(1)] by (simp add: connected_def)
  obtain p where p: "map_of (g_Socket_Struct_Pool s) k = Some p"
    and mem: "socket_mem s' = (socket_mem (deleted k s))(p \<mapsto> Socket_Struct_ctor\<lparr>ss_Socket := k\<rparr>)"
    using eff(5) by auto
  have "p' \<noteq> p" if "map_of (g_Connected_Client s') k' = Some p'" for k' p'
  proof -
    have c: "map_of (g_Connected_Client s) k' = Some p'" "k' \<noteq> k"
      using that p by (auto simp: conn deleted_def delete_conv' split: if_splits)
    then show ?thesis
      using maps_ok_inj [OF assms(1) p] maps_ok_connE [OF assms(1) c(1)] by metis
  qed
  then show "avail_ok s'"
    using deleted_avail_ok [OF assms(1,2) k] conn mem by (auto simp: avail_but_def)
  obtain ss0 where "socket_mem s p = Some ss0" "ss_Socket ss0 = k"
    using maps_ok_poolE [OF assms(1) p] by metis
  then show "\<exists>ss'. socket_mem s' p' = Some ss' \<and> ss_Socket ss' = ss_Socket ss"
    if "socket_mem s p' = Some ss" for p' ss
    using that p by (auto simp: mem deleted_def Socket_Struct_ctor_def)
qed

lemma kick_Ok:
  assumes "maps_ok s" and "srv_owns held s" and "k \<in> connected s"
  shows "\<exists>s'. kick env k x s = Ok s'"
  using drop_client_Ok [OF assms, of env] by (auto simp: kick_drop)

lemma kick_effect:
  assumes "maps_ok s" and "avail_but {k} s" and "srv_owns (x # held) s" and "kick env k x s = Ok s'"
  shows "k \<in> connected s" and "srv_owns held s'" and "maps_ok s'" and "avail_ok s'"
    and "connected s' = connected s - {k}" and "same_but_sock s s'"
    and "\<And>y. y \<in> set held \<union> set (in_flight (ssys s)) \<Longrightarrow> ov_at s' y = ov_at s y"
proof -
  obtain s1 where drop: "drop_client env k s = Ok s1" and s': "s' = ov_reset env x s1"
    using assms(4) by (auto simp: kick_drop bindE_eq_Ok_iff)
  note eff = drop_client_effect [OF assms(1-3) drop]
  have same: "same_but_io s1 s'"
    by (simp add: s')
  show "k \<in> connected s" by (rule eff(1))
  show "srv_owns held s'"
    unfolding s' by (rule srv_owns_reset [OF eff(2)])
  show "maps_ok s'" "avail_ok s'"
    using eff(3,4) maps_ok_same_io [OF same] avail_ok_same_io [OF same] by simp_all
  show "connected s' = connected s - {k}"
    using eff(5) same_but_ioD(7) [OF same] by (simp add: connected_def)
  show "same_but_sock s s'"
    using eff(6) same_but_sock_io [OF same] by (rule same_but_sock_trans)
  show "ov_at s' y = ov_at s y" if y: "y \<in> set held \<union> set (in_flight (ssys s))" for y
  proof -
    have "y \<noteq> x"
      using assms(3) y by (auto simp: srv_owns_def op_owns_def)
    then show ?thesis
      using eff(7) [of y] y by (simp add: s')
  qed
qed

text \<open>Dropping a client does not disturb other operations in flight.\<close>

lemma Disconnect_EX_flight: "flight_kept s (Disconnect_EX env k x s)"
proof -
  obtain r s1 where r: "srv_async env (Sys_DisconnectEx k x) x s = (r, s1)"
    by force
  have "flight_kept s1 (srv_do env Sys_WSACleanup s1)"
    by simp
  with flight_kept_async [OF r] r show ?thesis
    by (auto simp: Disconnect_EX_def intro: flight_kept_trans)
qed

lemma Reuse_flight:
  assumes "srv_owns held s" and "Reuse_Socket env k s = Ok s'"
  shows "flight_kept s s'"
proof -
  obtain p x s1 s2 where
    s1: "s1 = srv_do env (Sys_Shutdown k) (sock_upd p (Socket_Struct_ctor\<lparr>ss_Socket := k\<rparr>) s)"
    and get: "ov_get env s1 = Ok (x, s2)"
    and s': "s' = Disconnect_EX env k x
           (ov_upd x (\<lambda>v. v\<lparr>m_IOType := IOType_Disconnect, m_Socket := k\<rparr>) s2)"
    using Reuse_OkE [OF assms(2)] .
  have own: "srv_owns held s1"
    using assms(1) by (simp add: s1)
  have "flight_kept s s1"
    by (simp add: s1 flight_kept_def sock_upd_def)
  also have "flight_kept s1 s2"
    by (rule flight_kept_get [OF own get])
  also have "flight_kept s2 (ov_upd x (\<lambda>v. v\<lparr>m_IOType := IOType_Disconnect, m_Socket := k\<rparr>) s2)"
    by (rule flight_kept_upd(1) [OF srv_owns_get(1) [OF own get]])
  also have "flight_kept \<dots> s'"
    unfolding s' by (rule Disconnect_EX_flight)
  finally show ?thesis .
qed

lemma drop_client_flight:
  assumes "maps_ok s" and "srv_owns held s" and "drop_client env k s = Ok s'"
  shows "flight_kept s s'"
proof -
  obtain s1 where del: "Delete_in_Socket_List env k s = Ok s1" and reuse: "Reuse_Socket env k s1 = Ok s'"
    using assms(3) by (auto simp: drop_client_def bindE_eq_Ok_iff)
  have "s1 = deleted k s \<or> s1 = s"
    using Delete_OkE [OF assms(1) del] by blast
  then have "srv_owns held s1" "flight_kept s s1"
    using assms(2) by (auto simp: flight_kept_def)
  with Reuse_flight [OF _ reuse] show ?thesis
    using flight_kept_trans by blast
qed

lemma kick_flight:
  assumes "maps_ok s" and "avail_but {k} s" and "srv_owns (x # held) s" and "kick env k x s = Ok s'"
  shows "flight_kept s s'"
proof -
  obtain s1 where drop: "drop_client env k s = Ok s1" and s': "s' = ov_reset env x s1"
    using assms(4) by (auto simp: kick_drop bindE_eq_Ok_iff)
  have "srv_owns (x # held) s1"
    using drop_client_effect(2) [OF assms(1-3) drop] .
  then have "flight_kept s1 s'"
    unfolding s' by (rule flight_kept_upd(2))
  with drop_client_flight [OF assms(1,3) drop] show ?thesis
    by (rule flight_kept_trans)
qed

text \<open>What they add to the operations in flight is for the same socket.\<close>

lemma Disconnect_EX_new:
  assumes "m_Socket (ov_at s x) = k"
  shows "new_flights k s (Disconnect_EX env k x s)"
proof -
  obtain r s1 where r: "srv_async env (Sys_DisconnectEx k x) x s = (r, s1)"
    by force
  have "new_flights k s1 (srv_do env Sys_WSACleanup s1)" "flight_kept s1 (srv_do env Sys_WSACleanup s1)"
    by simp_all
  with new_flights_async [OF r assms] r show ?thesis
    by (auto simp: Disconnect_EX_def intro: new_flights_trans)
qed

lemma Reuse_new:
  assumes "srv_owns held s" and "Reuse_Socket env k s = Ok s'"
  shows "new_flights k s s'"
proof -
  obtain p x s1 s2 where
    s1: "s1 = srv_do env (Sys_Shutdown k) (sock_upd p (Socket_Struct_ctor\<lparr>ss_Socket := k\<rparr>) s)"
    and get: "ov_get env s1 = Ok (x, s2)"
    and s': "s' = Disconnect_EX env k x
           (ov_upd x (\<lambda>v. v\<lparr>m_IOType := IOType_Disconnect, m_Socket := k\<rparr>) s2)"
    using Reuse_OkE [OF assms(2)] .
  let ?s3 = "ov_upd x (\<lambda>v. v\<lparr>m_IOType := IOType_Disconnect, m_Socket := k\<rparr>) s2"
  have "in_flight (ssys ?s3) = in_flight (ssys s)"
    using ov_get_same [OF get] by (simp add: s1 sock_upd_def)
  then have "new_flights k s ?s3" by simp
  moreover have "new_flights k ?s3 s'"
    unfolding s' by (rule Disconnect_EX_new) simp
  moreover have "flight_kept ?s3 s'"
    unfolding s' by (rule Disconnect_EX_flight)
  ultimately show ?thesis
    by (rule new_flights_trans)
qed

lemma kick_new:
  assumes "maps_ok s" and "avail_but {k} s" and "srv_owns (x # held) s" and "kick env k x s = Ok s'"
  shows "new_flights k s s'"
proof -
  obtain s1 s2 where del: "Delete_in_Socket_List env k s = Ok s1"
    and reuse: "Reuse_Socket env k s1 = Ok s2" and s': "s' = ov_reset env x s2"
    using assms(4) by (auto simp: kick_def bindE_eq_Ok_iff)
  have "s1 = deleted k s \<or> s1 = s"
    using Delete_OkE [OF assms(1) del] by blast
  then have "srv_owns (x # held) s1" "in_flight (ssys s1) = in_flight (ssys s)"
    and at: "ov_at s1 = ov_at s"
    using assms(3) by auto
  from Reuse_new [OF this(1) reuse] this(2) have "new_flights k s s2"
    by (simp add: new_flights_def)
  moreover have "x \<notin> set (in_flight (ssys s2))"
  proof -
    have "srv_owns (x # held) s2"
      using drop_client_effect(2) [OF assms(1-3), of env s2] del reuse by (simp add: drop_client_def)
    then show ?thesis
      by (simp add: srv_owns_def op_owns_def)
  qed
  ultimately show ?thesis
    by (auto simp: s' new_flights_def)
qed

section \<open>The life cycle of a socket\<close>

text \<open>
  A socket of the pool is connected, or waits in \<open>AcceptEx\<close>, or is being disconnected; it passes
  through these states in turn. \<open>tokens s k\<close> counts how many of them socket \<open>k\<close> is in; the program
  never makes the number grow, so that it stays at most one (and becomes zero when the system
  refuses a call and the socket is lost).
\<close>

definition is_token :: "sock \<Rightarrow> Overlapped_Struct \<Rightarrow> bool" where
  "is_token k v \<longleftrightarrow> m_Socket v = k \<and> (m_IOType v = IOType_Accept \<or> m_IOType v = IOType_Disconnect)"

definition flight_tokens :: "server \<Rightarrow> sock \<Rightarrow> nat" where
  "flight_tokens s k = length (filter (\<lambda>x. is_token k (ov_at s x)) (in_flight (ssys s)))"

definition tokens :: "server \<Rightarrow> sock \<Rightarrow> nat" where
  "tokens s k = (if k \<in> connected s then 1 else 0) + flight_tokens s k"

lemma tokens_flights:
  assumes "in_flight (ssys s') = new @ in_flight (ssys s)" and "flight_kept s s'"
  shows "flight_tokens s' k = length (filter (\<lambda>x. is_token k (ov_at s' x)) new) + flight_tokens s k"
proof -
  have "filter (\<lambda>x. is_token k (ov_at s' x)) (in_flight (ssys s))
      = filter (\<lambda>x. is_token k (ov_at s x)) (in_flight (ssys s))"
    using assms(2) by (intro filter_cong) (auto simp: flight_kept_def)
  with assms(1) show ?thesis by (simp add: flight_tokens_def)
qed

lemma tokens_same:
  assumes "in_flight (ssys s') = in_flight (ssys s)" and "flight_kept s s'"
    and "connected s' = connected s"
  shows "tokens s' k = tokens s k"
  using tokens_flights [of s' "[]" s k] assms by (simp add: tokens_def)

lemma tokens_async:
  assumes "srv_async env c x s = (r, s')"
  shows "tokens s' k \<le> tokens s k + (if is_token k (ov_at s x) then 1 else 0)"
proof -
  have s': "s' = snd (srv_async env c x s)"
    using assms by simp
  have fl: "in_flight (ssys s') = (if goes_in_flight r then [x] else []) @ in_flight (ssys s)"
    using srv_async_in_flight [of env c x s] assms by simp
  have at: "ov_at s' = ov_at s"
    unfolding s' by (rule ov_at_simps)
  have "same_but_io s s'"
    unfolding s' by (rule same_but_io_prims)
  then have conn: "connected s' = connected s"
    unfolding connected_def by (simp only: same_but_ioD(7))
  have "flight_tokens s' k \<le> flight_tokens s k + (if is_token k (ov_at s x) then 1 else 0)"
    using tokens_flights [OF fl flight_kept_async [OF assms], of k]
    by (cases "goes_in_flight r"; cases "is_token k (ov_at s x)") (simp_all add: at)
  then show ?thesis
    by (simp add: tokens_def conn)
qed

lemma Disconnect_EX_tokens:
  assumes "m_Socket (ov_at s x) = k"
  shows "tokens (Disconnect_EX env k x s) j \<le> tokens s j + (if j = k then 1 else 0)"
proof -
  obtain r s1 where r: "srv_async env (Sys_DisconnectEx k x) x s = (r, s1)"
    by force
  have "tokens (srv_do env Sys_WSACleanup s1) j = tokens s1 j"
    by (rule tokens_same) (simp_all add: connected_def same_but_ioD(7) [OF same_but_io_prims(3)])
  moreover have "tokens s1 j \<le> tokens s j + (if j = k then 1 else 0)"
    using tokens_async [OF r, of j] assms by (auto simp: is_token_def split: if_splits)
  moreover have "Disconnect_EX env k x s = srv_do env Sys_WSACleanup s1 \<or> Disconnect_EX env k x s = s1"
    using r by (simp add: Disconnect_EX_def)
  ultimately show ?thesis by metis
qed

lemma Reuse_tokens:
  assumes "srv_owns held s" and "Reuse_Socket env k s = Ok s'"
  shows "tokens s' j \<le> tokens s j + (if j = k then 1 else 0)"
proof -
  obtain p x s1 s2 where
    s1: "s1 = srv_do env (Sys_Shutdown k) (sock_upd p (Socket_Struct_ctor\<lparr>ss_Socket := k\<rparr>) s)"
    and get: "ov_get env s1 = Ok (x, s2)"
    and s': "s' = Disconnect_EX env k x
           (ov_upd x (\<lambda>v. v\<lparr>m_IOType := IOType_Disconnect, m_Socket := k\<rparr>) s2)"
    using Reuse_OkE [OF assms(2)] .
  let ?s3 = "ov_upd x (\<lambda>v. v\<lparr>m_IOType := IOType_Disconnect, m_Socket := k\<rparr>) s2"
  have own: "srv_owns held s1"
    using assms(1) by (simp add: s1)
  have "flight_kept s s1"
    by (simp add: s1 flight_kept_def sock_upd_def)
  also have "flight_kept s1 s2"
    by (rule flight_kept_get [OF own get])
  also have "flight_kept s2 ?s3"
    by (rule flight_kept_upd(1) [OF srv_owns_get(1) [OF own get]])
  finally have "flight_kept s ?s3" .
  moreover have "in_flight (ssys ?s3) = in_flight (ssys s)"
    using ov_get_same [OF get] by (simp add: s1 sock_upd_def)
  moreover have "connected s1 = connected s"
    using same_but_ioD(7) [OF same_but_io_prims(3) [of _ env "Sys_Shutdown k"]]
    by (simp add: s1 connected_def sock_upd_def)
  then have "connected ?s3 = connected s"
    using same_but_ioD(7) [OF conjunct1 [OF ov_get_same [OF get]]]
      same_but_ioD(7) [OF same_but_io_prims(1)] by (simp add: connected_def)
  ultimately have "tokens ?s3 j = tokens s j"
    by (intro tokens_same)
  moreover have "tokens s' j \<le> tokens ?s3 j + (if j = k then 1 else 0)"
    unfolding s' by (rule Disconnect_EX_tokens) simp
  ultimately show ?thesis by simp
qed

lemma kick_tokens:
  assumes "maps_ok s" and "avail_but {k} s" and "srv_owns (x # held) s" and "kick env k x s = Ok s'"
  shows "tokens s' j \<le> tokens s j"
proof -
  obtain s2 where drop: "drop_client env k s = Ok s2" and s': "s' = ov_reset env x s2"
    using assms(4) by (auto simp: kick_drop bindE_eq_Ok_iff)
  note eff = drop_client_effect [OF assms(1-3) drop]
  have reuse: "Reuse_Socket env k (deleted k s) = Ok s2"
    using drop Delete_connected [OF assms(1) eff(1)] by (simp add: drop_client_def)
  have "srv_owns (x # held) (deleted k s)"
    using assms(3) by simp
  from Reuse_tokens [OF this reuse] have "tokens s2 j \<le> tokens (deleted k s) j + (if j = k then 1 else 0)" .
  also have "\<dots> = tokens s j"
    using deleted_connected [OF assms(1)] eff(1) by (auto simp: tokens_def flight_tokens_def)
  finally have "tokens s2 j \<le> tokens s j" .
  moreover have "tokens s' j = tokens s2 j"
    unfolding s'
    by (rule tokens_same) (simp_all add: flight_kept_upd(2) [OF eff(2)] connected_def
        same_but_ioD(7) [OF same_but_io_prims(2)])
  ultimately show ?thesis by simp
qed

end
