(* ===== verification/DH_Queues.thy ===== *)
theory DH_Queues
  imports DH_Heap
begin

text \<open>
  The receive and the send queue over the free store. A receive queue holds addresses of
  \<open>Network_Message\<close>s, each owning its packet; a send queue holds addresses of packets. \<open>queues_ok\<close>
  says that all these blocks are live, hold what they should, and are owned once, so that neither
  queue ever reads a released block or releases one twice. \<open>recv_view\<close> and \<open>send_view\<close> are the
  abstract contents. The server and the client both build on these lemmas, which rest on the
  contract \<open>hp\<close> of the free store.
\<close>

section \<open>Definitions\<close>

definition msg_packet :: "heap \<Rightarrow> ptr \<Rightarrow> ptr list" where
  "msg_packet h p = (case cells h p of Some (Net_Msg sk q) \<Rightarrow> [q] | _ \<Rightarrow> [])"

definition heap_refs :: "heap \<Rightarrow> ptr list \<Rightarrow> ptr list \<Rightarrow> ptr list" where
  "heap_refs h rq sq = concat (map (\<lambda>p. p # msg_packet h p) rq) @ sq"

definition packet_view :: "heap \<Rightarrow> ptr \<Rightarrow> packet" where
  "packet_view h q = (case cells h q of Some (Packet_Block bs) \<Rightarrow> decode_packet bs | _ \<Rightarrow> (0, []))"

definition msg_view :: "heap \<Rightarrow> ptr \<Rightarrow> sock \<times> packet" where
  "msg_view h p = (case cells h p of Some (Net_Msg sk q) \<Rightarrow> (sk, packet_view h q) | _ \<Rightarrow> (0, 0, []))"

definition recv_view :: "heap \<Rightarrow> ptr list \<Rightarrow> (sock \<times> packet) list" where
  "recv_view h rq = map (msg_view h) rq"

definition send_view :: "heap \<Rightarrow> ptr list \<Rightarrow> packet list" where
  "send_view h sq = map (packet_view h) sq"

definition packet_at :: "heap \<Rightarrow> ptr \<Rightarrow> bool" where
  "packet_at h q \<longleftrightarrow> (\<exists>p. packet_ok p \<and> cells h q = Some (Packet_Block (encode_packet p)))"

definition msg_at :: "heap \<Rightarrow> ptr \<Rightarrow> bool" where
  "msg_at h m \<longleftrightarrow> (\<exists>sk q. cells h m = Some (Net_Msg sk q) \<and> packet_at h q)"

definition queues_ok :: "heap \<Rightarrow> ptr list \<Rightarrow> ptr list \<Rightarrow> bool" where
  "queues_ok h rq sq \<longleftrightarrow> heap_ok h \<and> distinct (heap_refs h rq sq)
     \<and> (\<forall>m \<in> set rq. msg_at h m) \<and> (\<forall>q \<in> set sq. packet_at h q)"

section \<open>Reading through the queues\<close>

lemma decode_encode [simp]: "packet_ok p \<Longrightarrow> decode_packet (encode_packet p) = p"
proof -
  assume "packet_ok p"
  then have "unat (word_of_nat (length (snd p)) :: u64) = length (snd p)"
    by (simp add: packet_ok_def packet_size_def unat_of_nat64)
  then show ?thesis
    using read_u16_encode [of p "[]"] read_u64_encode [of p "[]"]
    by (simp add: decode_packet_def prod_eq_iff) (simp add: encode_packet_def)
qed

lemma packet_atI:
  "packet_ok p \<Longrightarrow> cells h q = Some (Packet_Block (encode_packet p)) \<Longrightarrow> packet_at h q"
  unfolding packet_at_def by blast

lemma packet_atE:
  assumes "packet_at h q"
  obtains p where "packet_ok p" and "cells h q = Some (Packet_Block (encode_packet p))"
    and "packet_view h q = p"
  using assms by (auto simp: packet_at_def packet_view_def)

lemma msg_atE:
  assumes "msg_at h m"
  obtains sk q p where "cells h m = Some (Net_Msg sk q)" and "packet_ok p"
    and "cells h q = Some (Packet_Block (encode_packet p))" and "msg_view h m = (sk, p)"
    and "msg_packet h m = [q]"
  using assms by (auto simp: msg_at_def msg_view_def msg_packet_def elim!: packet_atE)

text \<open>The contents depend only on the blocks the queues own.\<close>

lemma queues_agree:
  assumes "queues_ok h rq sq" and "heap_ok h'"
    and "\<And>p. p \<in> set (heap_refs h rq sq) \<Longrightarrow> cells h' p = cells h p"
  shows "queues_ok h' rq sq" and "recv_view h' rq = recv_view h rq"
    and "send_view h' sq = send_view h sq" and "heap_refs h' rq sq = heap_refs h rq sq"
proof -
  have rq: "msg_at h' m \<and> msg_packet h' m = msg_packet h m \<and> msg_view h' m = msg_view h m"
    if "m \<in> set rq" for m
  proof -
    have "msg_at h m"
      using assms(1) that by (simp add: queues_ok_def)
    then obtain sk q p where m: "cells h m = Some (Net_Msg sk q)" "packet_ok p"
      "cells h q = Some (Packet_Block (encode_packet p))"
      by (rule msg_atE)
    then have "q \<in> set (m # msg_packet h m)"
      by (simp add: msg_packet_def)
    with that have "m \<in> set (heap_refs h rq sq)" "q \<in> set (heap_refs h rq sq)"
      by (auto simp: heap_refs_def)
    then have "cells h' m = cells h m" "cells h' q = cells h q"
      by (simp_all add: assms(3))
    with m packet_atI [of p h' q] show ?thesis
      by (auto simp: msg_at_def msg_packet_def msg_view_def packet_view_def)
  qed
  have sq: "packet_at h' q \<and> packet_view h' q = packet_view h q" if "q \<in> set sq" for q
  proof -
    have "cells h' q = cells h q"
      using that by (intro assms(3)) (simp add: heap_refs_def)
    with assms(1) that show ?thesis
      by (auto simp: queues_ok_def packet_at_def packet_view_def)
  qed
  show refs: "heap_refs h' rq sq = heap_refs h rq sq"
    using rq by (simp add: heap_refs_def cong: map_cong)
  show "recv_view h' rq = recv_view h rq"
    using rq by (simp add: recv_view_def)
  show "send_view h' sq = send_view h sq"
    using sq by (simp add: send_view_def)
  show "queues_ok h' rq sq"
    using assms(1,2) rq sq refs by (simp add: queues_ok_def)
qed

lemma queues_refs_live:
  assumes "queues_ok h rq sq" and "p \<in> set (heap_refs h rq sq)"
  shows "cells h p \<noteq> None"
  using assms by (fastforce simp: queues_ok_def heap_refs_def elim!: msg_atE packet_atE)

section \<open>Allocating and releasing\<close>

lemma queues_alloc:
  assumes "queues_ok h rq sq" and "heap_alloc c h = (q, h')"
  shows "queues_ok h' rq sq" and "recv_view h' rq = recv_view h rq"
    and "send_view h' sq = send_view h sq" and "heap_refs h' rq sq = heap_refs h rq sq"
    and "q \<notin> set (heap_refs h rq sq)" and "cells h' q = Some c"
proof -
  have ok: "heap_ok h"
    using assms(1) by (simp add: queues_ok_def)
  note facts = hp.alloc_ok [OF ok assms(2)] hp.alloc_fresh [OF ok assms(2)]
    hp.alloc_lookup [OF ok assms(2)]
  show new: "q \<notin> set (heap_refs h rq sq)"
    using queues_refs_live [OF assms(1), of q] facts(2) by auto
  have same: "cells h' p = cells h p" if "p \<in> set (heap_refs h rq sq)" for p
    using that new facts(3) by auto
  show "queues_ok h' rq sq" "recv_view h' rq = recv_view h rq" "send_view h' sq = send_view h sq"
    "heap_refs h' rq sq = heap_refs h rq sq"
    using queues_agree [OF assms(1) facts(1) same] by blast+
  show "cells h' q = Some c"
    using facts(3) by simp
qed

lemma queues_release:
  assumes "queues_ok h rq sq" and "p \<notin> set (heap_refs h rq sq)" and "cells h p = Some c"
  shows "\<exists>h'. heap_free p h = Ok h' \<and> queues_ok h' rq sq \<and> recv_view h' rq = recv_view h rq
           \<and> send_view h' sq = send_view h sq \<and> cells h' = (cells h)(p := None)"
proof -
  have ok: "heap_ok h"
    using assms(1) by (simp add: queues_ok_def)
  obtain h' where fr: "heap_free p h = Ok h'"
    using assms(3) heap_free_eq by blast
  note facts = hp.release_ok [OF ok fr] hp.release_lookup [OF ok fr]
  have same: "cells h' x = cells h x" if "x \<in> set (heap_refs h rq sq)" for x
    using that assms(2) facts(2) by auto
  show ?thesis
    using queues_agree [OF assms(1) facts(1) same] fr facts(2) by blast
qed

text \<open>Pushing a received packet: the packet block, then the message block.\<close>

lemma queues_push_recv:
  assumes "queues_ok h rq sq" and "heap_alloc (Packet_Block (encode_packet p)) h = (q, h1)"
    and "heap_alloc (Net_Msg sk q) h1 = (m, h2)" and "packet_ok p"
  shows "queues_ok h2 (rq @ [m]) sq" and "recv_view h2 (rq @ [m]) = recv_view h rq @ [(sk, p)]"
    and "send_view h2 sq = send_view h sq"
proof -
  note a1 = queues_alloc [OF assms(1,2)]
  note a2 = queues_alloc [OF a1(1) assms(3)]
  have ok1: "heap_ok h1"
    using a1(1) by (simp add: queues_ok_def)
  have q: "cells h2 q = Some (Packet_Block (encode_packet p))" "q \<noteq> m"
    using hp.alloc_keeps [OF ok1 assms(3) a1(6)] by auto
  have m: "msg_at h2 m" "msg_packet h2 m = [q]" "msg_view h2 m = (sk, p)"
    using a2(6) q packet_atI [OF assms(4) q(1)] assms(4)
    by (simp_all add: msg_at_def msg_packet_def msg_view_def packet_view_def)
  have "distinct (m # q # heap_refs h2 rq sq)"
    using a1(4,5) a2(1,4,5) q(2) by (auto simp: queues_ok_def)
  then have "distinct (heap_refs h2 (rq @ [m]) sq)"
    using m(2) by (auto simp: heap_refs_def)
  then show "queues_ok h2 (rq @ [m]) sq"
    using a2(1) m(1) by (auto simp: queues_ok_def)
  show "recv_view h2 (rq @ [m]) = recv_view h rq @ [(sk, p)]"
    using a1(2) a2(2) m(3) by (simp add: recv_view_def)
  show "send_view h2 sq = send_view h sq"
    using a1(3) a2(3) by simp
qed

lemma queues_push_send:
  assumes "queues_ok h rq sq" and "heap_alloc (Packet_Block (encode_packet p)) h = (q, h1)"
    and "packet_ok p"
  shows "queues_ok h1 rq (sq @ [q])" and "recv_view h1 rq = recv_view h rq"
    and "send_view h1 (sq @ [q]) = send_view h sq @ [p]"
proof -
  note a1 = queues_alloc [OF assms(1,2)]
  have "heap_refs h1 rq (sq @ [q]) = heap_refs h1 rq sq @ [q]"
    by (simp add: heap_refs_def)
  then have "distinct (heap_refs h1 rq (sq @ [q]))"
    using a1(1,4,5) by (simp add: queues_ok_def)
  then show "queues_ok h1 rq (sq @ [q])"
    using a1(1) packet_atI [OF assms(3) a1(6)] by (auto simp: queues_ok_def)
  show "recv_view h1 rq = recv_view h rq"
    by (rule a1(2))
  show "send_view h1 (sq @ [q]) = send_view h sq @ [p]"
    using a1(3,6) assms(3) by (simp add: send_view_def packet_view_def)
qed

text \<open>Taking the first element off, with and without releasing its blocks.\<close>

lemma queues_pop_recv:
  assumes "queues_ok h (m # rq) sq"
  obtains sk q p where "heap_msg m h = Ok (sk, q)" and "heap_packet q h = Ok (encode_packet p)"
    and "packet_ok p" and "recv_view h (m # rq) = (sk, p) # recv_view h rq"
    and "queues_ok h rq sq" and "m \<notin> set (heap_refs h rq sq)" and "q \<notin> set (heap_refs h rq sq)"
    and "m \<noteq> q"
proof -
  have "msg_at h m"
    using assms by (simp add: queues_ok_def)
  then obtain sk q p where m: "cells h m = Some (Net_Msg sk q)" "packet_ok p"
    "cells h q = Some (Packet_Block (encode_packet p))" "msg_view h m = (sk, p)"
    "msg_packet h m = [q]"
    by (rule msg_atE)
  have refs: "heap_refs h (m # rq) sq = m # q # heap_refs h rq sq"
    using m(5) by (simp add: heap_refs_def)
  show thesis
  proof (rule that [of sk q p])
    show "heap_msg m h = Ok (sk, q)" "heap_packet q h = Ok (encode_packet p)" "packet_ok p"
      using m by (simp_all add: heap_msg_eq heap_packet_eq)
    show "recv_view h (m # rq) = (sk, p) # recv_view h rq"
      using m(4) by (simp add: recv_view_def)
    show "queues_ok h rq sq" "m \<notin> set (heap_refs h rq sq)" "q \<notin> set (heap_refs h rq sq)" "m \<noteq> q"
      using assms unfolding queues_ok_def refs by auto
  qed
qed

lemma queues_pop_send:
  assumes "queues_ok h rq (q # sq)"
  obtains p where "heap_packet q h = Ok (encode_packet p)" and "packet_ok p"
    and "send_view h (q # sq) = p # send_view h sq"
    and "queues_ok h rq sq" and "q \<notin> set (heap_refs h rq sq)"
    and "cells h q = Some (Packet_Block (encode_packet p))"
proof -
  have "packet_at h q"
    using assms by (simp add: queues_ok_def)
  then obtain p where p: "packet_ok p" "cells h q = Some (Packet_Block (encode_packet p))"
    "packet_view h q = p"
    by (rule packet_atE)
  show thesis
  proof (rule that [of p])
    show "heap_packet q h = Ok (encode_packet p)" "packet_ok p"
      "cells h q = Some (Packet_Block (encode_packet p))"
      using p by (simp_all add: heap_packet_eq)
    show "send_view h (q # sq) = p # send_view h sq"
      using p(3) by (simp add: send_view_def)
    show "queues_ok h rq sq" "q \<notin> set (heap_refs h rq sq)"
      using assms by (auto simp: queues_ok_def heap_refs_def)
  qed
qed

lemma queues_ok_empty: "queues_ok empty_heap [] []"
  by (simp add: queues_ok_def heap_refs_def)

lemma queues_ok_drop_recv: "queues_ok h rq sq \<Longrightarrow> queues_ok h [] sq"
  by (auto simp: queues_ok_def heap_refs_def)

end
