(* ===== verification/DH_ServerRecv.thy ===== *)
theory DH_ServerRecv
  imports DH_ServerSock DH_Queues
begin

text \<open>
  The receive path of \<open>DHServer.cpp\<close>: \<open>Reserve_WSAReceive\<close>, \<open>BackUp_Overlapped\<close>, \<open>Push_RecvData\<close>,
  the loop of \<open>IOFunction_Recv\<close> and \<open>IOFunction_Recv\<close> itself, and \<open>Recv\<close>, which hands the queue to
  the application. \<open>IOFunction_Recv_outcome\<close> gives the outcome of the handler for every byte sequence,
  by the abstract parser \<open>spec_parse\<close>; the loop's part of it is an interpretation of the contract
  \<open>receive_loop\<close>.
\<close>

section \<open>The operations\<close>

definition Reserve_WSAReceive :: "os \<Rightarrow> sock \<Rightarrow> nat option \<Rightarrow> server \<Rightarrow> (bool \<times> server) res" where
  "Reserve_WSAReceive env socket psOverlapped s =
     bindE (assertE env (INVALID_SOCKET \<noteq> socket)) (\<lambda>_.
     bindE (case psOverlapped of None \<Rightarrow> ov_get env s | Some x \<Rightarrow> Ok (x, s)) (\<lambda>(x, s).
       let s = ov_upd x (\<lambda>v. v\<lparr>m_IOType := IOType_Recv, m_Socket := socket,
                               m_WSABUF_len := word_of_nat OVERLAPPED_BUFIZE\<rparr>) s;
           (iResult, s) = srv_async env (Sys_WSARecv socket x OVERLAPPED_BUFIZE) x s
       in if \<not> ret_ok iResult \<and> last_error iResult \<noteq> WSA_IO_PENDING then Ok (False, s)
          else Ok (True, s)))"

definition BackUp_Overlapped :: "os \<Rightarrow> nat \<Rightarrow> server \<Rightarrow> (bool \<times> server) res" where
  "BackUp_Overlapped env x s =
     (let v = ov_at s x in
      if word_of_nat MAX_PACKET_SIZE < m_Processed_Packet_Size v + m_Data_Size v
      then bindE (assertE env False) (\<lambda>_. Ok (False, s))
      else bindE (memcpy_s (m_Processing_Packet_Buffer v) (unat (m_Processed_Packet_Size v))
                    (unat (word_of_nat MAX_PACKET_SIZE - m_Processed_Packet_Size v))
                    (m_Buffer v) (unat (m_Data_Size v)))
             (\<lambda>buf. Ok (True, ov_upd x (ov_append buf) s)))"

definition Push_RecvData ::
    "os \<Rightarrow> ptr \<Rightarrow> ptr \<Rightarrow> nat \<Rightarrow> u64 \<Rightarrow> server \<Rightarrow> (bool \<times> server) res" where
  "Push_RecvData env Data_Packet psSocket x Pull_Size s =
     bindE (heap_packet Data_Packet (sheap s)) (\<lambda>blk.
     bindE (get_Packet_Type blk) (\<lambda>t.
     bindE (sock_at s psSocket) (\<lambda>ss.
       if t = PACKET_TYPE_NONE
       then bindE (heap_free Data_Packet (sheap s)) (\<lambda>h.
            bindE (kick env (ss_Socket ss) x (s\<lparr>sheap := h\<rparr>)) (\<lambda>s. Ok (False, s)))
       else
         let (m, h) = heap_alloc (Net_Msg (ss_Socket ss) Data_Packet) (sheap s);
             s = s\<lparr>sheap := h, Recv_Data_Queue := Recv_Data_Queue s @ [m]\<rparr>;
             buf = m_Processing_Packet_Buffer (ov_at s x)
         in bindE (memcpy_s buf 0 MAX_PACKET_SIZE (drop (unat Pull_Size) buf)
                     (unat (word_of_nat MAX_PACKET_SIZE - Pull_Size)))
              (\<lambda>buf. Ok (True, ov_upd x (ov_pull buf Pull_Size) s)))))"

text \<open>
  The body of the loop: \<open>None\<close> when the loop breaks, otherwise the result of \<open>Push_RecvData\<close>.
\<close>

definition recv_body :: "os \<Rightarrow> nat \<Rightarrow> ptr \<Rightarrow> server \<Rightarrow> (bool \<times> server) res option" where
  "recv_body env x psSocket s =
     (let v = ov_at s x in
      if m_Processed_Packet_Size v \<le> 0 then None
      else if m_Processed_Packet_Size v < word_of_nat PACKET_HEADER_SIZE then None
      else let Packet_Body_Size = read_u64 (m_Processing_Packet_Buffer v);
               Packet_Total_Size = packet_total Packet_Body_Size
           in if m_Processed_Packet_Size v < Packet_Total_Size then None
              else Some (
                bindE (memcpy_s (replicate (unat Packet_Total_Size) 0) 0 (unat Packet_Total_Size)
                         (m_Processing_Packet_Buffer v) (unat Packet_Total_Size)) (\<lambda>blk.
                let (q, h) = heap_alloc (Packet_Block blk) (sheap s)
                in Push_RecvData env q psSocket x Packet_Total_Size (s\<lparr>sheap := h\<rparr>))))"

text \<open>A push that lets the loop go on makes the bytes to process fewer.\<close>

lemma recv_body_less:
  assumes "recv_body env x p s = Some (Ok (True, s'))"
  shows "unat (m_Processed_Packet_Size (ov_at s' x)) < unat (m_Processed_Packet_Size (ov_at s x))"
proof -
  define v where "v = ov_at s x"
  define total where "total = packet_total (read_u64 (m_Processing_Packet_Buffer v))"
  obtain blk where le: "\<not> m_Processed_Packet_Size v < total"
    and blk: "memcpy_s (replicate (unat total) 0) 0 (unat total)
       (m_Processing_Packet_Buffer v) (unat total) = Ok blk"
    and push': "(case heap_alloc (Packet_Block blk) (sheap s) of (q, h) \<Rightarrow>
       Push_RecvData env q p x total (s\<lparr>sheap := h\<rparr>)) = Ok (True, s')"
    using assms unfolding recv_body_def Let_def v_def [symmetric] total_def [symmetric]
    by (auto simp only: bindE_eq_Ok_iff option.inject split: if_splits)
  obtain q h where alloc: "heap_alloc (Packet_Block blk) (sheap s) = (q, h)"
    by force
  with push' have push: "Push_RecvData env q p x total (s\<lparr>sheap := h\<rparr>) = Ok (True, s')"
    by simp
  have "heap_packet q h = Ok blk"
    using alloc by (auto simp: heap_alloc_def heap_packet_def)
  with push obtain t buf where t: "get_Packet_Type blk = Ok t"
    and ov: "ov_at s' x = ov_pull buf total v"
    by (auto simp: Push_RecvData_def Let_def bindE_eq_Ok_iff v_def split: if_splits prod.splits)
  have "length blk = unat total"
    using memcpy_s_OkD [OF blk] by (simp add: mem_write_0)
  then have "0 < unat total"
    using t by (auto simp: get_Packet_Type_def split: if_splits)
  moreover have "unat (m_Processed_Packet_Size v - total) = unat (m_Processed_Packet_Size v) - unat total"
    using le by (intro unat_minus_nowrap64) simp
  moreover have "unat total \<le> unat (m_Processed_Packet_Size v)"
    using le by (simp add: word_le_iff_unat not_less)
  ultimately show ?thesis
    using ov by (auto simp: ov_pull_def v_def)
qed

function recv_loop :: "os \<Rightarrow> nat \<Rightarrow> ptr \<Rightarrow> server \<Rightarrow> (bool \<times> server) res" where
  "recv_loop env x psSocket s =
     (case recv_body env x psSocket s of
        None \<Rightarrow> Ok (True, s)
      | Some (Fault e) \<Rightarrow> Fault e
      | Some (Ok (b, s')) \<Rightarrow> if b then recv_loop env x psSocket s' else Ok (False, s'))"
  by pat_completeness auto
termination
  by (relation "measure (\<lambda>(env, x, p, s). unat (m_Processed_Packet_Size (ov_at s x)))")
    (auto simp: recv_body_less)

declare recv_loop.simps [simp del]

text \<open>The tail of the handler: re-arm the receive, or drop the client.\<close>

definition recv_rearm :: "os \<Rightarrow> nat \<Rightarrow> ptr \<Rightarrow> server \<Rightarrow> server res" where
  "recv_rearm env x psSocket s =
     bindE (Reserve_WSAReceive env (m_Socket (ov_at s x)) (Some x) s) (\<lambda>(ok, s).
       if ok then Ok s
       else bindE (sock_at s psSocket) (\<lambda>ss. kick env (ss_Socket ss) x s))"

definition IOFunction_Recv :: "os \<Rightarrow> u32 \<Rightarrow> nat \<Rightarrow> ptr \<Rightarrow> server \<Rightarrow> server res" where
  "IOFunction_Recv env dwNumberOfBytesTransferred x psSocket s =
     (if dwNumberOfBytesTransferred \<le> 0 then recv_rearm env x psSocket s
      else
        let s = (if g_Debug_Option s = DHDEBUG_SIMPLE
                 then s\<lparr>g_Recv_Total_Packet := g_Recv_Total_Packet s + dwNumberOfBytesTransferred\<rparr>
                 else s);
            s = ov_upd x (\<lambda>v. v\<lparr>m_Data_Size := ucast dwNumberOfBytesTransferred\<rparr>) s
        in bindE (BackUp_Overlapped env x s) (\<lambda>(ok, s).
             if \<not> ok then bindE (sock_at s psSocket) (\<lambda>ss. kick env (ss_Socket ss) x s)
             else bindE (recv_loop env x psSocket s) (\<lambda>(go_on, s).
                    if go_on then recv_rearm env x psSocket s else Ok s)))"

text \<open>
  \<open>Recv\<close>: empties the queue into the application's vector. The message blocks are read and not
  released.
\<close>

primrec recv_drain :: "heap \<Rightarrow> ptr list \<Rightarrow> (sock \<times> ptr) list \<Rightarrow> (sock \<times> ptr) list res" where
  "recv_drain h [] vec = Ok vec"
| "recv_drain h (m # ms) vec = bindE (heap_msg m h) (\<lambda>msg. recv_drain h ms (vec @ [msg]))"

definition Recv :: "(sock \<times> ptr) list \<Rightarrow> server \<Rightarrow> (int \<times> (sock \<times> ptr) list \<times> server) res" where
  "Recv Message_Vec s =
     (if Recv_Data_Queue s = [] then Ok (LOGIC_FAIL, Message_Vec, s)
      else bindE (recv_drain (sheap s) (Recv_Data_Queue s) Message_Vec)
             (\<lambda>vec. Ok (LOGIC_SUCCESS, vec, s\<lparr>Recv_Data_Queue := []\<rparr>)))"

section \<open>Views and the invariant\<close>

definition srv_msgs :: "server \<Rightarrow> (sock \<times> packet) list" where
  "srv_msgs s = recv_view (sheap s) (Recv_Data_Queue s)"

definition srv_sends :: "server \<Rightarrow> (sock \<times> packet) list" where
  "srv_sends s = zip (map fst (Send_Data_Queue s))
                   (send_view (sheap s) (map snd (Send_Data_Queue s)))"

definition srv_queues_ok :: "server \<Rightarrow> bool" where
  "srv_queues_ok s \<longleftrightarrow> queues_ok (sheap s) (Recv_Data_Queue s) (map snd (Send_Data_Queue s))"

text \<open>
  The invariant of the server while a handler holds the overlapped structures of \<open>held\<close>.
\<close>

definition srv_inv :: "nat list \<Rightarrow> server \<Rightarrow> bool" where
  "srv_inv held s \<longleftrightarrow> maps_ok s \<and> avail_ok s \<and> srv_owns held s \<and> srv_queues_ok s"

lemma srv_queues_cong:
  "sheap s' = sheap s \<Longrightarrow> Recv_Data_Queue s' = Recv_Data_Queue s \<Longrightarrow>
   Send_Data_Queue s' = Send_Data_Queue s \<Longrightarrow>
     srv_queues_ok s' = srv_queues_ok s \<and> srv_msgs s' = srv_msgs s \<and> srv_sends s' = srv_sends s"
  by (simp add: srv_queues_ok_def srv_msgs_def srv_sends_def)

lemma srv_queues_sock:
  assumes "same_but_sock s s'"
  shows "srv_queues_ok s' = srv_queues_ok s" "srv_msgs s' = srv_msgs s" "srv_sends s' = srv_sends s"
  using srv_queues_cong [of s' s] same_but_sockD [OF assms] by simp_all

lemma srv_queues_io:
  assumes "same_but_io s s'"
  shows "srv_queues_ok s' = srv_queues_ok s" "srv_msgs s' = srv_msgs s" "srv_sends s' = srv_sends s"
  using srv_queues_sock [OF same_but_sock_io [OF assms]] by simp_all

section \<open>Re-arming the receive\<close>

lemma Reserve_Ok:
  assumes "k \<noteq> INVALID_SOCKET" and "srv_owns held s"
  shows "\<exists>ok s'. Reserve_WSAReceive env k px s = Ok (ok, s')"
proof (cases px)
  case None
  obtain x s1 where "ov_get env s = Ok (x, s1)"
    using ov_get_Ok [OF assms(2)] by blast
  with None assms(1) show ?thesis
    by (auto simp: Reserve_WSAReceive_def split: prod.splits)
next
  case (Some x)
  with assms(1) show ?thesis
    by (auto simp: Reserve_WSAReceive_def split: prod.splits)
qed

lemma Reserve_SomeE:
  assumes "Reserve_WSAReceive env k (Some x) s = Ok (ok, s')"
  obtains r where "srv_async env (Sys_WSARecv k x OVERLAPPED_BUFIZE) x
      (ov_upd x (\<lambda>v. v\<lparr>m_IOType := IOType_Recv, m_Socket := k,
                       m_WSABUF_len := word_of_nat OVERLAPPED_BUFIZE\<rparr>) s) = (r, s')"
    and "ok \<longleftrightarrow> goes_in_flight r"
  using assms by (auto simp: Reserve_WSAReceive_def Let_def bindE_eq_Ok_iff goes_in_flight_def
      split: prod.splits if_splits)

lemma Reserve_effect:
  assumes "srv_owns (x # held) s" and "Reserve_WSAReceive env k (Some x) s = Ok (ok, s')"
  shows "same_but_io s s'" and "srv_owns (if ok then held else x # held) s'"
    and "ok \<Longrightarrow> x \<in> set (in_flight (ssys s'))"
    and "in_flight (ssys s') = (if ok then x # in_flight (ssys s) else in_flight (ssys s))"
    and "ov_at s' = (ov_at s)(x := (ov_at s x)\<lparr>m_IOType := IOType_Recv, m_Socket := k,
           m_WSABUF_len := word_of_nat OVERLAPPED_BUFIZE\<rparr>)"
proof -
  let ?f = "\<lambda>v. v\<lparr>m_IOType := IOType_Recv, m_Socket := k,
              m_WSABUF_len := word_of_nat OVERLAPPED_BUFIZE\<rparr>"
  let ?c = "Sys_WSARecv k x OVERLAPPED_BUFIZE"
  obtain r where r: "srv_async env ?c x (ov_upd x ?f s) = (r, s')" and ok: "ok \<longleftrightarrow> goes_in_flight r"
    using Reserve_SomeE [OF assms(2)] .
  have s': "s' = snd (srv_async env ?c x (ov_upd x ?f s))"
    and r': "r = fst (srv_async env ?c x (ov_upd x ?f s))"
    using r by simp_all
  have "ov_ok (?f (ov_at s x))"
    using srv_owns_known [OF assms(1), of x] by (simp add: ov_ok_def)
  then have "srv_owns (x # held) (ov_upd x ?f s)"
    using assms(1) by (intro srv_owns_upd)
  from srv_owns_async [OF this r] show "srv_owns (if ok then held else x # held) s'"
    using ok by simp
  show "same_but_io s s'"
    unfolding s' by (meson same_but_io_prims same_but_io_trans)
  show fl: "in_flight (ssys s') = (if ok then x # in_flight (ssys s) else in_flight (ssys s))"
    using srv_async_in_flight [of env ?c x "ov_upd x ?f s"] by (simp add: s' ok r')
  show "ok \<Longrightarrow> x \<in> set (in_flight (ssys s'))"
    by (simp add: fl)
  show "ov_at s' = (ov_at s)(x := ?f (ov_at s x))"
    by (simp add: s' fun_eq_iff)
qed

section \<open>The loop\<close>

text \<open>
  \<open>recv_good x p k c s\<close>: \<open>s\<close> is a state of the loop that works on structure \<open>x\<close> for the socket \<open>k\<close>
  whose structure is at \<open>p\<close>, and started in \<open>c\<close>. Only the two processing fields of \<open>x\<close>, the heap
  and the receive queue differ from \<open>c\<close>; what was queued in \<open>c\<close> is still queued, and all later
  messages are of socket \<open>k\<close>.
\<close>

definition ov_proc :: "Overlapped_Struct \<Rightarrow> Overlapped_Struct \<Rightarrow> Overlapped_Struct" where
  "ov_proc w v = v\<lparr>m_Processing_Packet_Buffer := m_Processing_Packet_Buffer w,
                  m_Processed_Packet_Size := m_Processed_Packet_Size w\<rparr>"

definition same_but_recv :: "nat \<Rightarrow> server \<Rightarrow> server \<Rightarrow> bool" where
  "same_but_recv x c s \<longleftrightarrow>
     s = c\<lparr>Available_Overlapped := Available_Overlapped s, sheap := sheap s,
           Recv_Data_Queue := Recv_Data_Queue s\<rparr>
     \<and> Available_Overlapped s = pool_write x (ov_proc (ov_at s x)) (Available_Overlapped c)"

lemma same_but_recvD:
  assumes "same_but_recv x c s"
  shows "MAX_USER_COUNT s = MAX_USER_COUNT c" "Send_Data_Queue s = Send_Data_Queue c"
    "g_Socket_Struct_Pool s = g_Socket_Struct_Pool c" "g_Connected_Client s = g_Connected_Client c"
    "socket_mem s = socket_mem c" "ssys s = ssys c" "g_Debug_Option s = g_Debug_Option c"
    "g_Recv_Total_Packet s = g_Recv_Total_Packet c" "g_Listen_Socket s = g_Listen_Socket c"
    "g_Is_Exit s = g_Is_Exit c" "g_Exit_User_Count s = g_Exit_User_Count c"
    "g_Enter_User_Count s = g_Enter_User_Count c"
  using assms unfolding same_but_recv_def by (cases s, cases c, simp)+

lemma ov_proc_simps [simp]:
  "ov_proc w (ov_proc w' v) = ov_proc w v" "ov_proc (ov_proc w v) u = ov_proc w u"
  by (simp_all add: ov_proc_def)

lemma same_but_recv_step:
  assumes "same_but_recv x c s" and "f (ov_at s x) = ov_proc w (ov_at s x)"
  shows "same_but_recv x c (ov_upd x f (s\<lparr>sheap := h, Recv_Data_Queue := q\<rparr>))"
proof -
  let ?A = "pool_write x (ov_proc (ov_at s x)) (Available_Overlapped c)"
  have s: "s = c\<lparr>Available_Overlapped := ?A, sheap := sheap s, Recv_Data_Queue := Recv_Data_Queue s\<rparr>"
    and A: "Available_Overlapped s = ?A"
    using assms(1) unfolding same_but_recv_def by metis+
  have at: "ov_at s x = ov_proc (ov_at s x) (ov_at c x)"
    using A by (simp add: ov_at_def) (metis fun_upd_same object_pool.select_convs(4) ov_at_def
        pool_write_fields(5))
  let ?s' = "ov_upd x f (s\<lparr>sheap := h, Recv_Data_Queue := q\<rparr>)"
  have "f (ov_at s x) = ov_proc w (ov_at c x)"
    using assms(2) at by (metis ov_proc_simps(1))
  moreover have "Available_Overlapped ?s' = pool_write x f ?A"
    by (simp add: ov_upd_def A)
  ultimately have A': "Available_Overlapped ?s' = pool_write x (ov_proc w) (Available_Overlapped c)"
    using at by (simp add: pool_write_def ov_at_def [of c])
  have "?s' = c\<lparr>Available_Overlapped := Available_Overlapped ?s', sheap := h, Recv_Data_Queue := q\<rparr>"
    by (subst s) (simp add: ov_upd_def A)
  moreover have "sheap ?s' = h" "Recv_Data_Queue ?s' = q"
    by (simp_all add: ov_upd_def)
  moreover have "ov_at ?s' x = ov_proc w (ov_at s x)"
    using assms(2) by simp
  ultimately show ?thesis
    using A' by (simp add: same_but_recv_def)
qed

definition recv_good :: "nat \<Rightarrow> ptr \<Rightarrow> sock \<Rightarrow> server \<Rightarrow> server \<Rightarrow> bool" where
  "recv_good x p k c s \<longleftrightarrow>
     same_but_recv x c s \<and> ov_ok (ov_at s x) \<and> srv_queues_ok s \<and> srv_sends s = srv_sends c
     \<and> (\<exists>ss. socket_mem c p = Some ss \<and> ss_Socket ss = k)
     \<and> take (length (srv_msgs c)) (srv_msgs s) = srv_msgs c
     \<and> (\<forall>m \<in> set (drop (length (srv_msgs c)) (srv_msgs s)). fst m = k)"

definition recv_delivered :: "server \<Rightarrow> server \<Rightarrow> packet list" where
  "recv_delivered c s = map snd (drop (length (srv_msgs c)) (srv_msgs s))"

definition srv_pend :: "nat \<Rightarrow> server \<Rightarrow> byte list" where
  "srv_pend x s = ov_pending (ov_at s x)"

text \<open>The state after a complete packet was pushed, and after one without a type was released.\<close>

definition push_front :: "nat \<Rightarrow> sock \<Rightarrow> server \<Rightarrow> server" where
  "push_front x k s =
     (let v = ov_at s x;
          total = packet_total (read_u64 (m_Processing_Packet_Buffer v));
          (q, h1) = heap_alloc (Packet_Block (take (unat total) (m_Processing_Packet_Buffer v))) (sheap s);
          (m, h2) = heap_alloc (Net_Msg k q) h1
      in ov_upd x (ov_pull (mem_write (m_Processing_Packet_Buffer v) 0
                              (drop (unat total) (m_Processing_Packet_Buffer v))) total)
           (s\<lparr>sheap := h2, Recv_Data_Queue := Recv_Data_Queue s @ [m]\<rparr>))"

definition discard_front :: "server \<Rightarrow> server" where
  "discard_front s =
     s\<lparr>sheap := \<lparr>cells = (cells (sheap s))(next_ptr (sheap s) := None),
                 next_ptr = Suc (next_ptr (sheap s))\<rparr>\<rparr>"

definition recv_kicked :: "os \<Rightarrow> nat \<Rightarrow> sock \<Rightarrow> server \<Rightarrow> (bool \<times> server) res" where
  "recv_kicked env x k s = bindE (kick env k x (discard_front s)) (\<lambda>s. Ok (False, s))"

lemma recv_good_sock:
  assumes "recv_good x p k c s"
  shows "\<exists>ss. socket_mem s p = Some ss \<and> ss_Socket ss = k"
proof -
  have "same_but_recv x c s"
    using assms by (simp add: recv_good_def)
  then have "socket_mem s = socket_mem c"
    by (rule same_but_recvD)
  with assms show ?thesis by (simp add: recv_good_def)
qed

text \<open>What the body does when the front packet is complete.\<close>

lemma recv_body_front:
  assumes "ov_ok (ov_at s x)"
    and "PACKET_HEADER_SIZE + unat (read_u64 (srv_pend x s)) < 2 ^ 64"
    and "PACKET_HEADER_SIZE + unat (read_u64 (srv_pend x s)) \<le> length (srv_pend x s)"
  defines "tot \<equiv> packet_total (read_u64 (m_Processing_Packet_Buffer (ov_at s x)))"
  shows "unat tot = PACKET_HEADER_SIZE + unat (read_u64 (srv_pend x s))"
    and "tot \<le> m_Processed_Packet_Size (ov_at s x)"
    and "take (unat tot) (m_Processing_Packet_Buffer (ov_at s x))
           = encode_packet (decode_packet (srv_pend x s))"
    and "recv_body env x p s =
      (let (q, h) = heap_alloc (Packet_Block (encode_packet (decode_packet (srv_pend x s)))) (sheap s)
       in Some (Push_RecvData env q p x tot (s\<lparr>sheap := h\<rparr>)))"
proof -
  let ?v = "ov_at s x"
  have len: "length (srv_pend x s) = unat (m_Processed_Packet_Size ?v)"
    and buf: "length (m_Processing_Packet_Buffer ?v) = MAX_PACKET_SIZE"
    and max: "unat (m_Processed_Packet_Size ?v) \<le> MAX_PACKET_SIZE"
    using assms(1) by (simp_all add: srv_pend_def length_ov_pending ov_ok_def)
  have head: "PACKET_HEADER_SIZE \<le> unat (m_Processed_Packet_Size ?v)"
    using assms(3) len by simp
  have same: "read_u64 (m_Processing_Packet_Buffer ?v) = read_u64 (srv_pend x s)"
    using pending_header [OF assms(1) head] by (simp add: srv_pend_def)
  show size: "unat tot = PACKET_HEADER_SIZE + unat (read_u64 (srv_pend x s))"
    using assms(2) by (simp add: tot_def same unat_packet_total_nowrap)
  show le: "tot \<le> m_Processed_Packet_Size ?v"
    using assms(3) size len by (simp add: word_le_iff_unat)
  show front: "take (unat tot) (m_Processing_Packet_Buffer ?v)
      = encode_packet (decode_packet (srv_pend x s))"
    using pending_take [OF assms(1), of "unat tot"] le take_eq_encode [OF assms(3)] size
    by (simp add: word_le_iff_unat srv_pend_def)
  have "memcpy_s (replicate (unat tot) 0) 0 (unat tot) (m_Processing_Packet_Buffer ?v) (unat tot)
      = Ok (encode_packet (decode_packet (srv_pend x s)))"
    using le max buf by (simp add: memcpy_s_def mem_write_0 word_le_iff_unat front [symmetric])
  moreover have "\<not> m_Processed_Packet_Size ?v \<le> 0"
    "\<not> m_Processed_Packet_Size ?v < word_of_nat PACKET_HEADER_SIZE"
    using head by (auto simp: PACKET_HEADER_SIZE_def word_less_iff_unat)
  ultimately show "recv_body env x p s =
      (let (q, h) = heap_alloc (Packet_Block (encode_packet (decode_packet (srv_pend x s)))) (sheap s)
       in Some (Push_RecvData env q p x tot (s\<lparr>sheap := h\<rparr>)))"
    using le by (simp add: recv_body_def Let_def tot_def [symmetric] split_def)
qed

lemma get_type_encode: "get_Packet_Type (encode_packet p) = Ok (fst p)"
  using get_Packet_Type_encode [of p "[]"] by simp

text \<open>A complete packet with a type is pushed, and the loop is in a good state again.\<close>

lemma loop_pushes:
  assumes good: "recv_good x p k c s"
    and nowrap: "PACKET_HEADER_SIZE + unat (read_u64 (srv_pend x s)) < 2 ^ 64"
    and full: "PACKET_HEADER_SIZE + unat (read_u64 (srv_pend x s)) \<le> length (srv_pend x s)"
    and type: "read_u16 (drop 8 (srv_pend x s)) \<noteq> PACKET_TYPE_NONE"
  shows "recv_body env x p s = Some (Ok (True, push_front x k s))"
    and "recv_good x p k c (push_front x k s)"
    and "srv_pend x (push_front x k s)
           = drop (PACKET_HEADER_SIZE + unat (read_u64 (srv_pend x s))) (srv_pend x s)"
    and "recv_delivered c (push_front x k s) = recv_delivered c s @ [decode_packet (srv_pend x s)]"
proof -
  let ?v = "ov_at s x" and ?P = "decode_packet (srv_pend x s)"
  let ?tot = "packet_total (read_u64 (m_Processing_Packet_Buffer ?v))"
  let ?buf = "mem_write (m_Processing_Packet_Buffer ?v) 0
                (drop (unat ?tot) (m_Processing_Packet_Buffer ?v))"
  have ok: "ov_ok ?v" and qs: "srv_queues_ok s" and same: "same_but_recv x c s"
    using good by (simp_all add: recv_good_def)
  note front = recv_body_front [OF ok nowrap full]
  note pull = ov_pull_spec [OF ok front(2)]
  have P: "packet_ok ?P"
    using packet_ok_decode [OF nowrap full type] .
  obtain ss where ss: "socket_mem s p = Some ss" "ss_Socket ss = k"
    using recv_good_sock [OF good] by blast
  obtain q h1 where a1: "heap_alloc (Packet_Block (encode_packet ?P)) (sheap s) = (q, h1)"
    by force
  obtain m h2 where a2: "heap_alloc (Net_Msg k q) h1 = (m, h2)"
    by force
  have push: "push_front x k s = ov_upd x (ov_pull ?buf ?tot)
      (s\<lparr>sheap := h2, Recv_Data_Queue := Recv_Data_Queue s @ [m]\<rparr>)"
    by (simp add: push_front_def Let_def front(3) a1 a2)
  have "heap_packet q h1 = Ok (encode_packet ?P)"
    using queues_alloc(6) [OF qs [unfolded srv_queues_ok_def] a1] by (rule heap_packet_eq)
  moreover have "unat (word_of_nat MAX_PACKET_SIZE - ?tot) = MAX_PACKET_SIZE - unat ?tot"
    using front(2) ok by (subst unat_minus_nowrap64)
      (auto simp: word_le_iff_unat ov_ok_def MAX_PACKET_SIZE_def)
  moreover have "fst ?P \<noteq> PACKET_TYPE_NONE"
    using type by (simp add: decode_packet_def)
  ultimately show "recv_body env x p s = Some (Ok (True, push_front x k s))"
    using ss pull(1)
    by (simp add: front(4) a1 a2 Push_RecvData_def get_type_encode sock_at_def push Let_def)
  note qpush = queues_push_recv [OF qs [unfolded srv_queues_ok_def] a1 a2 P]
  have at: "ov_at (push_front x k s) x = ov_pull ?buf ?tot ?v"
    by (simp add: push)
  have msgs: "srv_msgs (push_front x k s) = srv_msgs s @ [(k, ?P)]"
    using qpush(2) by (simp add: srv_msgs_def push ov_upd_def)
  have len: "length (srv_msgs c) \<le> length (srv_msgs s)"
    using good unfolding recv_good_def by (metis length_take min.absorb_iff2 min.cobounded1)
  have "same_but_recv x c (push_front x k s)"
    unfolding push using same
    by (rule same_but_recv_step [where w = "ov_pull ?buf ?tot ?v"]) (simp add: ov_proc_def ov_pull_def)
  moreover have "srv_queues_ok (push_front x k s)" "srv_sends (push_front x k s) = srv_sends s"
    using qpush by (simp_all add: srv_queues_ok_def srv_sends_def push ov_upd_def)
  ultimately show "recv_good x p k c (push_front x k s)"
    using good pull(2) len unfolding recv_good_def at msgs by simp
  show "srv_pend x (push_front x k s)
      = drop (PACKET_HEADER_SIZE + unat (read_u64 (srv_pend x s))) (srv_pend x s)"
    using pull(3) front(1) by (simp add: srv_pend_def at)
  show "recv_delivered c (push_front x k s) = recv_delivered c s @ [?P]"
    using len by (simp add: recv_delivered_def msgs)
qed

text \<open>A complete packet without a type is released, and the client is dropped.\<close>

lemma loop_kicks:
  assumes good: "recv_good x p k c s"
    and nowrap: "PACKET_HEADER_SIZE + unat (read_u64 (srv_pend x s)) < 2 ^ 64"
    and full: "PACKET_HEADER_SIZE + unat (read_u64 (srv_pend x s)) \<le> length (srv_pend x s)"
    and type: "read_u16 (drop 8 (srv_pend x s)) = PACKET_TYPE_NONE"
  shows "recv_body env x p s = Some (recv_kicked env x k s)"
proof -
  let ?P = "decode_packet (srv_pend x s)"
  have ok: "ov_ok (ov_at s x)" and qs: "srv_queues_ok s"
    using good by (simp_all add: recv_good_def)
  note front = recv_body_front [OF ok nowrap full]
  obtain ss where ss: "socket_mem s p = Some ss" "ss_Socket ss = k"
    using recv_good_sock [OF good] by blast
  obtain q h1 where a1: "heap_alloc (Packet_Block (encode_packet ?P)) (sheap s) = (q, h1)"
    by force
  have cell: "cells h1 q = Some (Packet_Block (encode_packet ?P))"
    using queues_alloc(6) [OF qs [unfolded srv_queues_ok_def] a1] .
  have "heap_free q h1 = Ok (h1\<lparr>cells := (cells h1)(q := None)\<rparr>)"
    using cell by (rule heap_free_eq)
  moreover have "h1\<lparr>cells := (cells h1)(q := None)\<rparr> = sheap (discard_front s)"
    using a1 by (auto simp: heap_alloc_def discard_front_def)
  moreover have "fst ?P = PACKET_TYPE_NONE"
    using type by (simp add: decode_packet_def)
  ultimately show ?thesis
    using ss cell
    by (simp add: front(4) a1 Push_RecvData_def heap_packet_eq get_type_encode
        sock_at_def recv_kicked_def discard_front_def)
qed

text \<open>The bytes do not hold a complete packet, or the size of the packet wraps around.\<close>

lemma loop_stops:
  assumes good: "recv_good x p k c s"
    and stop: "length (srv_pend x s) < PACKET_HEADER_SIZE
       \<or> PACKET_HEADER_SIZE + unat (read_u64 (srv_pend x s)) < 2 ^ 64
         \<and> length (srv_pend x s) < PACKET_HEADER_SIZE + unat (read_u64 (srv_pend x s))"
  shows "recv_body env x p s = None"
proof (cases "length (srv_pend x s) < PACKET_HEADER_SIZE")
  case True
  have "length (srv_pend x s) = unat (m_Processed_Packet_Size (ov_at s x))"
    using good by (simp add: srv_pend_def length_ov_pending recv_good_def)
  with True have "m_Processed_Packet_Size (ov_at s x) < word_of_nat PACKET_HEADER_SIZE"
    by (simp add: word_less_iff_unat PACKET_HEADER_SIZE_def)
  then show ?thesis
    by (simp add: recv_body_def Let_def)
next
  case False
  let ?v = "ov_at s x"
  have ok: "ov_ok ?v"
    using good by (simp add: recv_good_def)
  then have len: "length (srv_pend x s) = unat (m_Processed_Packet_Size ?v)"
    by (simp add: srv_pend_def length_ov_pending)
  have "read_u64 (m_Processing_Packet_Buffer ?v) = read_u64 (srv_pend x s)"
    using pending_header [OF ok] False len by (simp add: srv_pend_def)
  then have "m_Processed_Packet_Size ?v
      < packet_total (read_u64 (m_Processing_Packet_Buffer ?v))"
    using stop False len by (simp add: word_less_iff_unat unat_packet_total_nowrap)
  then show ?thesis
    by (simp add: recv_body_def Let_def)
qed

lemma loop_over_reads:
  assumes good: "recv_good x p k c s"
    and long: "PACKET_HEADER_SIZE \<le> length (srv_pend x s)"
    and wrap: "2 ^ 64 \<le> PACKET_HEADER_SIZE + unat (read_u64 (srv_pend x s))"
  shows "recv_body env x p s = Some (Fault Over_Read)"
proof -
  let ?v = "ov_at s x"
  have ok: "ov_ok ?v"
    using good by (simp add: recv_good_def)
  note front = wrapping_front [OF ok long [unfolded srv_pend_def] wrap [unfolded srv_pend_def]]
  obtain blk where blk: "memcpy_s (replicate (unat (packet_total (read_u64 (m_Processing_Packet_Buffer ?v)))) 0) 0
      (unat (packet_total (read_u64 (m_Processing_Packet_Buffer ?v)))) (m_Processing_Packet_Buffer ?v)
      (unat (packet_total (read_u64 (m_Processing_Packet_Buffer ?v)))) = Ok blk"
    "get_Packet_Type blk = Fault Over_Read"
    using front(1) by blast
  obtain q h where a: "heap_alloc (Packet_Block blk) (sheap s) = (q, h)"
    by force
  then have "heap_packet q h = Ok blk"
    by (auto simp: heap_alloc_def heap_packet_def)
  then show ?thesis
    using a blk front(2-4) by (simp add: recv_body_def Let_def Push_RecvData_def)
qed

text \<open>The loop satisfies the contract of a receive loop.\<close>

interpretation srv: receive_loop "recv_loop env x p" "recv_good x p k c" "srv_pend x"
  "recv_delivered c" "push_front x k" "recv_kicked env x k"
  for env x p k c
proof unfold_locales
  fix s
  assume good: "recv_good x p k c s"
  show "recv_loop env x p s = Ok (True, s)" if "length (srv_pend x s) < PACKET_HEADER_SIZE"
    using loop_stops [OF good] that by (subst recv_loop.simps) simp
  show "recv_loop env x p s = Ok (True, s)"
    if "PACKET_HEADER_SIZE \<le> length (srv_pend x s)"
      "PACKET_HEADER_SIZE + unat (read_u64 (srv_pend x s)) < 2 ^ 64"
      "length (srv_pend x s) < PACKET_HEADER_SIZE + unat (read_u64 (srv_pend x s))"
    using loop_stops [OF good] that by (subst recv_loop.simps) simp
  show "recv_loop env x p s = Fault Over_Read"
    if "PACKET_HEADER_SIZE \<le> length (srv_pend x s)"
      "2 ^ 64 \<le> PACKET_HEADER_SIZE + unat (read_u64 (srv_pend x s))"
    using loop_over_reads [OF good that] by (subst recv_loop.simps) simp
  assume full: "PACKET_HEADER_SIZE + unat (read_u64 (srv_pend x s)) < 2 ^ 64"
    "PACKET_HEADER_SIZE + unat (read_u64 (srv_pend x s)) \<le> length (srv_pend x s)"
  show "recv_loop env x p s = recv_kicked env x k s"
    if "read_u16 (drop 8 (srv_pend x s)) = PACKET_TYPE_NONE"
    using loop_kicks [OF good full that]
    by (subst recv_loop.simps)
      (auto simp: recv_kicked_def bindE_def split: sum.splits)
  show "recv_loop env x p s = recv_loop env x p (push_front x k s)
      \<and> recv_good x p k c (push_front x k s)
      \<and> srv_pend x (push_front x k s)
        = drop (PACKET_HEADER_SIZE + unat (read_u64 (srv_pend x s))) (srv_pend x s)
      \<and> recv_delivered c (push_front x k s) = recv_delivered c s @ [decode_packet (srv_pend x s)]"
    if "read_u16 (drop 8 (srv_pend x s)) \<noteq> PACKET_TYPE_NONE"
    using loop_pushes [OF good full that]
    by (subst recv_loop.simps) simp
qed

section \<open>The handler\<close>

text \<open>The state the loop starts in: the counter and the data size are set, the bytes are appended.\<close>

definition recv_start :: "u32 \<Rightarrow> nat \<Rightarrow> server \<Rightarrow> server" where
  "recv_start n x s =
     ov_upd x (\<lambda>v. v\<lparr>m_Data_Size := ucast n\<rparr>)
       (if g_Debug_Option s = DHDEBUG_SIMPLE
        then s\<lparr>g_Recv_Total_Packet := g_Recv_Total_Packet s + n\<rparr> else s)"

definition recv_chunk :: "u32 \<Rightarrow> nat \<Rightarrow> server \<Rightarrow> byte list" where
  "recv_chunk n x s = take (unat n) (m_Buffer (ov_at s x))"

lemma recv_start_at:
  "ov_at (recv_start n x s) = (ov_at s)(x := (ov_at s x)\<lparr>m_Data_Size := ucast n\<rparr>)"
  by (auto simp: recv_start_def fun_eq_iff)

lemma recv_start_fields [simp]:
  "socket_mem (recv_start n x s) = socket_mem s" "sheap (recv_start n x s) = sheap s"
  "Recv_Data_Queue (recv_start n x s) = Recv_Data_Queue s"
  "Send_Data_Queue (recv_start n x s) = Send_Data_Queue s"
  "g_Connected_Client (recv_start n x s) = g_Connected_Client s"
  "g_Socket_Struct_Pool (recv_start n x s) = g_Socket_Struct_Pool s"
  "MAX_USER_COUNT (recv_start n x s) = MAX_USER_COUNT s" "ssys (recv_start n x s) = ssys s"
  "g_Listen_Socket (recv_start n x s) = g_Listen_Socket s"
  "g_Is_Exit (recv_start n x s) = g_Is_Exit s"
  "connected (recv_start n x s) = connected s"
  by (simp_all add: recv_start_def ov_upd_def connected_def)

lemma recv_start_inv: "srv_inv (x # held) s \<Longrightarrow> srv_inv (x # held) (recv_start n x s)"
proof -
  assume inv: "srv_inv (x # held) s"
  have "ov_ok (ov_at s x)"
    using inv srv_owns_known [of "x # held" s x] by (simp add: srv_inv_def)
  then have "srv_owns (x # held) (recv_start n x s)"
    using inv unfolding recv_start_def
    by (intro srv_owns_upd) (simp_all add: srv_inv_def ov_ok_def)
  moreover have "maps_ok (recv_start n x s) = maps_ok s" "avail_ok (recv_start n x s) = avail_ok s"
    by (rule maps_ok_cong avail_ok_cong, simp_all)+
  moreover have "srv_queues_ok (recv_start n x s) = srv_queues_ok s"
    by (intro srv_queues_cong [THEN conjunct1]) simp_all
  ultimately show ?thesis
    using inv by (simp add: srv_inv_def)
qed

lemma unat_ucast_u32: "unat (ucast (n :: u32) :: u64) = unat n"
proof -
  have "unat n < 2 ^ 32"
    using unsigned_less [of n] by simp
  then show ?thesis
    by (simp add: unsigned_ucast_eq take_bit_nat_eq_self)
qed

text \<open>\<open>BackUp_Overlapped\<close> after that: refused when the bytes do not fit, appended otherwise.\<close>

lemma BackUp_effect:
  assumes "ov_ok (ov_at s x)" and "unat n \<le> OVERLAPPED_BUFIZE"
  defines "s0 \<equiv> recv_start n x s"
  shows "MAX_PACKET_SIZE < length (srv_pend x s) + unat n \<Longrightarrow>
           BackUp_Overlapped env x s0 = bindE (assertE env False) (\<lambda>_. Ok (False, s0))"
    and "length (srv_pend x s) + unat n \<le> MAX_PACKET_SIZE \<Longrightarrow>
           \<exists>f. BackUp_Overlapped env x s0 = Ok (True, ov_upd x f s0) \<and> ov_ok (f (ov_at s0 x))
             \<and> ov_pending (f (ov_at s0 x)) = srv_pend x s @ recv_chunk n x s
             \<and> (\<exists>buf. f = ov_append buf)"
proof -
  let ?v = "(ov_at s x)\<lparr>m_Data_Size := ucast n\<rparr>"
  have v: "ov_at s0 x = ?v" "ov_ok ?v" "unat (m_Data_Size ?v) = unat n" "ov_chunk ?v = recv_chunk n x s"
    and pend: "ov_pending ?v = srv_pend x s"
    and len: "length (srv_pend x s) = unat (m_Processed_Packet_Size ?v)"
    using assms(1) length_ov_pending [OF assms(1)]
    by (simp_all add: s0_def recv_start_at ov_ok_def unat_ucast_u32 ov_chunk_def recv_chunk_def
        ov_pending_def srv_pend_def)
  have small: "unat (m_Processed_Packet_Size ?v) \<le> MAX_PACKET_SIZE" "unat n \<le> 2048"
    using v(2) assms(2) by (simp_all add: ov_ok_def OVERLAPPED_BUFIZE_def)
  have add: "unat (m_Processed_Packet_Size ?v + m_Data_Size ?v)
      = unat (m_Processed_Packet_Size ?v) + unat n"
    using small v(3) by (subst unat_plus_nowrap64) (simp_all add: MAX_PACKET_SIZE_def)
  have max: "unat (word_of_nat MAX_PACKET_SIZE :: u64) = MAX_PACKET_SIZE"
    by (simp add: MAX_PACKET_SIZE_def)
  show "BackUp_Overlapped env x s0 = bindE (assertE env False) (\<lambda>_. Ok (False, s0))"
    if "MAX_PACKET_SIZE < length (srv_pend x s) + unat n"
    using that add len max v(1) by (simp add: BackUp_Overlapped_def word_less_iff_unat)
  assume fits: "length (srv_pend x s) + unat n \<le> MAX_PACKET_SIZE"
  define buf where "buf = mem_write (m_Processing_Packet_Buffer ?v)
      (unat (m_Processed_Packet_Size ?v)) (ov_chunk ?v)"
  have "unat (m_Data_Size ?v) \<le> OVERLAPPED_BUFIZE"
    "unat (m_Processed_Packet_Size ?v) + unat (m_Data_Size ?v) \<le> MAX_PACKET_SIZE"
    using assms(2) fits len v(3) by simp_all
  note app = ov_append_spec [OF v(2) this, folded buf_def]
  have room: "unat (word_of_nat MAX_PACKET_SIZE - m_Processed_Packet_Size ?v)
      = MAX_PACKET_SIZE - unat (m_Processed_Packet_Size ?v)"
    using small(1) max by (subst unat_minus_nowrap64) (simp_all add: word_le_iff_unat)
  have "BackUp_Overlapped env x s0 = Ok (True, ov_upd x (ov_append buf) s0)"
    using app(1) add len max fits room unfolding BackUp_Overlapped_def v(1)
    by (simp add: Let_def word_less_iff_unat)
  with app(2,3) v(1,4) pend
  show "\<exists>f. BackUp_Overlapped env x s0 = Ok (True, ov_upd x f s0) \<and> ov_ok (f (ov_at s0 x))
      \<and> ov_pending (f (ov_at s0 x)) = srv_pend x s @ recv_chunk n x s \<and> (\<exists>buf. f = ov_append buf)"
    by (intro exI [of _ "ov_append buf"]) auto
qed

text \<open>The invariant along the loop.\<close>

lemma recv_good_inv:
  assumes "recv_good x p k c s" and "srv_inv (x # held) c"
  shows "srv_inv (x # held) s"
proof -
  have same: "same_but_recv x c s" and ok: "ov_ok (ov_at s x)" and "srv_queues_ok s"
    using assms(1) by (simp_all add: recv_good_def)
  have pool: "Available_Overlapped s = Available_Overlapped (ov_upd x (\<lambda>_. ov_at s x) c)"
    using same by (auto simp: same_but_recv_def ov_upd_def pool_write_def ov_at_def fun_upd_idem_iff)
      (metis fun_upd_same object_pool.select_convs(4) object_pool.surjective object_pool.update_convs(4))
  have "srv_owns (x # held) (ov_upd x (\<lambda>_. ov_at s x) c)"
    using assms(2) ok by (intro srv_owns_upd) (simp_all add: srv_inv_def)
  then have "srv_owns (x # held) s"
    using srv_owns_cong [OF pool] same_but_recvD(6) [OF same] by simp
  moreover have "maps_ok s = maps_ok c" "avail_ok s = avail_ok c"
    by (rule maps_ok_cong avail_ok_cong, simp_all add: same_but_recvD [OF same])+
  ultimately show ?thesis
    using assms(2) \<open>srv_queues_ok s\<close> by (simp add: srv_inv_def)
qed

lemma recv_good_msgs:
  assumes "recv_good x p k c s"
  shows "srv_msgs s = srv_msgs c @ map (Pair k) (recv_delivered c s)"
proof -
  let ?d = "drop (length (srv_msgs c)) (srv_msgs s)"
  have take: "take (length (srv_msgs c)) (srv_msgs s) = srv_msgs c"
    and k: "\<forall>m \<in> set ?d. fst m = k"
    using assms by (simp_all add: recv_good_def)
  have "?d = map (Pair k) (map snd ?d)"
    using k by (rule map_Pair_snd)
  then show ?thesis
    using take by (metis append_take_drop_id recv_delivered_def)
qed

text \<open>
  The outcome of \<open>IOFunction_Recv\<close> on \<open>n\<close> received bytes. Too many bytes: a failed assertion in a
  debug build, the client is dropped in a release build. Otherwise all complete packets are queued
  for the application, in order, and: the receive is re-armed with the incomplete rest pending; or a
  packet without a type drops the client; or a wrapping size makes the handler read past the end of
  the block it allocated.
\<close>

lemma IOFunction_Recv_start:
  assumes "0 < n"
  shows "IOFunction_Recv env n x p s =
    bindE (BackUp_Overlapped env x (recv_start n x s)) (\<lambda>(ok, s).
       if \<not> ok then bindE (sock_at s p) (\<lambda>ss. kick env (ss_Socket ss) x s)
       else bindE (recv_loop env x p s) (\<lambda>(go_on, s).
              if go_on then recv_rearm env x p s else Ok s))"
proof -
  have "\<not> n \<le> 0"
    using assms by (simp add: not_le)
  then show ?thesis
    unfolding IOFunction_Recv_def recv_start_def Let_def by (simp only: if_False)
qed

lemma IOFunction_Recv_too_long:
  assumes "srv_inv (x # held) s" and "socket_mem s p = Some ss" and "0 < n"
    and "unat n \<le> OVERLAPPED_BUFIZE" and "MAX_PACKET_SIZE < length (srv_pend x s) + unat n"
  shows "IOFunction_Recv env n x p s =
    (if debug_build env then Fault Assert_Fail else kick env (ss_Socket ss) x (recv_start n x s))"
proof -
  have "ov_ok (ov_at s x)"
    using assms(1) srv_owns_known [of "x # held" s x] by (simp add: srv_inv_def)
  from BackUp_effect(1) [OF this assms(4,5), of env]
  show ?thesis
    using assms(2) by (simp add: IOFunction_Recv_start [OF assms(3)] assertE_def sock_at_def)
qed

text \<open>The state in which the loop over the packets starts.\<close>

lemma recv_backed_up:
  assumes inv: "srv_inv (x # held) s" and sock: "socket_mem s p = Some ss" "ss_Socket ss = k"
    and n: "0 < n" "unat n \<le> OVERLAPPED_BUFIZE"
    and fits: "length (srv_pend x s) + unat n \<le> MAX_PACKET_SIZE"
  obtains c where "IOFunction_Recv env n x p s =
      bindE (recv_loop env x p c) (\<lambda>(go_on, s). if go_on then recv_rearm env x p s else Ok s)"
    and "srv_inv (x # held) c" and "recv_good x p k c c" and "same_but_io (recv_start n x s) c"
    and "ssys c = ssys s" and "srv_msgs c = srv_msgs s" and "srv_sends c = srv_sends s"
    and "srv_pend x c = srv_pend x s @ recv_chunk n x s"
    and "\<And>y. y \<noteq> x \<Longrightarrow> ov_at c y = ov_at s y" and "m_Socket (ov_at c x) = m_Socket (ov_at s x)"
proof -
  let ?s0 = "recv_start n x s"
  have "ov_ok (ov_at s x)"
    using inv srv_owns_known [of "x # held" s x] by (simp add: srv_inv_def)
  from BackUp_effect(2) [OF this n(2) fits, of env] obtain f buf where
    bk: "BackUp_Overlapped env x ?s0 = Ok (True, ov_upd x f ?s0)" and ok: "ov_ok (f (ov_at ?s0 x))"
    and pend: "ov_pending (f (ov_at ?s0 x)) = srv_pend x s @ recv_chunk n x s"
    and f: "f = ov_append buf"
    by blast
  define c where "c = ov_upd x f ?s0"
  have same: "same_but_io ?s0 c"
    by (simp add: c_def)
  have inv_c: "srv_inv (x # held) c"
    using recv_start_inv [OF inv] ok srv_owns_upd [of "x # held" ?s0 f x]
    by (simp add: srv_inv_def maps_ok_same_io [OF same] avail_ok_same_io [OF same]
        srv_queues_io [OF same]) (simp add: c_def)
  have "same_but_recv x c c"
    by (simp add: same_but_recv_def pool_write_def ov_proc_def ov_at_def)
  then have good: "recv_good x p k c c"
    using inv_c ok sock same_but_ioD(11) [OF same]
    by (simp add: recv_good_def srv_inv_def c_def)
  show thesis
  proof (rule that [OF _ inv_c good same])
    show "IOFunction_Recv env n x p s =
      bindE (recv_loop env x p c) (\<lambda>(go_on, s). if go_on then recv_rearm env x p s else Ok s)"
      by (simp add: IOFunction_Recv_start [OF n(1)] bk c_def)
    show "srv_msgs c = srv_msgs s" "srv_sends c = srv_sends s"
      by (simp_all add: srv_queues_io [OF same]) (simp_all add: srv_msgs_def srv_sends_def)
    show "srv_pend x c = srv_pend x s @ recv_chunk n x s"
      using pend by (simp add: srv_pend_def c_def)
  qed (simp_all add: c_def recv_start_at f ov_append_def)
qed

lemma IOFunction_Recv_outcome:
  assumes inv: "srv_inv (x # held) s" and sock: "socket_mem s p = Some ss" "ss_Socket ss = k"
    and n: "0 < n" "unat n \<le> OVERLAPPED_BUFIZE"
    and fits: "length (srv_pend x s) + unat n \<le> MAX_PACKET_SIZE"
    and parse: "spec_parse (srv_pend x s @ recv_chunk n x s) = (ps, r, e)"
  shows "\<exists>s1 c. srv_inv (x # held) s1 \<and> recv_good x p k c s1
      \<and> same_but_io (recv_start n x s) c \<and> ssys c = ssys s
      \<and> srv_msgs s1 = srv_msgs s @ map (Pair k) ps \<and> srv_sends s1 = srv_sends s
      \<and> (\<forall>y. y \<noteq> x \<longrightarrow> ov_at s1 y = ov_at s y) \<and> m_Socket (ov_at s1 x) = m_Socket (ov_at s x)
      \<and> (case e of
           Need_More \<Rightarrow> srv_pend x s1 = r \<and> IOFunction_Recv env n x p s = recv_rearm env x p s1
         | No_Type \<Rightarrow> IOFunction_Recv env n x p s = kick env k x (discard_front s1)
         | Size_Wraps \<Rightarrow> IOFunction_Recv env n x p s = Fault Over_Read)"
proof -
  obtain c where run: "IOFunction_Recv env n x p s =
      bindE (recv_loop env x p c) (\<lambda>(go_on, s). if go_on then recv_rearm env x p s else Ok s)"
    and inv_c: "srv_inv (x # held) c" and good: "recv_good x p k c c"
    and same: "same_but_io (recv_start n x s) c" "ssys c = ssys s"
    and msgs: "srv_msgs c = srv_msgs s" "srv_sends c = srv_sends s"
    and pend: "srv_pend x c = srv_pend x s @ recv_chunk n x s"
    and at: "\<And>y. y \<noteq> x \<Longrightarrow> ov_at c y = ov_at s y" "m_Socket (ov_at c x) = m_Socket (ov_at s x)"
    by (rule recv_backed_up [OF inv sock n fits, where env = env]) blast
  from srv.loop_outcome [OF good, of _ _ _ env] parse pend obtain s1 where
    s1: "recv_good x p k c s1" "recv_delivered c s1 = recv_delivered c c @ ps"
    and out: "case e of Need_More \<Rightarrow> srv_pend x s1 = r \<and> recv_loop env x p c = Ok (True, s1)
        | Size_Wraps \<Rightarrow> recv_loop env x p c = Fault Over_Read
        | No_Type \<Rightarrow> recv_loop env x p c = recv_kicked env x k s1"
    by metis
  have "bindE (recv_kicked env x k s1) (\<lambda>(go_on, s). if go_on then recv_rearm env x p s else Ok s)
      = kick env k x (discard_front s1)"
    by (simp add: recv_kicked_def bindE_def split: sum.splits)
  with out run have "case e of
        Need_More \<Rightarrow> srv_pend x s1 = r \<and> IOFunction_Recv env n x p s = recv_rearm env x p s1
      | No_Type \<Rightarrow> IOFunction_Recv env n x p s = kick env k x (discard_front s1)
      | Size_Wraps \<Rightarrow> IOFunction_Recv env n x p s = Fault Over_Read"
    by (auto split: parse_end.splits)
  moreover have "recv_delivered c c = []"
    by (simp add: recv_delivered_def)
  then have "srv_msgs s1 = srv_msgs s @ map (Pair k) ps"
    using recv_good_msgs [OF s1(1)] s1(2) msgs by simp
  moreover have "same_but_recv x c s1" and "srv_sends s1 = srv_sends s"
    using s1(1) msgs by (simp_all add: recv_good_def)
  moreover from this(1) have
    pool: "Available_Overlapped s1 = pool_write x (ov_proc (ov_at s1 x)) (Available_Overlapped c)"
    unfolding same_but_recv_def by metis
  have "ov_at s1 y = ov_at s y" if "y \<noteq> x" for y
    using arg_cong [OF pool, of "\<lambda>p. obj_mem p y"] that at(1) by (simp add: ov_at_def [symmetric])
  moreover have "m_Socket (ov_at s1 x) = m_Socket (ov_at s x)"
    using arg_cong [OF pool, of "\<lambda>p. m_Socket (obj_mem p x)"] at(2)
    by (simp add: ov_at_def [symmetric] ov_proc_def)
  ultimately show ?thesis
    using recv_good_inv [OF s1(1) inv_c] s1(1) same by (intro exI [of _ s1] exI [of _ c]) simp
qed

section \<open>The handler keeps the invariant\<close>

lemma srv_inv_io:
  "same_but_io s s' \<Longrightarrow> srv_owns held' s' \<Longrightarrow> srv_inv held s \<Longrightarrow> srv_inv held' s'"
  by (simp add: srv_inv_def maps_ok_same_io avail_ok_same_io srv_queues_io)

lemma kick_inv:
  assumes "srv_inv (x # held) s" and "kick env k x s = Ok s'"
  shows "srv_inv held s'" and "connected s' = connected s - {k}" and "same_but_sock s s'"
    and "flight_kept s s'" and "k \<in> connected s" and "new_flights k s s'"
    and "tokens s' j \<le> tokens s j"
proof -
  have pre: "maps_ok s" "avail_but {k} s" "srv_owns (x # held) s" and qs: "srv_queues_ok s"
    using assms(1) avail_but_mono [of "{}" s "{k}"] by (simp_all add: srv_inv_def)
  note eff = kick_effect [OF pre assms(2)]
  show "srv_inv held s'"
    using eff qs srv_queues_sock [OF eff(6)] by (simp add: srv_inv_def)
  show "connected s' = connected s - {k}" "same_but_sock s s'" "k \<in> connected s"
    using eff by simp_all
  show "flight_kept s s'"
    using kick_flight [OF pre assms(2)] .
  show "new_flights k s s'"
    using kick_new [OF pre assms(2)] .
  show "tokens s' j \<le> tokens s j"
    using kick_tokens [OF pre assms(2)] .
qed

lemma discard_front_inv:
  assumes "srv_inv held s"
  shows "srv_inv held (discard_front s)" and "srv_msgs (discard_front s) = srv_msgs s"
    and "srv_sends (discard_front s) = srv_sends s"
proof -
  let ?h = "sheap s" and ?h' = "sheap (discard_front s)"
  have qs: "queues_ok ?h (Recv_Data_Queue s) (map snd (Send_Data_Queue s))"
    using assms by (simp add: srv_inv_def srv_queues_ok_def)
  obtain q h1 where a: "heap_alloc (Packet_Block []) ?h = (q, h1)"
    by force
  note al = queues_alloc [OF qs a]
  from queues_release [OF al(1) _ al(6)] al(4,5)
  obtain h2 where h2: "heap_free q h1 = Ok h2"
    "queues_ok h2 (Recv_Data_Queue s) (map snd (Send_Data_Queue s))"
    "recv_view h2 (Recv_Data_Queue s) = recv_view h1 (Recv_Data_Queue s)"
    "send_view h2 (map snd (Send_Data_Queue s)) = send_view h1 (map snd (Send_Data_Queue s))"
    by auto
  have "h2 = ?h'"
    using h2(1) a by (auto simp: heap_alloc_def heap_free_def discard_front_def)
  then have views: "srv_queues_ok (discard_front s)" "srv_msgs (discard_front s) = srv_msgs s"
    "srv_sends (discard_front s) = srv_sends s"
    using h2 al by (simp_all add: srv_queues_ok_def srv_msgs_def srv_sends_def)
      (simp_all add: discard_front_def)
  then show "srv_msgs (discard_front s) = srv_msgs s" "srv_sends (discard_front s) = srv_sends s"
    by simp_all
  have "srv_owns held (discard_front s) = srv_owns held s"
    by (rule srv_owns_cong) (simp_all add: discard_front_def)
  moreover have "maps_ok (discard_front s) = maps_ok s" "avail_ok (discard_front s) = avail_ok s"
    by (rule maps_ok_cong avail_ok_cong, simp_all add: discard_front_def)+
  ultimately show "srv_inv held (discard_front s)"
    using assms views by (simp add: srv_inv_def)
qed

text \<open>
  What a handler of an operation on \<open>x\<close> for the socket \<open>k\<close> may do: at most drop \<open>k\<close>. And if \<open>k\<close> is
  still connected after the handler of a receive, a receive is in flight for it again.
\<close>

definition rearmed :: "server \<Rightarrow> sock \<Rightarrow> bool" where
  "rearmed s k \<longleftrightarrow> (\<exists>x \<in> set (in_flight (ssys s)).
     m_IOType (ov_at s x) = IOType_Recv \<and> m_Socket (ov_at s x) = k)"

definition handled :: "sock \<Rightarrow> server \<Rightarrow> server \<Rightarrow> bool" where
  "handled k s s' \<longleftrightarrow> flight_kept s s' \<and> new_flights k s s' \<and> (\<forall>j. tokens s' j \<le> tokens s j)
     \<and> connected s' \<subseteq> connected s \<and> connected s - {k} \<subseteq> connected s'
     \<and> MAX_USER_COUNT s' = MAX_USER_COUNT s \<and> g_Socket_Struct_Pool s' = g_Socket_Struct_Pool s
     \<and> g_Listen_Socket s' = g_Listen_Socket s \<and> srv_sends s' = srv_sends s"

lemma handled_trans: "handled k s s' \<Longrightarrow> handled k s' s'' \<Longrightarrow> handled k s s''"
  unfolding handled_def
  by (elim conjE, intro conjI) (blast intro: flight_kept_trans new_flights_trans order_trans
      | simp | blast)+

lemma handled_refl [simp, intro]: "handled k s s"
  by (simp add: handled_def flight_kept_def new_flights_def)

lemma handled_io:
  "same_but_io s s' \<Longrightarrow> flight_kept s s' \<Longrightarrow> new_flights k s s' \<Longrightarrow>
   (\<And>j. tokens s' j \<le> tokens s j) \<Longrightarrow> handled k s s'"
  by (simp add: handled_def same_but_ioD srv_queues_io connected_def)

lemma handled_kick:
  assumes "srv_inv (x # held) s" and "kick env k x s = Ok s'"
  shows "handled k s s'"
  using kick_inv [OF assms] same_but_sockD [of s s'] srv_queues_sock [of s s']
  by (auto simp: handled_def)

lemma recv_rearm_inv:
  assumes inv: "srv_inv (x # held) s" and sock: "socket_mem s p = Some ss" "ss_Socket ss = k"
    and k: "m_Socket (ov_at s x) = k" and run: "recv_rearm env x p s = Ok s'"
  shows "srv_inv held s'" and "handled k s s'" and "srv_msgs s' = srv_msgs s"
    and "k \<in> connected s' \<Longrightarrow> rearmed s' k"
proof -
  obtain ok s1 where res: "Reserve_WSAReceive env (m_Socket (ov_at s x)) (Some x) s = Ok (ok, s1)"
    and rest: "(if ok then Ok s1 else bindE (sock_at s1 p) (\<lambda>ss. kick env (ss_Socket ss) x s1)) = Ok s'"
    using run by (auto simp: recv_rearm_def bindE_eq_Ok_iff)
  have own: "srv_owns (x # held) s"
    using inv by (simp add: srv_inv_def)
  note eff = Reserve_effect [OF own res]
  have inv1: "srv_inv (if ok then held else x # held) s1"
    using srv_inv_io [OF eff(1,2) inv] .
  have "x \<notin> set (in_flight (ssys s))"
    using own by (simp add: srv_owns_def op_owns_def)
  then have fl: "flight_kept s s1"
    using eff(4,5) by (auto simp: flight_kept_def)
  have "new_flights k s s1"
    using eff(4,5) k by (auto simp: new_flights_def)
  moreover have "tokens s1 j \<le> tokens s j" for j
  proof -
    have "in_flight (ssys s1) = (if ok then [x] else []) @ in_flight (ssys s)"
      by (simp add: eff(4))
    from tokens_flights [OF this fl, of j] have "flight_tokens s1 j = flight_tokens s j"
      by (cases ok) (simp_all add: eff(5) is_token_def)
    then show ?thesis
      using same_but_ioD(7) [OF eff(1)] by (simp add: tokens_def connected_def)
  qed
  ultimately have h1: "handled k s s1"
    by (rule handled_io [OF eff(1) fl])
  have mem: "sock_at s1 p = Ok ss"
    using sock same_but_ioD(11) [OF eff(1)] by (simp add: sock_at_def)
  have "srv_inv held s' \<and> handled k s s' \<and> srv_msgs s' = srv_msgs s
      \<and> (k \<in> connected s' \<longrightarrow> rearmed s' k)"
  proof (cases ok)
    case True
    with rest have "s' = s1" by simp
    moreover have "rearmed s1 k"
      using True eff(3,5) k unfolding rearmed_def by (intro bexI [of _ x]) auto
    ultimately show ?thesis
      using True inv1 h1 srv_queues_io [OF eff(1)] by simp
  next
    case False
    with rest mem sock have kick: "kick env k x s1 = Ok s'" by simp
    have inv1': "srv_inv (x # held) s1"
      using inv1 False by simp
    have "k \<notin> connected s'"
      using kick_inv(2) [OF inv1' kick] by simp
    with False show ?thesis
      using kick_inv(1) [OF inv1' kick] handled_trans [OF h1 handled_kick [OF inv1' kick]]
        srv_queues_sock(2) [OF kick_inv(3) [OF inv1' kick]] srv_queues_io(2) [OF eff(1)] by simp
  qed
  then show "srv_inv held s'" "handled k s s'" "srv_msgs s' = srv_msgs s"
    and "k \<in> connected s' \<Longrightarrow> rearmed s' k"
    by simp_all
qed

text \<open>Everything the handler can return, for every byte sequence.\<close>

lemma recv_start_handled:
  assumes "srv_inv (x # held) s"
  shows "handled k s (recv_start n x s)"
proof -
  have "x \<notin> set (in_flight (ssys s))"
    using assms by (simp add: srv_inv_def srv_owns_def op_owns_def)
  then have "flight_kept s (recv_start n x s)"
    by (auto simp: flight_kept_def recv_start_at)
  moreover from this have "tokens (recv_start n x s) j = tokens s j" for j
    by (intro tokens_same) simp_all
  ultimately show ?thesis
    by (simp add: handled_def srv_sends_def new_flights_same)
qed

text \<open>What the handler leaves behind, on every path.\<close>

definition recv_result :: "sock \<Rightarrow> nat list \<Rightarrow> server \<Rightarrow> server \<Rightarrow> bool" where
  "recv_result k held s s' \<longleftrightarrow> srv_inv held s' \<and> handled k s s'
     \<and> (\<exists>ps. srv_msgs s' = srv_msgs s @ map (Pair k) ps \<and> list_all (fits_buffer MAX_PACKET_SIZE) ps)
     \<and> (k \<in> connected s' \<longrightarrow> rearmed s' k)"

lemma recv_result_rearm:
  assumes inv: "srv_inv (x # held) s1" and sock: "socket_mem s1 p = Some ss" "ss_Socket ss = k"
    and k: "m_Socket (ov_at s1 x) = k" and run: "recv_rearm env x p s1 = Ok s'"
    and h: "handled k s s1" and msgs: "srv_msgs s1 = srv_msgs s @ map (Pair k) ps" "list_all (fits_buffer MAX_PACKET_SIZE) ps"
  shows "recv_result k held s s'"
  using recv_rearm_inv [OF inv sock k run] handled_trans [OF h] msgs by (auto simp: recv_result_def)

lemma recv_result_kick:
  assumes inv: "srv_inv (x # held) s1" and run: "kick env k x s1 = Ok s'"
    and h: "handled k s s1" and msgs: "srv_msgs s1 = srv_msgs s @ map (Pair k) ps" "list_all (fits_buffer MAX_PACKET_SIZE) ps"
  shows "recv_result k held s s'"
proof -
  note ki = kick_inv [OF inv run]
  show ?thesis
    using ki(1,2) srv_queues_sock(2) [OF ki(3)] handled_trans [OF h handled_kick [OF inv run]] msgs
    by (auto simp: recv_result_def srv_msgs_def)
qed

lemma handled_discard:
  assumes "srv_inv held s"
  shows "handled k s (discard_front s)"
proof -
  have "tokens (discard_front s) j = tokens s j" for j
    by (rule tokens_same) (simp_all add: discard_front_def flight_kept_def connected_def)
  then show ?thesis
    using discard_front_inv(3) [OF assms]
    by (simp add: handled_def flight_kept_def connected_def new_flights_def) (simp add: discard_front_def)
qed

lemma handled_parsed:
  assumes inv: "srv_inv (x # held) s" and good: "recv_good x p k c s1"
    and same: "same_but_io (recv_start n x s) c" "ssys c = ssys s" "srv_sends s1 = srv_sends s"
    and at: "\<forall>y. y \<noteq> x \<longrightarrow> ov_at s1 y = ov_at s y"
  shows "handled k s s1" and "socket_mem s1 = socket_mem s"
proof -
  have "same_but_recv x c s1"
    using good by (simp add: recv_good_def)
  note fields = same_but_recvD [OF this] same_but_ioD [OF same(1)]
  have "x \<notin> set (in_flight (ssys s))"
    using inv by (simp add: srv_inv_def srv_owns_def op_owns_def)
  then have fl: "flight_kept s s1"
    using same(2) at fields(6) by (auto simp: flight_kept_def)
  moreover have "tokens s1 j = tokens s j" for j
    using same(2) fields fl by (intro tokens_same) (simp_all add: connected_def)
  moreover have "new_flights k s s1"
    using same(2) fields(6) by (intro new_flights_same) simp
  ultimately show "handled k s s1"
    using fields same(3) by (simp add: handled_def connected_def)
  show "socket_mem s1 = socket_mem s"
    using fields by simp
qed

lemma IOFunction_Recv_result:
  assumes inv: "srv_inv (x # held) s" and sock: "socket_mem s p = Some ss" "ss_Socket ss = k"
    and k: "m_Socket (ov_at s x) = k"
    and n: "unat n \<le> OVERLAPPED_BUFIZE" and run: "IOFunction_Recv env n x p s = Ok s'"
  shows "recv_result k held s s'"
proof -
  consider (zero) "n = 0"
    | (long) "0 < n" "MAX_PACKET_SIZE < length (srv_pend x s) + unat n"
    | (fits) "0 < n" "length (srv_pend x s) + unat n \<le> MAX_PACKET_SIZE"
    using word_gt_0 not_le by blast
  then show ?thesis
  proof cases
    case zero
    then have "recv_rearm env x p s = Ok s'"
      using run by (simp add: IOFunction_Recv_def)
    from recv_result_rearm [OF inv sock k this handled_refl, of "[]"] show ?thesis by simp
  next
    case long
    have "kick env k x (recv_start n x s) = Ok s'"
      using IOFunction_Recv_too_long [OF inv sock(1) long(1) n long(2), of env] run sock(2)
      by (simp split: if_splits)
    from recv_result_kick [OF recv_start_inv [OF inv] this recv_start_handled [OF inv], of "[]"]
    show ?thesis by (simp add: srv_msgs_def)
  next
    case fits
    obtain ps r e where parse: "spec_parse (srv_pend x s @ recv_chunk n x s) = (ps, r, e)"
      by (metis prod_cases3)
    have "length (srv_pend x s @ recv_chunk n x s) \<le> MAX_PACKET_SIZE"
      using fits(2) by (simp add: recv_chunk_def)
    then have ps: "list_all (fits_buffer MAX_PACKET_SIZE) ps"
      using spec_parse_ok [OF parse] fits_buffer_mono by blast
    from IOFunction_Recv_outcome [OF inv sock fits(1) n fits(2) parse, of env] obtain s1 c where
      s1: "srv_inv (x # held) s1" "recv_good x p k c s1" "same_but_io (recv_start n x s) c"
        "ssys c = ssys s" "srv_msgs s1 = srv_msgs s @ map (Pair k) ps" "srv_sends s1 = srv_sends s"
        "\<forall>y. y \<noteq> x \<longrightarrow> ov_at s1 y = ov_at s y" "m_Socket (ov_at s1 x) = m_Socket (ov_at s x)"
      and out: "case e of
           Need_More \<Rightarrow> srv_pend x s1 = r \<and> IOFunction_Recv env n x p s = recv_rearm env x p s1
         | No_Type \<Rightarrow> IOFunction_Recv env n x p s = kick env k x (discard_front s1)
         | Size_Wraps \<Rightarrow> IOFunction_Recv env n x p s = Fault Over_Read"
      by blast
    note h = handled_parsed [OF inv s1(2,3,4,6,7)]
    show ?thesis
    proof (cases e)
      case Need_More
      with out run have "recv_rearm env x p s1 = Ok s'" by simp
      then show ?thesis
        using recv_result_rearm [OF s1(1) _ sock(2) _ _ h(1) s1(5) ps] sock(1) h(2) s1(8) k by simp
    next
      case No_Type
      with out run have "kick env k x (discard_front s1) = Ok s'" by simp
      then show ?thesis
        using recv_result_kick [OF discard_front_inv(1) [OF s1(1)] _
            handled_trans [OF h(1) handled_discard [OF s1(1)]] _ ps]
          discard_front_inv(2) [OF s1(1)] s1(5) by simp
    next
      case Size_Wraps
      with out run show ?thesis by simp
    qed
  qed
qed

lemma IOFunction_Recv_inv:
  assumes "srv_inv (x # held) s" and "socket_mem s p = Some ss" "ss_Socket ss = k"
    and "m_Socket (ov_at s x) = k"
    and "unat n \<le> OVERLAPPED_BUFIZE" and "IOFunction_Recv env n x p s = Ok s'"
  shows "srv_inv held s'" and "handled k s s'"
    and "\<exists>ps. srv_msgs s' = srv_msgs s @ map (Pair k) ps \<and> list_all (fits_buffer MAX_PACKET_SIZE) ps"
    and "k \<in> connected s' \<Longrightarrow> rearmed s' k"
  using IOFunction_Recv_result [OF assms] by (simp_all add: recv_result_def)

end
