(* ===== verification/DH_ServerStream.thy ===== *)
theory DH_ServerStream
  imports DH_ServerRecv
begin

text \<open>
  The receive handler of the server as a stream receiver: one completed \<open>WSARecv\<close> after the other on
  one structure. It satisfies the contract \<open>stream_receiver\<close>, so that the packets of a stream are
  delivered in order and exactly once however TCP cuts the stream. At the end, what \<open>Recv\<close> hands
  to the application.
\<close>

section \<open>One completed receive\<close>

definition srv_on_bytes :: "os \<Rightarrow> nat \<Rightarrow> ptr \<Rightarrow> server \<Rightarrow> byte list \<Rightarrow> server res" where
  "srv_on_bytes env x p s data =
     IOFunction_Recv env (word_of_nat (length data)) x p (complete_io x data s)"

text \<open>\<open>WSARecv\<close> is accepted whenever it is called: at once or as a pending operation.\<close>

definition recv_accepted :: "os \<Rightarrow> bool" where
  "recv_accepted env \<longleftrightarrow> (\<forall>cs k x n. goes_in_flight (os_ret env cs (Sys_WSARecv k x n)))"

definition srv_ready :: "os \<Rightarrow> nat \<Rightarrow> ptr \<Rightarrow> sock \<Rightarrow> server \<Rightarrow> bool" where
  "srv_ready env x p k s \<longleftrightarrow> srv_inv [] s \<and> x \<in> set (in_flight (ssys s))
     \<and> (\<exists>ss. socket_mem s p = Some ss \<and> ss_Socket ss = k) \<and> m_Socket (ov_at s x) = k
     \<and> k \<noteq> INVALID_SOCKET \<and> recv_accepted env"

definition msgs_of :: "sock \<Rightarrow> server \<Rightarrow> packet list" where
  "msgs_of k s = map snd (filter (\<lambda>m. fst m = k) (srv_msgs s))"

lemma os_fine_accepted: "recv_accepted os_fine"
  by (simp add: recv_accepted_def os_fine_def goes_in_flight_def)

lemma complete_io_inv:
  assumes "srv_inv held s" and "x \<in> set (in_flight (ssys s))" and "length data \<le> OVERLAPPED_BUFIZE"
  shows "srv_inv (x # held) (complete_io x data s)"
  using complete_io_same complete_io_owns [OF _ assms(2,3)] assms(1)
  by (rule srv_inv_io) (use assms(1) in \<open>simp add: srv_inv_def\<close>)

lemma complete_io_pend [simp]: "srv_pend x (complete_io x data s) = srv_pend x s"
  by (simp add: srv_pend_def complete_io_at ov_pending_def)

lemma complete_io_chunk:
  assumes "srv_inv held s" and "x \<in> set (in_flight (ssys s))" and "length data \<le> OVERLAPPED_BUFIZE"
  shows "recv_chunk (word_of_nat (length data)) x (complete_io x data s) = data"
proof -
  have "unat (word_of_nat (length data) :: u32) = length data"
    using assms(3) by (simp add: unat_of_nat OVERLAPPED_BUFIZE_def)
  then show ?thesis
    by (simp add: recv_chunk_def complete_io_at mem_write_0)
qed

lemma recv_rearm_accepted:
  assumes inv: "srv_inv (x # held) s" and env: "recv_accepted env"
    and sock: "m_Socket (ov_at s x) \<noteq> INVALID_SOCKET"
  shows "\<exists>s'. recv_rearm env x p s = Ok s' \<and> srv_inv held s' \<and> same_but_io s s'
    \<and> x \<in> set (in_flight (ssys s')) \<and> srv_pend x s' = srv_pend x s
    \<and> m_Socket (ov_at s' x) = m_Socket (ov_at s x) \<and> m_IOType (ov_at s' x) = IOType_Recv
    \<and> flight_kept s s'"
proof -
  let ?k = "m_Socket (ov_at s x)"
  have own: "srv_owns (x # held) s"
    using inv by (simp add: srv_inv_def)
  obtain ok s1 where res: "Reserve_WSAReceive env ?k (Some x) s = Ok (ok, s1)"
    using Reserve_Ok [OF sock own, of env "Some x"] by blast
  obtain r where r: "srv_async env (Sys_WSARecv ?k x OVERLAPPED_BUFIZE) x
      (ov_upd x (\<lambda>v. v\<lparr>m_IOType := IOType_Recv, m_Socket := ?k,
                       m_WSABUF_len := word_of_nat OVERLAPPED_BUFIZE\<rparr>) s) = (r, s1)"
    and ok: "ok \<longleftrightarrow> goes_in_flight r"
    using Reserve_SomeE [OF res] .
  from r have "r = os_ret env (calls (ssys s)) (Sys_WSARecv ?k x OVERLAPPED_BUFIZE)"
    by (auto simp: srv_async_def sys_async_def Let_def)
  then have "ok"
    using ok env by (simp add: recv_accepted_def)
  note eff = Reserve_effect [OF own res]
  have "x \<notin> set (in_flight (ssys s))"
    using own by (simp add: srv_owns_def op_owns_def)
  then have "flight_kept s s1"
    using eff(4,5) by (auto simp: flight_kept_def)
  moreover have "recv_rearm env x p s = Ok s1"
    using res \<open>ok\<close> by (simp add: recv_rearm_def)
  moreover have "srv_inv held s1"
    using srv_inv_io [OF eff(1) _ inv, of held] eff(2) \<open>ok\<close> by simp
  ultimately show ?thesis
    using eff(1,3,5) \<open>ok\<close> by (intro exI [of _ s1]) (simp add: srv_pend_def ov_pending_def)
qed

text \<open>One completed receive whose bytes fit: what the handler works on, and what it does.\<close>

lemma srv_recv_outcome:
  assumes ready: "srv_ready env x p k s" and c: "chunk_ok c"
    and fits: "length (srv_pend x s) + length c \<le> MAX_PACKET_SIZE"
    and parse: "spec_parse (srv_pend x s @ c) = (ps, r, e)"
  obtains s1 where "srv_inv [x] s1" and "\<exists>ss. socket_mem s1 p = Some ss \<and> ss_Socket ss = k"
    and "srv_msgs s1 = srv_msgs s @ map (Pair k) ps" and "m_Socket (ov_at s1 x) = k"
    and "connected s1 = connected s" and "srv_sends s1 = srv_sends s" and "g_Is_Exit s1 = g_Is_Exit s"
    and "case e of
           Need_More \<Rightarrow> srv_pend x s1 = r \<and> srv_on_bytes env x p s c = recv_rearm env x p s1
         | No_Type \<Rightarrow> srv_on_bytes env x p s c = kick env k x (discard_front s1)
         | Size_Wraps \<Rightarrow> srv_on_bytes env x p s c = Fault Over_Read"
proof -
  let ?n = "word_of_nat (length c) :: u32" and ?s0 = "complete_io x c s"
  from ready obtain ss where inv: "srv_inv [] s" and x: "x \<in> set (in_flight (ssys s))"
    and sock: "socket_mem s p = Some ss" "ss_Socket ss = k" and k: "m_Socket (ov_at s x) = k"
    by (auto simp: srv_ready_def)
  have len: "length c \<le> OVERLAPPED_BUFIZE" "c \<noteq> []"
    using c by (simp_all add: chunk_ok_def)
  have n: "unat ?n = length c"
    using len by (simp add: unat_of_nat OVERLAPPED_BUFIZE_def)
  have pos: "0 < ?n"
    using len(2) n by (simp add: word_less_iff_unat)
  have inv0: "srv_inv [x] ?s0"
    using complete_io_inv [OF inv x len(1)] .
  have mem0: "socket_mem ?s0 p = Some ss"
    using sock same_but_ioD(11) [OF complete_io_same] by simp
  have parse0: "spec_parse (srv_pend x ?s0 @ recv_chunk ?n x ?s0) = (ps, r, e)"
    using parse complete_io_chunk [OF inv x len(1)] by simp
  have fit0: "unat ?n \<le> OVERLAPPED_BUFIZE" "length (srv_pend x ?s0) + unat ?n \<le> MAX_PACKET_SIZE"
    using len n fits by simp_all
  from IOFunction_Recv_outcome [OF inv0 mem0 sock(2) pos fit0 parse0, of env]
  obtain s1 cs where s1: "srv_inv [x] s1" "recv_good x p k cs s1"
      "same_but_io (recv_start ?n x ?s0) cs"
      "srv_msgs s1 = srv_msgs ?s0 @ map (Pair k) ps" "m_Socket (ov_at s1 x) = m_Socket (ov_at ?s0 x)"
      "srv_sends s1 = srv_sends ?s0"
      "case e of
         Need_More \<Rightarrow> srv_pend x s1 = r \<and> IOFunction_Recv env ?n x p ?s0 = recv_rearm env x p s1
       | No_Type \<Rightarrow> IOFunction_Recv env ?n x p ?s0 = kick env k x (discard_front s1)
       | Size_Wraps \<Rightarrow> IOFunction_Recv env ?n x p ?s0 = Fault Over_Read"
    by blast
  have "same_but_recv x cs s1"
    using s1(2) by (simp add: recv_good_def)
  have "connected s1 = connected s"
    using \<open>same_but_recv x cs s1\<close> same_but_recvD(4) same_but_ioD(7) [OF s1(3)] same_but_ioD(7) [OF complete_io_same [of s x c]]
    by (fastforce simp: connected_def)
  moreover have "srv_msgs s1 = srv_msgs s @ map (Pair k) ps"
    using s1(4) srv_queues_io(2) [OF complete_io_same [of s x c]] by simp
  moreover have "g_Is_Exit s1 = g_Is_Exit s"
    using \<open>same_but_recv x cs s1\<close> same_but_recvD(10) same_but_ioD(9) [OF s1(3)]
      same_but_ioD(9) [OF complete_io_same [of s x c]] by fastforce
  moreover have "srv_sends s1 = srv_sends s"
    using s1(6) srv_queues_io(3) [OF complete_io_same [of s x c]] by simp
  ultimately show thesis
    using that [OF s1(1) recv_good_sock [OF s1(2)]] s1(5,7) k
    by (cases e) (simp_all add: srv_on_bytes_def complete_io_at)
qed

lemma srv_recv_step:
  assumes ready: "srv_ready env x p k s" and c: "chunk_ok c"
    and fits: "length (srv_pend x s) + length c \<le> MAX_PACKET_SIZE"
    and parse: "spec_parse (srv_pend x s @ c) = (ps, r, Need_More)"
  shows "\<exists>s'. srv_on_bytes env x p s c = Ok s' \<and> srv_ready env x p k s' \<and> srv_pend x s' = r
           \<and> srv_msgs s' = srv_msgs s @ map (Pair k) ps \<and> connected s' = connected s
           \<and> srv_sends s' = srv_sends s \<and> g_Is_Exit s' = g_Is_Exit s"
proof -
  obtain s1 where s1: "srv_inv [x] s1" "\<exists>ss. socket_mem s1 p = Some ss \<and> ss_Socket ss = k"
      "srv_msgs s1 = srv_msgs s @ map (Pair k) ps" "m_Socket (ov_at s1 x) = k" "connected s1 = connected s"
      "srv_sends s1 = srv_sends s" "g_Is_Exit s1 = g_Is_Exit s" "srv_pend x s1 = r" "srv_on_bytes env x p s c = recv_rearm env x p s1"
    by (rule srv_recv_outcome [OF assms]) (use that in auto)
  have valid: "k \<noteq> INVALID_SOCKET" and env: "recv_accepted env"
    using ready by (simp_all add: srv_ready_def)
  from recv_rearm_accepted [OF s1(1) env, of p] s1(4) valid obtain s' where
    s': "recv_rearm env x p s1 = Ok s'" "srv_inv [] s'" "same_but_io s1 s'"
      "x \<in> set (in_flight (ssys s'))" "srv_pend x s' = srv_pend x s1" "m_Socket (ov_at s' x) = k"
    by auto
  have "srv_ready env x p k s'"
    using s' s1(2) valid env same_but_ioD(11) [OF s'(3)] by (simp add: srv_ready_def)
  moreover have "connected s' = connected s"
    using same_but_ioD(7) [OF s'(3)] s1(5) by (simp add: connected_def)
  ultimately show ?thesis
    using s1(3,6-9) s'(1,5) srv_queues_io(2,3) [OF s'(3)] same_but_ioD(9) [OF s'(3)] by auto
qed

text \<open>A packet without a type: the packets before it are delivered and the client is dropped.\<close>

lemma srv_recv_untyped:
  assumes ready: "srv_ready env x p k s" and on: "k \<in> connected s" and c: "chunk_ok c"
    and fits: "length (srv_pend x s) + length c \<le> MAX_PACKET_SIZE"
    and parse: "spec_parse (srv_pend x s @ c) = (ps, r, No_Type)"
  shows "\<exists>s'. srv_on_bytes env x p s c = Ok s' \<and> srv_inv [] s'
           \<and> srv_msgs s' = srv_msgs s @ map (Pair k) ps \<and> connected s' = connected s - {k}"
proof -
  obtain s1 where s1: "srv_inv [x] s1" "srv_msgs s1 = srv_msgs s @ map (Pair k) ps"
      "connected s1 = connected s" "srv_on_bytes env x p s c = kick env k x (discard_front s1)"
    by (rule srv_recv_outcome [OF ready c fits parse]) (use that in auto)
  have d: "srv_inv [x] (discard_front s1)" "srv_msgs (discard_front s1) = srv_msgs s1"
    using discard_front_inv [OF s1(1)] by simp_all
  have conn: "connected (discard_front s1) = connected s"
    using s1(3) by (simp add: discard_front_def connected_def)
  obtain s' where s': "kick env k x (discard_front s1) = Ok s'"
    using kick_Ok [of "discard_front s1" "[x]" k env x] d(1) on conn by (auto simp: srv_inv_def)
  have "srv_msgs s' = srv_msgs (discard_front s1)"
    using same_but_sockD(2,5) [OF kick_inv(3) [OF d(1) s']] by (simp add: srv_msgs_def)
  then show ?thesis
    using kick_inv(1,2) [OF d(1) s'] s1(2,4) d(2) conn s' by auto
qed

text \<open>The handler satisfies the contract of a stream receiver.\<close>

interpretation srv_stream: stream_receiver "srv_on_bytes env x p" "srv_ready env x p k" "srv_pend x"
  "msgs_of k"
  for env x p k
proof unfold_locales
  fix s c ps r
  assume "srv_ready env x p k s" "chunk_ok c" "length (srv_pend x s) + length c \<le> MAX_PACKET_SIZE"
    "spec_parse (srv_pend x s @ c) = (ps, r, Need_More)"
  from srv_recv_step [OF this] obtain s' where "srv_on_bytes env x p s c = Ok s'"
    "srv_ready env x p k s'" "srv_pend x s' = r" "srv_msgs s' = srv_msgs s @ map (Pair k) ps"
    by blast
  moreover have "map snd (filter (\<lambda>m. fst m = k) (map (Pair k) ps)) = ps"
    by (induction ps) auto
  ultimately show "\<exists>s'. srv_on_bytes env x p s c = Ok s' \<and> srv_ready env x p k s' \<and> srv_pend x s' = r
      \<and> msgs_of k s' = msgs_of k s @ ps"
    by (auto simp: msgs_of_def)
qed

section \<open>Recv\<close>

text \<open>The messages the application gets, read through the heap.\<close>

definition vec_view :: "heap \<Rightarrow> (sock \<times> ptr) list \<Rightarrow> (sock \<times> packet) list" where
  "vec_view h vec = map (\<lambda>(k, q). (k, packet_view h q)) vec"

definition vec_ok :: "heap \<Rightarrow> (sock \<times> ptr) list \<Rightarrow> bool" where
  "vec_ok h vec \<longleftrightarrow> distinct (map snd vec) \<and> (\<forall>(k, q) \<in> set vec. packet_at h q)"

text \<open>The packets of the messages of a queue are different blocks.\<close>

lemma queues_packets_distinct:
  assumes "queues_ok h rq sq"
  shows "distinct (concat (map (msg_packet h) rq))"
proof -
  have "distinct (concat (map (\<lambda>p. p # msg_packet h p) rq)) \<Longrightarrow> distinct (concat (map (msg_packet h) rq))" for rq
    by (induction rq) auto
  then show ?thesis
    using assms by (simp add: queues_ok_def heap_refs_def)
qed

lemma heap_msg_packet: "heap_msg m h = Ok (k, q) \<Longrightarrow> msg_packet h m = [q]"
  by (auto simp: heap_msg_def msg_packet_def split: option.splits cell.splits)

lemma recv_drain_view:
  "queues_ok h rq sq \<Longrightarrow>
     \<exists>new. recv_drain h rq vec = Ok (vec @ new) \<and> vec_view h new = recv_view h rq
       \<and> (\<forall>(k, q) \<in> set new. packet_at h q) \<and> map snd new = concat (map (msg_packet h) rq)"
proof (induction rq arbitrary: vec)
  case Nil
  then show ?case by (simp add: vec_view_def recv_view_def)
next
  case (Cons m rq)
  obtain sk q p where m: "heap_msg m h = Ok (sk, q)" "heap_packet q h = Ok (encode_packet p)"
    "packet_ok p" "recv_view h (m # rq) = (sk, p) # recv_view h rq" "queues_ok h rq sq"
    using queues_pop_recv [OF Cons.prems] by blast
  have q: "cells h q = Some (Packet_Block (encode_packet p))"
    using m(2) by (rule heap_packet_OkD)
  obtain new where new: "recv_drain h rq (vec @ [(sk, q)]) = Ok ((vec @ [(sk, q)]) @ new)"
    "vec_view h new = recv_view h rq" "\<forall>(k, q) \<in> set new. packet_at h q"
    "map snd new = concat (map (msg_packet h) rq)"
    using Cons.IH [OF m(5), of "vec @ [(sk, q)]"] by blast
  have "packet_view h q = p" "packet_at h q"
    using q m(3) packet_atI by (auto simp: packet_view_def)
  with m(1,4) new show ?case
    by (intro exI [of _ "(sk, q) # new"]) (auto simp: vec_view_def heap_msg_packet)
qed

text \<open>
  \<open>Recv\<close> appends all queued messages, in order, leaves the queue empty, and reports failure exactly
  when there were none. The packets now belong to the application.
\<close>

lemma Recv_outcome:
  assumes "srv_inv held s"
  shows "\<exists>r new s'. Recv vec s = Ok (r, vec @ new, s') \<and> srv_inv held s'
    \<and> vec_view (sheap s') new = srv_msgs s \<and> srv_msgs s' = [] \<and> srv_sends s' = srv_sends s
    \<and> (r = LOGIC_FAIL \<longleftrightarrow> srv_msgs s = []) \<and> vec_ok (sheap s') new
    \<and> s' = s\<lparr>Recv_Data_Queue := []\<rparr>"
proof (cases "Recv_Data_Queue s = []")
  case True
  then show ?thesis
    using assms
    by (intro exI [of _ LOGIC_FAIL] exI [of _ "[]"] exI [of _ s])
      (auto simp: Recv_def srv_msgs_def recv_view_def vec_view_def vec_ok_def)
next
  case False
  have qs: "queues_ok (sheap s) (Recv_Data_Queue s) (map snd (Send_Data_Queue s))"
    using assms by (simp add: srv_inv_def srv_queues_ok_def)
  obtain new where new: "recv_drain (sheap s) (Recv_Data_Queue s) vec = Ok (vec @ new)"
    "vec_view (sheap s) new = recv_view (sheap s) (Recv_Data_Queue s)"
    "\<forall>(k, q) \<in> set new. packet_at (sheap s) q"
    "map snd new = concat (map (msg_packet (sheap s)) (Recv_Data_Queue s))"
    using recv_drain_view [OF qs, of vec] by blast
  have vec: "vec_ok (sheap s) new"
    unfolding vec_ok_def new(4) using queues_packets_distinct [OF qs] new(3) by (rule conjI)
  let ?s = "s\<lparr>Recv_Data_Queue := []\<rparr>"
  have "srv_queues_ok ?s"
    using queues_ok_drop_recv [OF qs] by (simp add: srv_queues_ok_def)
  moreover have "maps_ok ?s = maps_ok s" "avail_ok ?s = avail_ok s"
    by (rule maps_ok_cong avail_ok_cong, simp_all)+
  ultimately have "srv_inv held ?s"
    using assms by (simp add: srv_inv_def)
  then show ?thesis
    using False new vec
    by (intro exI [of _ LOGIC_SUCCESS] exI [of _ new] exI [of _ ?s])
      (auto simp: Recv_def srv_msgs_def srv_sends_def recv_view_def LOGIC_SUCCESS_def LOGIC_FAIL_def)
qed

end
