(* ===== verification/DH_Demo.thy ===== *)
theory DH_Demo
  imports DH_ServerStream
begin

text \<open>
  Concrete states for the witnesses: a server with ten overlapped structures and room for two
  clients, client 7 connected and its receive in flight, client 8 known and not connected.
\<close>

definition demo_pool :: "Overlapped_Struct object_pool" where
  "demo_pool =
     pool_write 0 (\<lambda>v. v\<lparr>m_IOType := IOType_Recv, m_Socket := 7,
                        m_WSABUF_len := word_of_nat OVERLAPPED_BUFIZE\<rparr>)
       ((ObjectPool_new (ov_class os_fine) 10)\<lparr>m_Available_Obj := [1..<10]\<rparr>)"

definition demo_mempool :: memory_pool where
  "demo_mempool = \<lparr>m_4Byte_Block_Count = 10, m_8Byte_Block_Count = 10, m_16Byte_Block_Count = 10,
     m_32Byte_Block_Count = 10, m_64Byte_Block_Count = 10, m_128Byte_Block_Count = 10,
     m_256Byte_Block_Count = 10, m_512Byte_Block_Count = 10,
     m_Memory_Pool = [(4, []), (8, []), (16, []), (32, []), (64, []), (128, []), (256, []), (512, [])],
     mp_mem = (\<lambda>_. 0), mp_next = 0\<rparr>"

definition demo_sock :: "sock \<Rightarrow> bool \<Rightarrow> Socket_Struct" where
  "demo_sock k avail = \<lparr>ss_Socket = k, ss_IP = [], ss_PORT = 0, Is_Available = avail\<rparr>"

definition demo_server :: server where
  "demo_server =
     \<lparr>MAX_USER_COUNT = 2, PORT = 729, Available_Overlapped = demo_pool,
      m_MemoryPool = demo_mempool, Recv_Data_Queue = [], Send_Data_Queue = [],
      g_Socket_Struct_Pool = [(7, 0), (8, 1)], g_Connected_Client = [(7, 0)],
      g_Listen_Socket = Some 5, g_Work_Thread = 2, g_Send_Thread = Thread_Live, g_IOCP = True,
      g_Is_Exit = False, g_Debug_Option = DHDEBUG_SIMPLE, g_Recv_Total_Packet = 0,
      g_Send_Total_Packet = 0, g_Enter_User_Count = 1, g_Exit_User_Count = 0,
      Start_Time = 0, Prev_Time = 0, Current_Time = 0, g_Time_Check_Thread = Thread_Live,
      socket_mem = [0 \<mapsto> demo_sock 7 True, 1 \<mapsto> demo_sock 8 False], socket_next = 2,
      sheap = empty_heap, ssys = \<lparr>calls = [], in_flight = [0]\<rparr>\<rparr>"

lemma demo_pool_fields:
  "m_Available_Obj demo_pool = [1..<10]" "ALL_Object_List demo_pool = [0..<10]"
  "m_Sample_Obj_Count demo_pool = 10" "obj_next demo_pool = 10"
  by (simp_all add: demo_pool_def ObjectPool_new_def pool_add_n_fields)

lemma demo_pool_mem:
  "x < 10 \<Longrightarrow> obj_mem demo_pool x =
     (let v = Overlapped_Struct_ctor (Overlapped_Struct_raw os_fine x)
      in if x = 0 then v\<lparr>m_IOType := IOType_Recv, m_Socket := 7,
                         m_WSABUF_len := word_of_nat OVERLAPPED_BUFIZE\<rparr> else v)"
  by (auto simp: demo_pool_def ObjectPool_new_def pool_add_n_mem Let_def ov_class_def)

lemma demo_pool_ok: "pool_ok demo_pool"
  by (simp add: pool_ok_def demo_pool_fields)

lemma demo_ovs_ok: "ovs_ok demo_server"
  unfolding ovs_ok_def
proof
  fix x
  assume "x \<in> set (ALL_Object_List (Available_Overlapped demo_server))"
  then have "x < 10"
    by (simp add: demo_server_def demo_pool_fields)
  then have "ov_at demo_server x =
      (let v = Overlapped_Struct_ctor (Overlapped_Struct_raw os_fine x)
       in if x = 0 then v\<lparr>m_IOType := IOType_Recv, m_Socket := 7,
                          m_WSABUF_len := word_of_nat OVERLAPPED_BUFIZE\<rparr> else v)"
    using demo_pool_mem [of x] by (simp add: ov_at_def demo_server_def)
  moreover have "ov_ok (Overlapped_Struct_ctor (Overlapped_Struct_raw os_fine x))"
    by (rule ov_ok_raw_ctor)
  ultimately show "ov_ok (ov_at demo_server x)"
    by (cases "x = 0") (simp_all add: Let_def ov_ok_def)
qed

lemma demo_inv: "srv_inv [] demo_server"
proof -
  have "srv_owns [] demo_server"
    using demo_ovs_ok demo_pool_ok
    by (simp add: srv_owns_def op_owns_def) (simp add: demo_server_def demo_pool_fields)
  moreover have "maps_ok demo_server"
    by (auto simp: maps_ok_def demo_server_def hm_distinct_def demo_sock_def INVALID_SOCKET_def)
  moreover have "avail_ok demo_server"
    by (auto simp: avail_but_def demo_server_def demo_sock_def)
  moreover have "srv_queues_ok demo_server"
    using queues_ok_empty by (simp add: srv_queues_ok_def demo_server_def)
  ultimately show ?thesis
    by (simp add: srv_inv_def)
qed

lemma demo_at0:
  "ov_at demo_server 0 = (Overlapped_Struct_ctor (Overlapped_Struct_raw os_fine 0))
     \<lparr>m_IOType := IOType_Recv, m_Socket := 7, m_WSABUF_len := word_of_nat OVERLAPPED_BUFIZE\<rparr>"
  using demo_pool_mem [of 0] by (simp add: ov_at_def demo_server_def Let_def)

lemma demo_pend: "srv_pend 0 demo_server = []"
  using ov_pending_ctor [of "Overlapped_Struct_raw os_fine 0"]
  by (simp add: srv_pend_def demo_at0 ov_pending_def)

lemma demo_in_flight [simp]: "in_flight (ssys demo_server) = [0]"
  by (simp add: demo_server_def)

lemma demo_sock_mem [simp]:
  "socket_mem demo_server 0 = Some (demo_sock 7 True)" "ss_Socket (demo_sock k a) = k"
  by (simp_all add: demo_server_def demo_sock_def)

lemma demo_ready: "srv_ready os_fine 0 0 7 demo_server"
  using demo_inv os_fine_accepted
  by (auto simp: srv_ready_def demo_at0 INVALID_SOCKET_def)

lemma demo_msgs [simp]: "srv_msgs demo_server = []" "srv_sends demo_server = []"
  by (simp_all add: srv_msgs_def srv_sends_def demo_server_def recv_view_def send_view_def)

lemma demo_connected: "connected demo_server = {7}"
  by (auto simp: connected_def demo_server_def)

text \<open>Two small packets.\<close>

definition demo_packet1 :: packet where "demo_packet1 = (1, [65, 66])"
definition demo_packet2 :: packet where "demo_packet2 = (2, [])"

lemma demo_packets_ok:
  "stream_packet demo_packet1" "stream_packet demo_packet2"
  "packet_ok demo_packet1" "packet_ok demo_packet2"
  by (simp_all add: stream_packet_def packet_ok_def demo_packet1_def demo_packet2_def packet_size_def
      max_stream_packet_def net_consts)

end
