(* ===== verification/DH_ServerSend.thy ===== *)
theory DH_ServerSend
  imports DH_ServerRecv
begin

text \<open>
  The send path of \<open>DHServer.cpp\<close>: \<open>Send\<close> with its three ways of choosing the receivers, which copy
  the packet into the send queue, and \<open>SendThread\<close>, which takes one packet after the other off the
  queue and cuts it into buffers of \<open>OVERLAPPED_BUFIZE\<close> bytes. \<open>send_chunks\<close> is the abstract cut; the
  bytes handed to \<open>WSASend\<close> are exactly these chunks, and together the packet.
\<close>

section \<open>Queueing a packet\<close>

text \<open>
  \<open>malloc(PACKET_HEADER_SIZE + Packet_Size)\<close> and \<open>memcpy_s\<close>; \<open>blk\<close> is the memory the caller's
  packet lies in.
\<close>

definition copy_packet :: "byte list \<Rightarrow> u64 \<Rightarrow> heap \<Rightarrow> (ptr \<times> heap) res" where
  "copy_packet blk tot h =
     bindE (memcpy_s (replicate (unat tot) 0) 0 (unat tot) blk (unat tot))
       (\<lambda>copy. Ok (heap_alloc (Packet_Block copy) h))"

primrec broadcast_loop ::
    "byte list \<Rightarrow> u64 \<Rightarrow> (sock \<times> ptr) list \<Rightarrow> int \<Rightarrow> server \<Rightarrow> (int \<times> server) res" where
  "broadcast_loop blk tot [] Send_User_Count s = Ok (Send_User_Count, s)"
| "broadcast_loop blk tot (itr # rest) Send_User_Count s =
     bindE (copy_packet blk tot (sheap s)) (\<lambda>(Copy_Packet, h).
       let s = s\<lparr>sheap := h\<rparr> in
       case map_of (g_Connected_Client s) (fst itr) of
         None \<Rightarrow> Ok (LOGIC_FAIL, s)
       | Some _ \<Rightarrow>
           broadcast_loop blk tot rest (Send_User_Count + 1)
             (s\<lparr>Send_Data_Queue := Send_Data_Queue s @ [(fst itr, Copy_Packet)]\<rparr>))"

definition BroadCastMessage :: "byte list \<Rightarrow> server \<Rightarrow> (int \<times> server) res" where
  "BroadCastMessage Send_Packet s =
     bindE (get_Packet_Size Send_Packet) (\<lambda>sz.
       broadcast_loop Send_Packet (packet_total sz) (g_Connected_Client s) 0 s)"

definition Target_Message :: "sock \<Rightarrow> byte list \<Rightarrow> server \<Rightarrow> (int \<times> server) res" where
  "Target_Message Target Send_Packet s =
     bindE (get_Packet_Size Send_Packet) (\<lambda>sz.
     bindE (copy_packet Send_Packet (packet_total sz) (sheap s)) (\<lambda>(Copy_Packet, h).
       let s = s\<lparr>sheap := h\<rparr> in
       case map_of (g_Connected_Client s) Target of
         None \<Rightarrow> Ok (LOGIC_FAIL, s)
       | Some p \<Rightarrow> bindE (sock_at s p) (\<lambda>ss.
           Ok (LOGIC_SUCCESS,
               s\<lparr>Send_Data_Queue := Send_Data_Queue s @ [(ss_Socket ss, Copy_Packet)]\<rparr>))))"

primrec except_loop ::
    "sock \<Rightarrow> byte list \<Rightarrow> u64 \<Rightarrow> (sock \<times> ptr) list \<Rightarrow> int \<Rightarrow> server \<Rightarrow> (int \<times> server) res" where
  "except_loop Except blk tot [] Send_User_Count s = Ok (Send_User_Count, s)"
| "except_loop Except blk tot (itr # rest) Send_User_Count s =
     (case map_of (g_Connected_Client s) (fst itr) of
        None \<Rightarrow> Ok (LOGIC_FAIL, s)
      | Some _ \<Rightarrow>
          if fst itr = Except then except_loop Except blk tot rest Send_User_Count s
          else bindE (copy_packet blk tot (sheap s)) (\<lambda>(Copy_Packet, h).
                 except_loop Except blk tot rest (Send_User_Count + 1)
                   (s\<lparr>sheap := h, Send_Data_Queue := Send_Data_Queue s @ [(fst itr, Copy_Packet)]\<rparr>)))"

definition Except_Target_Message :: "sock \<Rightarrow> byte list \<Rightarrow> server \<Rightarrow> (int \<times> server) res" where
  "Except_Target_Message Except_Target Send_Packet s =
     bindE (get_Packet_Size Send_Packet) (\<lambda>sz.
       except_loop Except_Target Send_Packet (packet_total sz) (g_Connected_Client s) 0 s)"

definition Send :: "os \<Rightarrow> byte list option \<Rightarrow> int \<Rightarrow> sock \<Rightarrow> server \<Rightarrow> (int \<times> server) res" where
  "Send env Send_Packet SendType Socket s =
     bindE (assertE env (Send_Packet \<noteq> None)) (\<lambda>_.
     case Send_Packet of
       None \<Rightarrow> Fault Null_Deref
     | Some blk \<Rightarrow> bindE (get_Packet_Type blk) (\<lambda>t.
         if PACKET_TYPE_NONE = t then Ok (LOGIC_FAIL, s)
         else if SendType = SEND_TYPE_BROADCAST then BroadCastMessage blk s
         else if SendType = SEND_TYPE_TARGET then Target_Message Socket blk s
         else if SendType = SEND_TYPE_EXCEPT_TARGET then Except_Target_Message Socket blk s
         else Ok (LOGIC_FAIL, s)))"

section \<open>The send thread\<close>

text \<open>
  One buffer: the structure, the bytes copied, the call. The result is whether the loop goes on, what
  remains to be sent, and the state.
\<close>

definition send_fragment ::
    "os \<Rightarrow> sock \<Rightarrow> byte list \<Rightarrow> u64 \<Rightarrow> nat \<Rightarrow> server \<Rightarrow> (bool \<times> u64 \<times> server) res" where
  "send_fragment env k blk Total_Packet_Size Buff_Offset s =
     bindE (ov_get env s) (\<lambda>(x, s).
       let s = ov_upd x (\<lambda>v. v\<lparr>m_IOType := IOType_Send, m_Socket := k\<rparr>) s;
           full = word_of_nat OVERLAPPED_BUFIZE \<le> Total_Packet_Size;
           n = (if full then word_of_nat OVERLAPPED_BUFIZE else Total_Packet_Size);
           remaining = (if full then Total_Packet_Size - word_of_nat OVERLAPPED_BUFIZE else 0)
       in bindE (memcpy_s (m_Buffer (ov_at s x)) 0 OVERLAPPED_BUFIZE
                   (drop (Buff_Offset * OVERLAPPED_BUFIZE) blk) (unat n)) (\<lambda>buf.
            let s = ov_upd x (\<lambda>v. v\<lparr>m_Data_Size := n, m_Buffer := buf, m_WSABUF_len := ucast n\<rparr>) s;
                (iResult, s) = srv_async env
                   (Sys_WSASend k x (take (unat (m_WSABUF_len (ov_at s x))) buf)) x s
            in if \<not> ret_ok iResult \<and> last_error iResult \<noteq> WSA_IO_PENDING
               then Ok (False, remaining, ov_reset env x s)
               else Ok (True, remaining, s)))"

definition frag_size :: "u64 \<Rightarrow> u64" where
  "frag_size tot = (if word_of_nat OVERLAPPED_BUFIZE \<le> tot then word_of_nat OVERLAPPED_BUFIZE else tot)"

definition frag_upd :: "sock \<Rightarrow> u64 \<Rightarrow> byte list \<Rightarrow> Overlapped_Struct \<Rightarrow> Overlapped_Struct" where
  "frag_upd k n buf v =
     v\<lparr>m_IOType := IOType_Send, m_Socket := k, m_Data_Size := n, m_Buffer := buf,
       m_WSABUF_len := ucast n\<rparr>"

lemma unat_frag_size: "unat (frag_size tot) = min OVERLAPPED_BUFIZE (unat tot)"
  by (simp add: frag_size_def word_le_iff_unat OVERLAPPED_BUFIZE_def)

lemma frag_rest:
  "(if word_of_nat OVERLAPPED_BUFIZE \<le> tot then tot - word_of_nat OVERLAPPED_BUFIZE else 0)
     = tot - frag_size tot"
  by (simp add: frag_size_def)

lemma unat_frag_rest: "unat (tot - frag_size tot) = unat tot - OVERLAPPED_BUFIZE"
proof -
  have "frag_size tot \<le> tot"
    by (simp add: word_le_iff_unat unat_frag_size)
  then show ?thesis
    by (simp add: unat_minus_nowrap64 unat_frag_size)
qed

lemma frag_len: "unat (ucast (frag_size tot) :: u32) = unat (frag_size tot)"
proof -
  have "unat (frag_size tot) < 2 ^ 32"
    by (simp add: unat_frag_size OVERLAPPED_BUFIZE_def)
  then show ?thesis
    by (simp add: unsigned_ucast_eq take_bit_nat_eq_self)
qed

lemma send_fragmentE:
  assumes "send_fragment env k blk tot off s = Ok (b, tot', s')"
  obtains x s1 buf r s2 where "ov_get env s = Ok (x, s1)"
    and "memcpy_s (m_Buffer (ov_at s1 x)) 0 OVERLAPPED_BUFIZE (drop (off * OVERLAPPED_BUFIZE) blk)
           (unat (frag_size tot)) = Ok buf"
    and "srv_async env (Sys_WSASend k x (take (unat (frag_size tot)) buf)) x
           (ov_upd x (frag_upd k (frag_size tot) buf) s1) = (r, s2)"
    and "b \<longleftrightarrow> goes_in_flight r" and "tot' = tot - frag_size tot"
    and "s' = (if b then s2 else ov_reset env x s2)"
proof -
  obtain x s1 where get: "ov_get env s = Ok (x, s1)"
    using assms by (auto simp: send_fragment_def bindE_eq_Ok_iff)
  obtain buf where buf: "memcpy_s (m_Buffer (ov_at s1 x)) 0 OVERLAPPED_BUFIZE
      (drop (off * OVERLAPPED_BUFIZE) blk) (unat (frag_size tot)) = Ok buf"
    using assms by (auto simp: send_fragment_def get Let_def frag_size_def [symmetric]
        bindE_eq_Ok_iff)
  have upd: "(\<lambda>v. v\<lparr>m_Data_Size := n, m_Buffer := buf, m_WSABUF_len := ucast n\<rparr>)
      \<circ> (\<lambda>v. v\<lparr>m_IOType := IOType_Send, m_Socket := k\<rparr>) = frag_upd k n buf" for n
    by (simp add: fun_eq_iff frag_upd_def)
  obtain r s2 where call: "srv_async env (Sys_WSASend k x (take (unat (frag_size tot)) buf)) x
      (ov_upd x (frag_upd k (frag_size tot) buf) s1) = (r, s2)"
    by force
  have "(if \<not> ret_ok r \<and> last_error r \<noteq> WSA_IO_PENDING
       then Ok (False, tot - frag_size tot, ov_reset env x s2)
       else Ok (True, tot - frag_size tot, s2)) = (Ok (b, tot', s') :: (bool \<times> u64 \<times> server) res)"
    using assms buf call unfolding send_fragment_def get bindE_Ok prod.case Let_def
      frag_size_def [symmetric] frag_rest
    by (simp add: upd frag_len)
  then show thesis
    using that [OF get buf call] by (auto simp: goes_in_flight_def split: if_splits)
qed

lemma send_fragment_less:
  assumes "send_fragment env k blk tot off s = Ok (b, tot', s')" and "0 < tot"
  shows "unat tot' < unat tot"
proof -
  have "tot' = tot - frag_size tot"
    by (rule send_fragmentE [OF assms(1)])
  moreover have "0 < unat tot"
    using assms(2) by (simp add: word_less_iff_unat)
  ultimately show ?thesis
    by (simp add: unat_frag_rest OVERLAPPED_BUFIZE_def)
qed

function send_fragments ::
    "os \<Rightarrow> sock \<Rightarrow> byte list \<Rightarrow> u64 \<Rightarrow> nat \<Rightarrow> server \<Rightarrow> server res" where
  "send_fragments env k blk Total_Packet_Size Buff_Offset s =
     (if Total_Packet_Size \<le> 0 then Ok s
      else case send_fragment env k blk Total_Packet_Size Buff_Offset s of
             Fault e \<Rightarrow> Fault e
           | Ok (go_on, remaining, s') \<Rightarrow>
               if go_on then send_fragments env k blk remaining (Suc Buff_Offset) s' else Ok s')"
  by pat_completeness auto
termination
  by (relation "measure (\<lambda>(env, k, blk, tot, off, s). unat tot)")
    (auto intro: send_fragment_less simp: word_gt_0)

declare send_fragments.simps [simp del]

definition send_packet :: "os \<Rightarrow> sock \<times> ptr \<Rightarrow> server \<Rightarrow> server res" where
  "send_packet env Send_Packet s =
     (case map_of (g_Connected_Client s) (fst Send_Packet) of
        None \<Rightarrow> bindE (heap_free (snd Send_Packet) (sheap s)) (\<lambda>h. Ok (s\<lparr>sheap := h\<rparr>))
      | Some _ \<Rightarrow>
          bindE (heap_packet (snd Send_Packet) (sheap s)) (\<lambda>blk.
          bindE (get_Packet_Size blk) (\<lambda>sz.
          bindE (send_fragments env (fst Send_Packet) blk (packet_total sz) 0 s) (\<lambda>s.
          bindE (heap_free (snd Send_Packet) (sheap s)) (\<lambda>h. Ok (s\<lparr>sheap := h\<rparr>))))))"

primrec send_queue :: "os \<Rightarrow> (sock \<times> ptr) list \<Rightarrow> server \<Rightarrow> server res" where
  "send_queue env [] s = Ok s"
| "send_queue env (e # es) s =
     bindE (send_packet env e (s\<lparr>Send_Data_Queue := es\<rparr>)) (\<lambda>s. send_queue env es s)"

text \<open>One round of the thread: it ends when the exit flag is set, else empties the queue.\<close>

definition SendThread :: "os \<Rightarrow> server \<Rightarrow> server option res" where
  "SendThread env s =
     (if g_Is_Exit s then Ok None
      else bindE (send_queue env (Send_Data_Queue s) s) (\<lambda>s. Ok (Some s)))"

section \<open>The cut\<close>

function send_chunks :: "byte list \<Rightarrow> byte list list" where
  "send_chunks bs =
     (if bs = [] then []
      else take OVERLAPPED_BUFIZE bs # send_chunks (drop OVERLAPPED_BUFIZE bs))"
  by pat_completeness auto
termination
  by (relation "measure length") (auto simp: OVERLAPPED_BUFIZE_def)

declare send_chunks.simps [simp del]

lemma send_chunks_Nil [simp]: "send_chunks [] = []"
  by (simp add: send_chunks.simps)

lemma send_chunks_concat [simp]: "concat (send_chunks bs) = bs"
proof (induction bs rule: send_chunks.induct)
  case (1 bs)
  then show ?case
    by (subst send_chunks.simps) auto
qed

lemma chunk_ok_chunks: "list_all chunk_ok (send_chunks bs)"
proof (induction bs rule: send_chunks.induct)
  case (1 bs)
  have "chunk_ok (take OVERLAPPED_BUFIZE bs)" if "bs \<noteq> []"
    using that by (simp add: chunk_ok_def OVERLAPPED_BUFIZE_def)
  with 1 show ?case
    by (subst send_chunks.simps) simp
qed

lemma chunk_count: "n \<noteq> 0 \<Longrightarrow> Suc ((n - 2048 + 2047) div 2048) = (n + 2047 :: nat) div 2048"
proof (cases "2048 \<le> n")
  case True
  then obtain m where "n = m + 2048"
    using le_Suc_ex by (metis add.commute)
  then show ?thesis by simp
next
  case False
  assume "n \<noteq> 0"
  with False have "(n + 2047) div 2048 = 1"
    by (intro div_nat_eqI) simp_all
  with False show ?thesis by simp
qed

lemma send_chunks_length: "length (send_chunks bs) = (length bs + 2047) div 2048"
proof (induction bs rule: send_chunks.induct)
  case (1 bs)
  show ?case
  proof (cases "bs = []")
    case False
    then have "length (send_chunks bs) = Suc ((length bs - 2048 + 2047) div 2048)"
      using 1 by (subst send_chunks.simps) (simp add: OVERLAPPED_BUFIZE_def)
    with False show ?thesis
      by (simp add: chunk_count)
  qed simp
qed

text \<open>The buffers handed to \<open>WSASend\<close> for a socket, in the order of the calls.\<close>

definition sent_buffers :: "sock \<Rightarrow> sys \<Rightarrow> byte list list" where
  "sent_buffers k y =
     concat (map (\<lambda>c. case c of Sys_WSASend j x bs \<Rightarrow> if j = k then [bs] else [] | _ \<Rightarrow> [])
       (rev (calls y)))"

text \<open>\<open>WSASend\<close> is accepted whenever it is called.\<close>

definition send_accepted :: "os \<Rightarrow> bool" where
  "send_accepted env \<longleftrightarrow> (\<forall>cs k x bs. goes_in_flight (os_ret env cs (Sys_WSASend k x bs)))"

lemma os_fine_send_accepted: "send_accepted os_fine"
  by (simp add: send_accepted_def os_fine_def goes_in_flight_def)

section \<open>What the thread hands to the system\<close>

lemma sent_buffers_send:
  assumes "srv_async env (Sys_WSASend k x bs) x s = (r, s')"
  shows "sent_buffers j (ssys s') = sent_buffers j (ssys s) @ (if j = k then [bs] else [])"
  using assms by (auto simp: srv_async_def sys_async_def sent_buffers_def Let_def)

lemma sent_buffers_frame [simp]:
  "sent_buffers k (ssys (ov_upd x f s)) = sent_buffers k (ssys s)"
  "sent_buffers k (ssys (ov_reset env x s)) = sent_buffers k (ssys s)"
  by simp_all

lemma send_fragment_effect:
  assumes inv: "srv_inv held s" and run: "send_fragment env k blk tot off s = Ok (b, tot', s')"
  shows "srv_inv held s'" and "same_but_io s s'" and "flight_kept s s'"
    and "sent_buffers j (ssys s') = sent_buffers j (ssys s)
           @ (if j = k then [take (unat (frag_size tot)) (drop (off * OVERLAPPED_BUFIZE) blk)] else [])"
    and "send_accepted env \<Longrightarrow> b"
proof -
  let ?n = "frag_size tot"
  obtain x s1 buf r s2 where get: "ov_get env s = Ok (x, s1)"
    and buf: "memcpy_s (m_Buffer (ov_at s1 x)) 0 OVERLAPPED_BUFIZE
        (drop (off * OVERLAPPED_BUFIZE) blk) (unat ?n) = Ok buf"
    and call: "srv_async env (Sys_WSASend k x (take (unat ?n) buf)) x
        (ov_upd x (frag_upd k ?n buf) s1) = (r, s2)"
    and b: "b \<longleftrightarrow> goes_in_flight r" and s': "s' = (if b then s2 else ov_reset env x s2)"
    by (rule send_fragmentE [OF run])
  have own: "srv_owns held s"
    using inv by (simp add: srv_inv_def)
  note own1 = srv_owns_get [OF own get]
  have ok1: "ov_ok (ov_at s1 x)"
    using srv_owns_known [OF own1(1), of x] by simp
  note bufD = memcpy_s_OkD [OF buf]
  have len: "length buf = OVERLAPPED_BUFIZE"
    using bufD ok1 by (simp add: ov_ok_def)
  let ?s1 = "ov_upd x (frag_upd k ?n buf) s1"
  have own2: "srv_owns (x # held) ?s1"
    using own1(1) ok1 len by (intro srv_owns_upd) (simp_all add: ov_ok_def frag_upd_def)
  note own3 = srv_owns_async [OF own2 call]
  have same12: "same_but_io s s2"
    using ov_get_same [OF get] same_but_io_prims(1) [of s1 x "frag_upd k ?n buf"]
      same_but_io_prims(5) [of ?s1 env "Sys_WSASend k x (take (unat ?n) buf)" x] call
    by (metis same_but_io_trans snd_conv)
  show same: "same_but_io s s'"
    unfolding s' using same12 by (auto intro: same_but_io_trans)
  have "srv_owns held s'"
    unfolding s' using own3 b srv_owns_reset by auto
  then show "srv_inv held s'"
    using srv_inv_io [OF same _ inv] by blast
  have "flight_kept s s1"
    by (rule flight_kept_get [OF own get])
  also have "flight_kept s1 ?s1"
    by (rule flight_kept_upd(1) [OF own1(1)])
  also have "flight_kept ?s1 s2"
    by (rule flight_kept_async [OF call])
  also have "flight_kept s2 s'"
    unfolding s' using own3(2) b flight_kept_upd(2) by auto
  finally show "flight_kept s s'" .
  have bytes: "take (unat ?n) buf = take (unat ?n) (drop (off * OVERLAPPED_BUFIZE) blk)"
    using bufD by (simp add: mem_write_0)
  have "sent_buffers j (ssys s') = sent_buffers j (ssys s2)"
    by (simp add: s')
  also have "\<dots> = sent_buffers j (ssys s) @ (if j = k then [take (unat ?n) buf] else [])"
    using sent_buffers_send [OF call] ov_get_same [OF get] by simp
  finally show "sent_buffers j (ssys s') = sent_buffers j (ssys s)
      @ (if j = k then [take (unat (frag_size tot)) (drop (off * OVERLAPPED_BUFIZE) blk)] else [])"
    by (simp add: bytes)
  have "r = os_ret env (calls (ssys ?s1)) (Sys_WSASend k x (take (unat ?n) buf))"
    using call by (auto simp: srv_async_def sys_async_def Let_def)
  then show "send_accepted env \<Longrightarrow> b"
    using b by (simp add: send_accepted_def)
qed

lemma send_fragment_Ok:
  assumes "srv_inv held s"
    and "unat (frag_size tot) \<le> length (drop (off * OVERLAPPED_BUFIZE) blk)"
  shows "\<exists>b s'. send_fragment env k blk tot off s = Ok (b, tot - frag_size tot, s')"
proof -
  have own: "srv_owns held s"
    using assms(1) by (simp add: srv_inv_def)
  then obtain x s1 where get: "ov_get env s = Ok (x, s1)"
    using ov_get_Ok by blast
  have "ov_ok (ov_at s1 x)"
    using srv_owns_known [OF srv_owns_get(1) [OF own get], of x] by simp
  then obtain buf where "memcpy_s (m_Buffer (ov_at s1 x)) 0 OVERLAPPED_BUFIZE
      (drop (off * OVERLAPPED_BUFIZE) blk) (unat (frag_size tot)) = Ok buf"
    using assms(2) memcpy_s_Ok [of "unat (frag_size tot)" OVERLAPPED_BUFIZE]
    by (simp add: unat_frag_size ov_ok_def)
  then show ?thesis
    using get unfolding send_fragment_def Let_def frag_size_def [symmetric] frag_rest
    by (simp split: prod.splits) blast
qed

text \<open>One turn of the fragment loop, seen on the bytes that are left.\<close>

lemma fragment_cut:
  assumes len: "length (drop (off * OVERLAPPED_BUFIZE) blk) = unat tot" and more: "\<not> tot \<le> 0"
  shows "unat (frag_size tot) \<le> length (drop (off * OVERLAPPED_BUFIZE) blk)"
    and "take (unat (frag_size tot)) (drop (off * OVERLAPPED_BUFIZE) blk)
           = take OVERLAPPED_BUFIZE (drop (off * OVERLAPPED_BUFIZE) blk)"
    and "send_chunks (drop (off * OVERLAPPED_BUFIZE) blk)
           = take OVERLAPPED_BUFIZE (drop (off * OVERLAPPED_BUFIZE) blk)
             # send_chunks (drop (Suc off * OVERLAPPED_BUFIZE) blk)"
    and "length (drop (Suc off * OVERLAPPED_BUFIZE) blk) = unat (tot - frag_size tot)"
    and "unat (tot - frag_size tot) < unat tot"
proof -
  let ?bs = "drop (off * OVERLAPPED_BUFIZE) blk"
  have pos: "0 < unat tot"
    using more by (simp add: word_le_iff_unat)
  then have ne: "?bs \<noteq> []"
    using len by auto
  have next_bs: "drop OVERLAPPED_BUFIZE ?bs = drop (Suc off * OVERLAPPED_BUFIZE) blk"
    by (simp add: add.commute)
  show "unat (frag_size tot) \<le> length ?bs" "take (unat (frag_size tot)) ?bs = take OVERLAPPED_BUFIZE ?bs"
    using len by (simp_all add: unat_frag_size min_def)
  show "send_chunks ?bs = take OVERLAPPED_BUFIZE ?bs # send_chunks (drop (Suc off * OVERLAPPED_BUFIZE) blk)"
    using ne next_bs by (subst send_chunks.simps) simp
  show "length (drop (Suc off * OVERLAPPED_BUFIZE) blk) = unat (tot - frag_size tot)"
    using len by (simp add: unat_frag_rest flip: next_bs)
  show "unat (tot - frag_size tot) < unat tot"
    using pos by (simp add: unat_frag_rest OVERLAPPED_BUFIZE_def)
qed

lemma send_fragments_effect:
  assumes "srv_inv held s" and "length (drop (off * OVERLAPPED_BUFIZE) blk) = unat tot"
  shows "\<exists>s' n. send_fragments env k blk tot off s = Ok s' \<and> srv_inv held s' \<and> same_but_io s s'
    \<and> flight_kept s s'
    \<and> sent_buffers k (ssys s') = sent_buffers k (ssys s)
        @ take n (send_chunks (drop (off * OVERLAPPED_BUFIZE) blk))
    \<and> (\<forall>j. j \<noteq> k \<longrightarrow> sent_buffers j (ssys s') = sent_buffers j (ssys s))
    \<and> (send_accepted env \<longrightarrow> length (send_chunks (drop (off * OVERLAPPED_BUFIZE) blk)) \<le> n)"
  using assms
proof (induction "unat tot" arbitrary: tot off s rule: less_induct)
  case less
  let ?bs = "drop (off * OVERLAPPED_BUFIZE) blk"
  show ?case
  proof (cases "tot \<le> 0")
    case True
    then have "tot = 0"
      by (simp add: word_le_0_iff)
    then have "?bs = []"
      using less.prems(2) by simp
    then show ?thesis
      using True less.prems(1)
      by (intro exI [of _ s] exI [of _ 0]) (simp add: send_fragments.simps)
  next
    case False
    note cut = fragment_cut [OF less.prems(2) False]
    obtain b s1 where run: "send_fragment env k blk tot off s = Ok (b, tot - frag_size tot, s1)"
      using send_fragment_Ok [OF less.prems(1) cut(1)] by blast
    note eff = send_fragment_effect [OF less.prems(1) run]
    have buf1: "sent_buffers k (ssys s1) = sent_buffers k (ssys s) @ [take OVERLAPPED_BUFIZE ?bs]"
      "j \<noteq> k \<Longrightarrow> sent_buffers j (ssys s1) = sent_buffers j (ssys s)" for j
      using eff(4) cut(2) by simp_all
    show ?thesis
    proof (cases b)
      case True
      obtain s' n where s': "send_fragments env k blk (tot - frag_size tot) (Suc off) s1 = Ok s'"
        "srv_inv held s'" "same_but_io s1 s'" "flight_kept s1 s'"
        "sent_buffers k (ssys s') = sent_buffers k (ssys s1)
          @ take n (send_chunks (drop (Suc off * OVERLAPPED_BUFIZE) blk))"
        "\<forall>j. j \<noteq> k \<longrightarrow> sent_buffers j (ssys s') = sent_buffers j (ssys s1)"
        "send_accepted env \<longrightarrow> length (send_chunks (drop (Suc off * OVERLAPPED_BUFIZE) blk)) \<le> n"
        using less.hyps [OF cut(5) eff(1) cut(4)] by blast
      have "send_fragments env k blk tot off s = Ok s'"
        using False run True s'(1) by (subst send_fragments.simps) simp
      moreover have "same_but_io s s'" "flight_kept s s'"
        using eff(2,3) s'(3,4) same_but_io_trans flight_kept_trans by blast+
      ultimately show ?thesis
        using s'(2,5-7) buf1 cut(3) by (intro exI [of _ s'] exI [of _ "Suc n"]) simp
    next
      case no: False
      then have "send_fragments env k blk tot off s = Ok s1"
        using False run by (subst send_fragments.simps) simp
      then show ?thesis
        using eff(1-3,5) no buf1 cut(3) by (intro exI [of _ s1] exI [of _ 1]) auto
    qed
  qed
qed

text \<open>
  \<open>same_but_send s s'\<close>: only the overlapped pool, the system, the heap and the send queue may differ.
\<close>

definition same_but_send :: "server \<Rightarrow> server \<Rightarrow> bool" where
  "same_but_send s s' \<longleftrightarrow>
     s' = s\<lparr>Available_Overlapped := Available_Overlapped s', ssys := ssys s', sheap := sheap s',
            Send_Data_Queue := Send_Data_Queue s'\<rparr>"

lemma same_but_send_refl [simp, intro]: "same_but_send s s"
  by (simp add: same_but_send_def)

lemma same_but_send_trans: "same_but_send s s' \<Longrightarrow> same_but_send s' s'' \<Longrightarrow> same_but_send s s''"
  unfolding same_but_send_def by (cases s, cases s', cases s'') simp

lemma same_but_sendD:
  assumes "same_but_send s s'"
  shows "MAX_USER_COUNT s' = MAX_USER_COUNT s" "Recv_Data_Queue s' = Recv_Data_Queue s"
    "g_Connected_Client s' = g_Connected_Client s" "g_Socket_Struct_Pool s' = g_Socket_Struct_Pool s"
    "socket_mem s' = socket_mem s" "g_Debug_Option s' = g_Debug_Option s"
    "g_Is_Exit s' = g_Is_Exit s" "g_Listen_Socket s' = g_Listen_Socket s"
    "connected s' = connected s"
  using assms unfolding same_but_send_def connected_def by (cases s, cases s', simp)+

lemma same_but_send_io: "same_but_io s s' \<Longrightarrow> same_but_send s s'"
  unfolding same_but_io_def same_but_send_def by (cases s, cases s') simp

lemma same_but_send_upd [simp, intro]:
  "same_but_send s (s\<lparr>sheap := h\<rparr>)" "same_but_send s (s\<lparr>Send_Data_Queue := q\<rparr>)"
  by (simp_all add: same_but_send_def)

lemma srv_inv_send:
  assumes "same_but_send s s'" and "srv_inv held s" and "srv_owns held' s'" and "srv_queues_ok s'"
  shows "srv_inv held' s'"
proof -
  have "maps_ok s' = maps_ok s" "avail_ok s' = avail_ok s"
    by (rule maps_ok_cong avail_ok_cong, simp_all add: same_but_sendD [OF assms(1)])+
  with assms show ?thesis by (simp add: srv_inv_def)
qed

text \<open>
  One packet of the queue: it is sent when its receiver is connected and dropped when not; in both
  cases its block is released, exactly once.
\<close>

lemma send_packet_effect:
  assumes inv: "srv_inv held s" and queue: "Send_Data_Queue s = (k, q) # es"
  shows "\<exists>p s' n. srv_sends s = (k, p) # srv_sends s' \<and> packet_ok p
    \<and> send_packet env (k, q) (s\<lparr>Send_Data_Queue := es\<rparr>) = Ok s'
    \<and> srv_inv held s' \<and> same_but_send s s' \<and> Send_Data_Queue s' = es
    \<and> srv_msgs s' = srv_msgs s \<and> flight_kept s s' \<and> cells (sheap s') q = None
    \<and> (\<forall>j. sent_buffers j (ssys s') = sent_buffers j (ssys s)
         @ (if j = k \<and> k \<in> connected s then take n (send_chunks (encode_packet p)) else []))
    \<and> (send_accepted env \<longrightarrow> length (send_chunks (encode_packet p)) \<le> n)"
proof -
  let ?t = "s\<lparr>Send_Data_Queue := es\<rparr>"
  have qs: "queues_ok (sheap s) (Recv_Data_Queue s) (q # map snd es)"
    using inv queue by (simp add: srv_inv_def srv_queues_ok_def)
  obtain p where p: "heap_packet q (sheap s) = Ok (encode_packet p)" "packet_ok p"
    "send_view (sheap s) (q # map snd es) = p # send_view (sheap s) (map snd es)"
    "queues_ok (sheap s) (Recv_Data_Queue s) (map snd es)"
    "q \<notin> set (heap_refs (sheap s) (Recv_Data_Queue s) (map snd es))"
    "cells (sheap s) q = Some (Packet_Block (encode_packet p))"
    using queues_pop_send [OF qs] by blast
  obtain h where h: "heap_free q (sheap s) = Ok h" "queues_ok h (Recv_Data_Queue s) (map snd es)"
    "recv_view h (Recv_Data_Queue s) = recv_view (sheap s) (Recv_Data_Queue s)"
    "send_view h (map snd es) = send_view (sheap s) (map snd es)"
    "cells h = (cells (sheap s))(q := None)"
    using queues_release [OF p(4,5,6)] by blast
  have sends: "srv_sends s = (k, p) # zip (map fst es) (send_view h (map snd es))"
    using queue p(3) h(4) by (simp add: srv_sends_def)
  have inv_t: "srv_inv held ?t"
    by (rule srv_inv_send [OF same_but_send_upd(2) inv])
      (use inv p(4) in \<open>simp_all add: srv_inv_def srv_queues_ok_def\<close>)
  have final: "srv_sends (u\<lparr>sheap := h\<rparr>) = zip (map fst es) (send_view h (map snd es))
      \<and> srv_msgs (u\<lparr>sheap := h\<rparr>) = srv_msgs s \<and> srv_queues_ok (u\<lparr>sheap := h\<rparr>)"
    if "Send_Data_Queue u = es" "Recv_Data_Queue u = Recv_Data_Queue s" for u
    using that h by (simp add: srv_sends_def srv_msgs_def srv_queues_ok_def)
  show ?thesis
  proof (cases "k \<in> connected s")
    case False
    then have run: "send_packet env (k, q) ?t = Ok (?t\<lparr>sheap := h\<rparr>)"
      using h(1) by (simp add: send_packet_def connected_def)
    have same: "same_but_send s (?t\<lparr>sheap := h\<rparr>)"
      using same_but_send_trans [OF same_but_send_upd(2) same_but_send_upd(1)] .
    have "srv_inv held (?t\<lparr>sheap := h\<rparr>)"
      by (rule srv_inv_send [OF same inv]) (use inv final [of ?t] in \<open>simp_all add: srv_inv_def\<close>)
    then show ?thesis
      using run same False sends final [of ?t] p(2) h(5)
      by (intro exI [of _ p] exI [of _ "?t\<lparr>sheap := h\<rparr>"]
          exI [of _ "length (send_chunks (encode_packet p))"]) (simp add: flight_kept_def)
  next
    case True
    let ?tot = "packet_total (word_of_nat (length (snd p)))"
    have len: "length (drop (0 * OVERLAPPED_BUFIZE) (encode_packet p)) = unat ?tot"
      using packet_total_encode [OF p(2)] by simp
    obtain u n where u: "send_fragments env k (encode_packet p) ?tot 0 ?t = Ok u" "srv_inv held u"
      "same_but_io ?t u" "flight_kept ?t u"
      "sent_buffers k (ssys u) = sent_buffers k (ssys ?t) @ take n (send_chunks (encode_packet p))"
      "\<forall>j. j \<noteq> k \<longrightarrow> sent_buffers j (ssys u) = sent_buffers j (ssys ?t)"
      "send_accepted env \<longrightarrow> length (send_chunks (encode_packet p)) \<le> n"
      using send_fragments_effect [OF inv_t len, of env k] by auto
    have io: "sheap u = sheap s" "Recv_Data_Queue u = Recv_Data_Queue s" "Send_Data_Queue u = es"
      using same_but_ioD [OF u(3)] by simp_all
    have size: "get_Packet_Size (encode_packet p) = Ok (word_of_nat (length (snd p)))"
      using get_Packet_Size_encode [of p "[]"] by simp
    have conn: "\<exists>y. map_of (g_Connected_Client s) k = Some y"
      using True by (simp add: connected_def)
    have run: "send_packet env (k, q) ?t = Ok (u\<lparr>sheap := h\<rparr>)"
      using conn p(1) size u(1) h(1) io(1) by (auto simp: send_packet_def)
    have same: "same_but_send s (u\<lparr>sheap := h\<rparr>)"
      using same_but_send_io [OF u(3)] same_but_send_trans same_but_send_upd by blast
    have "srv_inv held (u\<lparr>sheap := h\<rparr>)"
      by (rule srv_inv_send [OF same inv]) (use u(2) final [OF io(3,2)] in \<open>simp_all add: srv_inv_def\<close>)
    moreover have "flight_kept s (u\<lparr>sheap := h\<rparr>)"
      using u(4) by (simp add: flight_kept_def)
    ultimately show ?thesis
      using run same True sends final [OF io(3,2)] p(2) h(5) u(5-7) io(3)
      by (intro exI [of _ p] exI [of _ "u\<lparr>sheap := h\<rparr>"] exI [of _ n]) simp
  qed
qed

text \<open>The whole queue, when every call is accepted: each connected receiver gets its packets.\<close>

definition bytes_for :: "sock \<Rightarrow> server \<Rightarrow> byte list list" where
  "bytes_for k s = concat (map (\<lambda>(j, p). if j = k \<and> k \<in> connected s
                                then send_chunks (encode_packet p) else []) (srv_sends s))"

lemma send_queue_effect:
  assumes "srv_inv held s" and "send_accepted env"
  shows "\<exists>s'. send_queue env (Send_Data_Queue s) s = Ok s' \<and> srv_inv held s' \<and> same_but_send s s'
    \<and> Send_Data_Queue s' = [] \<and> srv_msgs s' = srv_msgs s \<and> flight_kept s s'
    \<and> (\<forall>k. sent_buffers k (ssys s') = sent_buffers k (ssys s) @ bytes_for k s)"
  using assms(1)
proof (induction "Send_Data_Queue s" arbitrary: s)
  case Nil
  then show ?case
    by (intro exI [of _ s]) (simp add: bytes_for_def srv_sends_def flip: Nil.hyps)
next
  case (Cons e es)
  obtain k q where e: "e = (k, q)" by (cases e)
  obtain p s1 n where s1: "srv_sends s = (k, p) # srv_sends s1"
    "send_packet env (k, q) (s\<lparr>Send_Data_Queue := es\<rparr>) = Ok s1" "srv_inv held s1"
    "same_but_send s s1" "Send_Data_Queue s1 = es" "srv_msgs s1 = srv_msgs s" "flight_kept s s1"
    "\<forall>j. sent_buffers j (ssys s1) = sent_buffers j (ssys s)
         @ (if j = k \<and> k \<in> connected s then take n (send_chunks (encode_packet p)) else [])"
    "length (send_chunks (encode_packet p)) \<le> n"
    using send_packet_effect [OF Cons.prems, of k q es env] Cons.hyps(2) e assms(2) by auto
  from Cons.hyps(1) [OF s1(5) [symmetric] s1(3)] obtain s' where
    s': "send_queue env es s1 = Ok s'" "srv_inv held s'" "same_but_send s1 s'"
    "Send_Data_Queue s' = []" "srv_msgs s' = srv_msgs s1" "flight_kept s1 s'"
    "\<forall>k. sent_buffers k (ssys s') = sent_buffers k (ssys s1) @ bytes_for k s1"
    using s1(5) by auto
  have "bytes_for j s = (if j = k \<and> k \<in> connected s then send_chunks (encode_packet p) else [])
      @ bytes_for j s1" for j
    using s1(1) same_but_sendD(9) [OF s1(4)] by (simp add: bytes_for_def)
  moreover have "same_but_send s s'" "flight_kept s s'"
    using s1(4,7) s'(3,6) same_but_send_trans flight_kept_trans by blast+
  moreover have "send_queue env (Send_Data_Queue s) s = Ok s'"
    using s1(2) s'(1) by (simp add: e flip: Cons.hyps(2))
  ultimately show ?case
    using s'(2,4,5,7) s1(6,8,9) by (intro exI [of _ s']) simp
qed

section \<open>What Send queues\<close>

text \<open>
  The memory of a caller's packet: the encoding of a packet, and possibly more, as in the fixed-size
  structures \<open>C2S_Packet\<close> and \<open>S2C_Packet\<close>.
\<close>

definition user_packet :: "byte list \<Rightarrow> packet \<Rightarrow> bool" where
  "user_packet blk p \<longleftrightarrow> packet_ok p \<and> take (packet_size p) blk = encode_packet p"

lemma user_packetE:
  assumes "user_packet blk p"
  obtains rest where "blk = encode_packet p @ rest" and "packet_ok p"
  using assms by (metis append_take_drop_id user_packet_def)

lemma user_packet_encode: "packet_ok p \<Longrightarrow> user_packet (encode_packet p @ rest) p"
  by (simp add: user_packet_def)

lemma copy_packet_Ok:
  assumes "user_packet blk p"
  shows "get_Packet_Size blk = Ok (word_of_nat (length (snd p)))"
    and "get_Packet_Type blk = Ok (fst p)" and "fst p \<noteq> PACKET_TYPE_NONE"
    and "copy_packet blk (packet_total (word_of_nat (length (snd p)))) h
           = Ok (heap_alloc (Packet_Block (encode_packet p)) h)"
proof -
  obtain rest where blk: "blk = encode_packet p @ rest" and ok: "packet_ok p"
    using assms by (rule user_packetE)
  show "get_Packet_Size blk = Ok (word_of_nat (length (snd p)))"
    and "get_Packet_Type blk = Ok (fst p)" and "fst p \<noteq> PACKET_TYPE_NONE"
    using ok by (simp_all add: blk packet_ok_def)
  show "copy_packet blk (packet_total (word_of_nat (length (snd p)))) h
      = Ok (heap_alloc (Packet_Block (encode_packet p)) h)"
    using packet_total_encode [OF ok] by (simp add: copy_packet_def memcpy_s_def mem_write_0 blk)
qed

text \<open>\<open>queued\<close>: what one or more pushes to the send queue do to the state.\<close>

definition queued :: "nat list \<Rightarrow> (sock \<times> packet) list \<Rightarrow> server \<Rightarrow> server \<Rightarrow> bool" where
  "queued held new s s' \<longleftrightarrow> srv_inv held s' \<and> same_but_send s s' \<and> ssys s' = ssys s
     \<and> flight_kept s s' \<and> srv_msgs s' = srv_msgs s \<and> srv_sends s' = srv_sends s @ new"

lemma queued_refl: "srv_inv held s \<Longrightarrow> queued held [] s s"
  by (simp add: queued_def)

lemma queued_trans: "queued held a s s' \<Longrightarrow> queued held b s' s'' \<Longrightarrow> queued held (a @ b) s s''"
  unfolding queued_def using same_but_send_trans flight_kept_trans by fastforce

lemma queued_push:
  assumes inv: "srv_inv held s" and alloc: "heap_alloc (Packet_Block (encode_packet p)) (sheap s) = (q, h)"
    and p: "packet_ok p"
  shows "queued held [(k, p)] s (s\<lparr>sheap := h, Send_Data_Queue := Send_Data_Queue s @ [(k, q)]\<rparr>)"
    (is "queued held _ s ?s'")
proof -
  have qs: "queues_ok (sheap s) (Recv_Data_Queue s) (map snd (Send_Data_Queue s))"
    using inv by (simp add: srv_inv_def srv_queues_ok_def)
  note push = queues_push_send [OF qs alloc p]
  have same: "same_but_send s ?s'"
    by (simp add: same_but_send_def)
  have "length (send_view (sheap s) (map snd (Send_Data_Queue s))) = length (Send_Data_Queue s)"
    by (simp add: send_view_def)
  then have "srv_sends ?s' = srv_sends s @ [(k, p)]"
    using push(3) by (simp add: srv_sends_def)
  moreover have "srv_inv held ?s'"
    by (rule srv_inv_send [OF same inv]) (use inv push(1) in \<open>simp_all add: srv_inv_def srv_queues_ok_def\<close>)
  ultimately show ?thesis
    using same push(2) by (simp add: queued_def flight_kept_def srv_msgs_def)
qed

lemma broadcast_loop_effect:
  assumes "user_packet blk p"
  defines "tot \<equiv> packet_total (word_of_nat (length (snd p)))"
  shows "srv_inv held s \<Longrightarrow> fst ` set es \<subseteq> connected s \<Longrightarrow>
    \<exists>s'. broadcast_loop blk tot es n s = Ok (n + int (length es), s')
       \<and> queued held (map (\<lambda>e. (fst e, p)) es) s s'"
proof (induction es arbitrary: n s)
  case Nil
  then show ?case by (simp add: queued_refl)
next
  case (Cons e es)
  obtain q h where alloc: "heap_alloc (Packet_Block (encode_packet p)) (sheap s) = (q, h)"
    by force
  let ?s1 = "s\<lparr>sheap := h, Send_Data_Queue := Send_Data_Queue s @ [(fst e, q)]\<rparr>"
  have "packet_ok p"
    using assms(1) by (simp add: user_packet_def)
  note push = queued_push [OF Cons.prems(1) alloc this, of "fst e"]
  have "srv_inv held ?s1" "fst ` set es \<subseteq> connected ?s1"
    using push Cons.prems(2) by (auto simp: queued_def connected_def)
  from Cons.IH [OF this, of "n + 1"] obtain s' where
    s': "broadcast_loop blk tot es (n + 1) ?s1 = Ok (n + 1 + int (length es), s')"
    "queued held (map (\<lambda>e. (fst e, p)) es) ?s1 s'"
    by blast
  have "\<exists>y. map_of (g_Connected_Client s) (fst e) = Some y"
    using Cons.prems(2) by (simp add: connected_def)
  then have "broadcast_loop blk tot (e # es) n s = Ok (n + 1 + int (length es), s')"
    using s'(1) copy_packet_Ok(4) [OF assms(1)] alloc by (auto simp: tot_def)
  then show ?case
    using queued_trans [OF push s'(2)] by auto
qed

lemma except_loop_effect:
  assumes "user_packet blk p"
  defines "tot \<equiv> packet_total (word_of_nat (length (snd p)))"
  shows "srv_inv held s \<Longrightarrow> fst ` set es \<subseteq> connected s \<Longrightarrow>
    \<exists>s'. except_loop k blk tot es n s = Ok (n + int (length (filter (\<lambda>e. fst e \<noteq> k) es)), s')
       \<and> queued held (map (\<lambda>e. (fst e, p)) (filter (\<lambda>e. fst e \<noteq> k) es)) s s'"
proof (induction es arbitrary: n s)
  case Nil
  then show ?case by (simp add: queued_refl)
next
  case (Cons e es)
  have conn: "\<exists>y. map_of (g_Connected_Client s) (fst e) = Some y"
    using Cons.prems(2) by (simp add: connected_def)
  show ?case
  proof (cases "fst e = k")
    case True
    from Cons.IH [OF Cons.prems(1), of n] Cons.prems(2) True conn show ?thesis
      by auto
  next
    case False
    obtain q h where alloc: "heap_alloc (Packet_Block (encode_packet p)) (sheap s) = (q, h)"
      by force
    let ?s1 = "s\<lparr>sheap := h, Send_Data_Queue := Send_Data_Queue s @ [(fst e, q)]\<rparr>"
    have "packet_ok p"
      using assms(1) by (simp add: user_packet_def)
    note push = queued_push [OF Cons.prems(1) alloc this, of "fst e"]
    have "srv_inv held ?s1" "fst ` set es \<subseteq> connected ?s1"
      using push Cons.prems(2) by (auto simp: queued_def connected_def)
    from Cons.IH [OF this, of "n + 1"] obtain s' where
      s': "except_loop k blk tot es (n + 1) ?s1
          = Ok (n + 1 + int (length (filter (\<lambda>e. fst e \<noteq> k) es)), s')"
      "queued held (map (\<lambda>e. (fst e, p)) (filter (\<lambda>e. fst e \<noteq> k) es)) ?s1 s'"
      by blast
    have "except_loop k blk tot (e # es) n s
        = Ok (n + 1 + int (length (filter (\<lambda>e. fst e \<noteq> k) es)), s')"
      using s'(1) copy_packet_Ok(4) [OF assms(1)] alloc conn False by (auto simp: tot_def)
    then show ?thesis
      using queued_trans [OF push s'(2)] False by auto
  qed
qed

lemma connected_keys: "fst ` set (g_Connected_Client s) = connected s"
  by (auto simp: connected_def map_of_eq_None_iff)

text \<open>The outcome of \<open>Send\<close> for a packet of the caller with a type.\<close>

lemma Send_broadcast:
  assumes "srv_inv held s" and "user_packet blk p"
  shows "\<exists>s'. Send env (Some blk) SEND_TYPE_BROADCAST k s = Ok (int (length (g_Connected_Client s)), s')
    \<and> queued held (map (\<lambda>e. (fst e, p)) (g_Connected_Client s)) s s'"
  using broadcast_loop_effect [OF assms(2,1), of "g_Connected_Client s" 0] copy_packet_Ok [OF assms(2)]
  by (simp add: Send_def BroadCastMessage_def connected_keys)

lemma Send_except:
  assumes "srv_inv held s" and "user_packet blk p"
  shows "\<exists>s'. Send env (Some blk) SEND_TYPE_EXCEPT_TARGET k s
      = Ok (int (length (filter (\<lambda>e. fst e \<noteq> k) (g_Connected_Client s))), s')
    \<and> queued held (map (\<lambda>e. (fst e, p)) (filter (\<lambda>e. fst e \<noteq> k) (g_Connected_Client s))) s s'"
  using except_loop_effect [OF assms(2,1), of "g_Connected_Client s" k 0] copy_packet_Ok [OF assms(2)]
  by (simp add: Send_def Except_Target_Message_def connected_keys SEND_TYPE_BROADCAST_def
      SEND_TYPE_TARGET_def SEND_TYPE_EXCEPT_TARGET_def)

lemma Send_target:
  assumes "srv_inv held s" and "user_packet blk p" and "k \<in> connected s"
  shows "\<exists>s'. Send env (Some blk) SEND_TYPE_TARGET k s = Ok (LOGIC_SUCCESS, s')
    \<and> queued held [(k, p)] s s'"
proof -
  obtain y where y: "map_of (g_Connected_Client s) k = Some y"
    using assms(3) by (auto simp: connected_def)
  have "maps_ok s"
    using assms(1) by (simp add: srv_inv_def)
  then obtain ss where ss: "socket_mem s y = Some ss" "ss_Socket ss = k"
    using maps_ok_connE [OF _ y] by metis
  obtain q h where alloc: "heap_alloc (Packet_Block (encode_packet p)) (sheap s) = (q, h)"
    by force
  have "packet_ok p"
    using assms(2) by (simp add: user_packet_def)
  from queued_push [OF assms(1) alloc this, of k] show ?thesis
    using copy_packet_Ok [OF assms(2)] alloc y ss
    by (simp add: Send_def Target_Message_def SEND_TYPE_BROADCAST_def SEND_TYPE_TARGET_def sock_at_def)
qed

text \<open>
  A target that is not connected: failure is reported, nothing is queued, and the copy already made
  stays allocated with no queue owning it.
\<close>

lemma Send_target_absent:
  assumes "srv_inv held s" and "user_packet blk p" and "k \<notin> connected s"
  shows "\<exists>s' q. Send env (Some blk) SEND_TYPE_TARGET k s = Ok (LOGIC_FAIL, s') \<and> queued held [] s s'
    \<and> cells (sheap s) q = None \<and> cells (sheap s') q = Some (Packet_Block (encode_packet p))
    \<and> q \<notin> set (heap_refs (sheap s') (Recv_Data_Queue s') (map snd (Send_Data_Queue s')))"
proof -
  have y: "map_of (g_Connected_Client s) k = None"
    using assms(3) by (simp add: connected_def)
  obtain q h where alloc: "heap_alloc (Packet_Block (encode_packet p)) (sheap s) = (q, h)"
    by force
  have qs: "queues_ok (sheap s) (Recv_Data_Queue s) (map snd (Send_Data_Queue s))"
    using assms(1) by (simp add: srv_inv_def srv_queues_ok_def)
  note al = queues_alloc [OF qs alloc]
  have same: "same_but_send s (s\<lparr>sheap := h\<rparr>)"
    by simp
  have "srv_inv held (s\<lparr>sheap := h\<rparr>)"
    by (rule srv_inv_send [OF same assms(1)])
      (use assms(1) al(1) in \<open>simp_all add: srv_inv_def srv_queues_ok_def\<close>)
  then have "queued held [] s (s\<lparr>sheap := h\<rparr>)"
    using same al by (simp add: queued_def flight_kept_def srv_msgs_def srv_sends_def)
  moreover have "cells (sheap s) q = None"
    using hp.alloc_fresh [OF _ alloc] qs by (simp add: queues_ok_def)
  moreover have "Send env (Some blk) SEND_TYPE_TARGET k s = Ok (LOGIC_FAIL, s\<lparr>sheap := h\<rparr>)"
    using copy_packet_Ok [OF assms(2)] alloc y
    by (simp add: Send_def Target_Message_def SEND_TYPE_BROADCAST_def SEND_TYPE_TARGET_def)
  ultimately show ?thesis
    using al(4,5,6) by (intro exI [of _ "s\<lparr>sheap := h\<rparr>"] exI [of _ q]) simp
qed

text \<open>Whatever the way of sending, \<open>Send\<close> only queues: the invariant holds and nothing is sent yet.\<close>

lemma Send_queues:
  assumes "srv_inv held s" and "user_packet blk p"
  shows "\<exists>r new s'. Send env (Some blk) t k s = Ok (r, s') \<and> queued held new s s'
    \<and> (\<forall>m \<in> set new. snd m = p)"
proof -
  note copy = copy_packet_Ok [OF assms(2)]
  consider "t = SEND_TYPE_BROADCAST" | "t = SEND_TYPE_EXCEPT_TARGET"
    | "t = SEND_TYPE_TARGET" "k \<in> connected s" | "t = SEND_TYPE_TARGET" "k \<notin> connected s"
    | "t \<noteq> SEND_TYPE_BROADCAST" "t \<noteq> SEND_TYPE_EXCEPT_TARGET" "t \<noteq> SEND_TYPE_TARGET"
    by blast
  then show ?thesis
  proof cases
    case 1
    with Send_broadcast [OF assms, of env k] show ?thesis by fastforce
  next
    case 2
    with Send_except [OF assms, of env k] show ?thesis by fastforce
  next
    case 3
    with Send_target [OF assms, of k env] show ?thesis by fastforce
  next
    case 4
    with Send_target_absent [OF assms, of k env] show ?thesis by fastforce
  next
    case 5
    then have "Send env (Some blk) t k s = Ok (LOGIC_FAIL, s)"
      using copy by (simp add: Send_def)
    with queued_refl [OF assms(1)] show ?thesis by fastforce
  qed
qed

end
