(* ===== verification/DH_ServerIO.thy ===== *)
theory DH_ServerIO
  imports DH_ServerStream DH_ServerSend
begin

text \<open>
  The other completion handlers of \<open>DHServer.cpp\<close> and the worker thread: \<open>IOFunction_Send\<close>,
  \<open>IOFunction_Accept\<close>, \<open>IOFunction_Disconnect\<close>, and the body of \<open>WorkThread\<close> for one entry and for
  a batch of entries of \<open>GetQueuedCompletionStatusEx\<close>. The invariant of the whole server at rest is
  \<open>sys_inv\<close>; every entry the worker handles keeps it.
\<close>

section \<open>The handlers\<close>

definition IOFunction_Send :: "os \<Rightarrow> u32 \<Rightarrow> nat \<Rightarrow> server \<Rightarrow> server" where
  "IOFunction_Send env dwNumberOfBytesTransferred x s =
     (let s = (if g_Debug_Option s = DHDEBUG_SIMPLE
               then s\<lparr>g_Send_Total_Packet := g_Send_Total_Packet s + dwNumberOfBytesTransferred\<rparr>
               else s)
      in ov_reset env x s)"

definition IOFunction_Accept :: "os \<Rightarrow> nat \<Rightarrow> server \<Rightarrow> server res" where
  "IOFunction_Accept env x s =
     (if length (g_Connected_Client s) = unat (MAX_USER_COUNT s)
      then bindE (Reuse_Socket env (m_Socket (ov_at s x)) s) (\<lambda>s. Ok (ov_reset env x s))
      else
        case map_of (g_Socket_Struct_Pool s) (m_Socket (ov_at s x)) of
          None \<Rightarrow> Fault Spin
        | Some p \<Rightarrow> bindE (sock_at s p) (\<lambda>ss.
            let (ip, port) = remote_addr env (m_Buffer (ov_at s x));
                s = sock_upd p (ss\<lparr>ss_IP := write_c_str ip (ss_IP ss), ss_PORT := port\<rparr>) s
            in bindE (AddClientSocket env (Some p) s) (\<lambda>(added, s).
                 if \<not> added then bindE (assertE env False) (\<lambda>_. Ok s)
                 else
                   let s = (if g_Debug_Option s = DHDEBUG_SIMPLE
                            then s\<lparr>g_Enter_User_Count := g_Enter_User_Count s + 1\<rparr> else s)
                   in bindE (sock_at s p) (\<lambda>ss.
                      bindE (Reserve_WSAReceive env (ss_Socket ss) None s) (\<lambda>(ok, s).
                        if \<not> ok then bindE (sock_at s p) (\<lambda>ss. kick env (ss_Socket ss) x s)
                        else
                          let s = ov_reset env x s
                          in bindE (sock_at s p) (\<lambda>ss.
                               Ok (sock_upd p (ss\<lparr>Is_Available := True\<rparr>) s)))))))"

definition IOFunction_Disconnect :: "os \<Rightarrow> nat \<Rightarrow> server \<Rightarrow> server res" where
  "IOFunction_Disconnect env x s =
     (let s = ov_upd x (\<lambda>v. v\<lparr>m_IOType := IOType_Accept\<rparr>) s
      in case g_Listen_Socket s of
           None \<Rightarrow> Fault Null_Deref
         | Some l \<Rightarrow>
             let (r, s) = srv_async env (Sys_AcceptEx l (m_Socket (ov_at s x)) x) x s
             in if last_error r \<noteq> WSA_IO_PENDING
                then bindE (assertE env False) (\<lambda>_. Ok (ov_reset env x s))
                else Ok s)"

section \<open>The worker thread\<close>

record OVERLAPPED_ENTRY =
  lpCompletionKey :: "ptr option"
  lpOverlapped :: "nat option"
  dwNumberOfBytesTransferred :: u32

text \<open>
  The body of the loop over the entries. The result says whether the thread returns. On an entry with
  no structure, the signal to quit, the code posts the signal again for the next worker, gives its
  three blocks back and reaches \<open>delete[] &Entry_Data\<close>, an array on the stack: the fault \<open>Bad_Free\<close>, and
  what a run did before its fault is not kept.
\<close>

definition WorkThread_entry :: "os \<Rightarrow> OVERLAPPED_ENTRY \<Rightarrow> server \<Rightarrow> (bool \<times> server) res" where
  "WorkThread_entry env e s =
     (case lpOverlapped e of
        None \<Rightarrow> Fault Bad_Free
      | Some x \<Rightarrow>
          (case m_IOType (ov_at s x) of
             IOType_Disconnect \<Rightarrow>
               bindE (IOFunction_Disconnect env x s) (\<lambda>s.
                 case lpCompletionKey e of
                   None \<Rightarrow> Fault Null_Deref
                 | Some p \<Rightarrow> bindE (sock_at s p) (\<lambda>ss.
                     Ok (False, sock_upd p (ss\<lparr>Is_Available := True\<rparr>) s)))
           | IOType_Accept \<Rightarrow> bindE (IOFunction_Accept env x s) (\<lambda>s. Ok (False, s))
           | io \<Rightarrow>
               (case lpCompletionKey e of
                  None \<Rightarrow> bindE (assertE env False) (\<lambda>_. Ok (False, s))
                | Some p \<Rightarrow> bindE (sock_at s p) (\<lambda>ss.
                    if dwNumberOfBytesTransferred e = 0
                    then bindE (kick env (ss_Socket ss) x s) (\<lambda>s. Ok (False, s))
                    else if \<not> Is_Available ss then Ok (False, ov_reset env x s)
                    else if io = IOType_Recv
                    then bindE (IOFunction_Recv env (dwNumberOfBytesTransferred e) x p s)
                           (\<lambda>s. Ok (False, s))
                    else if io = IOType_Send
                    then Ok (False, IOFunction_Send env (dwNumberOfBytesTransferred e) x s)
                    else Ok (False, ov_reset env x s)))))"

text \<open>The entries of one call, in order; the thread may return before the last one.\<close>

primrec WorkThread_batch :: "os \<Rightarrow> OVERLAPPED_ENTRY list \<Rightarrow> server \<Rightarrow> (bool \<times> server) res" where
  "WorkThread_batch env [] s = Ok (False, s)"
| "WorkThread_batch env (e # es) s =
     bindE (WorkThread_entry env e s) (\<lambda>(stop, s).
       if stop then Ok (True, s) else WorkThread_batch env es s)"

text \<open>What a worker does before its loop: three four-byte blocks of the memory pool.\<close>

definition WorkThread_start :: "os \<Rightarrow> server \<Rightarrow> server res" where
  "WorkThread_start env s =
     bindE (assertE env (g_IOCP s)) (\<lambda>_.
     bindE (GetMemory 4 (m_MemoryPool s)) (\<lambda>(_, mp).
     bindE (GetMemory 4 mp) (\<lambda>(_, mp).
     bindE (GetMemory 4 mp) (\<lambda>(_, mp). Ok (s\<lparr>m_MemoryPool := mp\<rparr>)))))"

text \<open>
  The thread over the results of its calls of \<open>GetQueuedCompletionStatusEx\<close>: \<open>None\<close> is a failed call.
\<close>

primrec WorkThread_loop :: "os \<Rightarrow> OVERLAPPED_ENTRY list option list \<Rightarrow> server \<Rightarrow> (bool \<times> server) res" where
  "WorkThread_loop env [] s = Ok (False, s)"
| "WorkThread_loop env (got # rest) s =
     (case got of
        None \<Rightarrow> WorkThread_loop env rest s
      | Some es \<Rightarrow> bindE (WorkThread_batch env es s) (\<lambda>(stop, s).
          if stop then Ok (True, s) else WorkThread_loop env rest s))"

definition WorkThread :: "os \<Rightarrow> OVERLAPPED_ENTRY list option list \<Rightarrow> server \<Rightarrow> (bool \<times> server) res" where
  "WorkThread env dequeues s = bindE (WorkThread_start env s) (WorkThread_loop env dequeues)"

section \<open>The invariant of the server at rest\<close>

text \<open>
  Besides the invariant of the data: every connected client has a receive in flight, so that no client
  is ever deaf; every operation in flight is for a socket of the pool; and a socket is in at most one
  state of its life cycle.
\<close>

definition armed :: "server \<Rightarrow> bool" where
  "armed s \<longleftrightarrow> (\<forall>k \<in> connected s. rearmed s k)"

definition known_flights :: "server \<Rightarrow> bool" where
  "known_flights s \<longleftrightarrow> (\<forall>x \<in> set (in_flight (ssys s)).
     map_of (g_Socket_Struct_Pool s) (m_Socket (ov_at s x)) \<noteq> None)"

definition sys_inv :: "server \<Rightarrow> bool" where
  "sys_inv s \<longleftrightarrow> srv_inv [] s \<and> armed s \<and> known_flights s \<and> (\<forall>k. tokens s k \<le> 1)"

text \<open>Handling a completion of \<open>x\<close> for socket \<open>k\<close>, in terms of what the handler did.\<close>

lemma rearmed_kept: "flight_kept s s' \<Longrightarrow> rearmed s k \<Longrightarrow> rearmed s' k"
  unfolding flight_kept_def rearmed_def by (metis subsetD)

lemma sys_inv_step:
  assumes inv: "sys_inv s" and t: "t = complete_io x data s" and k: "m_Socket (ov_at s x) = k"
    and s': "srv_inv [] s'" and kept: "flight_kept t s'" and new: "new_flights k t s'"
    and pool: "g_Socket_Struct_Pool s' = g_Socket_Struct_Pool s"
    and x: "x \<in> set (in_flight (ssys s))"
    and conn: "connected s' - {k} \<subseteq> connected s"
    and k_ok: "k \<in> connected s' \<Longrightarrow> rearmed s' k" and tok: "\<And>j. tokens s' j \<le> tokens s j"
  shows "sys_inv s'"
proof -
  have own: "srv_owns [] s"
    using inv by (simp add: sys_inv_def srv_inv_def)
  then have dist: "distinct (in_flight (ssys s))"
    by (simp add: srv_owns_def op_owns_def)
  have fl: "set (in_flight (ssys t)) = set (in_flight (ssys s)) - {x}"
    using dist by (simp add: t)
  have at: "ov_at t y = ov_at s y" if "y \<noteq> x" for y
    using that by (simp add: t complete_io_at)
  have "rearmed s' j" if j: "j \<in> connected s'" for j
  proof (cases "j = k")
    case True
    with j k_ok show ?thesis by simp
  next
    case False
    then have "j \<in> connected s"
      using conn j by auto
    then obtain y where y: "y \<in> set (in_flight (ssys s))" "m_IOType (ov_at s y) = IOType_Recv"
      "m_Socket (ov_at s y) = j"
      using inv by (auto simp: sys_inv_def armed_def rearmed_def)
    then have "y \<noteq> x"
      using False k by auto
    then have "rearmed t j"
      using y fl at unfolding rearmed_def by (intro bexI [of _ y]) auto
    then show ?thesis
      by (rule rearmed_kept [OF kept])
  qed
  moreover have "map_of (g_Socket_Struct_Pool s') (m_Socket (ov_at s' y)) \<noteq> None"
    if y: "y \<in> set (in_flight (ssys s'))" for y
  proof (cases "y \<in> set (in_flight (ssys t))")
    case True
    then have "ov_at s' y = ov_at s y" "y \<in> set (in_flight (ssys s))"
      using kept at fl by (auto simp: flight_kept_def)
    then show ?thesis
      using inv by (simp add: pool sys_inv_def known_flights_def)
  next
    case False
    then have "m_Socket (ov_at s' y) = k"
      using new y by (auto simp: new_flights_def)
    then show ?thesis
      using inv x k by (auto simp: pool sys_inv_def known_flights_def)
  qed
  moreover have "tokens s' j \<le> 1" for j
    using tok [of j] inv by (auto simp: sys_inv_def intro: order_trans)
  ultimately show ?thesis
    using s' by (simp add: sys_inv_def armed_def known_flights_def)
qed

text \<open>Taking a completion off the port never adds a token, and takes one off for an accept.\<close>

lemma complete_io_connected [simp]: "connected (complete_io x data s) = connected s"
  using same_but_ioD(7) [OF complete_io_same [of s x data]] by (simp add: connected_def)

lemma complete_io_tokens:
  assumes "x \<in> set (in_flight (ssys s))" and "distinct (in_flight (ssys s))"
  shows "tokens s j = tokens (complete_io x data s) j + (if is_token j (ov_at s x) then 1 else 0)"
proof -
  let ?P = "\<lambda>y. is_token j (ov_at s y)"
  have "filter (\<lambda>y. is_token j (ov_at (complete_io x data s) y)) (remove1 x (in_flight (ssys s)))
      = filter ?P (remove1 x (in_flight (ssys s)))"
    using assms(2) by (intro filter_cong) (auto simp: complete_io_at)
  then show ?thesis
    using length_filter_remove1 [OF assms(1), of ?P] by (simp add: tokens_def flight_tokens_def)
qed

section \<open>Completed sends\<close>

lemma reset_handled:
  assumes "srv_inv (x # held) s"
  shows "srv_inv held (ov_reset env x s)" and "handled k s (ov_reset env x s)"
    and "connected (ov_reset env x s) = connected s"
proof -
  have own: "srv_owns (x # held) s"
    using assms by (simp add: srv_inv_def)
  have same: "same_but_io s (ov_reset env x s)"
    by simp
  show "srv_inv held (ov_reset env x s)"
    using srv_inv_io [OF same srv_owns_reset [OF own] assms] .
  show conn: "connected (ov_reset env x s) = connected s"
    using same_but_ioD(7) [OF same] by (simp add: connected_def)
  note kept = flight_kept_upd(2) [OF own, of env]
  have "tokens (ov_reset env x s) j = tokens s j" for j
    using kept conn by (intro tokens_same) simp_all
  then show "handled k s (ov_reset env x s)"
    using kept by (intro handled_io [OF same]) simp_all
qed

definition send_counted :: "u32 \<Rightarrow> server \<Rightarrow> server" where
  "send_counted n s =
     (if g_Debug_Option s = DHDEBUG_SIMPLE
      then s\<lparr>g_Send_Total_Packet := g_Send_Total_Packet s + n\<rparr> else s)"

lemma send_counted_inv:
  assumes "srv_inv held s"
  shows "srv_inv held (send_counted n s)" and "handled k s (send_counted n s)"
    and "connected (send_counted n s) = connected s" and "srv_msgs (send_counted n s) = srv_msgs s"
proof -
  have fields: "g_Connected_Client (send_counted n s) = g_Connected_Client s"
    "g_Socket_Struct_Pool (send_counted n s) = g_Socket_Struct_Pool s"
    "socket_mem (send_counted n s) = socket_mem s" "sheap (send_counted n s) = sheap s"
    "MAX_USER_COUNT (send_counted n s) = MAX_USER_COUNT s" "ssys (send_counted n s) = ssys s"
    "Recv_Data_Queue (send_counted n s) = Recv_Data_Queue s"
    "Send_Data_Queue (send_counted n s) = Send_Data_Queue s" "ov_at (send_counted n s) = ov_at s"
    "Available_Overlapped (send_counted n s) = Available_Overlapped s"
    "g_Listen_Socket (send_counted n s) = g_Listen_Socket s"
    by (simp_all add: send_counted_def)
  show conn: "connected (send_counted n s) = connected s" and "srv_msgs (send_counted n s) = srv_msgs s"
    by (simp_all add: connected_def srv_msgs_def fields)
  have "maps_ok (send_counted n s) = maps_ok s" "avail_ok (send_counted n s) = avail_ok s"
    by (rule maps_ok_cong avail_ok_cong, simp_all add: fields)+
  moreover have "srv_owns held (send_counted n s) = srv_owns held s"
    by (rule srv_owns_cong) (simp_all add: fields)
  ultimately show "srv_inv held (send_counted n s)"
    using assms by (simp add: srv_inv_def srv_queues_ok_def fields)
  have kept: "flight_kept s (send_counted n s)"
    by (simp add: flight_kept_def fields)
  have "tokens (send_counted n s) j = tokens s j" for j
    using kept conn by (intro tokens_same) (simp_all add: fields)
  then show "handled k s (send_counted n s)"
    using kept conn by (simp add: handled_def fields srv_sends_def new_flights_def)
qed

lemma IOFunction_Send_inv:
  assumes "srv_inv (x # held) s"
  shows "srv_inv held (IOFunction_Send env n x s)" and "handled k s (IOFunction_Send env n x s)"
    and "connected (IOFunction_Send env n x s) = connected s"
proof -
  have run: "IOFunction_Send env n x s = ov_reset env x (send_counted n s)"
    by (simp add: IOFunction_Send_def send_counted_def)
  note c = send_counted_inv [OF assms]
  show "srv_inv held (IOFunction_Send env n x s)" "handled k s (IOFunction_Send env n x s)"
    "connected (IOFunction_Send env n x s) = connected s"
    unfolding run using reset_handled [OF c(1)] c(2,3) handled_trans by simp_all blast
qed

section \<open>Completed disconnects\<close>

text \<open>
  The socket goes on to wait for the next client. If \<open>AcceptEx\<close> is refused, a debug build fails an
  assertion and a release build loses the socket: nothing waits on it any more.
\<close>

lemma IOFunction_Disconnect_inv:
  assumes env: "os_pending env" and inv: "srv_inv (x # held) s"
    and k: "m_Socket (ov_at s x) = k" and run: "IOFunction_Disconnect env x s = Ok s'"
  shows "srv_inv held s'" and "flight_kept s s'" and "new_flights k s s'" and "same_but_io s s'"
    and "tokens s' j \<le> tokens s j + (if j = k then 1 else 0)"
proof -
  let ?f = "\<lambda>v. v\<lparr>m_IOType := IOType_Accept\<rparr>"
  let ?s1 = "ov_upd x ?f s"
  obtain l where l: "g_Listen_Socket ?s1 = Some l"
    using run by (auto simp: IOFunction_Disconnect_def Let_def split: option.splits)
  let ?c = "Sys_AcceptEx l (m_Socket (ov_at ?s1 x)) x"
  obtain r s2 where r: "srv_async env ?c x ?s1 = (r, s2)"
    by force
  have own: "srv_owns (x # held) s"
    using inv by (simp add: srv_inv_def)
  have "ov_ok (ov_at s x)"
    using srv_owns_known [OF own, of x] by simp
  then have own1: "srv_owns (x # held) ?s1"
    using own by (intro srv_owns_upd) (simp_all add: ov_ok_def)
  have "r = os_ret env (calls (ssys ?s1)) ?c"
    using r by (auto simp: srv_async_def sys_async_def Let_def)
  then have pend: "goes_in_flight r \<longleftrightarrow> last_error r = WSA_IO_PENDING"
    using env by (auto simp: goes_in_flight_def os_pending_def)
  have s': "s' = (if goes_in_flight r then s2 else ov_reset env x s2)"
    using run r l pend
    by (auto simp: IOFunction_Disconnect_def Let_def bindE_eq_Ok_iff split: if_splits)
  have same2: "same_but_io s s2"
    using same_but_io_trans [OF same_but_io_prims(1) [of s x ?f] same_but_io_prims(5) [of ?s1 env ?c x]] r
    by simp
  then show same: "same_but_io s s'"
    unfolding s' by (auto intro: same_but_io_trans)
  note own2 = srv_owns_async [OF own1 r]
  have "srv_owns held s'"
    unfolding s' using own2 srv_owns_reset by auto
  then show "srv_inv held s'"
    using srv_inv_io [OF same _ inv] by blast
  have kept1: "flight_kept s ?s1"
    by (rule flight_kept_upd(1) [OF own])
  have kept2: "flight_kept ?s1 s2"
    by (rule flight_kept_async [OF r])
  have kept3: "flight_kept s2 s'"
    unfolding s' using own2(2) flight_kept_upd(2) by auto
  show "flight_kept s s'"
    using kept1 kept2 kept3 flight_kept_trans by blast
  have "new_flights k ?s1 s2"
    using k by (intro new_flights_async [OF r]) simp
  moreover have "new_flights k s2 s'"
    by (simp add: s')
  moreover have "new_flights k s ?s1"
    by simp
  ultimately show "new_flights k s s'"
    using kept2 kept3 flight_kept_trans new_flights_trans by metis
  have conn: "connected ?s1 = connected s" "connected s' = connected s2"
    using same_but_ioD(7) [OF same] same_but_ioD(7) [OF same2]
      same_but_ioD(7) [OF same_but_io_prims(1) [of s x ?f]] by (simp_all add: connected_def)
  have "tokens ?s1 j = tokens s j"
    using kept1 conn by (intro tokens_same) simp_all
  moreover have "tokens s2 j \<le> tokens ?s1 j + (if j = k then 1 else 0)"
    using tokens_async [OF r, of j] k by (auto simp: is_token_def)
  moreover have "tokens s' j = tokens s2 j"
    using kept3 conn by (intro tokens_same) (simp_all add: s')
  ultimately show "tokens s' j \<le> tokens s j + (if j = k then 1 else 0)"
    by simp
qed

section \<open>Completed accepts\<close>

text \<open>Resetting the structure of a socket that is not connected, as for a client too many.\<close>

lemma Reuse_inv:
  assumes inv: "srv_inv held s" and k: "k \<notin> connected s" and run: "Reuse_Socket env k s = Ok s'"
  shows "srv_inv held s'" and "connected s' = connected s" and "same_but_sock s s'"
proof -
  have pre: "maps_ok s" "avail_ok s" "srv_owns held s" "srv_queues_ok s"
    using inv by (simp_all add: srv_inv_def)
  note eff = Reuse_effect [OF pre(1,3) run]
  show same: "same_but_sock s s'"
    by (rule same_but_sock_reuse [OF eff(3)])
  have conn: "g_Connected_Client s' = g_Connected_Client s"
    using same_but_ioD(7) [OF eff(3)] by simp
  then show "connected s' = connected s"
    by (simp add: connected_def)
  obtain p where p: "map_of (g_Socket_Struct_Pool s) k = Some p"
    and mem: "socket_mem s' = (socket_mem s)(p \<mapsto> Socket_Struct_ctor\<lparr>ss_Socket := k\<rparr>)"
    using eff(5) by blast
  have "p' \<noteq> p" if "map_of (g_Connected_Client s) j = Some p'" for j p'
  proof -
    have "j \<noteq> k"
      using that k by (auto simp: connected_def)
    then show ?thesis
      using maps_ok_inj [OF pre(1) p] maps_ok_connE [OF pre(1) that] by metis
  qed
  then have "avail_ok s'"
    using pre(2) conn mem by (auto simp: avail_but_def)
  then show "srv_inv held s'"
    using eff(1,2) pre(4) srv_queues_sock(1) [OF same] by (simp add: srv_inv_def)
qed

text \<open>A receive on a fresh structure.\<close>

lemma Reserve_NoneE:
  assumes "Reserve_WSAReceive env k None s = Ok (ok, s')"
  obtains x s1 where "ov_get env s = Ok (x, s1)"
    and "Reserve_WSAReceive env k (Some x) s1 = Ok (ok, s')"
proof -
  from assms obtain x s1 where get: "ov_get env s = Ok (x, s1)"
    by (auto simp: Reserve_WSAReceive_def bindE_eq_Ok_iff)
  with assms have "Reserve_WSAReceive env k (Some x) s1 = Ok (ok, s')"
    by (simp add: Reserve_WSAReceive_def)
  with get that show thesis by blast
qed

lemma Reserve_None_effect:
  assumes own: "srv_owns held s" and run: "Reserve_WSAReceive env k None s = Ok (ok, s')"
  shows "srv_owns held s'" and "same_but_io s s'" and "flight_kept s s'" and "new_flights k s s'"
    and "ok \<Longrightarrow> rearmed s' k" and "tokens s' j = tokens s j"
    and "y \<in> set held \<Longrightarrow> ov_at s' y = ov_at s y"
proof -
  obtain x s1 where get: "ov_get env s = Ok (x, s1)"
    and res: "Reserve_WSAReceive env k (Some x) s1 = Ok (ok, s')"
    by (rule Reserve_NoneE [OF run])
  note g = srv_owns_get [OF own get]
  note eff = Reserve_effect [OF g(1) res]
  have ssys1: "ssys s1 = ssys s" and same1: "same_but_io s s1"
    using ov_get_same [OF get] by simp_all
  show "srv_owns held s'"
    using eff(2) srv_owns_drop by (auto split: if_splits)
  show same: "same_but_io s s'"
    by (rule same_but_io_trans [OF same1 eff(1)])
  have fl: "in_flight (ssys s') = (if ok then [x] else []) @ in_flight (ssys s)"
    using eff(4) ssys1 by simp
  have at: "ov_at s' z = ov_at s z" if "z \<in> set held \<union> set (in_flight (ssys s))" for z
  proof -
    have "z \<noteq> x"
      using that g(2,3) by auto
    then show ?thesis
      using ov_get_at [OF own get that] by (simp add: eff(5))
  qed
  then show "y \<in> set held \<Longrightarrow> ov_at s' y = ov_at s y"
    by simp
  show kept: "flight_kept s s'"
    using at by (simp add: flight_kept_def fl)
  show "new_flights k s s'"
    by (auto simp: new_flights_def fl eff(5))
  show "ok \<Longrightarrow> rearmed s' k"
    unfolding rearmed_def by (rule bexI [of _ x]) (simp_all add: fl eff(5))
  have "flight_tokens s' j = flight_tokens s j"
    using tokens_flights [OF fl kept, of j] by (cases ok) (simp_all add: eff(5) is_token_def)
  then show "tokens s' j = tokens s j"
    using same_but_ioD(7) [OF same] by (simp add: tokens_def connected_def)
qed

text \<open>The state with the new client registered and counted, before its receive is armed.\<close>

definition accept_struct :: "os \<Rightarrow> nat \<Rightarrow> server \<Rightarrow> Socket_Struct \<Rightarrow> Socket_Struct" where
  "accept_struct env x s ss =
     (let (ip, port) = remote_addr env (m_Buffer (ov_at s x))
      in ss\<lparr>ss_IP := write_c_str ip (ss_IP ss), ss_PORT := port\<rparr>)"

definition accept_added :: "os \<Rightarrow> nat \<Rightarrow> ptr \<Rightarrow> Socket_Struct \<Rightarrow> server \<Rightarrow> server" where
  "accept_added env x p ss s =
     (let s1 = sock_upd p (accept_struct env x s ss) s;
          s2 = s1\<lparr>g_Connected_Client := hm_insert (ss_Socket ss) p (g_Connected_Client s1)\<rparr>
      in if g_Debug_Option s2 = DHDEBUG_SIMPLE
         then s2\<lparr>g_Enter_User_Count := g_Enter_User_Count s2 + 1\<rparr> else s2)"

lemma accept_struct_Socket [simp]: "ss_Socket (accept_struct env x s ss) = ss_Socket ss"
  by (simp add: accept_struct_def split: prod.splits)

lemma accept_added_effect:
  assumes inv: "srv_inv held s" and p: "map_of (g_Socket_Struct_Pool s) k = Some p"
    and ss: "socket_mem s p = Some ss" and k: "k \<notin> connected s"
    and room: "length (g_Connected_Client s) \<noteq> unat (MAX_USER_COUNT s)"
    and s1_def: "s1 = accept_added env x p ss s"
  shows "maps_ok s1" and "avail_but {k} s1" and "srv_owns held s1" and "srv_queues_ok s1"
    and "connected s1 = insert k (connected s)" and "ov_at s1 = ov_at s" and "ssys s1 = ssys s"
    and "srv_sends s1 = srv_sends s"
    and "g_Socket_Struct_Pool s1 = g_Socket_Struct_Pool s" and "srv_msgs s1 = srv_msgs s"
    and "map_of (g_Connected_Client s1) k = Some p" and "MAX_USER_COUNT s1 = MAX_USER_COUNT s"
    and "socket_mem s1 p = Some (accept_struct env x s ss)"
    and "g_Listen_Socket s1 = g_Listen_Socket s"
proof -
  have pre: "maps_ok s" "avail_ok s" "srv_owns held s" "srv_queues_ok s"
    using inv by (simp_all add: srv_inv_def)
  have sk: "ss_Socket ss = k"
    using maps_ok_poolE [OF pre(1) p] ss by force
  let ?ss = "accept_struct env x s ss"
  let ?t = "sock_upd p ?ss s"
  let ?u = "?t\<lparr>g_Connected_Client := hm_insert k p (g_Connected_Client ?t)\<rparr>"
  have s1: "s1 = (if g_Debug_Option ?u = DHDEBUG_SIMPLE
      then ?u\<lparr>g_Enter_User_Count := g_Enter_User_Count ?u + 1\<rparr> else ?u)"
    by (simp add: s1_def accept_added_def Let_def sk)
  have f: "socket_mem s1 = (socket_mem s)(p \<mapsto> ?ss)"
    "g_Connected_Client s1 = hm_insert k p (g_Connected_Client s)"
    "g_Socket_Struct_Pool s1 = g_Socket_Struct_Pool s" "sheap s1 = sheap s"
    "Recv_Data_Queue s1 = Recv_Data_Queue s" "Send_Data_Queue s1 = Send_Data_Queue s"
    "MAX_USER_COUNT s1 = MAX_USER_COUNT s" "ssys s1 = ssys s" "ov_at s1 = ov_at s"
    "g_Listen_Socket s1 = g_Listen_Socket s" "Available_Overlapped s1 = Available_Overlapped s"
    by (simp_all add: s1 sock_upd_def)
  have none: "map_of (g_Connected_Client s) k = None"
    using k by (simp add: connected_def)
  have "length (g_Connected_Client s) \<le> unat (MAX_USER_COUNT s)"
    using pre(1) by (simp add: maps_ok_def)
  with room have less: "length (g_Connected_Client s) < unat (MAX_USER_COUNT s)"
    by simp
  have "maps_ok ?t"
    using pre(1) p sk by (intro maps_ok_sock_upd) simp_all
  then have "maps_ok ?u"
    using p none less by (intro maps_ok_insert) (simp_all add: sock_upd_def)
  moreover have "maps_ok s1 = maps_ok ?u"
    by (rule maps_ok_cong) (simp_all add: s1)
  ultimately show "maps_ok s1" by simp
  have conn: "map_of (g_Connected_Client s1) = (map_of (g_Connected_Client s))(k \<mapsto> p)"
    using none by (simp add: f map_of_hm_insert)
  then show "connected s1 = insert k (connected s)" "map_of (g_Connected_Client s1) k = Some p"
    by (auto simp: connected_def)
  have other: "j = k" if "map_of (g_Connected_Client s1) j = Some p" for j
  proof (rule ccontr)
    assume "j \<noteq> k"
    then have "map_of (g_Socket_Struct_Pool s) j = Some p"
      using that maps_ok_connE [OF pre(1), of j p] by (auto simp: conn)
    with \<open>j \<noteq> k\<close> show False
      using maps_ok_inj [OF pre(1) p] by blast
  qed
  have "\<exists>ss. socket_mem s1 q = Some ss \<and> Is_Available ss"
    if c: "map_of (g_Connected_Client s1) j = Some q" and "j \<noteq> k" for j q
  proof -
    have "map_of (g_Connected_Client s) j = Some q"
      using that by (simp add: conn)
    moreover have "q \<noteq> p"
      using other [of j] that by blast
    ultimately show ?thesis
      using pre(2) by (simp add: avail_but_def f(1))
  qed
  then show "avail_but {k} s1"
    by (auto simp: avail_but_def)
  show "srv_owns held s1"
    using pre(3) srv_owns_cong [of s1 s held] f by simp
  show "srv_queues_ok s1" "srv_msgs s1 = srv_msgs s" "srv_sends s1 = srv_sends s"
    using pre(4) srv_queues_cong [of s1 s] f by simp_all
  show "socket_mem s1 p = Some (accept_struct env x s ss)"
    by (simp add: f)
  show "ov_at s1 = ov_at s" "ssys s1 = ssys s" "g_Socket_Struct_Pool s1 = g_Socket_Struct_Pool s"
    "MAX_USER_COUNT s1 = MAX_USER_COUNT s" "g_Listen_Socket s1 = g_Listen_Socket s"
    by (simp_all add: f)
qed

text \<open>The handler, for a server that is not full: register the client, arm its first receive.\<close>

lemma IOFunction_Accept_admits:
  assumes inv: "srv_inv held s" and p: "map_of (g_Socket_Struct_Pool s) k = Some p"
    and ss: "socket_mem s p = Some ss" and k: "k \<notin> connected s" "m_Socket (ov_at s x) = k"
    and room: "length (g_Connected_Client s) \<noteq> unat (MAX_USER_COUNT s)"
  shows "IOFunction_Accept env x s =
    bindE (Reserve_WSAReceive env k None (accept_added env x p ss s)) (\<lambda>(ok, s2).
      if ok then Ok (sock_upd p ((accept_struct env x s ss)\<lparr>Is_Available := True\<rparr>) (ov_reset env x s2))
      else kick env k x s2)"
proof -
  have pre: "maps_ok s"
    using inv by (simp add: srv_inv_def)
  have sk: "ss_Socket ss = k"
    using maps_ok_poolE [OF pre p] ss by force
  let ?ss = "accept_struct env x s ss" and ?s1 = "accept_added env x p ss s"
  have mem1: "socket_mem ?s1 p = Some ?ss"
    by (rule accept_added_effect(13) [OF inv p ss k(1) room refl])
  have "\<not> FindSocketOnClient k (sock_upd p ?ss s)"
    using k(1) by (simp add: FindSocketOnClient_def connected_def sock_upd_def)
  then have run: "IOFunction_Accept env x s =
    bindE (sock_at ?s1 p) (\<lambda>ss. bindE (Reserve_WSAReceive env (ss_Socket ss) None ?s1) (\<lambda>(ok, s).
      if \<not> ok then bindE (sock_at s p) (\<lambda>ss. kick env (ss_Socket ss) x s)
      else let s = ov_reset env x s
           in bindE (sock_at s p) (\<lambda>ss. Ok (sock_upd p (ss\<lparr>Is_Available := True\<rparr>) s))))"
    using p ss room k(2) sk
    by (simp add: IOFunction_Accept_def accept_added_def accept_struct_def AddClientSocket_def
        assertE_def sock_at_def sock_upd_def Let_def split: prod.splits)
  show ?thesis
  proof (cases "Reserve_WSAReceive env k None ?s1")
    case (Inl e)
    then show ?thesis
      using mem1 sk by (simp add: run sock_at_def)
  next
    case (Inr r)
    obtain ok s2 where r: "r = (ok, s2)"
      by force
    have "srv_owns held ?s1"
      by (rule accept_added_effect(3) [OF inv p ss k(1) room refl])
    from Reserve_None_effect(2) [OF this Inr [unfolded r]] have "socket_mem s2 p = Some ?ss"
      using mem1 same_but_ioD(11) by simp
    moreover from this have "socket_mem (ov_reset env x s2) p = Some ?ss"
      using same_but_ioD(11) [OF same_but_io_prims(2)] by simp
    ultimately show ?thesis
      using mem1 sk Inr r by (simp add: run sock_at_def Let_def)
  qed
qed

text \<open>
  What the handler of an accept for socket \<open>k\<close> may do: at most connect \<open>k\<close>, with a receive in flight.
\<close>

definition accepted :: "sock \<Rightarrow> server \<Rightarrow> server \<Rightarrow> bool" where
  "accepted k s s' \<longleftrightarrow> flight_kept s s' \<and> new_flights k s s'
     \<and> (\<forall>j. tokens s' j \<le> tokens s j + (if j = k then 1 else 0))
     \<and> connected s' \<subseteq> insert k (connected s) \<and> connected s \<subseteq> connected s'
     \<and> (k \<in> connected s' \<longrightarrow> rearmed s' k)
     \<and> MAX_USER_COUNT s' = MAX_USER_COUNT s \<and> g_Socket_Struct_Pool s' = g_Socket_Struct_Pool s
     \<and> g_Listen_Socket s' = g_Listen_Socket s \<and> srv_sends s' = srv_sends s \<and> srv_msgs s' = srv_msgs s"

lemma sock_upd_inv:
  assumes "srv_owns held s" and "maps_ok s" and "avail_but {k} s" and "srv_queues_ok s"
    and p: "map_of (g_Socket_Struct_Pool s) k = Some p" and ss: "ss_Socket ss = k" "Is_Available ss"
  shows "srv_inv held (sock_upd p ss s)" and "connected (sock_upd p ss s) = connected s"
    and "flight_kept s (sock_upd p ss s)" and "in_flight (ssys (sock_upd p ss s)) = in_flight (ssys s)"
    and "srv_msgs (sock_upd p ss s) = srv_msgs s" and "srv_sends (sock_upd p ss s) = srv_sends s"
proof -
  have "\<exists>ss'. socket_mem (sock_upd p ss s) q = Some ss' \<and> Is_Available ss'"
    if "map_of (g_Connected_Client s) j = Some q" for j q
  proof (cases "j = k")
    case True
    then have "q = p"
      using that p maps_ok_connE [OF assms(2), of k q] by auto
    then show ?thesis
      using ss by (simp add: sock_upd_def)
  next
    case False
    then show ?thesis
      using that assms(3) ss by (auto simp: avail_but_def sock_upd_def)
  qed
  then have "avail_ok (sock_upd p ss s)"
    by (simp add: avail_but_def) (simp add: sock_upd_def)
  moreover have "same_but_sock s (sock_upd p ss s)"
    by (simp add: same_but_sock_def sock_upd_def)
  note qs = srv_queues_sock [OF this]
  ultimately show "srv_inv held (sock_upd p ss s)"
    using assms(1,4) maps_ok_sock_upd [OF assms(2) p ss(1)] qs by (simp add: srv_inv_def)
  show "srv_msgs (sock_upd p ss s) = srv_msgs s" "srv_sends (sock_upd p ss s) = srv_sends s"
    using qs by simp_all
  show "connected (sock_upd p ss s) = connected s"
    "in_flight (ssys (sock_upd p ss s)) = in_flight (ssys s)"
    by (simp_all add: connected_def sock_upd_def)
  show "flight_kept s (sock_upd p ss s)"
    by (simp add: flight_kept_def) (simp add: sock_upd_def)
qed

lemma accept_full_inv:
  assumes inv: "srv_inv (x # held) s" and k: "k \<notin> connected s"
    and run: "Reuse_Socket env k s = Ok s1"
  shows "srv_inv held (ov_reset env x s1)" and "accepted k s (ov_reset env x s1)"
proof -
  note re = Reuse_inv [OF inv k run]
  note rh = reset_handled [OF re(1)] and rk = reset_handled(2) [OF re(1), where env = env and k = k]
  have own: "srv_owns (x # held) s"
    using inv by (simp add: srv_inv_def)
  show "srv_inv held (ov_reset env x s1)"
    by (rule rh(1))
  have fk: "flight_kept s s1" "flight_kept s1 (ov_reset env x s1)"
    using Reuse_flight [OF own run] rk by (simp_all add: handled_def)
  have nf: "new_flights k s s1"
    by (rule Reuse_new [OF own run])
  have "new_flights k s (ov_reset env x s1)"
    using nf rk fk(2) by (auto simp: handled_def intro: new_flights_trans)
  moreover have "tokens (ov_reset env x s1) j \<le> tokens s j + (if j = k then 1 else 0)" for j
  proof -
    have "tokens (ov_reset env x s1) j \<le> tokens s1 j"
      using rk by (simp add: handled_def)
    also have "\<dots> \<le> tokens s j + (if j = k then 1 else 0)"
      by (rule Reuse_tokens [OF own run])
    finally show ?thesis .
  qed
  moreover have "connected (ov_reset env x s1) = connected s"
    using re(2) rh(3) by simp
  ultimately show "accepted k s (ov_reset env x s1)"
    using flight_kept_trans [OF fk] k same_but_sockD [OF re(3)] srv_queues_sock [OF re(3)]
      same_but_ioD [OF same_but_io_prims(2)] srv_queues_io [OF same_but_io_prims(2)]
    by (simp add: accepted_def subset_insertI)
qed

text \<open>
  The state in which the receive of the new client has been posted, or refused: \<open>k\<close> is connected, its
  structure is not yet available, and everything else is as before.
\<close>

definition admitted :: "sock \<Rightarrow> nat list \<Rightarrow> server \<Rightarrow> server \<Rightarrow> bool" where
  "admitted k held s s2 \<longleftrightarrow>
     maps_ok s2 \<and> avail_but {k} s2 \<and> srv_owns held s2 \<and> srv_queues_ok s2
     \<and> connected s2 = insert k (connected s) \<and> flight_kept s s2 \<and> new_flights k s s2
     \<and> (\<forall>j. tokens s2 j \<le> tokens s j + (if j = k then 1 else 0))
     \<and> srv_msgs s2 = srv_msgs s \<and> srv_sends s2 = srv_sends s
     \<and> MAX_USER_COUNT s2 = MAX_USER_COUNT s \<and> g_Listen_Socket s2 = g_Listen_Socket s
     \<and> g_Socket_Struct_Pool s2 = g_Socket_Struct_Pool s"

lemma accept_added_admits:
  assumes inv: "srv_inv held s" and p: "map_of (g_Socket_Struct_Pool s) k = Some p"
    and ss: "socket_mem s p = Some ss" and k: "k \<notin> connected s"
    and room: "length (g_Connected_Client s) \<noteq> unat (MAX_USER_COUNT s)"
    and res: "Reserve_WSAReceive env k None (accept_added env x p ss s) = Ok (ok, s2)"
  shows "admitted k held s s2" and "ok \<Longrightarrow> rearmed s2 k"
proof -
  let ?s1 = "accept_added env x p ss s"
  note a = accept_added_effect [OF inv p ss k room refl, of env x]
  note r = Reserve_None_effect [OF a(3) res]
  have "flight_kept s ?s1" "new_flights k s ?s1"
    using a(6,7) by (simp_all add: flight_kept_def)
  then have "flight_kept s s2" "new_flights k s s2"
    using r(3,4) flight_kept_trans new_flights_trans by blast+
  moreover have "tokens s2 j \<le> tokens s j + (if j = k then 1 else 0)" for j
    using r(6) [of j] a(5-7) by (simp add: tokens_def flight_tokens_def)
  moreover have "maps_ok s2" "avail_but {k} s2" "srv_owns held s2" "srv_queues_ok s2"
    using a r(1) maps_ok_same_io [OF r(2)] avail_ok_same_io [OF r(2)] srv_queues_io [OF r(2)]
    by simp_all
  ultimately show "admitted k held s s2"
    using a srv_queues_io [OF r(2)] same_but_ioD [OF r(2)] by (simp add: admitted_def connected_def)
  show "ok \<Longrightarrow> rearmed s2 k"
    using r(5) .
qed

lemma admitted_kick:
  assumes adm: "admitted k (x # held) s s2" and k: "k \<notin> connected s" and kick: "kick env k x s2 = Ok s'"
  shows "srv_inv held s'" and "accepted k s s'"
proof -
  have inv2: "maps_ok s2" "avail_but {k} s2" "srv_owns (x # held) s2" "srv_queues_ok s2"
    and conn2: "connected s2 = insert k (connected s)" and fk: "flight_kept s s2" "new_flights k s s2"
    and tok: "\<And>j. tokens s2 j \<le> tokens s j + (if j = k then 1 else 0)"
    using adm by (simp_all add: admitted_def)
  note ke = kick_effect [OF inv2(1-3) kick]
  have "tokens s' j \<le> tokens s j + (if j = k then 1 else 0)" for j
    using kick_tokens [OF inv2(1-3) kick, of j] tok [of j] by (rule order_trans)
  moreover have "connected s' = connected s"
    using ke(5) conn2 k by auto
  moreover have "flight_kept s s'" "new_flights k s s'"
    using fk kick_flight [OF inv2(1-3) kick] kick_new [OF inv2(1-3) kick] flight_kept_trans
      new_flights_trans by blast+
  ultimately show "accepted k s s'"
    using k adm same_but_sockD [OF ke(6)] srv_queues_sock [OF ke(6)]
    by (simp add: accepted_def admitted_def subset_insertI)
  show "srv_inv held s'"
    using ke inv2(4) srv_queues_sock [OF ke(6)] by (simp add: srv_inv_def)
qed

lemma admitted_done:
  assumes adm: "admitted k (x # held) s s2" and armed: "rearmed s2 k"
    and p: "map_of (g_Socket_Struct_Pool s) k = Some p"
    and ss: "ss_Socket ss = k" "Is_Available ss"
    and s': "s' = sock_upd p ss (ov_reset env x s2)"
  shows "srv_inv held s'" and "accepted k s s'"
proof -
  let ?s3 = "ov_reset env x s2"
  have inv2: "maps_ok s2" "avail_but {k} s2" "srv_owns (x # held) s2" "srv_queues_ok s2"
    and conn2: "connected s2 = insert k (connected s)" and fk: "flight_kept s s2" "new_flights k s s2"
    and tok: "\<And>j. tokens s2 j \<le> tokens s j + (if j = k then 1 else 0)"
    and pool: "g_Socket_Struct_Pool s2 = g_Socket_Struct_Pool s"
    using adm by (simp_all add: admitted_def)
  have same: "same_but_io s2 ?s3" by simp
  have inv3: "maps_ok ?s3" "avail_but {k} ?s3" "srv_owns held ?s3" "srv_queues_ok ?s3"
    using inv2 srv_owns_reset [OF inv2(3)] maps_ok_same_io [OF same] avail_ok_same_io [OF same]
      srv_queues_io [OF same] by simp_all
  have p3: "map_of (g_Socket_Struct_Pool ?s3) k = Some p"
    using p pool same_but_ioD [OF same] by simp
  note su = sock_upd_inv [OF inv3(3,1,2,4) p3 ss]
  have conn: "connected s' = insert k (connected s)"
    using su(2) conn2 same_but_ioD(7) [OF same] by (simp add: s' connected_def)
  have fk3: "flight_kept s2 s'"
    unfolding s' by (rule flight_kept_trans [OF flight_kept_upd(2) [OF inv2(3)] su(3)])
  have fl3: "in_flight (ssys s') = in_flight (ssys s2)"
    using su(4) by (simp add: s')
  have "tokens s' j \<le> tokens s j + (if j = k then 1 else 0)" for j
    using tokens_same [OF fl3 fk3, of j] conn conn2 tok [of j] by simp
  moreover have "rearmed s' k"
    using rearmed_kept [OF fk3 armed] .
  moreover have "flight_kept s s'" "new_flights k s s'"
    using fk fk3 fl3 flight_kept_trans new_flights_trans new_flights_same by metis+
  moreover have "srv_msgs s' = srv_msgs s" "srv_sends s' = srv_sends s"
    using su(5,6) srv_queues_io [OF same] adm by (simp_all add: s' admitted_def)
  ultimately show "accepted k s s'"
    using conn adm same_but_ioD [OF same] by (auto simp: accepted_def admitted_def s' sock_upd_def)
  show "srv_inv held s'"
    using su(1) by (simp add: s')
qed

lemma IOFunction_Accept_inv:
  assumes inv: "srv_inv (x # held) s" and k: "k \<notin> connected s" "m_Socket (ov_at s x) = k"
    and run: "IOFunction_Accept env x s = Ok s'"
  shows "srv_inv held s'" and "accepted k s s'"
proof -
  have "srv_inv held s' \<and> accepted k s s'"
  proof (cases "length (g_Connected_Client s) = unat (MAX_USER_COUNT s)")
    case True
    then obtain s1 where "Reuse_Socket env k s = Ok s1" "s' = ov_reset env x s1"
      using run k(2) by (auto simp: IOFunction_Accept_def bindE_eq_Ok_iff)
    then show ?thesis
      using accept_full_inv [OF inv k(1)] by simp
  next
    case room: False
    obtain p where p: "map_of (g_Socket_Struct_Pool s) k = Some p"
      using run k(2) room by (auto simp: IOFunction_Accept_def split: option.splits)
    obtain ss where ss: "socket_mem s p = Some ss" "ss_Socket ss = k"
      using maps_ok_poolE [OF _ p] inv by (metis srv_inv_def)
    obtain ok s2 where res: "Reserve_WSAReceive env k None (accept_added env x p ss s) = Ok (ok, s2)"
      and fin: "(if ok then Ok (sock_upd p ((accept_struct env x s ss)\<lparr>Is_Available := True\<rparr>)
                  (ov_reset env x s2)) else kick env k x s2) = Ok s'"
      using run unfolding IOFunction_Accept_admits [OF inv p ss(1) k room]
      by (auto simp only: bindE_eq_Ok_iff split: prod.splits)
    note adm = accept_added_admits [OF inv p ss(1) k(1) room res]
    show ?thesis
    proof (cases ok)
      case True
      with fin have "s' = sock_upd p ((accept_struct env x s ss)\<lparr>Is_Available := True\<rparr>) (ov_reset env x s2)"
        by simp
      then show ?thesis
        using admitted_done [OF adm(1) adm(2) [OF True] p] ss(2) by simp
    next
      case False
      with fin show ?thesis
        using admitted_kick [OF adm(1) k(1)] by simp
    qed
  qed
  then show "srv_inv held s'" and "accepted k s s'" by simp_all
qed

section \<open>The worker keeps the invariant\<close>

text \<open>
  An entry the port can hand out: the structure is in flight; the key is the one the socket was
  associated with, nothing for the listening socket on which accepts complete, else the address of
  the socket's structure; and the system transferred no more bytes than the buffer holds.
\<close>

definition entry_ok :: "server \<Rightarrow> OVERLAPPED_ENTRY \<Rightarrow> nat \<Rightarrow> bool" where
  "entry_ok s e x \<longleftrightarrow> lpOverlapped e = Some x \<and> x \<in> set (in_flight (ssys s))
     \<and> unat (dwNumberOfBytesTransferred e) \<le> OVERLAPPED_BUFIZE
     \<and> lpCompletionKey e = (if m_IOType (ov_at s x) = IOType_Accept then None
          else map_of (g_Socket_Struct_Pool s) (m_Socket (ov_at s x)))"

definition same_frame :: "server \<Rightarrow> server \<Rightarrow> bool" where
  "same_frame s s' \<longleftrightarrow> MAX_USER_COUNT s' = MAX_USER_COUNT s
     \<and> g_Socket_Struct_Pool s' = g_Socket_Struct_Pool s \<and> g_Listen_Socket s' = g_Listen_Socket s"

lemma same_frame_io: "same_but_io s s' \<Longrightarrow> same_frame s s'"
  by (simp add: same_frame_def same_but_ioD)

lemma same_frame_trans: "same_frame s s' \<Longrightarrow> same_frame s' s'' \<Longrightarrow> same_frame s s''"
  by (simp add: same_frame_def)

lemma handled_frame: "handled k (complete_io x data s) s' \<Longrightarrow> same_frame s s'"
  using same_but_ioD [OF complete_io_same [of s x data]] by (simp add: handled_def same_frame_def)

lemma handled_step:
  assumes inv: "sys_inv s" and x: "x \<in> set (in_flight (ssys s))" and k: "m_Socket (ov_at s x) = k"
    and s': "srv_inv [] s'" and h: "handled k (complete_io x data s) s'"
    and k_ok: "k \<in> connected s' \<Longrightarrow> rearmed s' k"
  shows "sys_inv s'"
proof (rule sys_inv_step [OF inv refl k s' _ _ _ x _ k_ok])
  have "distinct (in_flight (ssys s))"
    using inv by (simp add: sys_inv_def srv_inv_def srv_owns_def op_owns_def)
  from complete_io_tokens [OF x this, of _ data]
  show "tokens s' j \<le> tokens s j" for j
    using h by (auto simp: handled_def intro: order_trans le_add1)
qed (use h same_but_ioD(6) [OF complete_io_same [of s x data]] in \<open>auto simp: handled_def\<close>)

lemma rearmed_complete:
  assumes "sys_inv s" and "m_IOType (ov_at s x) \<noteq> IOType_Recv" and "k \<in> connected s"
  shows "rearmed (complete_io x data s) k"
proof -
  obtain y where y: "y \<in> set (in_flight (ssys s))" "m_IOType (ov_at s y) = IOType_Recv"
    "m_Socket (ov_at s y) = k"
    using assms(1,3) by (auto simp: sys_inv_def armed_def rearmed_def)
  then have "y \<noteq> x"
    using assms(2) by auto
  with y show ?thesis
    unfolding rearmed_def by (intro bexI [of _ y]) (auto simp: complete_io_at)
qed

lemma token_free:
  assumes inv: "sys_inv s" and x: "x \<in> set (in_flight (ssys s))" and "is_token k (ov_at s x)"
  shows "k \<notin> connected s" and "tokens (complete_io x data s) k = 0"
proof -
  have "distinct (in_flight (ssys s))"
    using inv by (simp add: sys_inv_def srv_inv_def srv_owns_def op_owns_def)
  from complete_io_tokens [OF x this, of k data] show "tokens (complete_io x data s) k = 0"
    using assms(3) inv by (simp add: sys_inv_def) (metis Suc_le_mono le_zero_eq)
  then show "k \<notin> connected s"
    by (auto simp: tokens_def)
qed

lemma tokens_step:
  assumes inv: "sys_inv s" and x: "x \<in> set (in_flight (ssys s))" and t: "is_token k (ov_at s x)"
    and "tokens s' j \<le> tokens (complete_io x data s) j + (if j = k then 1 else 0)"
  shows "tokens s' j \<le> tokens s j"
proof -
  have "distinct (in_flight (ssys s))"
    using inv by (simp add: sys_inv_def srv_inv_def srv_owns_def op_owns_def)
  from complete_io_tokens [OF x this, of j data] assms(3,4) show ?thesis
    by (auto split: if_splits)
qed

lemma complete_io_sys_inv:
  assumes "sys_inv s" and "x \<in> set (in_flight (ssys s))" and "length data \<le> OVERLAPPED_BUFIZE"
  shows "srv_inv [x] (complete_io x data s)"
  using complete_io_inv [OF _ assms(2,3), of "[]"] assms(1) by (simp add: sys_inv_def)

lemma WorkThread_disconnect:
  assumes env: "os_pending env" and inv: "sys_inv s" and x: "x \<in> set (in_flight (ssys s))"
    and data: "length data \<le> OVERLAPPED_BUFIZE"
    and io: "m_IOType (ov_at s x) = IOType_Disconnect" and k: "m_Socket (ov_at s x) = k"
    and p: "map_of (g_Socket_Struct_Pool s) k = Some p"
    and run: "IOFunction_Disconnect env x (complete_io x data s) = Ok s1"
    and ss: "socket_mem s1 p = Some ss"
  shows "sys_inv (sock_upd p (ss\<lparr>Is_Available := True\<rparr>) s1)"
    and "same_frame s (sock_upd p (ss\<lparr>Is_Available := True\<rparr>) s1)"
proof -
  let ?t = "complete_io x data s" and ?s' = "sock_upd p (ss\<lparr>Is_Available := True\<rparr>) s1"
  have inv_t: "srv_inv [x] ?t"
    by (rule complete_io_sys_inv [OF inv x data])
  have "m_Socket (ov_at ?t x) = k"
    using k by (simp add: complete_io_at)
  note d = IOFunction_Disconnect_inv [OF env inv_t this run]
  have pool: "g_Socket_Struct_Pool s1 = g_Socket_Struct_Pool s"
    using same_but_ioD(6) [OF d(4)] same_but_ioD(6) [OF complete_io_same [of s x data]] by simp
  have inv1: "srv_owns [] s1" "maps_ok s1" "avail_but {k} s1" "srv_queues_ok s1"
    using d(1) avail_but_mono [of "{}" s1 "{k}"] by (simp_all add: srv_inv_def)
  have p1: "map_of (g_Socket_Struct_Pool s1) k = Some p"
    using p pool by simp
  have "ss_Socket ss = k"
    using maps_ok_poolE [OF inv1(2) p1] ss by force
  then have "ss_Socket (ss\<lparr>Is_Available := True\<rparr>) = k" "Is_Available (ss\<lparr>Is_Available := True\<rparr>)"
    by simp_all
  note su = sock_upd_inv [OF inv1 p1 this]
  have tok: "is_token k (ov_at s x)"
    using io k by (simp add: is_token_def)
  have kept: "flight_kept ?t ?s'"
    using d(2) su(3) by (rule flight_kept_trans)
  have new: "new_flights k ?t ?s'"
    using d(3) new_flights_same [OF su(4)] su(3) by (rule new_flights_trans)
  have conn: "connected ?s' = connected s"
    using su(2) same_but_ioD(7) [OF d(4)] same_but_ioD(7) [OF complete_io_same [of s x data]]
    by (simp add: connected_def)
  have "tokens ?s' j \<le> tokens ?t j + (if j = k then 1 else 0)" for j
    using tokens_same [OF su(4,3,2), of j] d(5) [of j] by simp
  then have tk: "tokens ?s' j \<le> tokens s j" for j
    by (rule tokens_step [OF inv x tok])
  show "same_frame s ?s'"
    using same_but_ioD [OF d(4)] same_but_ioD [OF complete_io_same [of s x data]]
    by (simp add: same_frame_def sock_upd_def)
  show "sys_inv ?s'"
    by (rule sys_inv_step [OF inv refl k su(1) kept new _ x _ _ tk])
      (use conn pool token_free(1) [OF inv x tok] in \<open>auto simp: sock_upd_def\<close>)
qed

lemma WorkThread_accept:
  assumes inv: "sys_inv s" and x: "x \<in> set (in_flight (ssys s))"
    and data: "length data \<le> OVERLAPPED_BUFIZE"
    and io: "m_IOType (ov_at s x) = IOType_Accept"
    and run: "IOFunction_Accept env x (complete_io x data s) = Ok s'"
  shows "sys_inv s'" and "same_frame s s'"
proof -
  let ?t = "complete_io x data s" and ?k = "m_Socket (ov_at s x)"
  have inv_t: "srv_inv [x] ?t"
    by (rule complete_io_sys_inv [OF inv x data])
  have tok: "is_token ?k (ov_at s x)"
    using io by (simp add: is_token_def)
  have k: "?k \<notin> connected ?t" "m_Socket (ov_at ?t x) = ?k"
    using token_free(1) [OF inv x tok] by (simp_all add: complete_io_at)
  note a = IOFunction_Accept_inv [OF inv_t k run]
  show "same_frame s s'"
    using a(2) same_but_ioD [OF complete_io_same [of s x data]]
    by (simp add: accepted_def same_frame_def)
  show "sys_inv s'"
  proof (rule sys_inv_step [OF inv refl refl a(1) _ _ _ x])
    show "tokens s' j \<le> tokens s j" for j
      using a(2) by (intro tokens_step [OF inv x tok, where data = data]) (simp add: accepted_def)
    show "flight_kept ?t s'" "new_flights ?k ?t s'" "?k \<in> connected s' \<Longrightarrow> rearmed s' ?k"
      using a(2) by (simp_all add: accepted_def)
    show "g_Socket_Struct_Pool s' = g_Socket_Struct_Pool s"
      using a(2) same_but_ioD(6) [OF complete_io_same [of s x data]] by (simp add: accepted_def)
    show "connected s' - {?k} \<subseteq> connected s"
      using a(2) unfolding accepted_def complete_io_connected by blast
  qed
qed

text \<open>The structure of a connected client is available.\<close>

lemma unavailable_not_connected:
  assumes maps: "maps_ok s" "avail_ok s" and p: "map_of (g_Socket_Struct_Pool s) k = Some p"
    and ss: "socket_mem s p = Some ss" "\<not> Is_Available ss"
  shows "k \<notin> connected s"
proof
  assume "k \<in> connected s"
  then obtain q where q: "map_of (g_Connected_Client s) k = Some q"
    by (auto simp: connected_def)
  then have "q = p"
    using maps_ok_connE [OF maps(1) q] p by (metis option.inject)
  with maps(2) [unfolded avail_but_def, rule_format, of k q] q ss show False
    by simp
qed

text \<open>A handled entry after which the socket of the operation, when connected, is armed.\<close>

lemma entry_handled:
  assumes inv: "sys_inv s" and x: "x \<in> set (in_flight (ssys s))" and k: "m_Socket (ov_at s x) = k"
    and fin: "srv_inv [] s'" "handled k (complete_io x data s) s'"
    and armed: "k \<in> connected s \<Longrightarrow> rearmed (complete_io x data s) k"
  shows "sys_inv s' \<and> same_frame s s'"
proof -
  have "rearmed s' k" if "k \<in> connected s'"
  proof -
    have "k \<in> connected s"
      using that fin(2) by (auto simp: handled_def)
    then show ?thesis
      using fin(2) armed rearmed_kept by (auto simp: handled_def)
  qed
  then show ?thesis
    using handled_step [OF inv x k fin] handled_frame [OF fin(2)] by blast
qed

lemma WorkThread_data:
  assumes inv: "sys_inv s" and x: "x \<in> set (in_flight (ssys s))"
    and data: "length data \<le> OVERLAPPED_BUFIZE" and n: "unat n \<le> OVERLAPPED_BUFIZE"
    and k: "m_Socket (ov_at s x) = k" and p: "map_of (g_Socket_Struct_Pool s) k = Some p"
    and ss: "socket_mem s p = Some ss" and t: "t = complete_io x data s"
    and run: "(if n = 0 then kick env (ss_Socket ss) x t
               else if \<not> Is_Available ss then Ok (ov_reset env x t)
               else if m_IOType (ov_at s x) = IOType_Recv then IOFunction_Recv env n x p t
               else if m_IOType (ov_at s x) = IOType_Send then Ok (IOFunction_Send env n x t)
               else Ok (ov_reset env x t)) = Ok s'"
  shows "sys_inv s' \<and> same_frame s s'"
proof -
  have inv_t: "srv_inv [x] t"
    unfolding t by (rule complete_io_sys_inv [OF inv x data])
  have maps: "maps_ok s" "avail_ok s"
    using inv by (simp_all add: sys_inv_def srv_inv_def)
  have sk: "ss_Socket ss = k"
    using maps_ok_poolE [OF maps(1) p] ss by force
  have mem: "socket_mem t p = Some ss"
    using ss same_but_ioD(11) [OF complete_io_same [of s x data]] by (simp add: t)
  have kt: "m_Socket (ov_at t x) = k"
    using k by (simp add: t complete_io_at)
  have step: "sys_inv s' \<and> same_frame s s'" if "srv_inv [] s'" "handled k t s'" "k \<in> connected s' \<Longrightarrow> rearmed s' k"
    using handled_step [OF inv x k that(1) that(2) [unfolded t] that(3)] that(2) handled_frame
    unfolding t by blast
  note idle = entry_handled [OF inv x k, of s' data, folded t]
  note off = unavailable_not_connected [OF maps p ss]
  note other = rearmed_complete [OF inv, of x k data, folded t]
  consider (gone) "n = 0" | (busy) "n \<noteq> 0" "\<not> Is_Available ss"
    | (recv) "n \<noteq> 0" "Is_Available ss" "m_IOType (ov_at s x) = IOType_Recv"
    | (sent) "n \<noteq> 0" "Is_Available ss" "m_IOType (ov_at s x) = IOType_Send"
    | (rest) "n \<noteq> 0" "Is_Available ss" "m_IOType (ov_at s x) \<noteq> IOType_Recv"
        "m_IOType (ov_at s x) \<noteq> IOType_Send"
    by blast
  then show ?thesis
  proof cases
    case gone
    then have kick: "kick env k x t = Ok s'"
      using run sk by simp
    show ?thesis
      by (rule step [OF kick_inv(1) [OF inv_t kick] handled_kick [OF inv_t kick]])
        (simp add: kick_inv(2) [OF inv_t kick])
  next
    case busy
    then have "s' = ov_reset env x t"
      using run by simp
    then show ?thesis
      using idle reset_handled [OF inv_t] off busy(2) by simp
  next
    case recv
    then have "IOFunction_Recv env n x p t = Ok s'"
      using run by simp
    from IOFunction_Recv_inv [OF inv_t mem sk kt n this] step show ?thesis by blast
  next
    case sent
    then have "s' = IOFunction_Send env n x t"
      using run by simp
    then show ?thesis
      using idle IOFunction_Send_inv [OF inv_t] other sent(3) by simp
  next
    case rest
    then have "s' = ov_reset env x t"
      using run by simp
    then show ?thesis
      using idle reset_handled [OF inv_t] other rest(3) by simp
  qed
qed

lemma WorkThread_entry_inv:
  assumes env: "os_pending env" and inv: "sys_inv s" and e: "entry_ok s e x"
    and data: "length data \<le> OVERLAPPED_BUFIZE"
    and run: "WorkThread_entry env e (complete_io x data s) = Ok (stop, s')"
  shows "sys_inv s'" and "\<not> stop" and "same_frame s s'"
proof -
  let ?t = "complete_io x data s" and ?io = "m_IOType (ov_at s x)"
  have e': "lpOverlapped e = Some x" and x: "x \<in> set (in_flight (ssys s))"
    and n: "unat (dwNumberOfBytesTransferred e) \<le> OVERLAPPED_BUFIZE"
    and key: "lpCompletionKey e = (if ?io = IOType_Accept then None
      else map_of (g_Socket_Struct_Pool s) (m_Socket (ov_at s x)))"
    using e by (simp_all add: entry_ok_def)
  have io: "m_IOType (ov_at ?t x) = ?io"
    by (simp add: complete_io_at)
  obtain p where p: "map_of (g_Socket_Struct_Pool s) (m_Socket (ov_at s x)) = Some p"
    using inv x by (auto simp: sys_inv_def known_flights_def)
  consider (accept) "?io = IOType_Accept" | (disconnect) "?io = IOType_Disconnect"
    | (data) "?io \<noteq> IOType_Accept" "?io \<noteq> IOType_Disconnect"
    by blast
  then have "sys_inv s' \<and> same_frame s s' \<and> \<not> stop"
  proof cases
    case accept
    then have "IOFunction_Accept env x ?t = Ok s' \<and> \<not> stop"
      using run e' io by (auto simp: WorkThread_entry_def bindE_eq_Ok_iff)
    then show ?thesis
      using WorkThread_accept [OF inv x data accept] by blast
  next
    case disconnect
    then obtain s1 ss where d: "IOFunction_Disconnect env x ?t = Ok s1" "socket_mem s1 p = Some ss"
      "s' = sock_upd p (ss\<lparr>Is_Available := True\<rparr>) s1" "\<not> stop"
      using run e' io key p
      by (auto simp: WorkThread_entry_def bindE_eq_Ok_iff sock_at_def split: option.splits)
    then show ?thesis
      using WorkThread_disconnect [OF env inv x data disconnect refl p] by blast
  next
    case d: data
    let ?n = "dwNumberOfBytesTransferred e"
    obtain ss where ss: "socket_mem s p = Some ss"
      using maps_ok_poolE [OF _ p] inv by (auto simp: sys_inv_def srv_inv_def)
    then have "sock_at ?t p = Ok ss"
      using same_but_ioD(11) [OF complete_io_same [of s x data]] by (simp add: sock_at_def)
    then have "(if ?n = 0 then kick env (ss_Socket ss) x ?t
               else if \<not> Is_Available ss then Ok (ov_reset env x ?t)
               else if ?io = IOType_Recv then IOFunction_Recv env ?n x p ?t
               else if ?io = IOType_Send then Ok (IOFunction_Send env ?n x ?t)
               else Ok (ov_reset env x ?t)) = Ok s' \<and> \<not> stop"
      using run e' io key p d
      by (cases ?io) (auto simp: WorkThread_entry_def bindE_eq_Ok_iff split: if_splits)
    then show ?thesis
      using WorkThread_data [OF inv x data n refl p ss refl] by blast
  qed
  then show "sys_inv s'" and "\<not> stop" and "same_frame s s'" by simp_all
qed

end
