(* ===== verification/DH_ServerLife.thy ===== *)
theory DH_ServerLife
  imports DH_ServerIO
begin

text \<open>
  The life of a server: the constructors of \<open>NetWorkBase\<close> and \<open>DHServer\<close>, \<open>Accept\<close>, which opens the
  listening socket and posts an \<open>AcceptEx\<close> for every socket of the pool, \<open>CreateWorkThread\<close>,
  \<open>TimeThread\<close>, \<open>SetDebug\<close> and \<open>End\<close>. The loop of \<open>Accept\<close> counts in an \<open>unsigned short\<close> up to
  \<open>MAX_USER_COUNT + 10\<close>, computed as an \<open>int\<close>; it is a partial function whose value is \<open>None\<close> when
  the loop never ends. A successful \<open>Accept\<close> establishes the invariant \<open>sys_inv\<close>.
\<close>

section \<open>Construction\<close>

text \<open>The constructor of the base class gets the address of \<open>DisconnectEx\<close> through a socket.\<close>

definition NetWorkBase_ctor :: "os \<Rightarrow> sys \<Rightarrow> sys res" where
  "NetWorkBase_ctor env y =
     (let (_, y) = sys_call env Sys_WSAStartup y;
          (r2, y) = sys_call env Sys_WSASocket y;
          (r3, y) = sys_call env (Sys_WSAIoctl (ret_sock r2)) y
      in bindE (assertE env (ret_ok r3)) (\<lambda>_.
           Ok (snd (sys_call env (Sys_CloseSocket (ret_sock r2)) y))))"

text \<open>
  The members as the class declares them. \<open>MAX_USER_COUNT\<close> is a static member: \<open>users\<close> is the value
  an earlier server left. The two pools exist only after \<open>Accept\<close>.
\<close>

definition no_pool :: "'a obj_class \<Rightarrow> 'a object_pool" where
  "no_pool T = \<lparr>m_Sample_Obj_Count = 0, ALL_Object_List = [], m_Available_Obj = [],
                obj_mem = T_raw T, obj_next = 0\<rparr>"

definition no_mempool :: memory_pool where
  "no_mempool =
     \<lparr>m_4Byte_Block_Count = 0, m_8Byte_Block_Count = 0, m_16Byte_Block_Count = 0,
      m_32Byte_Block_Count = 0, m_64Byte_Block_Count = 0, m_128Byte_Block_Count = 0,
      m_256Byte_Block_Count = 0, m_512Byte_Block_Count = 0, m_Memory_Pool = [],
      mp_mem = (\<lambda>_. 0), mp_next = 0\<rparr>"

definition DHServer_init :: "os \<Rightarrow> u16 \<Rightarrow> sys \<Rightarrow> server" where
  "DHServer_init env users y =
     \<lparr>MAX_USER_COUNT = users, PORT = 729, Available_Overlapped = no_pool (ov_class env),
      m_MemoryPool = no_mempool, Recv_Data_Queue = [], Send_Data_Queue = [],
      g_Socket_Struct_Pool = [], g_Connected_Client = [], g_Listen_Socket = None,
      g_Work_Thread = 0, g_Send_Thread = Thread_Null, g_IOCP = False, g_Is_Exit = False,
      g_Debug_Option = DHDEBUG_NONE, g_Recv_Total_Packet = 0, g_Send_Total_Packet = 0,
      g_Enter_User_Count = 0, g_Exit_User_Count = 0, Start_Time = 0, Prev_Time = 0,
      Current_Time = 0, g_Time_Check_Thread = Thread_Null, socket_mem = Map.empty,
      socket_next = 0, sheap = empty_heap, ssys = y\<rparr>"

definition DHServer_ctor :: "os \<Rightarrow> u16 \<Rightarrow> sys \<Rightarrow> server res" where
  "DHServer_ctor env users y = bindE (NetWorkBase_ctor env y) (\<lambda>y. Ok (DHServer_init env users y))"

definition SetDebug :: "u16 \<Rightarrow> server \<Rightarrow> server" where
  "SetDebug Debug_Option s = s\<lparr>g_Debug_Option := Debug_Option\<rparr>"

section \<open>Accept\<close>

primrec CreateWorkThread_loop :: "os \<Rightarrow> nat \<Rightarrow> server \<Rightarrow> server" where
  "CreateWorkThread_loop env 0 s = s"
| "CreateWorkThread_loop env (Suc n) s =
     (let s = srv_do env (Sys_ThreadStart ''WorkThread'') s
      in CreateWorkThread_loop env n (s\<lparr>g_Work_Thread := Suc (g_Work_Thread s)\<rparr>))"

definition CreateWorkThread :: "os \<Rightarrow> u16 \<Rightarrow> server \<Rightarrow> server" where
  "CreateWorkThread env Work_Thread_Count s = CreateWorkThread_loop env (unat Work_Thread_Count) s"

text \<open>Giving the buffer for error messages back to the memory pool.\<close>

definition reset_error_buffer :: "ptr option \<Rightarrow> server \<Rightarrow> server res" where
  "reset_error_buffer Error_Buffer s =
     bindE (ResetMemory Error_Buffer (int ERROR_MSG_BUFIZE) (m_MemoryPool s))
       (\<lambda>mp. Ok (s\<lparr>m_MemoryPool := mp\<rparr>))"

text \<open>The port and the two pools, made by the first call.\<close>

definition accept_setup :: "os \<Rightarrow> server \<Rightarrow> server res" where
  "accept_setup env s =
     (if g_IOCP s then Ok s
      else
        let (r, s) = srv_call env Sys_CreatePort s;
            s = s\<lparr>g_IOCP := ret_ok r\<rparr>
        in bindE (assertE env (g_IOCP s)) (\<lambda>_.
           bindE (MemoryPool_new (\<lambda>x. raw_byte env 0 x) SERVER_MEMORYPOOL_COUNT) (\<lambda>mp.
           Ok (s\<lparr>m_MemoryPool := mp,
                 Available_Overlapped := ObjectPool_new (ov_class env) SERVER_OVERLAPPED_COUNT\<rparr>))))"

text \<open>The listening socket: whether it is open, bound and listening.\<close>

definition accept_listen :: "os \<Rightarrow> ptr option \<Rightarrow> server \<Rightarrow> (bool \<times> server) res" where
  "accept_listen env Error_Buffer s =
     (let (r, s) = srv_call env Sys_WSASocket s;
          l = ret_sock r;
          s = s\<lparr>g_Listen_Socket := Some l\<rparr>
      in if l = INVALID_SOCKET
         then bindE (reset_error_buffer Error_Buffer s) (\<lambda>s. Ok (False, s))
         else
           let s = srv_do env (Sys_Associate l None) s;
               (b, s) = srv_call env (Sys_Bind l (PORT s)) s
           in if \<not> ret_ok b
              then let s = (srv_do env (Sys_CloseSocket l) s)\<lparr>g_Listen_Socket := Some INVALID_SOCKET\<rparr>
                   in bindE (reset_error_buffer Error_Buffer s) (\<lambda>s. Ok (False, s))
              else
                let (li, s) = srv_call env (Sys_Listen l 5) s
                in if \<not> ret_ok li
                   then let s = (srv_do env (Sys_CloseSocket l) s)\<lparr>g_Listen_Socket := Some INVALID_SOCKET\<rparr>
                        in bindE (reset_error_buffer Error_Buffer s) (\<lambda>s. Ok (False, s))
                   else Ok (True, s))"

text \<open>
  The body of the loop: whether it goes on. When the association with the port fails, a release build
  deletes the new structure and then reads its socket.
\<close>

definition accept_body :: "os \<Rightarrow> ptr option \<Rightarrow> server \<Rightarrow> (bool \<times> server) res" where
  "accept_body env Error_Buffer s =
     bindE (ov_get env s) (\<lambda>(x, s).
       let s = ov_upd x (\<lambda>v. v\<lparr>m_IOType := IOType_Accept\<rparr>) s;
           (r, s) = srv_call env Sys_WSASocket s;
           k = ret_sock r;
           s = ov_upd x (\<lambda>v. v\<lparr>m_Socket := k\<rparr>) s
       in if k = INVALID_SOCKET
          then bindE (reset_error_buffer Error_Buffer s) (\<lambda>s. Ok (False, s))
          else
            case g_Listen_Socket s of
              None \<Rightarrow> Fault Null_Deref
            | Some l \<Rightarrow>
                let (a, s) = srv_async env (Sys_AcceptEx l k x) x s
                in if last_error a \<noteq> WSA_IO_PENDING
                   then bindE (reset_error_buffer Error_Buffer s) (\<lambda>s. Ok (False, s))
                   else
                     let p = socket_next s;
                         ss = Socket_Struct_ctor\<lparr>ss_Socket := k\<rparr>;
                         s = (sock_upd p ss s)\<lparr>socket_next := Suc p\<rparr>;
                         (c, s) = srv_call env (Sys_Associate k (Some p)) s
                     in bindE (if ret_ok c then Ok s
                               else bindE (assertE env False) (\<lambda>_.
                                      Ok (s\<lparr>socket_mem := (socket_mem s)(p := None),
                                            ssys := Socket_Struct_dtor env ss (ssys s)\<rparr>))) (\<lambda>s.
                        bindE (sock_at s p) (\<lambda>ss.
                          Ok (True, s\<lparr>g_Socket_Struct_Pool :=
                                       hm_insert (ss_Socket ss) p (g_Socket_Struct_Pool s)\<rparr>))))"

partial_function (option) accept_loop ::
    "os \<Rightarrow> ptr option \<Rightarrow> u16 \<Rightarrow> server \<Rightarrow> (bool \<times> server) res option" where
  "accept_loop env Error_Buffer i s =
     (if unat i < unat (MAX_USER_COUNT s) + 10
      then case accept_body env Error_Buffer s of
             Inl e \<Rightarrow> Some (Fault e)
           | Inr (go, s') \<Rightarrow>
               if go then accept_loop env Error_Buffer (i + 1) s' else Some (Ok (False, s'))
      else Some (Ok (True, s)))"

definition accept_finish :: "os \<Rightarrow> int \<Rightarrow> ptr option \<Rightarrow> server \<Rightarrow> server res" where
  "accept_finish env now Error_Buffer s =
     (let s = (srv_do env (Sys_ThreadStart ''SendThread'') s)\<lparr>g_Send_Thread := Thread_Live\<rparr>;
          s = (if g_Debug_Option s = DHDEBUG_SIMPLE
               then (srv_do env (Sys_ThreadStart ''TimeThread'') s)
                      \<lparr>Start_Time := now, Prev_Time := now, g_Time_Check_Thread := Thread_Live\<rparr>
               else s)
      in reset_error_buffer Error_Buffer s)"

text \<open>The whole function; \<open>None\<close> when its loop never ends.\<close>

definition accept_open :: "os \<Rightarrow> u16 \<Rightarrow> server \<Rightarrow> (bool \<times> ptr option \<times> server) res" where
  "accept_open env Work_Thread_Count s =
     bindE (accept_setup env s) (\<lambda>s.
     bindE (GetMemory (int ERROR_MSG_BUFIZE) (m_MemoryPool s)) (\<lambda>(Error_Buffer, mp).
     bindE (accept_listen env Error_Buffer (s\<lparr>m_MemoryPool := mp\<rparr>)) (\<lambda>(ok, s).
       Ok (ok, Error_Buffer, if ok then CreateWorkThread env Work_Thread_Count s else s))))"

definition Accept :: "os \<Rightarrow> int \<Rightarrow> u16 \<Rightarrow> u16 \<Rightarrow> u16 \<Rightarrow> server \<Rightarrow> (int \<times> server) res option" where
  "Accept env now Port Max_User_Count Work_Thread_Count s =
     (case accept_open env Work_Thread_Count (s\<lparr>PORT := Port, MAX_USER_COUNT := Max_User_Count\<rparr>) of
        Inl e \<Rightarrow> Some (Fault e)
      | Inr (ok, Error_Buffer, s) \<Rightarrow>
          if \<not> ok then Some (Ok (LOGIC_FAIL, s))
          else (case accept_loop env Error_Buffer 0 s of
                  None \<Rightarrow> None
                | Some r \<Rightarrow> Some (bindE r (\<lambda>(ok, s).
                    if \<not> ok then Ok (LOGIC_FAIL, s)
                    else bindE (accept_finish env now Error_Buffer s)
                           (\<lambda>s. Ok (LOGIC_SUCCESS, s))))))"

section \<open>TimeThread\<close>

text \<open>One turn of the loop at the time \<open>now\<close>: the print-out is due every ten seconds.\<close>

definition ticks_per_second :: int where
  "ticks_per_second = 10000000"

definition time_tick :: "int \<Rightarrow> server \<Rightarrow> server" where
  "time_tick now s =
     s\<lparr>Current_Time := now,
       Prev_Time := (if SERVER_TIME_EVENT_s * ticks_per_second < now - Prev_Time s then now
                     else Prev_Time s)\<rparr>"

text \<open>
  The thread, over the clock readings it makes while \<open>g_Is_Exit\<close> is not set. It ends with a \<open>delete\<close>
  of a pointer into a \<open>std::string\<close>.
\<close>

primrec time_loop :: "int list \<Rightarrow> server \<Rightarrow> server" where
  "time_loop [] s = s"
| "time_loop (t # ts) s = (if g_Is_Exit s then s else time_loop ts (time_tick t s))"

definition TimeThread :: "int list \<Rightarrow> server \<Rightarrow> server res" where
  "TimeThread readings s =
     (if g_Debug_Option s = DHDEBUG_SIMPLE
      then let s = time_loop readings s in if g_Is_Exit s then Fault Bad_Free else Ok s
      else Ok s)"

section \<open>End\<close>

definition join_thread :: "os \<Rightarrow> string \<Rightarrow> thread_ptr \<Rightarrow> server \<Rightarrow> server res" where
  "join_thread env name t s =
     (case t of
        Thread_Null \<Rightarrow> Fault Null_Deref
      | Thread_Deleted \<Rightarrow> Fault Use_After_Free
      | Thread_Live \<Rightarrow> Ok (srv_do env (Sys_ThreadJoin name) s))"

primrec join_workers :: "os \<Rightarrow> nat \<Rightarrow> server \<Rightarrow> server" where
  "join_workers env 0 s = s"
| "join_workers env (Suc n) s = join_workers env n (srv_do env (Sys_ThreadJoin ''WorkThread'') s)"

primrec free_recv_queue :: "ptr list \<Rightarrow> heap \<Rightarrow> heap res" where
  "free_recv_queue [] h = Ok h"
| "free_recv_queue (m # ms) h =
     bindE (heap_msg m h) (\<lambda>(_, q).
     bindE (heap_free q h) (\<lambda>h.
     bindE (heap_free m h) (\<lambda>h. free_recv_queue ms h)))"

primrec free_send_queue :: "ptr list \<Rightarrow> heap \<Rightarrow> heap res" where
  "free_send_queue [] h = Ok h"
| "free_send_queue (q # qs) h = bindE (heap_free q h) (\<lambda>h. free_send_queue qs h)"

primrec close_sockets :: "os \<Rightarrow> (sock \<times> ptr) list \<Rightarrow> server \<Rightarrow> server res" where
  "close_sockets env [] s = Ok s"
| "close_sockets env (e # es) s =
     (case map_of (g_Socket_Struct_Pool s) (fst e) of
        None \<Rightarrow> Fault Spin
      | Some p \<Rightarrow> bindE (sock_at s p) (\<lambda>ss.
          let s = srv_do env (Sys_Shutdown (ss_Socket ss)) s;
              s = srv_do env (Sys_CloseSocket (ss_Socket ss)) s
          in close_sockets env es s))"

definition End :: "os \<Rightarrow> server \<Rightarrow> (int \<times> server) res" where
  "End env s =
     (if \<not> g_IOCP s then Ok (LOGIC_FAIL, s)
      else
        let s = srv_do env Sys_PostQuit (s\<lparr>g_Is_Exit := True\<rparr>)
        in bindE (join_thread env ''SendThread'' (g_Send_Thread s) s) (\<lambda>s.
           let s = s\<lparr>g_Send_Thread := Thread_Deleted\<rparr>
           in bindE (if g_Debug_Option s = DHDEBUG_SIMPLE
                     then bindE (join_thread env ''TimeThread'' (g_Time_Check_Thread s) s)
                            (\<lambda>s. Ok (s\<lparr>g_Time_Check_Thread := Thread_Deleted\<rparr>))
                     else Ok s) (\<lambda>s.
           let s = (join_workers env (g_Work_Thread s) s)\<lparr>g_Work_Thread := 0\<rparr>
           in bindE (free_recv_queue (Recv_Data_Queue s) (sheap s)) (\<lambda>h.
              bindE (free_send_queue (map snd (Send_Data_Queue s)) h) (\<lambda>h.
              let s = s\<lparr>Recv_Data_Queue := [], Send_Data_Queue := [], sheap := h\<rparr>;
                  s = (srv_do env Sys_CloseHandle s)\<lparr>g_IOCP := False\<rparr>
              in bindE (close_sockets env (g_Socket_Struct_Pool s) s) (\<lambda>s.
                 let s = s\<lparr>Available_Overlapped := snd (ObjectPool_delete (Available_Overlapped s)),
                           m_MemoryPool := MemoryPool_delete (m_MemoryPool s)\<rparr>
                 in Ok (LOGIC_SUCCESS, srv_do env Sys_WSACleanup s)))))))"

definition DHServer_dtor :: "os \<Rightarrow> server \<Rightarrow> server res" where
  "DHServer_dtor env s = bindE (End env s) (\<lambda>(_, s). Ok s)"

section \<open>The loop of Accept ends, or not\<close>

lemma srv_call_facts [simp]:
  "ov_at (snd (srv_call env c s)) = ov_at s" "in_flight (ssys (snd (srv_call env c s))) = in_flight (ssys s)"
  "calls (ssys (snd (srv_call env c s))) = c # calls (ssys s)"
  "fst (srv_call env c s) = os_ret env (calls (ssys s)) c"
  "Available_Overlapped (snd (srv_call env c s)) = Available_Overlapped s"
  by (simp_all add: srv_call_def ov_at_def split_def) (simp_all add: sys_call_def)

lemma reset_error_buffer_same:
  "reset_error_buffer b s = Ok s' \<Longrightarrow> s' = s\<lparr>m_MemoryPool := m_MemoryPool s'\<rparr>"
  by (auto simp: reset_error_buffer_def bindE_eq_Ok_iff)

text \<open>A turn of the loop that goes on, step by step.\<close>

definition accept_posted :: "os \<Rightarrow> nat \<Rightarrow> sock \<Rightarrow> sock \<Rightarrow> server \<Rightarrow> server" where
  "accept_posted env x k l s =
     (let s = ov_upd x (\<lambda>v. v\<lparr>m_IOType := IOType_Accept\<rparr>) s;
          s = srv_do env Sys_WSASocket s;
          s = ov_upd x (\<lambda>v. v\<lparr>m_Socket := k\<rparr>) s;
          s = snd (srv_async env (Sys_AcceptEx l k x) x s);
          p = socket_next s;
          s = (sock_upd p (Socket_Struct_ctor\<lparr>ss_Socket := k\<rparr>) s)\<lparr>socket_next := Suc p\<rparr>;
          s = srv_do env (Sys_Associate k (Some p)) s
      in s\<lparr>g_Socket_Struct_Pool := hm_insert k p (g_Socket_Struct_Pool s)\<rparr>)"

lemma accept_body_goes:
  assumes "accept_body env b s = Ok (True, s')"
  obtains x s1 k l where "ov_get env s = Ok (x, s1)"
    and "k = ret_sock (os_ret env (calls (ssys s)) Sys_WSASocket)" and "k \<noteq> INVALID_SOCKET"
    and "g_Listen_Socket s = Some l"
    and "last_error (os_ret env (Sys_WSASocket # calls (ssys s)) (Sys_AcceptEx l k x)) = WSA_IO_PENDING"
    and "s' = accept_posted env x k l s1"
proof -
  from assms obtain x s1 where get: "ov_get env s = Ok (x, s1)"
    by (auto simp: accept_body_def bindE_eq_Ok_iff)
  have same: "ssys s1 = ssys s" "g_Listen_Socket s1 = g_Listen_Socket s"
    using ov_get_same [OF get] same_but_ioD(8) by auto
  let ?k = "ret_sock (os_ret env (calls (ssys s)) Sys_WSASocket)"
  let ?s2 = "ov_upd x (\<lambda>v. v\<lparr>m_Socket := ?k\<rparr>)
               (srv_do env Sys_WSASocket (ov_upd x (\<lambda>v. v\<lparr>m_IOType := IOType_Accept\<rparr>) s1))"
  have l2: "g_Listen_Socket ?s2 = g_Listen_Socket s"
    using same_but_ioD(8) [OF same_but_io_prims(1)] same_but_ioD(8) [OF same_but_io_prims(3)] same
    by simp
  have c2: "calls (ssys ?s2) = Sys_WSASocket # calls (ssys s)"
    by (simp add: srv_do_def same)
  have k: "?k \<noteq> INVALID_SOCKET"
    using assms get same
    by (auto simp: accept_body_def Let_def bindE_eq_Ok_iff srv_do_def split_def split: if_splits)
  obtain l where l: "g_Listen_Socket s = Some l"
    using assms get same k l2
    by (auto simp: accept_body_def Let_def split_def srv_do_def split: if_splits option.splits)
  let ?c = "Sys_AcceptEx l ?k x"
  obtain a s3 where a: "srv_async env ?c x ?s2 = (a, s3)"
    by force
  have a_ret: "a = os_ret env (Sys_WSASocket # calls (ssys s)) ?c"
    using a c2 by (auto simp: srv_async_def sys_async_def Let_def)
  have body: "accept_body env b s =
     (if last_error a \<noteq> WSA_IO_PENDING
      then bindE (reset_error_buffer b s3) (\<lambda>s. Ok (False, s))
      else
        let p = socket_next s3; ss = Socket_Struct_ctor\<lparr>ss_Socket := ?k\<rparr>;
            s = (sock_upd p ss s3)\<lparr>socket_next := Suc p\<rparr>;
            (c, s) = srv_call env (Sys_Associate ?k (Some p)) s
        in bindE (if ret_ok c then Ok s
                  else bindE (assertE env False) (\<lambda>_.
                         Ok (s\<lparr>socket_mem := (socket_mem s)(p := None),
                               ssys := Socket_Struct_dtor env ss (ssys s)\<rparr>))) (\<lambda>s.
           bindE (sock_at s p) (\<lambda>ss.
             Ok (True, s\<lparr>g_Socket_Struct_Pool :=
                          hm_insert (ss_Socket ss) p (g_Socket_Struct_Pool s)\<rparr>))))"
    using get k l l2 a same
    by (simp add: accept_body_def Let_def split_def srv_do_def)
  have pend: "last_error a = WSA_IO_PENDING"
    using assms unfolding body by (auto simp: bindE_eq_Ok_iff split: if_splits)
  let ?p = "socket_next s3"
  let ?s4 = "(sock_upd ?p (Socket_Struct_ctor\<lparr>ss_Socket := ?k\<rparr>) s3)\<lparr>socket_next := Suc ?p\<rparr>"
  obtain c s5 where c: "srv_call env (Sys_Associate ?k (Some ?p)) ?s4 = (c, s5)"
    by force
  have mem: "socket_mem s5 ?p = Some (Socket_Struct_ctor\<lparr>ss_Socket := ?k\<rparr>)"
    using c same_but_ioD(11) [OF same_but_io_prims(4) [of ?s4 env "Sys_Associate ?k (Some ?p)"]]
    by (simp add: sock_upd_def)
  have "ret_ok c"
    using assms pend c unfolding body
    by (auto simp: Let_def bindE_eq_Ok_iff sock_at_def split: if_splits)
  then have "s' = s5\<lparr>g_Socket_Struct_Pool := hm_insert ?k ?p (g_Socket_Struct_Pool s5)\<rparr>"
    using assms pend c mem unfolding body by (simp add: Let_def sock_at_def)
  also have "\<dots> = accept_posted env x ?k l s1"
    using a c by (simp add: accept_posted_def Let_def srv_do_def)
  finally show thesis
    using that get k l pend a_ret by blast
qed

lemma accept_posted_fields:
  "in_flight (ssys (accept_posted env x k l s)) =
     (if goes_in_flight (os_ret env (Sys_WSASocket # calls (ssys s)) (Sys_AcceptEx l k x))
      then x # in_flight (ssys s) else in_flight (ssys s))"
  "calls (ssys (accept_posted env x k l s)) =
     Sys_Associate k (Some (socket_next s)) # Sys_AcceptEx l k x # Sys_WSASocket # calls (ssys s)"
  "ov_at (accept_posted env x k l s) =
     (ov_at s)(x := (ov_at s x)\<lparr>m_IOType := IOType_Accept, m_Socket := k\<rparr>)"
  "socket_mem (accept_posted env x k l s) =
     (socket_mem s)(socket_next s \<mapsto> Socket_Struct_ctor\<lparr>ss_Socket := k\<rparr>)"
  "socket_next (accept_posted env x k l s) = Suc (socket_next s)"
  "g_Socket_Struct_Pool (accept_posted env x k l s) =
     hm_insert k (socket_next s) (g_Socket_Struct_Pool s)"
  "g_Connected_Client (accept_posted env x k l s) = g_Connected_Client s"
  "MAX_USER_COUNT (accept_posted env x k l s) = MAX_USER_COUNT s"
  "g_Listen_Socket (accept_posted env x k l s) = g_Listen_Socket s"
  "sheap (accept_posted env x k l s) = sheap s"
  "Recv_Data_Queue (accept_posted env x k l s) = Recv_Data_Queue s"
  "Send_Data_Queue (accept_posted env x k l s) = Send_Data_Queue s"
  "m_MemoryPool (accept_posted env x k l s) = m_MemoryPool s"
  by (simp_all add: accept_posted_def Let_def srv_do_def srv_call_def srv_async_def sys_async_def
      sys_call_def ov_upd_def ov_at_def sock_upd_def split_def pool_write_def fun_eq_iff)

lemma accept_posted_owns:
  assumes "srv_owns [x] s"
    and "goes_in_flight (os_ret env (Sys_WSASocket # calls (ssys s)) (Sys_AcceptEx l k x))"
  shows "srv_owns [] (accept_posted env x k l s)"
proof -
  let ?s2 = "ov_upd x (\<lambda>v. v\<lparr>m_Socket := k\<rparr>)
               (srv_do env Sys_WSASocket (ov_upd x (\<lambda>v. v\<lparr>m_IOType := IOType_Accept\<rparr>) s))"
  obtain a s3 where a: "srv_async env (Sys_AcceptEx l k x) x ?s2 = (a, s3)"
    by force
  have ok: "ov_ok (ov_at s x)"
    using srv_owns_known [OF assms(1), of x] by simp
  have "srv_owns [x] (srv_do env Sys_WSASocket (ov_upd x (\<lambda>v. v\<lparr>m_IOType := IOType_Accept\<rparr>) s))"
    unfolding srv_owns_do using assms(1) by (rule srv_owns_upd) (use ok in \<open>simp add: ov_ok_def\<close>)
  then have own2: "srv_owns [x] ?s2"
    by (rule srv_owns_upd) (use ok in \<open>simp add: ov_ok_def\<close>)
  have "goes_in_flight a"
    using a assms(2) by (auto simp: srv_async_def sys_async_def Let_def srv_do_def)
  then have "srv_owns [] s3"
    using srv_owns_async [OF own2 a] by simp
  moreover have "accept_posted env x k l s =
      (let p = socket_next s3;
           s = (sock_upd p (Socket_Struct_ctor\<lparr>ss_Socket := k\<rparr>) s3)\<lparr>socket_next := Suc p\<rparr>;
           s = srv_do env (Sys_Associate k (Some p)) s
       in s\<lparr>g_Socket_Struct_Pool := hm_insert k p (g_Socket_Struct_Pool s)\<rparr>)"
    using a by (simp add: accept_posted_def Let_def)
  ultimately show ?thesis
    by (simp add: Let_def srv_owns_def ovs_ok_def ov_at_def srv_do_def srv_call_def sock_upd_def split_def)
qed

text \<open>A system that refuses nothing makes every turn go on.\<close>

lemma accept_body_granted:
  assumes env: "accept_granted env B" and "length (calls (ssys s)) + 3 \<le> B"
    and own: "srv_owns [] s" and l: "g_Listen_Socket s = Some l"
  shows "\<exists>x s1 k. ov_get env s = Ok (x, s1) \<and> accept_body env b s = Ok (True, accept_posted env x k l s1)"
proof -
  obtain x s1 where get: "ov_get env s = Ok (x, s1)"
    using ov_get_Ok [OF own] by blast
  have same: "ssys s1 = ssys s" "g_Listen_Socket s1 = Some l"
    using ov_get_same [OF get] same_but_ioD(8) l by auto
  let ?k = "ret_sock (os_ret env (calls (ssys s)) Sys_WSASocket)"
  have k: "?k \<noteq> INVALID_SOCKET"
    "last_error (os_ret env (Sys_WSASocket # calls (ssys s)) (Sys_AcceptEx l ?k x)) = WSA_IO_PENDING"
    "ret_ok (os_ret env (Sys_AcceptEx l ?k x # Sys_WSASocket # calls (ssys s)) (Sys_Associate ?k q))" for q
    using env assms(2) by (auto simp: accept_granted_def)
  have "accept_body env b s = Ok (True, accept_posted env x ?k l s1)"
    using get same k
    by (simp add: accept_body_def accept_posted_def Let_def split_def srv_call_def srv_do_def
        sys_call_def srv_async_def sys_async_def ov_upd_def sock_upd_def sock_at_def)
  with get show ?thesis by blast
qed

section \<open>What the loop builds\<close>

text \<open>
  \<open>waiting s k\<close>: an accept for the socket \<open>k\<close> is in flight. \<open>accepting env n s\<close>: \<open>n\<close> sockets are in the
  pool, each open and waiting for a client, nobody is connected, and the invariant of the server holds.
\<close>

definition waiting :: "server \<Rightarrow> sock \<Rightarrow> bool" where
  "waiting s k \<longleftrightarrow> (\<exists>x \<in> set (in_flight (ssys s)).
     m_IOType (ov_at s x) = IOType_Accept \<and> m_Socket (ov_at s x) = k)"

definition accepting :: "os \<Rightarrow> nat \<Rightarrow> server \<Rightarrow> bool" where
  "accepting env n s \<longleftrightarrow> sys_inv s \<and> g_Connected_Client s = [] \<and> length (g_Socket_Struct_Pool s) = n
     \<and> Recv_Data_Queue s = [] \<and> Send_Data_Queue s = []
     \<and> (\<forall>k p. map_of (g_Socket_Struct_Pool s) k = Some p \<longrightarrow>
          k \<in> open_socks env (calls (ssys s)) \<and> p < socket_next s \<and> waiting s k)"

lemma waiting_kept: "flight_kept s s' \<Longrightarrow> waiting s k \<Longrightarrow> waiting s' k"
  unfolding flight_kept_def waiting_def by (metis subsetD)

lemma sys_inv_idle:
  assumes "g_Connected_Client s = []" and "maps_ok s" and "srv_owns [] s" and "srv_queues_ok s"
    and "known_flights s" and "\<And>k. flight_tokens s k \<le> 1"
  shows "sys_inv s"
  using assms
  by (auto simp: sys_inv_def srv_inv_def armed_def avail_but_def tokens_def connected_def)

text \<open>
  What one turn adds to the server: a new socket \<open>k\<close> in the pool, its structure at the next free
  place, and an accept for it in flight.
\<close>

definition socket_added :: "nat \<Rightarrow> sock \<Rightarrow> server \<Rightarrow> server \<Rightarrow> bool" where
  "socket_added x k s s' \<longleftrightarrow>
     g_Socket_Struct_Pool s' = g_Socket_Struct_Pool s @ [(k, socket_next s)]
     \<and> map_of (g_Socket_Struct_Pool s) k = None \<and> k \<noteq> INVALID_SOCKET
     \<and> socket_mem s' = (socket_mem s)(socket_next s \<mapsto> Socket_Struct_ctor\<lparr>ss_Socket := k\<rparr>)
     \<and> socket_next s' = Suc (socket_next s)
     \<and> in_flight (ssys s') = x # in_flight (ssys s)
     \<and> (\<forall>y \<in> set (in_flight (ssys s)). ov_at s' y = ov_at s y)
     \<and> m_IOType (ov_at s' x) = IOType_Accept \<and> m_Socket (ov_at s' x) = k
     \<and> g_Connected_Client s' = g_Connected_Client s \<and> MAX_USER_COUNT s' = MAX_USER_COUNT s
     \<and> Recv_Data_Queue s' = Recv_Data_Queue s \<and> Send_Data_Queue s' = Send_Data_Queue s"

lemma socket_added_pool:
  assumes "socket_added x k s s'"
  shows "map_of (g_Socket_Struct_Pool s') = (map_of (g_Socket_Struct_Pool s))(k \<mapsto> socket_next s)"
  using assms map_of_hm_insert [of k "socket_next s" "g_Socket_Struct_Pool s"]
  by (simp add: socket_added_def hm_insert_def)

lemma socket_added_kept: "socket_added x k s s' \<Longrightarrow> flight_kept s s'"
  by (auto simp: socket_added_def flight_kept_def)

lemma accept_body_adds:
  assumes env: "os_fresh env" and acc: "accepting env n s" and run: "accept_body env b s = Ok (True, s')"
  obtains x k where "socket_added x k s s'" and "srv_owns [] s'" and "srv_queues_ok s'"
    and "open_socks env (calls (ssys s')) = insert k (open_socks env (calls (ssys s)))"
proof -
  obtain x s1 k l where get: "ov_get env s = Ok (x, s1)"
    and k: "k = ret_sock (os_ret env (calls (ssys s)) Sys_WSASocket)" "k \<noteq> INVALID_SOCKET"
    and pend: "last_error (os_ret env (Sys_WSASocket # calls (ssys s)) (Sys_AcceptEx l k x)) = WSA_IO_PENDING"
    and s': "s' = accept_posted env x k l s1"
    by (rule accept_body_goes [OF run]) blast
  have own: "srv_owns [] s" and queues: "srv_queues_ok s"
    and pool: "\<And>j p. map_of (g_Socket_Struct_Pool s) j = Some p \<Longrightarrow> j \<in> open_socks env (calls (ssys s))"
    using acc by (auto simp: accepting_def sys_inv_def srv_inv_def)
  have same: "same_but_io s s1" "ssys s1 = ssys s"
    using ov_get_same [OF get] by simp_all
  note fields = same_but_ioD [OF same(1)]
  have sn: "socket_next s1 = socket_next s"
    using same(1) unfolding same_but_io_def by (cases s, cases s1) simp
  have flies: "goes_in_flight (os_ret env (Sys_WSASocket # calls (ssys s1)) (Sys_AcceptEx l k x))"
    using pend same by (simp add: goes_in_flight_def)
  note f = accept_posted_fields [of env x k l s1, folded s']
  have "k \<notin> open_socks env (calls (ssys s))"
    using env k by (auto simp: os_fresh_def)
  then have new: "map_of (g_Socket_Struct_Pool s) k = None"
    using pool [of k] by fastforce
  have at: "ov_at s' y = ov_at s y" if "y \<in> set (in_flight (ssys s))" for y
  proof -
    have "y \<noteq> x"
      using that srv_owns_get(3) [OF own get] by auto
    then show ?thesis
      using f(3) ov_get_at [OF own get] that by simp
  qed
  show thesis
  proof (rule that)
    show "socket_added x k s s'"
      using new k(2) at f(1,3-8,10-12) flies same(2) fields sn by (simp add: socket_added_def hm_insert_def)
    show "srv_owns [] s'"
      unfolding s' using srv_owns_get(1) [OF own get] flies by (rule accept_posted_owns)
    show "srv_queues_ok s'"
      using queues f(10-12) fields by (simp add: srv_queues_ok_def)
    show "open_socks env (calls (ssys s')) = insert k (open_socks env (calls (ssys s)))"
      using f(2) same(2) k by simp
  qed
qed

lemma socket_added_maps_ok:
  assumes add: "socket_added x k s s'" and maps: "maps_ok s" and conn: "g_Connected_Client s = []"
    and below: "\<And>j p. map_of (g_Socket_Struct_Pool s) j = Some p \<Longrightarrow> p < socket_next s"
  shows "maps_ok s'"
proof -
  have "\<exists>ss. socket_mem s' p = Some ss \<and> ss_Socket ss = j" "j \<noteq> INVALID_SOCKET"
    if p: "map_of (g_Socket_Struct_Pool s') j = Some p" for j p
  proof -
    have "\<exists>ss. socket_mem s' p = Some ss \<and> ss_Socket ss = j \<and> j \<noteq> INVALID_SOCKET"
    proof (cases "j = k")
      case True
      with p add show ?thesis
        by (simp add: socket_added_pool [OF add]) (simp add: socket_added_def)
    next
      case False
      with p have old: "map_of (g_Socket_Struct_Pool s) j = Some p"
        by (simp add: socket_added_pool [OF add])
      with below maps_ok_poolE [OF maps old] add show ?thesis
        by (fastforce simp: socket_added_def)
    qed
    then show "\<exists>ss. socket_mem s' p = Some ss \<and> ss_Socket ss = j" "j \<noteq> INVALID_SOCKET"
      by blast+
  qed
  moreover have "hm_distinct (g_Socket_Struct_Pool s')"
    using add maps hm_insert_distinct [of "g_Socket_Struct_Pool s" k "socket_next s"]
    by (simp add: socket_added_def maps_ok_def hm_insert_def)
  ultimately show ?thesis
    using add maps conn by (simp add: maps_ok_def socket_added_def)
qed

lemma socket_added_known:
  assumes "socket_added x k s s'" and "known_flights s"
  shows "known_flights s'"
  using assms by (auto simp: known_flights_def socket_added_pool [OF assms(1)]) (auto simp: socket_added_def)

lemma socket_added_tokens:
  assumes add: "socket_added x k s s'" and known: "known_flights s" and once: "flight_tokens s j \<le> 1"
  shows "flight_tokens s' j \<le> 1"
proof -
  have "flight_tokens s' j = (if j = k then 1 else 0) + flight_tokens s j"
    using tokens_flights [of s' "[x]" s j] socket_added_kept [OF add] add
    by (simp add: socket_added_def is_token_def)
  moreover have "\<not> is_token k (ov_at s y)" if "y \<in> set (in_flight (ssys s))" for y
    using known that add by (auto simp: known_flights_def is_token_def socket_added_def)
  then have "flight_tokens s k = 0"
    by (simp add: flight_tokens_def filter_empty_conv)
  ultimately show ?thesis
    using once by simp
qed

lemma socket_added_waiting: "socket_added x k s s' \<Longrightarrow> waiting s' k"
  by (auto simp: socket_added_def waiting_def)

lemma accepting_body:
  assumes env: "os_fresh env" and acc: "accepting env n s" and run: "accept_body env b s = Ok (True, s')"
  shows "accepting env (Suc n) s'" and "MAX_USER_COUNT s' = MAX_USER_COUNT s"
proof -
  obtain x k where add: "socket_added x k s s'" and own: "srv_owns [] s'" "srv_queues_ok s'"
    and socks: "open_socks env (calls (ssys s')) = insert k (open_socks env (calls (ssys s)))"
    by (rule accept_body_adds [OF assms])
  have inv: "sys_inv s" and conn: "g_Connected_Client s = []"
    and pool: "\<And>j p. map_of (g_Socket_Struct_Pool s) j = Some p \<Longrightarrow>
      j \<in> open_socks env (calls (ssys s)) \<and> p < socket_next s \<and> waiting s j"
    using acc by (simp_all add: accepting_def)
  have parts: "maps_ok s" "known_flights s"
    using inv by (simp_all add: sys_inv_def srv_inv_def)
  have "flight_tokens s j \<le> 1" for j
    using inv by (simp add: sys_inv_def tokens_def) (metis add_leE)
  then have "sys_inv s'"
    using own add conn pool socket_added_maps_ok [OF add parts(1) conn] socket_added_known [OF add parts(2)]
      socket_added_tokens [OF add parts(2)] by (intro sys_inv_idle) (simp_all add: socket_added_def)
  moreover have "j \<in> open_socks env (calls (ssys s')) \<and> p < socket_next s' \<and> waiting s' j"
    if "map_of (g_Socket_Struct_Pool s') j = Some p" for j p
    using that pool [of j p] socks waiting_kept [OF socket_added_kept [OF add]] socket_added_waiting [OF add]
      add by (auto simp: socket_added_pool [OF add] socket_added_def split: if_splits)
  ultimately show "accepting env (Suc n) s'"
    using add acc by (simp add: accepting_def socket_added_def)
  show "MAX_USER_COUNT s' = MAX_USER_COUNT s"
    using add by (simp add: socket_added_def)
qed

lemma unat_Suc16: "unat i < n \<Longrightarrow> n < 2 ^ 16 \<Longrightarrow> unat (i + 1 :: u16) = Suc (unat i)"
proof -
  assume "unat i < n" "n < 2 ^ 16"
  then have "unat i + unat (1 :: u16) < 2 ^ LENGTH(16)"
    by simp
  then show ?thesis
    by (simp add: unat_add_lem [THEN iffD1])
qed

lemma accepting_loop:
  assumes "os_fresh env" and "accept_loop env b i s = Some (Ok (True, s'))"
    and "accepting env (unat i) s" and "unat i \<le> unat (MAX_USER_COUNT s) + 10"
    and "unat (MAX_USER_COUNT s) + 10 < 2 ^ 16"
  shows "accepting env (unat (MAX_USER_COUNT s) + 10) s' \<and> MAX_USER_COUNT s' = MAX_USER_COUNT s"
  using assms(2-)
proof (induction n \<equiv> "unat (MAX_USER_COUNT s) + 10 - unat i" arbitrary: i s)
  case 0
  then have "\<not> unat i < unat (MAX_USER_COUNT s) + 10"
    by simp
  with 0 show ?case
    using accept_loop.simps [of env b i s] by simp
next
  case (Suc n)
  then have less: "unat i < unat (MAX_USER_COUNT s) + 10"
    by simp
  then obtain go s1 where body: "accept_body env b s = Ok (go, s1)"
    and rest: "(if go then accept_loop env b (i + 1) s1 else Some (Ok (False, s1))) = Some (Ok (True, s'))"
    using Suc.prems(1) accept_loop.simps [of env b i s] by (auto split: sum.splits prod.splits)
  then have go: "go" by (simp split: if_splits)
  with body have "accept_body env b s = Ok (True, s1)" by simp
  note step = accepting_body [OF assms(1) Suc.prems(2) this]
  have i: "unat (i + 1) = Suc (unat i)"
    using less Suc.prems(4) by (rule unat_Suc16)
  show ?case
    using Suc.hyps(1) [of s1 "i + 1"] Suc.hyps(2) Suc.prems(4) less rest go step i by simp
qed

lemma accept_body_max:
  assumes "accept_body env b s = Ok (True, s')"
  shows "MAX_USER_COUNT s' = MAX_USER_COUNT s"
proof -
  obtain x s1 k l where get: "ov_get env s = Ok (x, s1)" and s': "s' = accept_posted env x k l s1"
    by (rule accept_body_goes [OF assms]) blast
  then show ?thesis
    using same_but_ioD(1) ov_get_same by (simp add: accept_posted_fields)
qed

text \<open>Below 65526 users the loop ends, whatever the system answers.\<close>

lemma accept_loop_ends:
  assumes "unat (MAX_USER_COUNT s) + 10 < 2 ^ 16"
  shows "\<exists>r. accept_loop env b i s = Some r"
  using assms
proof (induction n \<equiv> "unat (MAX_USER_COUNT s) + 10 - unat i" arbitrary: i s)
  case 0
  then show ?case
    using accept_loop.simps [of env b i s] by simp
next
  case (Suc n)
  then have less: "unat i < unat (MAX_USER_COUNT s) + 10"
    by simp
  show ?case
  proof (cases "accept_body env b s")
    case (Inl e)
    then show ?thesis
      using less accept_loop.simps [of env b i s] by simp
  next
    case (Inr r)
    obtain go s1 where r: "r = (go, s1)"
      by force
    show ?thesis
    proof (cases go)
      case True
      with Inr r have m: "MAX_USER_COUNT s1 = MAX_USER_COUNT s"
        using accept_body_max by simp
      have "\<exists>r. accept_loop env b (i + 1) s1 = Some r"
        using Suc.hyps(1) [of s1 "i + 1"] Suc.hyps(2) Suc.prems m
          unat_Suc16 [OF less Suc.prems] by simp
      then show ?thesis
        using True less Inr r accept_loop.simps [of env b i s] by simp
    next
      case False
      then show ?thesis
        using less Inr r accept_loop.simps [of env b i s] by simp
    qed
  qed
qed

text \<open>One granted turn, and all of them.\<close>

definition grants :: "os \<Rightarrow> sock \<Rightarrow> server \<Rightarrow> bool" where
  "grants env l s \<longleftrightarrow> srv_owns [] s \<and> g_Listen_Socket s = Some l"

lemma grants_step:
  assumes env: "accept_granted env B" and len: "length (calls (ssys s)) + 3 \<le> B" and g: "grants env l s"
  shows "\<exists>s'. accept_body env b s = Ok (True, s') \<and> grants env l s'
           \<and> length (calls (ssys s')) = length (calls (ssys s)) + 3
           \<and> MAX_USER_COUNT s' = MAX_USER_COUNT s \<and> m_MemoryPool s' = m_MemoryPool s
           \<and> g_Debug_Option s' = g_Debug_Option s"
proof -
  have own: "srv_owns [] s" and l: "g_Listen_Socket s = Some l"
    using g by (simp_all add: grants_def)
  obtain x s1 k where get: "ov_get env s = Ok (x, s1)"
    and body: "accept_body env b s = Ok (True, accept_posted env x k l s1)"
    using accept_body_granted [OF env len own l] by blast
  have same: "ssys s1 = ssys s" and io: "same_but_io s s1"
    using ov_get_same [OF get] by simp_all
  have "goes_in_flight (os_ret env (Sys_WSASocket # calls (ssys s1)) (Sys_AcceptEx l k x))"
    using env len same by (simp add: accept_granted_def goes_in_flight_def)
  then have "srv_owns [] (accept_posted env x k l s1)"
    using srv_owns_get(1) [OF own get] by (rule accept_posted_owns [rotated])
  moreover have "g_Debug_Option (accept_posted env x k l s1) = g_Debug_Option s1"
    by (simp add: accept_posted_def Let_def srv_do_def srv_call_def srv_async_def sys_async_def
        ov_upd_def sock_upd_def split_def)
  ultimately show ?thesis
    using body accept_posted_fields [of env x k l s1] same same_but_ioD [OF io] l
    by (intro exI [of _ "accept_posted env x k l s1"]) (simp add: grants_def)
qed

lemma accept_loop_granted:
  assumes "accept_granted env B" and "grants env l s"
    and "length (calls (ssys s)) + 3 * (unat (MAX_USER_COUNT s) + 10 - unat i) \<le> B"
    and "unat (MAX_USER_COUNT s) + 10 < 2 ^ 16"
  shows "\<exists>s'. accept_loop env b i s = Some (Ok (True, s')) \<and> m_MemoryPool s' = m_MemoryPool s
           \<and> g_Debug_Option s' = g_Debug_Option s"
  using assms(2-)
proof (induction n \<equiv> "unat (MAX_USER_COUNT s) + 10 - unat i" arbitrary: i s)
  case 0
  then show ?case
    using accept_loop.simps [of env b i s] by simp
next
  case (Suc n)
  then have less: "unat i < unat (MAX_USER_COUNT s) + 10"
    by simp
  have "length (calls (ssys s)) + 3 \<le> B"
    using Suc.prems(2) less by simp
  from grants_step [OF assms(1) this Suc.prems(1), of b] obtain s1 where
    s1: "accept_body env b s = Ok (True, s1)" "grants env l s1"
      "length (calls (ssys s1)) = length (calls (ssys s)) + 3"
      "MAX_USER_COUNT s1 = MAX_USER_COUNT s" "m_MemoryPool s1 = m_MemoryPool s"
      "g_Debug_Option s1 = g_Debug_Option s"
    by blast
  have i: "unat (i + 1) = Suc (unat i)"
    using less Suc.prems(3) by (rule unat_Suc16)
  have "\<exists>s'. accept_loop env b (i + 1) s1 = Some (Ok (True, s')) \<and> m_MemoryPool s' = m_MemoryPool s1
      \<and> g_Debug_Option s' = g_Debug_Option s1"
    using Suc.hyps(2) Suc.prems(2,3) less s1 i by (intro Suc.hyps(1)) simp_all
  then show ?case
    using s1 less accept_loop.simps [of env b i s] by simp
qed

text \<open>From 65526 users on the bound is never reached: a system that refuses nothing is asked forever.\<close>

lemma accept_loop_never:
  assumes "accept_loop e b i s = Some r" and "\<And>B. accept_granted e B" and "grants e l s"
  shows "unat (MAX_USER_COUNT s) + 10 < 2 ^ 16"
  using assms
proof (induction rule: accept_loop.raw_induct [rotated, consumes 1, case_names turn])
  case (turn loop e b i s r)
  show ?case
  proof (rule ccontr)
    assume big: "\<not> unat (MAX_USER_COUNT s) + 10 < 2 ^ 16"
    have "unat i < 2 ^ 16"
      using unsigned_less [of i] by simp
    then have less: "unat i < unat (MAX_USER_COUNT s) + 10"
      using big by simp
    obtain s1 where "accept_body e b s = Ok (True, s1)" "grants e l s1"
      "MAX_USER_COUNT s1 = MAX_USER_COUNT s"
      using grants_step [OF turn.prems(1) order_refl turn.prems(2), of b] by blast
    then show False
      using turn.IH [of e b "i + 1" s1 r] turn.hyps turn.prems less big by simp
  qed
qed

text \<open>From 65526 users on the bound is never reached: a system that refuses nothing is asked forever.\<close>

lemma accept_loop_forever:
  assumes "\<And>B. accept_granted env B" and "grants env l s" and "2 ^ 16 \<le> unat (MAX_USER_COUNT s) + 10"
  shows "accept_loop env b i s = None"
  using accept_loop_never [of env b i s] assms by (cases "accept_loop env b i s") auto

section \<open>The whole of Accept\<close>

text \<open>A server as the constructor leaves it, whatever the debug option.\<close>

definition fresh_server :: "server \<Rightarrow> bool" where
  "fresh_server s \<longleftrightarrow> \<not> g_IOCP s \<and> g_Connected_Client s = [] \<and> g_Socket_Struct_Pool s = []
     \<and> Recv_Data_Queue s = [] \<and> Send_Data_Queue s = [] \<and> sheap s = empty_heap
     \<and> in_flight (ssys s) = []"

lemma fresh_server_init: "in_flight y = [] \<Longrightarrow> fresh_server (SetDebug d (DHServer_init env u y))"
  by (simp add: fresh_server_def SetDebug_def DHServer_init_def)

lemma sys_inv_cong:
  assumes "g_Socket_Struct_Pool s' = g_Socket_Struct_Pool s"
    and "g_Connected_Client s' = g_Connected_Client s" and "socket_mem s' = socket_mem s"
    and "MAX_USER_COUNT s' = MAX_USER_COUNT s" and "Available_Overlapped s' = Available_Overlapped s"
    and "in_flight (ssys s') = in_flight (ssys s)" and "sheap s' = sheap s"
    and "Recv_Data_Queue s' = Recv_Data_Queue s" and "Send_Data_Queue s' = Send_Data_Queue s"
  shows "sys_inv s' = sys_inv s"
proof -
  have "maps_ok s' = maps_ok s" "avail_ok s' = avail_ok s"
    by (rule maps_ok_cong avail_ok_cong, simp_all add: assms)+
  moreover have "srv_owns [] s' = srv_owns [] s"
    by (rule srv_owns_cong) (simp_all add: assms)
  moreover have at: "ov_at s' = ov_at s"
    by (rule ov_at_same_pool) (simp add: assms)
  ultimately show ?thesis
    using assms
    by (simp add: sys_inv_def srv_inv_def srv_queues_ok_def armed_def rearmed_def known_flights_def
        connected_def tokens_def flight_tokens_def)
qed

lemma accept_listen_TrueE:
  assumes "accept_listen env b s = Ok (True, s')"
  obtains l where "l \<noteq> INVALID_SOCKET"
    and "s' = srv_do env (Sys_Listen l 5) (srv_do env (Sys_Bind l (PORT s))
           (srv_do env (Sys_Associate l None) ((srv_do env Sys_WSASocket s)\<lparr>g_Listen_Socket := Some l\<rparr>)))"
  using assms
  by (auto simp: accept_listen_def Let_def split_def srv_do_def bindE_eq_Ok_iff srv_call_def sys_call_def
      split: if_splits)

text \<open>What the first part leaves, for a fresh server: an empty pool of sockets and full pools of memory.\<close>

definition opened :: "server \<Rightarrow> server \<Rightarrow> bool" where
  "opened s s' \<longleftrightarrow> s' = s\<lparr>g_IOCP := g_IOCP s', m_MemoryPool := m_MemoryPool s',
     Available_Overlapped := Available_Overlapped s', g_Listen_Socket := g_Listen_Socket s',
     g_Work_Thread := g_Work_Thread s', ssys := ssys s'\<rparr>"

lemma openedD:
  assumes "opened s s'"
  shows "g_Connected_Client s' = g_Connected_Client s" "g_Socket_Struct_Pool s' = g_Socket_Struct_Pool s"
    "Recv_Data_Queue s' = Recv_Data_Queue s" "Send_Data_Queue s' = Send_Data_Queue s"
    "sheap s' = sheap s" "MAX_USER_COUNT s' = MAX_USER_COUNT s" "g_Debug_Option s' = g_Debug_Option s"
    "socket_mem s' = socket_mem s"
  using assms unfolding opened_def by (cases s, cases s', simp)+

lemma opened_trans: "opened s s' \<Longrightarrow> opened s' s'' \<Longrightarrow> opened s s''"
  unfolding opened_def by (cases s, cases s', cases s'') simp

lemma CreateWorkThread_opened:
  "opened s (CreateWorkThread_loop env n s)
     \<and> Available_Overlapped (CreateWorkThread_loop env n s) = Available_Overlapped s
     \<and> m_MemoryPool (CreateWorkThread_loop env n s) = m_MemoryPool s
     \<and> g_Listen_Socket (CreateWorkThread_loop env n s) = g_Listen_Socket s
     \<and> in_flight (ssys (CreateWorkThread_loop env n s)) = in_flight (ssys s)
     \<and> length (calls (ssys (CreateWorkThread_loop env n s))) = length (calls (ssys s)) + n"
proof (induction n arbitrary: s)
  case 0
  then show ?case by (simp add: opened_def)
next
  case (Suc n)
  let ?s1 = "(srv_do env (Sys_ThreadStart ''WorkThread'') s)\<lparr>g_Work_Thread := Suc (g_Work_Thread s)\<rparr>"
  have "opened s ?s1 \<and> Available_Overlapped ?s1 = Available_Overlapped s \<and> m_MemoryPool ?s1 = m_MemoryPool s
      \<and> g_Listen_Socket ?s1 = g_Listen_Socket s \<and> in_flight (ssys ?s1) = in_flight (ssys s)
      \<and> length (calls (ssys ?s1)) = Suc (length (calls (ssys s)))"
    by (simp add: opened_def srv_do_def srv_call_def sys_call_def)
  moreover have "CreateWorkThread_loop env (Suc n) s = CreateWorkThread_loop env n ?s1"
    by (simp add: srv_do_def srv_call_def Let_def split_def)
  ultimately show ?case
    using Suc.IH [of ?s1] opened_trans [of s ?s1] by simp
qed

lemma accept_setup_fresh:
  assumes "\<not> g_IOCP s" and "accept_setup env s = Ok s'"
  obtains mp where "MemoryPool_new (\<lambda>x. raw_byte env 0 x) SERVER_MEMORYPOOL_COUNT = Ok mp"
    and "s' = (srv_do env Sys_CreatePort s)\<lparr>g_IOCP := ret_ok (os_ret env (calls (ssys s)) Sys_CreatePort),
           m_MemoryPool := mp,
           Available_Overlapped := ObjectPool_new (ov_class env) SERVER_OVERLAPPED_COUNT\<rparr>"
  using assms
  by (auto simp: accept_setup_def Let_def split_def bindE_eq_Ok_iff srv_do_def)

lemma new_pool_owns:
  assumes pool: "Available_Overlapped s = ObjectPool_new (ov_class env) n" and n: "10 \<le> n"
    and idle: "in_flight (ssys s) = []"
  shows "srv_owns [] s"
proof -
  have "ov_ok (obj_mem (Available_Overlapped s) x)"
    if "x \<in> set (ALL_Object_List (Available_Overlapped s))" for x
  proof -
    have "x < nat n"
      using that by (simp add: pool ObjectPool_new_def pool_add_n_fields)
    then have "obj_mem (Available_Overlapped s) x
        = Overlapped_Struct_ctor (Overlapped_Struct_raw env x)"
      by (simp add: pool ObjectPool_new_def pool_add_n_mem ov_class_def)
    then show ?thesis by (simp add: ov_ok_raw_ctor)
  qed
  then show ?thesis
    using assms op_owns_new [of "ov_class env" n]
    by (simp add: srv_owns_def ovs_ok_def ov_at_def)
      (simp add: ObjectPool_new_def pool_add_n_fields)
qed

lemma accept_open_fresh:
  assumes fresh: "fresh_server s" and run: "accept_open env w s = Ok (True, b, s')"
  shows "opened s s'" and "accepting env 0 s'"
proof -
  obtain s1 mp s2 where s1: "accept_setup env s = Ok s1"
    and mp: "GetMemory (int ERROR_MSG_BUFIZE) (m_MemoryPool s1) = Ok (b, mp)"
    and s2: "accept_listen env b (s1\<lparr>m_MemoryPool := mp\<rparr>) = Ok (True, s2)"
    and s': "s' = CreateWorkThread env w s2"
    using run by (auto simp: accept_open_def bindE_eq_Ok_iff)
  have "\<not> g_IOCP s"
    using fresh by (simp add: fresh_server_def)
  then obtain mp0 where s1_def: "s1 = (srv_do env Sys_CreatePort s)
      \<lparr>g_IOCP := ret_ok (os_ret env (calls (ssys s)) Sys_CreatePort), m_MemoryPool := mp0,
        Available_Overlapped := ObjectPool_new (ov_class env) SERVER_OVERLAPPED_COUNT\<rparr>"
    using accept_setup_fresh [OF _ s1] by metis
  have o1: "opened s (s1\<lparr>m_MemoryPool := mp\<rparr>)"
    and a1: "Available_Overlapped s1 = ObjectPool_new (ov_class env) SERVER_OVERLAPPED_COUNT"
    and i1: "in_flight (ssys s1) = []"
    using fresh by (simp_all add: s1_def opened_def srv_do_def srv_call_def fresh_server_def sys_call_def)
  let ?t = "s1\<lparr>m_MemoryPool := mp\<rparr>"
  obtain l where s2_def: "s2 = srv_do env (Sys_Listen l 5) (srv_do env (Sys_Bind l (PORT ?t))
      (srv_do env (Sys_Associate l None) ((srv_do env Sys_WSASocket ?t)\<lparr>g_Listen_Socket := Some l\<rparr>)))"
    using accept_listen_TrueE [OF s2] by metis
  have o2: "opened ?t s2" and a2: "Available_Overlapped s2 = Available_Overlapped s1"
    and i2: "in_flight (ssys s2) = in_flight (ssys s1)"
    by (simp_all add: s2_def opened_def srv_do_def srv_call_def sys_call_def)
  note o3 = CreateWorkThread_opened [of s2 env "unat w", folded CreateWorkThread_def, folded s']
  show o: "opened s s'"
    using o1 o2 o3 opened_trans by blast
  note f = openedD [OF o]
  have "srv_owns [] s'"
    using o3 a1 a2 i1 i2 by (intro new_pool_owns [where n = SERVER_OVERLAPPED_COUNT]) (simp_all add: SERVER_OVERLAPPED_COUNT_def)
  moreover have "maps_ok s'"
    using f fresh by (simp add: maps_ok_def hm_distinct_def fresh_server_def)
  moreover have "srv_queues_ok s'"
    using f fresh queues_ok_empty by (simp add: srv_queues_ok_def fresh_server_def)
  ultimately have "sys_inv s'"
    using f fresh o3 i1 i2
    by (intro sys_inv_idle) (simp_all add: known_flights_def flight_tokens_def fresh_server_def)
  then show "accepting env 0 s'"
    using f fresh by (simp add: accepting_def fresh_server_def)
qed

lemma accept_finish_inv:
  assumes "accept_finish env now b s = Ok s'"
  shows "sys_inv s' = sys_inv s" and "waiting s' = waiting s" and "connected s' = connected s"
    and "g_Socket_Struct_Pool s' = g_Socket_Struct_Pool s" and "MAX_USER_COUNT s' = MAX_USER_COUNT s"
    and "Recv_Data_Queue s' = Recv_Data_Queue s" and "Send_Data_Queue s' = Send_Data_Queue s"
proof -
  obtain s1 mp where s1: "s1 = (let s = (srv_do env (Sys_ThreadStart ''SendThread'') s)\<lparr>g_Send_Thread := Thread_Live\<rparr>
      in if g_Debug_Option s = DHDEBUG_SIMPLE
         then (srv_do env (Sys_ThreadStart ''TimeThread'') s)
                \<lparr>Start_Time := now, Prev_Time := now, g_Time_Check_Thread := Thread_Live\<rparr>
         else s)"
    and s': "s' = s1\<lparr>m_MemoryPool := mp\<rparr>"
    using assms by (auto simp: accept_finish_def Let_def reset_error_buffer_def bindE_eq_Ok_iff)
  have f: "g_Socket_Struct_Pool s' = g_Socket_Struct_Pool s" "g_Connected_Client s' = g_Connected_Client s"
    "socket_mem s' = socket_mem s" "MAX_USER_COUNT s' = MAX_USER_COUNT s"
    "Available_Overlapped s' = Available_Overlapped s" "in_flight (ssys s') = in_flight (ssys s)"
    "sheap s' = sheap s" "Recv_Data_Queue s' = Recv_Data_Queue s" "Send_Data_Queue s' = Send_Data_Queue s"
    by (simp_all add: s' s1 Let_def srv_do_def srv_call_def sys_call_def split_def)
  show "sys_inv s' = sys_inv s"
    by (rule sys_inv_cong [OF f])
  show "waiting s' = waiting s" "connected s' = connected s"
    using ov_at_same_pool [OF f(5)] f by (simp_all add: waiting_def connected_def fun_eq_iff)
  show "g_Socket_Struct_Pool s' = g_Socket_Struct_Pool s" "MAX_USER_COUNT s' = MAX_USER_COUNT s"
    "Recv_Data_Queue s' = Recv_Data_Queue s" "Send_Data_Queue s' = Send_Data_Queue s"
    using f by simp_all
qed

text \<open>A successful \<open>Accept\<close> on a fresh server.\<close>

lemma Accept_SuccessE:
  assumes "Accept env now port users w s = Some (Ok (LOGIC_SUCCESS, s'))"
  obtains b s1 s2 where
    "accept_open env w (s\<lparr>PORT := port, MAX_USER_COUNT := users\<rparr>) = Ok (True, b, s1)"
    and "accept_loop env b 0 s1 = Some (Ok (True, s2))" and "accept_finish env now b s2 = Ok s'"
proof -
  have ne: "LOGIC_SUCCESS \<noteq> LOGIC_FAIL"
    by (simp add: LOGIC_SUCCESS_def LOGIC_FAIL_def)
  obtain ok b s1 where open1: "accept_open env w (s\<lparr>PORT := port, MAX_USER_COUNT := users\<rparr>) = Ok (ok, b, s1)"
    using assms by (auto simp: Accept_def split: sum.splits)
  then have ok: "ok"
    using assms ne by (auto simp: Accept_def split: if_splits)
  obtain r where r: "accept_loop env b 0 s1 = Some r"
    using assms open1 ok by (auto simp: Accept_def split: option.splits)
  then obtain ok2 s2 where r2: "r = Ok (ok2, s2)"
    and rest: "(if \<not> ok2 then Ok (LOGIC_FAIL, s2)
      else bindE (accept_finish env now b s2) (\<lambda>s. Ok (LOGIC_SUCCESS, s))) = Ok (LOGIC_SUCCESS, s')"
    using assms open1 ok by (auto simp: Accept_def bindE_eq_Ok_iff)
  then have "ok2" "accept_finish env now b s2 = Ok s'"
    using ne by (auto simp: bindE_eq_Ok_iff split: if_splits)
  with open1 ok r r2 that show thesis by simp
qed

lemma Accept_establishes:
  assumes env: "os_fresh env" and fresh: "fresh_server s" and few: "unat users + 10 < 2 ^ 16"
    and run: "Accept env now port users w s = Some (Ok (LOGIC_SUCCESS, s'))"
  shows "sys_inv s'" and "connected s' = {}" and "MAX_USER_COUNT s' = users"
    and "length (g_Socket_Struct_Pool s') = unat users + 10"
    and "map_of (g_Socket_Struct_Pool s') k = Some p \<Longrightarrow> waiting s' k"
    and "Recv_Data_Queue s' = []" and "Send_Data_Queue s' = []"
proof -
  let ?s0 = "s\<lparr>PORT := port, MAX_USER_COUNT := users\<rparr>"
  obtain b s1 s2 where open1: "accept_open env w ?s0 = Ok (True, b, s1)"
    and loop: "accept_loop env b 0 s1 = Some (Ok (True, s2))" and fin: "accept_finish env now b s2 = Ok s'"
    by (rule Accept_SuccessE [OF run])
  have "fresh_server ?s0"
    using fresh by (simp add: fresh_server_def)
  note o = accept_open_fresh [OF this open1]
  have m1: "MAX_USER_COUNT s1 = users"
    using openedD(6) [OF o(1)] by simp
  have acc: "accepting env (unat users + 10) s2" and m2: "MAX_USER_COUNT s2 = users"
    using accepting_loop [OF env loop] o(2) m1 few by simp_all
  note f = accept_finish_inv [OF fin]
  show "sys_inv s'" "connected s' = {}" "MAX_USER_COUNT s' = users"
    "length (g_Socket_Struct_Pool s') = unat users + 10" "Recv_Data_Queue s' = []" "Send_Data_Queue s' = []"
    using acc f m2 by (simp_all add: accepting_def connected_def)
  show "map_of (g_Socket_Struct_Pool s') k = Some p \<Longrightarrow> waiting s' k"
    using acc f by (simp add: accepting_def)
qed

text \<open>On a system that refuses nothing the first part succeeds.\<close>

lemma GetMemory_fresh:
  assumes "MemoryPool_new raw SERVER_MEMORYPOOL_COUNT = Ok mp"
  shows "\<exists>a mp'. GetMemory (int ERROR_MSG_BUFIZE) mp = Ok (Some a, mp') \<and> mp_ready mp'"
proof -
  obtain mp0 where "MemoryPool_new raw SERVER_MEMORYPOOL_COUNT = Ok mp0" "mp_ready mp0"
    and c: "block_count mp0 = (\<lambda>k. if k \<in> {4, 8, 16, 32, 64} then Some SERVER_MEMORYPOOL_COUNT
         else if k \<in> {128, 256} then Some (SERVER_MEMORYPOOL_COUNT div 2)
         else if k = 512 then Some (SERVER_MEMORYPOOL_COUNT div 4) else None)"
    using MemoryPool_new_Ok [of SERVER_MEMORYPOOL_COUNT raw] by (auto simp: SERVER_MEMORYPOOL_COUNT_def)
  with assms have mp: "mp_ready mp" "block_count mp = block_count mp0" by simp_all
  then have bc: "block_count mp 128 = Some 1000"
    by (simp add: c SERVER_MEMORYPOOL_COUNT_def)
  have "128 \<in> hm_keys (m_Memory_Pool mp)"
    using mp(1) by (simp add: mp_ready_def pool_sizes_def)
  then obtain q where "map_of (m_Memory_Pool mp) 128 = Some q"
    unfolding hm_keys_iff by blast
  then obtain a mp' where "FindMemory 128 1000 mp = Ok (a, mp')"
    using FindMemory_Ok [of mp 128 q 1000] by auto
  then have get: "GetMemory (int ERROR_MSG_BUFIZE) mp = Ok (Some a, mp')"
    using bc by (simp add: GetMemory_def ERROR_MSG_BUFIZE_def)
  then show ?thesis
    using GetMemory_ready(1) [OF mp(1) get] by blast
qed

lemma accept_setup_granted:
  assumes "\<not> g_IOCP s" and "accept_granted env B" and "length (calls (ssys s)) < B"
  shows "\<exists>mp. MemoryPool_new (\<lambda>x. raw_byte env 0 x) SERVER_MEMORYPOOL_COUNT = Ok mp
    \<and> accept_setup env s = Ok ((srv_do env Sys_CreatePort s)\<lparr>g_IOCP := True, m_MemoryPool := mp,
         Available_Overlapped := ObjectPool_new (ov_class env) SERVER_OVERLAPPED_COUNT\<rparr>)"
proof -
  obtain mp where mp: "MemoryPool_new (\<lambda>x. raw_byte env 0 x) SERVER_MEMORYPOOL_COUNT = Ok mp"
    using MemoryPool_new_Ok [of SERVER_MEMORYPOOL_COUNT "\<lambda>x. raw_byte env 0 x"]
    by (auto simp: SERVER_MEMORYPOOL_COUNT_def)
  have "ret_ok (os_ret env (calls (ssys s)) Sys_CreatePort)"
    using assms(2,3) by (simp add: accept_granted_def)
  with mp assms(1) show ?thesis
    by (simp add: accept_setup_def Let_def split_def srv_do_def)
qed

lemma accept_listen_granted:
  assumes env: "accept_granted env B" and "length (calls (ssys s)) + 4 \<le> B"
  shows "\<exists>l. accept_listen env b s = Ok (True, srv_do env (Sys_Listen l 5) (srv_do env (Sys_Bind l (PORT s))
           (srv_do env (Sys_Associate l None) ((srv_do env Sys_WSASocket s)\<lparr>g_Listen_Socket := Some l\<rparr>))))"
proof -
  let ?l = "ret_sock (os_ret env (calls (ssys s)) Sys_WSASocket)"
  have "?l \<noteq> INVALID_SOCKET"
    "ret_ok (os_ret env (Sys_Associate ?l None # Sys_WSASocket # calls (ssys s)) (Sys_Bind ?l (PORT s)))"
    "ret_ok (os_ret env (Sys_Bind ?l (PORT s) # Sys_Associate ?l None # Sys_WSASocket # calls (ssys s))
       (Sys_Listen ?l 5))"
    using assms by (simp_all add: accept_granted_def)
  then show ?thesis
    by (intro exI [of _ ?l])
      (simp add: accept_listen_def Let_def split_def srv_do_def srv_call_def sys_call_def)
qed

lemma accept_openI:
  "accept_setup env s = Ok s1 \<Longrightarrow> GetMemory (int ERROR_MSG_BUFIZE) (m_MemoryPool s1) = Ok (b, mp) \<Longrightarrow>
   accept_listen env b (s1\<lparr>m_MemoryPool := mp\<rparr>) = Ok (True, s2) \<Longrightarrow>
   accept_open env w s = Ok (True, b, CreateWorkThread env w s2)"
  by (simp add: accept_open_def)

lemma accept_open_granted:
  assumes fresh: "fresh_server s" and env: "accept_granted env B" and len: "length (calls (ssys s)) + 5 \<le> B"
  shows "\<exists>b s' l. accept_open env w s = Ok (True, Some b, s') \<and> grants env l s'
           \<and> length (calls (ssys s')) = length (calls (ssys s)) + 5 + unat w
           \<and> mp_ready (m_MemoryPool s') \<and> MAX_USER_COUNT s' = MAX_USER_COUNT s"
proof -
  have n: "\<not> g_IOCP s"
    using fresh by (simp add: fresh_server_def)
  let ?S = "\<lambda>mp. (srv_do env Sys_CreatePort s)\<lparr>g_IOCP := True, m_MemoryPool := mp,
         Available_Overlapped := ObjectPool_new (ov_class env) SERVER_OVERLAPPED_COUNT\<rparr>"
  obtain mp0 where mp0: "MemoryPool_new (\<lambda>x. raw_byte env 0 x) SERVER_MEMORYPOOL_COUNT = Ok mp0"
    and su: "accept_setup env s = Ok (?S mp0)"
    using accept_setup_granted [OF n env] len by auto
  obtain b mp where get: "GetMemory (int ERROR_MSG_BUFIZE) mp0 = Ok (Some b, mp)" and ready: "mp_ready mp"
    using GetMemory_fresh [OF mp0] by blast
  have len1: "length (calls (ssys (?S mp))) = Suc (length (calls (ssys s)))"
    by (simp add: srv_do_def)
  then have "length (calls (ssys (?S mp))) + 4 \<le> B"
    using len by simp
  from accept_listen_granted [OF env this] obtain l s2 where
    listen: "accept_listen env (Some b) (?S mp) = Ok (True, s2)"
    and s2: "s2 = srv_do env (Sys_Listen l 5) (srv_do env (Sys_Bind l (PORT (?S mp)))
      (srv_do env (Sys_Associate l None) ((srv_do env Sys_WSASocket (?S mp))\<lparr>g_Listen_Socket := Some l\<rparr>)))"
    by blast
  let ?s' = "CreateWorkThread env w s2"
  have "(?S mp0)\<lparr>m_MemoryPool := mp\<rparr> = ?S mp"
    by (cases "srv_do env Sys_CreatePort s") simp
  then have "accept_listen env (Some b) ((?S mp0)\<lparr>m_MemoryPool := mp\<rparr>) = Ok (True, s2)"
    using listen by (simp only:)
  then have run: "accept_open env w s = Ok (True, Some b, ?s')"
    using get by (intro accept_openI [OF su]) simp_all
  note c = CreateWorkThread_opened [of s2 env "unat w", folded CreateWorkThread_def]
  have f2: "g_Listen_Socket s2 = Some l" "length (calls (ssys s2)) = length (calls (ssys s)) + 5"
    "m_MemoryPool s2 = mp" "MAX_USER_COUNT s2 = MAX_USER_COUNT s"
    by (simp_all add: s2 srv_do_def srv_call_def sys_call_def)
  have "srv_owns [] ?s'"
    using accept_open_fresh(2) [OF fresh run] by (simp add: accepting_def sys_inv_def srv_inv_def)
  then have "grants env l ?s'"
    using c f2 by (simp add: grants_def)
  then show ?thesis
    using run c f2 ready openedD(6) [OF conjunct1 [OF c]]
    by (intro exI [of _ b] exI [of _ ?s'] exI [of _ l]) simp
qed

lemma Accept_granted:
  assumes fresh: "fresh_server s" and env: "accept_granted env B"
    and len: "length (calls (ssys s)) + unat w + 3 * (unat users + 10) + 5 \<le> B"
    and few: "unat users + 10 < 2 ^ 16"
  shows "\<exists>s'. Accept env now port users w s = Some (Ok (LOGIC_SUCCESS, s'))"
proof -
  let ?s0 = "s\<lparr>PORT := port, MAX_USER_COUNT := users\<rparr>"
  have fresh0: "fresh_server ?s0"
    using fresh by (simp add: fresh_server_def)
  have "length (calls (ssys ?s0)) + 5 \<le> B"
    using len by simp
  from accept_open_granted [OF fresh0 env this, of w] obtain b s1 l where
    o: "accept_open env w ?s0 = Ok (True, Some b, s1)" "grants env l s1"
      "length (calls (ssys s1)) = length (calls (ssys s)) + 5 + unat w"
      "mp_ready (m_MemoryPool s1)" "MAX_USER_COUNT s1 = users"
    by auto
  obtain s2 where loop: "accept_loop env (Some b) 0 s1 = Some (Ok (True, s2))"
    and mp2: "m_MemoryPool s2 = m_MemoryPool s1"
    using accept_loop_granted [OF env o(2), of 0 "Some b"] o len few by auto
  have "128 \<in> set pool_sizes"
    by (simp add: pool_sizes_def)
  then have "\<exists>mp. ResetMemory (Some b) (int ERROR_MSG_BUFIZE) (m_MemoryPool s1) = Ok mp"
    using ResetMemory_Ok_iff [OF o(4), of b 128] by (simp add: is_Ok_iff ERROR_MSG_BUFIZE_def)
  then have "\<exists>s3. accept_finish env now (Some b) s2 = Ok s3"
    using mp2 by (auto simp: accept_finish_def Let_def reset_error_buffer_def srv_do_def srv_call_def split_def)
  then show ?thesis
    using o(1) loop by (auto simp: Accept_def)
qed

lemma Accept_ends:
  assumes "accept_open env w (s\<lparr>PORT := port, MAX_USER_COUNT := users\<rparr>) = Ok (ok, b, s1)"
    and "MAX_USER_COUNT s1 = users" and "unat users + 10 < 2 ^ 16"
  shows "Accept env now port users w s \<noteq> None"
  using accept_loop_ends [of s1 env b 0] assms by (auto simp: Accept_def)

lemma Accept_forever:
  assumes fresh: "fresh_server s" and env: "\<And>B. accept_granted env B" and "2 ^ 16 \<le> unat users + 10"
  shows "Accept env now port users w s = None"
proof -
  let ?s0 = "s\<lparr>PORT := port, MAX_USER_COUNT := users\<rparr>"
  have "fresh_server ?s0"
    using fresh by (simp add: fresh_server_def)
  from accept_open_granted [OF this env order_refl, of w] obtain b s1 l where
    "accept_open env w ?s0 = Ok (True, Some b, s1)" "grants env l s1" "MAX_USER_COUNT s1 = users"
    by auto
  then show ?thesis
    using accept_loop_forever [OF env, of l s1 "Some b" 0] assms(3) by (simp add: Accept_def)
qed

section \<open>The effect of End\<close>

lemma free_send_queue_Ok:
  assumes "queues_ok h rq sq"
  shows "\<exists>h'. free_send_queue sq h = Ok h' \<and> queues_ok h' rq []
           \<and> cells h' = (\<lambda>p. if p \<in> set sq then None else cells h p)"
  using assms
proof (induction sq arbitrary: h)
  case Nil
  then show ?case by simp
next
  case (Cons q sq)
  obtain p where ok: "queues_ok h rq sq" and q: "q \<notin> set (heap_refs h rq sq)"
    and c: "cells h q = Some (Packet_Block (encode_packet p))"
    by (rule queues_pop_send [OF Cons.prems])
  obtain h1 where h1: "heap_free q h = Ok h1" "queues_ok h1 rq sq" "cells h1 = (cells h)(q := None)"
    using queues_release [OF ok q c] by blast
  obtain h2 where "free_send_queue sq h1 = Ok h2" "queues_ok h2 rq []"
    "cells h2 = (\<lambda>p. if p \<in> set sq then None else cells h1 p)"
    using Cons.IH [OF h1(2)] by blast
  with h1 show ?case by auto
qed

lemma free_recv_queue_Ok:
  assumes "queues_ok h rq sq"
  shows "\<exists>h'. free_recv_queue rq h = Ok h' \<and> queues_ok h' [] sq
           \<and> cells h' = (\<lambda>p. if p \<in> set (heap_refs h rq []) then None else cells h p)"
  using assms
proof (induction rq arbitrary: h)
  case Nil
  then show ?case by (simp add: heap_refs_def)
next
  case (Cons m rq)
  obtain sk q p where m: "heap_msg m h = Ok (sk, q)" and qp: "heap_packet q h = Ok (encode_packet p)"
    and ok: "queues_ok h rq sq" and new: "m \<notin> set (heap_refs h rq sq)" "q \<notin> set (heap_refs h rq sq)"
    and ne: "m \<noteq> q"
    by (rule queues_pop_recv [OF Cons.prems])
  obtain h1 where h1: "heap_free q h = Ok h1" "queues_ok h1 rq sq" "cells h1 = (cells h)(q := None)"
    using queues_release [OF ok new(2) heap_packet_OkD [OF qp]] by blast
  have refs1: "heap_refs h1 rq sq' = heap_refs h rq sq'" for sq'
  proof -
    have "msg_packet h1 x = msg_packet h x" if "x \<in> set rq" for x
      using that new(2) h1(3) by (auto simp: msg_packet_def heap_refs_def)
    then show ?thesis by (simp add: heap_refs_def cong: map_cong)
  qed
  have m1: "cells h1 m = Some (Net_Msg sk q)"
    using heap_msg_OkD [OF m] h1(3) ne by simp
  obtain h2 where h2: "heap_free m h1 = Ok h2" "queues_ok h2 rq sq" "cells h2 = (cells h1)(m := None)"
    using queues_release [OF h1(2) _ m1] new(1) refs1 by auto
  have refs2: "heap_refs h2 rq [] = heap_refs h rq []"
  proof -
    have "msg_packet h2 x = msg_packet h1 x" if "x \<in> set rq" for x
      using that new(1) h2(3) by (auto simp: msg_packet_def heap_refs_def)
    then have "heap_refs h2 rq [] = heap_refs h1 rq []"
      by (simp add: heap_refs_def cong: map_cong)
    with refs1 show ?thesis by simp
  qed
  obtain h3 where h3: "free_recv_queue rq h2 = Ok h3" "queues_ok h3 [] sq"
    "cells h3 = (\<lambda>p. if p \<in> set (heap_refs h2 rq []) then None else cells h2 p)"
    using Cons.IH [OF h2(2)] by blast
  have "heap_refs h (m # rq) [] = m # q # heap_refs h rq []"
    using heap_msg_OkD [OF m] by (simp add: heap_refs_def msg_packet_def)
  then have "cells h3 = (\<lambda>p. if p \<in> set (heap_refs h (m # rq) []) then None else cells h p)"
    using h3(3) h2(3) h1(3) refs2 by (auto simp: fun_eq_iff)
  with m h1(1) h2(1) h3(1,2) show ?case by simp
qed

lemma close_sockets_Ok:
  assumes "maps_ok s" and "\<And>e. e \<in> set es \<Longrightarrow> map_of (g_Socket_Struct_Pool s) (fst e) = Some (snd e)"
  shows "\<exists>s'. close_sockets env es s = Ok s' \<and> same_but_io s s'
           \<and> Available_Overlapped s' = Available_Overlapped s
           \<and> set (calls (ssys s)) \<subseteq> set (calls (ssys s'))
           \<and> (\<forall>e \<in> set es. Sys_CloseSocket (fst e) \<in> set (calls (ssys s')))"
  using assms
proof (induction es arbitrary: s)
  case Nil
  then show ?case by auto
next
  case (Cons e es)
  have p: "map_of (g_Socket_Struct_Pool s) (fst e) = Some (snd e)"
    using Cons.prems(2) by simp
  obtain ss where ss: "socket_mem s (snd e) = Some ss" "ss_Socket ss = fst e"
    using maps_ok_poolE [OF Cons.prems(1) p] by metis
  let ?s1 = "srv_do env (Sys_CloseSocket (fst e)) (srv_do env (Sys_Shutdown (fst e)) s)"
  have same: "same_but_io s ?s1"
    by (meson same_but_io_prims(3) same_but_io_trans)
  have "maps_ok ?s1" "g_Socket_Struct_Pool ?s1 = g_Socket_Struct_Pool s"
    using maps_ok_same_io [OF same] Cons.prems(1) same_but_ioD [OF same] by simp_all
  then obtain s' where "close_sockets env es ?s1 = Ok s'" "same_but_io ?s1 s'"
    "Available_Overlapped s' = Available_Overlapped ?s1"
    "set (calls (ssys ?s1)) \<subseteq> set (calls (ssys s'))"
    "\<forall>e \<in> set es. Sys_CloseSocket (fst e) \<in> set (calls (ssys s'))"
    using Cons.IH [of ?s1] Cons.prems(2) by auto
  moreover have "calls (ssys ?s1) = Sys_CloseSocket (fst e) # Sys_Shutdown (fst e) # calls (ssys s)"
    by (simp add: srv_do_def)
  ultimately show ?case
    using p ss same same_but_io_trans [OF same] by (auto simp: sock_at_def Let_def)
qed

text \<open>Stopping the threads changes only the flag, the thread pointers and the calls made.\<close>

definition stopped :: "server \<Rightarrow> server \<Rightarrow> bool" where
  "stopped s s' \<longleftrightarrow> s' = s\<lparr>g_Is_Exit := g_Is_Exit s', g_Send_Thread := g_Send_Thread s',
     g_Time_Check_Thread := g_Time_Check_Thread s', g_Work_Thread := g_Work_Thread s', ssys := ssys s'\<rparr>"

lemma join_workers_same: "same_but_io s (join_workers env n s)"
  by (induction n arbitrary: s) (auto intro: same_but_io_trans)

lemma join_workers_pool [simp]: "Available_Overlapped (join_workers env n s) = Available_Overlapped s"
  by (induction n arbitrary: s) simp_all

lemma End_stops:
  assumes "g_IOCP s" and "g_Send_Thread s = Thread_Live"
    and "g_Debug_Option s = DHDEBUG_SIMPLE \<Longrightarrow> g_Time_Check_Thread s = Thread_Live"
  obtains t where "stopped s t" and "g_Is_Exit t" and "g_Send_Thread t = Thread_Deleted"
    and "End env s =
      bindE (free_recv_queue (Recv_Data_Queue t) (sheap t)) (\<lambda>h.
      bindE (free_send_queue (map snd (Send_Data_Queue t)) h) (\<lambda>h.
      let s = t\<lparr>Recv_Data_Queue := [], Send_Data_Queue := [], sheap := h\<rparr>;
          s = (srv_do env Sys_CloseHandle s)\<lparr>g_IOCP := False\<rparr>
      in bindE (close_sockets env (g_Socket_Struct_Pool s) s) (\<lambda>s.
         let s = s\<lparr>Available_Overlapped := snd (ObjectPool_delete (Available_Overlapped s)),
                   m_MemoryPool := MemoryPool_delete (m_MemoryPool s)\<rparr>
         in Ok (LOGIC_SUCCESS, srv_do env Sys_WSACleanup s))))"
proof -
  let ?s1 = "(srv_do env (Sys_ThreadJoin ''SendThread'') (srv_do env Sys_PostQuit (s\<lparr>g_Is_Exit := True\<rparr>)))
               \<lparr>g_Send_Thread := Thread_Deleted\<rparr>"
  define s2 where "s2 = (if g_Debug_Option s = DHDEBUG_SIMPLE
    then (srv_do env (Sys_ThreadJoin ''TimeThread'') ?s1)\<lparr>g_Time_Check_Thread := Thread_Deleted\<rparr> else ?s1)"
  let ?t = "(join_workers env (g_Work_Thread s2) s2)\<lparr>g_Work_Thread := 0\<rparr>"
  have same2: "stopped s s2 \<and> g_Is_Exit s2 \<and> g_Send_Thread s2 = Thread_Deleted"
    by (simp add: s2_def stopped_def srv_do_def srv_call_def sys_call_def)
  have jw: "join_workers env (g_Work_Thread s2) s2 = s2\<lparr>ssys := ssys (join_workers env (g_Work_Thread s2) s2)\<rparr>"
    using join_workers_same [of s2 env "g_Work_Thread s2"] join_workers_pool [of env "g_Work_Thread s2" s2]
    unfolding same_but_io_def by (cases s2) simp
  obtain y where "join_workers env (g_Work_Thread s2) s2 = s2\<lparr>ssys := y\<rparr>"
    using jw by blast
  then have t: "stopped s ?t" "g_Is_Exit ?t" "g_Send_Thread ?t = Thread_Deleted"
    using same2 unfolding stopped_def by (cases s, cases s2, simp)+
  have "(if g_Debug_Option ?s1 = DHDEBUG_SIMPLE
         then bindE (join_thread env ''TimeThread'' (g_Time_Check_Thread ?s1) ?s1)
                (\<lambda>s. Ok (s\<lparr>g_Time_Check_Thread := Thread_Deleted\<rparr>))
         else Ok ?s1) = Ok s2"
    using assms(3) by (simp add: s2_def join_thread_def srv_do_def srv_call_def sys_call_def)
  moreover have "join_thread env ''SendThread'' (g_Send_Thread (srv_do env Sys_PostQuit (s\<lparr>g_Is_Exit := True\<rparr>)))
      (srv_do env Sys_PostQuit (s\<lparr>g_Is_Exit := True\<rparr>)) =
      Ok (srv_do env (Sys_ThreadJoin ''SendThread'') (srv_do env Sys_PostQuit (s\<lparr>g_Is_Exit := True\<rparr>)))"
    using assms(2) by (simp add: join_thread_def srv_do_def srv_call_def sys_call_def)
  ultimately have "End env s =
      bindE (free_recv_queue (Recv_Data_Queue ?t) (sheap ?t)) (\<lambda>h.
      bindE (free_send_queue (map snd (Send_Data_Queue ?t)) h) (\<lambda>h.
      let s = ?t\<lparr>Recv_Data_Queue := [], Send_Data_Queue := [], sheap := h\<rparr>;
          s = (srv_do env Sys_CloseHandle s)\<lparr>g_IOCP := False\<rparr>
      in bindE (close_sockets env (g_Socket_Struct_Pool s) s) (\<lambda>s.
         let s = s\<lparr>Available_Overlapped := snd (ObjectPool_delete (Available_Overlapped s)),
                   m_MemoryPool := MemoryPool_delete (m_MemoryPool s)\<rparr>
         in Ok (LOGIC_SUCCESS, srv_do env Sys_WSACleanup s))))"
    using assms(1) unfolding End_def Let_def by (simp only: simp_thms if_False bindE_Ok)
  with t that show thesis by blast
qed

lemma End_effect:
  assumes maps: "maps_ok s" and qs: "srv_queues_ok s"
    and live: "g_IOCP s" "g_Send_Thread s = Thread_Live"
      "g_Debug_Option s = DHDEBUG_SIMPLE \<Longrightarrow> g_Time_Check_Thread s = Thread_Live"
  shows "\<exists>s'. End env s = Ok (LOGIC_SUCCESS, s') \<and> g_Is_Exit s' \<and> \<not> g_IOCP s'
    \<and> Recv_Data_Queue s' = [] \<and> Send_Data_Queue s' = []
    \<and> cells (sheap s') = (\<lambda>p. if p \<in> set (heap_refs (sheap s) (Recv_Data_Queue s)
                                            (map snd (Send_Data_Queue s)))
                               then None else cells (sheap s) p)
    \<and> (\<forall>e \<in> set (g_Socket_Struct_Pool s). Sys_CloseSocket (fst e) \<in> set (calls (ssys s')))
    \<and> g_Socket_Struct_Pool s' = g_Socket_Struct_Pool s"
proof -
  obtain t where st: "stopped s t" "g_Is_Exit t" and run: "End env s =
      bindE (free_recv_queue (Recv_Data_Queue t) (sheap t)) (\<lambda>h.
      bindE (free_send_queue (map snd (Send_Data_Queue t)) h) (\<lambda>h.
      let s = t\<lparr>Recv_Data_Queue := [], Send_Data_Queue := [], sheap := h\<rparr>;
          s = (srv_do env Sys_CloseHandle s)\<lparr>g_IOCP := False\<rparr>
      in bindE (close_sockets env (g_Socket_Struct_Pool s) s) (\<lambda>s.
         let s = s\<lparr>Available_Overlapped := snd (ObjectPool_delete (Available_Overlapped s)),
                   m_MemoryPool := MemoryPool_delete (m_MemoryPool s)\<rparr>
         in Ok (LOGIC_SUCCESS, srv_do env Sys_WSACleanup s))))"
    using End_stops [OF live, of env] by blast
  have f: "Recv_Data_Queue t = Recv_Data_Queue s" "Send_Data_Queue t = Send_Data_Queue s"
    "sheap t = sheap s" "g_Socket_Struct_Pool t = g_Socket_Struct_Pool s"
    "g_Connected_Client t = g_Connected_Client s" "socket_mem t = socket_mem s"
    "MAX_USER_COUNT t = MAX_USER_COUNT s"
    using st(1) unfolding stopped_def by (cases s, cases t, simp)+
  have ok: "queues_ok (sheap s) (Recv_Data_Queue s) (map snd (Send_Data_Queue s))"
    using qs by (simp add: srv_queues_ok_def)
  obtain h1 where h1: "free_recv_queue (Recv_Data_Queue s) (sheap s) = Ok h1"
    "queues_ok h1 [] (map snd (Send_Data_Queue s))"
    "cells h1 = (\<lambda>p. if p \<in> set (heap_refs (sheap s) (Recv_Data_Queue s) []) then None else cells (sheap s) p)"
    using free_recv_queue_Ok [OF ok] by blast
  obtain h2 where h2: "free_send_queue (map snd (Send_Data_Queue s)) h1 = Ok h2"
    "cells h2 = (\<lambda>p. if p \<in> set (map snd (Send_Data_Queue s)) then None else cells h1 p)"
    using free_send_queue_Ok [OF h1(2)] by blast
  let ?u = "(srv_do env Sys_CloseHandle (t\<lparr>Recv_Data_Queue := [], Send_Data_Queue := [], sheap := h2\<rparr>))
              \<lparr>g_IOCP := False\<rparr>"
  have fu: "g_Socket_Struct_Pool ?u = g_Socket_Struct_Pool s" "sheap ?u = h2" "g_Is_Exit ?u"
    "\<not> g_IOCP ?u" "Recv_Data_Queue ?u = []" "Send_Data_Queue ?u = []"
    using f st(2) by (simp_all add: srv_do_def srv_call_def sys_call_def)
  have "maps_ok ?u = maps_ok s"
    using f by (intro maps_ok_cong) (simp_all add: srv_do_def srv_call_def sys_call_def)
  then have mu: "maps_ok ?u"
    using maps by simp
  have mem: "map_of (g_Socket_Struct_Pool ?u) (fst e) = Some (snd e)"
    if "e \<in> set (g_Socket_Struct_Pool s)" for e
  proof -
    have "distinct (map fst (g_Socket_Struct_Pool s))"
      using maps by (simp add: maps_ok_def hm_distinct_def)
    then show ?thesis
      unfolding fu(1) using that by (cases e) simp
  qed
  obtain v where v: "close_sockets env (g_Socket_Struct_Pool s) ?u = Ok v" "same_but_io ?u v"
    "\<forall>e \<in> set (g_Socket_Struct_Pool s). Sys_CloseSocket (fst e) \<in> set (calls (ssys v))"
    using close_sockets_Ok [OF mu mem] by blast
  let ?w = "v\<lparr>Available_Overlapped := snd (ObjectPool_delete (Available_Overlapped v)),
              m_MemoryPool := MemoryPool_delete (m_MemoryPool v)\<rparr>"
  have "End env s = Ok (LOGIC_SUCCESS, srv_do env Sys_WSACleanup ?w)"
    using run h1(1) h2(1) v(1) f fu(1) by (simp add: Let_def)
  moreover have "cells h2 = (\<lambda>p. if p \<in> set (heap_refs (sheap s) (Recv_Data_Queue s)
      (map snd (Send_Data_Queue s))) then None else cells (sheap s) p)"
    using h1(3) h2(2) by (auto simp: heap_refs_def fun_eq_iff)
  ultimately show ?thesis
    using fu v(3) same_but_ioD [OF v(2)] by (intro exI [of _ "srv_do env Sys_WSACleanup ?w"])
      (simp add: srv_do_def srv_call_def sys_call_def)
qed

lemma End_twice: "\<not> g_IOCP s \<Longrightarrow> End env s = Ok (LOGIC_FAIL, s)"
  by (simp add: End_def)

text \<open>After an \<open>Accept\<close> that failed while opening the listening socket there is no send thread to join.\<close>

lemma accept_listen_False:
  assumes "accept_listen env b s = Ok (False, s')"
  shows "g_Send_Thread s' = g_Send_Thread s" and "g_IOCP s' = g_IOCP s"
  using assms
  by (auto simp: accept_listen_def Let_def split_def srv_do_def srv_call_def sys_call_def
      bindE_eq_Ok_iff reset_error_buffer_def split: if_splits)

lemma End_without_send_thread:
  assumes "g_IOCP s" and "g_Send_Thread s = Thread_Null"
  shows "End env s = Fault Null_Deref" and "DHServer_dtor env s = Fault Null_Deref"
proof -
  show "End env s = Fault Null_Deref"
    using assms by (simp add: End_def Let_def srv_do_def srv_call_def sys_call_def join_thread_def)
  then show "DHServer_dtor env s = Fault Null_Deref"
    by (simp add: DHServer_dtor_def)
qed

end
