(* ===== verification/DH_ServerSystem.thy ===== *)
theory DH_ServerSystem
  imports DH_ServerLife
begin

text \<open>
  The server as a state machine: its threads and its application act on the state one handler at a
  time, in any order. A step is a completion handled by a worker, a packet taken off the queue by the
  send thread, a turn of the clock thread, or a call of \<open>Send\<close>, \<open>Recv\<close> or \<open>Disconnect\<close> by the
  application. The invariant \<open>sys_inv\<close>, which a successful \<open>Accept\<close> establishes, holds in every
  reachable state.
\<close>

section \<open>What sending puts in flight\<close>

definition sent_flights :: "sock set \<Rightarrow> server \<Rightarrow> server \<Rightarrow> bool" where
  "sent_flights K s s' \<longleftrightarrow> flight_kept s s'
     \<and> (\<exists>new. in_flight (ssys s') = new @ in_flight (ssys s)
          \<and> (\<forall>y \<in> set new. m_IOType (ov_at s' y) = IOType_Send \<and> m_Socket (ov_at s' y) \<in> K))"

lemma sent_flights_same:
  "in_flight (ssys s') = in_flight (ssys s) \<Longrightarrow> flight_kept s s' \<Longrightarrow> sent_flights K s s'"
  by (simp add: sent_flights_def)

lemma sent_flights_trans:
  assumes "sent_flights K s s'" and "sent_flights K s' s''"
  shows "sent_flights K s s''"
proof -
  obtain n1 n2 where n: "in_flight (ssys s') = n1 @ in_flight (ssys s)"
    "in_flight (ssys s'') = n2 @ in_flight (ssys s')"
    "\<forall>y \<in> set n1. m_IOType (ov_at s' y) = IOType_Send \<and> m_Socket (ov_at s' y) \<in> K"
    "\<forall>y \<in> set n2. m_IOType (ov_at s'' y) = IOType_Send \<and> m_Socket (ov_at s'' y) \<in> K"
    using assms by (auto simp: sent_flights_def)
  have "ov_at s'' y = ov_at s' y" if "y \<in> set n1" for y
    using assms(2) that n(1) by (auto simp: sent_flights_def flight_kept_def)
  moreover have "flight_kept s s''"
    using assms flight_kept_trans by (auto simp: sent_flights_def)
  ultimately show ?thesis
    using n unfolding sent_flights_def by (intro conjI exI [of _ "n2 @ n1"]) auto
qed

lemma send_fragment_flights:
  assumes inv: "srv_inv held s" and run: "send_fragment env k blk tot off s = Ok (b, tot', s')"
    and k: "k \<in> K"
  shows "sent_flights K s s'"
proof -
  obtain x s1 buf r s2 where get: "ov_get env s = Ok (x, s1)"
    and call: "srv_async env (Sys_WSASend k x (take (unat (frag_size tot)) buf)) x
        (ov_upd x (frag_upd k (frag_size tot) buf) s1) = (r, s2)"
    and b: "b \<longleftrightarrow> goes_in_flight r" and s': "s' = (if b then s2 else ov_reset env x s2)"
    by (rule send_fragmentE [OF run])
  let ?s1 = "ov_upd x (frag_upd k (frag_size tot) buf) s1"
  have "in_flight (ssys s2) = (if b then [x] else []) @ in_flight (ssys s)"
    using srv_async_in_flight [of env "Sys_WSASend k x (take (unat (frag_size tot)) buf)" x ?s1] call
      ov_get_same [OF get] b by simp
  then have fl: "in_flight (ssys s') = (if b then [x] else []) @ in_flight (ssys s)"
    by (simp add: s')
  have "ov_at s2 = ov_at ?s1"
    using ov_at_simps(2) [of env "Sys_WSASend k x (take (unat (frag_size tot)) buf)" x ?s1] call by simp
  then have "m_IOType (ov_at s2 x) = IOType_Send \<and> m_Socket (ov_at s2 x) = k"
    by (simp add: frag_upd_def)
  then have "\<forall>y \<in> set (if b then [x] else []). m_IOType (ov_at s' y) = IOType_Send \<and> m_Socket (ov_at s' y) \<in> K"
    using k by (simp add: s')
  then show ?thesis
    using fl send_fragment_effect(3) [OF inv run] unfolding sent_flights_def by blast
qed

lemma send_fragments_flights:
  assumes "srv_inv held s" and "k \<in> K" and "send_fragments env k blk tot off s = Ok s'"
  shows "sent_flights K s s'"
  using assms
proof (induction "unat tot" arbitrary: tot off s rule: less_induct)
  case less
  show ?case
  proof (cases "tot \<le> 0")
    case True
    then have "s' = s"
      using less.prems(3) by (simp add: send_fragments.simps)
    then show ?thesis by (simp add: sent_flights_same)
  next
    case False
    then obtain b rem s1 where frag: "send_fragment env k blk tot off s = Ok (b, rem, s1)"
      and rest: "(if b then send_fragments env k blk rem (Suc off) s1 else Ok s1) = Ok s'"
      using less.prems(3) send_fragments.simps [of env k blk tot off s]
      by (auto split: sum.splits prod.splits)
    note f1 = send_fragment_flights [OF less.prems(1) frag less.prems(2)]
    have "0 < tot"
      using False by (simp add: word_gt_0)
    note smaller = send_fragment_less [OF frag this]
    show ?thesis
    proof (cases b)
      case True
      then have "sent_flights K s1 s'"
        using less.hyps [OF smaller send_fragment_effect(1) [OF less.prems(1) frag] less.prems(2)] rest
        by simp
      with f1 show ?thesis by (rule sent_flights_trans)
    next
      case False
      with rest f1 show ?thesis by simp
    qed
  qed
qed

lemma send_packet_flights:
  assumes inv: "srv_inv held s" and queue: "Send_Data_Queue s = (k, q) # es"
    and run: "send_packet env (k, q) (s\<lparr>Send_Data_Queue := es\<rparr>) = Ok s'"
  shows "sent_flights (connected s) s s'"
proof -
  let ?t = "s\<lparr>Send_Data_Queue := es\<rparr>"
  have inv_t: "srv_inv held ?t"
  proof -
    have "queues_ok (sheap s) (Recv_Data_Queue s) (q # map snd es)"
      using inv queue by (simp add: srv_inv_def srv_queues_ok_def)
    from queues_pop_send [OF this] have "srv_queues_ok ?t"
      unfolding srv_queues_ok_def by simp blast
    then show ?thesis
      by (intro srv_inv_send [OF same_but_send_upd(2) inv]) (use inv in \<open>simp_all add: srv_inv_def\<close>)
  qed
  show ?thesis
  proof (cases "map_of (g_Connected_Client s) k")
    case None
    then obtain h where "s' = ?t\<lparr>sheap := h\<rparr>"
      using run by (auto simp: send_packet_def bindE_eq_Ok_iff)
    then show ?thesis
      by (intro sent_flights_same) (simp_all add: flight_kept_def)
  next
    case (Some y)
    then have k: "k \<in> connected s"
      by (simp add: connected_def)
    from Some run obtain blk sz u h where u: "send_fragments env k blk (packet_total sz) 0 ?t = Ok u"
      and s': "s' = u\<lparr>sheap := h\<rparr>"
      by (auto simp: send_packet_def bindE_eq_Ok_iff)
    have "sent_flights (connected s) ?t u"
      by (rule send_fragments_flights [OF inv_t k u])
    then show ?thesis
      by (simp add: s' sent_flights_def flight_kept_def)
  qed
qed

lemma sys_inv_sent:
  assumes inv: "sys_inv s" and s': "srv_inv [] s'" and same: "same_but_send s s'"
    and sent: "sent_flights (connected s) s s'"
  shows "sys_inv s'"
proof -
  note f = same_but_sendD [OF same]
  have kept: "flight_kept s s'"
    using sent by (simp add: sent_flights_def)
  obtain new where new: "in_flight (ssys s') = new @ in_flight (ssys s)"
    "\<forall>y \<in> set new. m_IOType (ov_at s' y) = IOType_Send \<and> m_Socket (ov_at s' y) \<in> connected s"
    using sent by (auto simp: sent_flights_def)
  have "armed s'"
    using inv rearmed_kept [OF kept] f(9) by (auto simp: sys_inv_def armed_def)
  moreover have "known_flights s'"
    unfolding known_flights_def
  proof
    fix y
    assume y: "y \<in> set (in_flight (ssys s'))"
    show "map_of (g_Socket_Struct_Pool s') (m_Socket (ov_at s' y)) \<noteq> None"
    proof (cases "y \<in> set (in_flight (ssys s))")
      case True
      then show ?thesis
        using inv kept f(4) by (simp add: sys_inv_def known_flights_def flight_kept_def)
    next
      case False
      then obtain p where p: "map_of (g_Connected_Client s) (m_Socket (ov_at s' y)) = Some p"
        using new y by (auto simp: connected_def)
      have "maps_ok s"
        using inv by (simp add: sys_inv_def srv_inv_def)
      from maps_ok_connE [OF this p] show ?thesis
        using f(4) by auto
    qed
  qed
  moreover have "tokens s' k \<le> 1" for k
  proof -
    have "filter (\<lambda>x. is_token k (ov_at s' x)) new = []"
      using new(2) by (auto simp: filter_empty_conv is_token_def)
    then have "tokens s' k = tokens s k"
      using tokens_flights [OF new(1) kept, of k] f(9) by (simp add: tokens_def)
    then show ?thesis
      using inv by (simp add: sys_inv_def)
  qed
  ultimately show ?thesis
    using s' by (simp add: sys_inv_def)
qed

section \<open>The application's calls\<close>

lemma drop_client_tokens:
  assumes "maps_ok s" and "avail_but {k} s" and "srv_owns held s" and "drop_client env k s = Ok s'"
  shows "tokens s' j \<le> tokens s j" and "new_flights k s s'"
proof -
  note eff = drop_client_effect [OF assms]
  have reuse: "Reuse_Socket env k (deleted k s) = Ok s'"
    using assms(4) Delete_connected [OF assms(1) eff(1)] by (simp add: drop_client_def)
  have own: "srv_owns held (deleted k s)"
    using assms(3) by simp
  have "tokens s' j \<le> tokens (deleted k s) j + (if j = k then 1 else 0)"
    by (rule Reuse_tokens [OF own reuse])
  also have "\<dots> = tokens s j"
    using deleted_connected [OF assms(1)] eff(1) by (auto simp: tokens_def flight_tokens_def)
  finally show "tokens s' j \<le> tokens s j" .
  show "new_flights k s s'"
    using Reuse_new [OF own reuse] by (simp add: new_flights_def)
qed

text \<open>
  \<open>Disconnect\<close> of a connected client takes it off and starts the \<open>DisconnectEx\<close>; of any other socket
  it faults (asserts, waits forever, or dereferences a null pointer).
\<close>

lemma Disconnect_inv:
  assumes inv: "sys_inv s" and run: "Disconnect env k s = Ok (r, s')"
  shows "sys_inv s'" and "connected s' = connected s - {k}" and "k \<in> connected s"
    and "r = LOGIC_SUCCESS" and "srv_msgs s' = srv_msgs s"
proof -
  have drop: "drop_client env k s = Ok s'" and r: "r = LOGIC_SUCCESS"
    using run by (auto simp: Disconnect_drop bindE_eq_Ok_iff)
  show "r = LOGIC_SUCCESS" by (rule r)
  have pre: "maps_ok s" "avail_but {k} s" "srv_owns [] s" "srv_queues_ok s"
    using inv avail_but_mono [of "{}" s "{k}"] by (simp_all add: sys_inv_def srv_inv_def)
  note eff = drop_client_effect [OF pre(1-3) drop]
  note tok = drop_client_tokens [OF pre(1-3) drop]
  have kept: "flight_kept s s'"
    by (rule drop_client_flight [OF pre(1,3) drop])
  show conn: "connected s' = connected s - {k}" "k \<in> connected s"
    using eff by simp_all
  show "srv_msgs s' = srv_msgs s"
    using srv_queues_sock [OF eff(6)] by simp
  have "srv_inv [] s'"
    using eff pre(4) srv_queues_sock [OF eff(6)] by (simp add: srv_inv_def)
  moreover have "armed s'"
    using inv rearmed_kept [OF kept] conn by (auto simp: sys_inv_def armed_def)
  moreover have "map_of (g_Socket_Struct_Pool s') (m_Socket (ov_at s' y)) \<noteq> None"
    if y: "y \<in> set (in_flight (ssys s'))" for y
  proof (cases "y \<in> set (in_flight (ssys s))")
    case True
    then show ?thesis
      using inv kept same_but_sockD(4) [OF eff(6)]
      by (simp add: sys_inv_def known_flights_def flight_kept_def)
  next
    case False
    then have "m_Socket (ov_at s' y) = k"
      using tok(2) y by (auto simp: new_flights_def)
    moreover obtain p where "map_of (g_Connected_Client s) k = Some p"
      using conn(2) by (auto simp: connected_def)
    ultimately show ?thesis
      using maps_ok_connE [OF pre(1), of k p] same_but_sockD(4) [OF eff(6)] by auto
  qed
  moreover have "tokens s' j \<le> 1" for j
    using tok(1) [of j] inv by (auto simp: sys_inv_def intro: order_trans)
  ultimately show "sys_inv s'"
    by (simp add: sys_inv_def known_flights_def)
qed

lemma Disconnect_faults:
  assumes "k \<notin> connected s"
  shows "\<exists>e. Disconnect env k s = Fault e"
  using drop_client_fault [OF assms, of env]
  by (auto simp: Disconnect_drop assertE_def)

lemma Send_inv:
  assumes inv: "sys_inv s" and blk: "user_packet blk p" and run: "Send env (Some blk) t k s = Ok (r, s')"
  shows "sys_inv s'"
proof -
  have "srv_inv [] s"
    using inv by (simp add: sys_inv_def)
  from Send_queues [OF this blk, of env t k] run obtain new where q: "queued [] new s s'"
    by auto
  then have "sent_flights (connected s) s s'"
    by (intro sent_flights_same) (simp_all add: queued_def)
  with q show ?thesis
    using sys_inv_sent [OF inv] by (simp add: queued_def)
qed

lemma Recv_inv:
  assumes inv: "sys_inv s" and run: "Recv vec s = Ok (r, vec', s')"
  shows "sys_inv s'"
proof -
  have "srv_inv [] s"
    using inv by (simp add: sys_inv_def)
  from Recv_outcome [OF this, of vec] run have s': "srv_inv [] s'" "s' = s\<lparr>Recv_Data_Queue := []\<rparr>"
    by auto
  then show ?thesis
    using inv
    by (simp add: sys_inv_def armed_def rearmed_def known_flights_def connected_def tokens_def
        flight_tokens_def)
qed

lemma send_packet_inv:
  assumes inv: "sys_inv s" and queue: "Send_Data_Queue s = (k, q) # es"
    and run: "send_packet env (k, q) (s\<lparr>Send_Data_Queue := es\<rparr>) = Ok s'"
  shows "sys_inv s'"
proof -
  have si: "srv_inv [] s"
    using inv by (simp add: sys_inv_def)
  have "srv_inv [] s'" "same_but_send s s'"
    using send_packet_effect [OF si queue, of env] run by auto
  then show ?thesis
    using sys_inv_sent [OF inv _ _ send_packet_flights [OF si queue run]] by simp
qed

lemma time_tick_inv: "sys_inv (time_tick now s) = sys_inv s"
  by (rule sys_inv_cong) (simp_all add: time_tick_def)

section \<open>Steps and reachable states\<close>

inductive srv_step :: "os \<Rightarrow> server \<Rightarrow> server \<Rightarrow> bool" for env where
  completion: "entry_ok s e x \<Longrightarrow> length data \<le> OVERLAPPED_BUFIZE \<Longrightarrow>
      WorkThread_entry env e (complete_io x data s) = Ok (stop, s') \<Longrightarrow> srv_step env s s'"
| send_one: "Send_Data_Queue s = (k, q) # es \<Longrightarrow>
      send_packet env (k, q) (s\<lparr>Send_Data_Queue := es\<rparr>) = Ok s' \<Longrightarrow> srv_step env s s'"
| app_send: "user_packet blk p \<Longrightarrow> Send env (Some blk) t k s = Ok (r, s') \<Longrightarrow> srv_step env s s'"
| app_recv: "Recv vec s = Ok (r, vec', s') \<Longrightarrow> srv_step env s s'"
| app_disconnect: "Disconnect env k s = Ok (r, s') \<Longrightarrow> srv_step env s s'"
| clock: "srv_step env s (time_tick now s)"

inductive_cases srv_stepE: "srv_step env s s'"

lemma srv_step_inv:
  assumes "os_pending env" and "srv_step env s s'" and "sys_inv s"
  shows "sys_inv s'"
  using assms(2,3)
proof cases
  case (completion e x data stop)
  then show ?thesis
    using WorkThread_entry_inv(1) [OF assms(1,3)] by blast
next
  case (send_one k q es)
  then show ?thesis
    using send_packet_inv [OF assms(3)] by blast
next
  case (app_send blk p t k r)
  then show ?thesis
    using Send_inv [OF assms(3)] by blast
next
  case (app_recv vec r vec')
  then show ?thesis
    using Recv_inv [OF assms(3)] by blast
next
  case (app_disconnect k r)
  then show ?thesis
    using Disconnect_inv(1) [OF assms(3)] by blast
next
  case (clock now)
  then show ?thesis
    using assms(3) by (simp add: time_tick_inv)
qed

text \<open>
  The states a server can be in after \<open>Accept\<close> succeeded on a fresh server with \<open>users\<close> as the limit.
\<close>

inductive srv_reach :: "os \<Rightarrow> u16 \<Rightarrow> server \<Rightarrow> bool" for env users where
  accept_done: "fresh_server s \<Longrightarrow>
      Accept env now port users w s = Some (Ok (LOGIC_SUCCESS, s')) \<Longrightarrow> srv_reach env users s'"
| step: "srv_reach env users s \<Longrightarrow> srv_step env s s' \<Longrightarrow> srv_reach env users s'"

lemma srv_reach_inv:
  assumes "os_fresh env" and "os_pending env" and "unat users + 10 < 2 ^ 16" and "srv_reach env users s"
  shows "sys_inv s"
  using assms(4)
proof induction
  case (accept_done s now port w s')
  then show ?case
    using Accept_establishes(1) [OF assms(1) _ assms(3)] by blast
next
  case (step s s')
  then show ?case
    using srv_step_inv [OF assms(2)] by blast
qed

lemma srv_step_frame:
  assumes "os_pending env" and "srv_step env s s'" and "sys_inv s"
  shows "same_frame s s'"
  using assms(2)
proof cases
  case (completion e x data stop)
  then show ?thesis
    using WorkThread_entry_inv(3) [OF assms(1,3)] by blast
next
  case (send_one k q es)
  have "srv_inv [] s"
    using assms(3) by (simp add: sys_inv_def)
  from send_packet_effect [OF this send_one(1), of env] send_one(2) have "same_but_send s s'"
    by auto
  then show ?thesis
    by (simp add: same_frame_def same_but_sendD)
next
  case (app_send blk p t k r)
  have "srv_inv [] s"
    using assms(3) by (simp add: sys_inv_def)
  from Send_queues [OF this app_send(1), of env t k] app_send(2) have "same_but_send s s'"
    by (auto simp: queued_def)
  then show ?thesis
    by (simp add: same_frame_def same_but_sendD)
next
  case (app_recv vec r vec')
  have "srv_inv [] s"
    using assms(3) by (simp add: sys_inv_def)
  from Recv_outcome [OF this, of vec] app_recv show ?thesis
    by (auto simp: same_frame_def)
next
  case (app_disconnect k r)
  then have drop: "drop_client env k s = Ok s'"
    by (auto simp: Disconnect_drop bindE_eq_Ok_iff)
  have "maps_ok s" "avail_but {k} s" "srv_owns [] s"
    using assms(3) avail_but_mono [of "{}" s "{k}"] by (simp_all add: sys_inv_def srv_inv_def)
  from drop_client_effect(6) [OF this drop] show ?thesis
    by (simp add: same_frame_def same_but_sockD)
next
  case (clock now)
  then show ?thesis
    by (simp add: same_frame_def time_tick_def)
qed

lemma srv_reach_frame:
  assumes "os_fresh env" and "os_pending env" and "unat users + 10 < 2 ^ 16" and "srv_reach env users s"
  shows "MAX_USER_COUNT s = users \<and> length (g_Socket_Struct_Pool s) = unat users + 10"
  using assms(4)
proof induction
  case (accept_done s now port w s')
  then show ?case
    using Accept_establishes(3,4) [OF assms(1) _ assms(3)] by blast
next
  case (step s s')
  then show ?case
    using srv_step_frame [OF assms(2)] srv_reach_inv [OF assms(1-3)] by (simp add: same_frame_def)
qed

section \<open>When a worker cannot fault\<close>

lemma IOFunction_Accept_Ok:
  assumes inv: "srv_inv (x # held) s" and k: "k \<notin> connected s" "m_Socket (ov_at s x) = k"
    and p: "map_of (g_Socket_Struct_Pool s) k = Some p"
  shows "\<exists>s'. IOFunction_Accept env x s = Ok s'"
proof -
  have pre: "maps_ok s" "srv_owns (x # held) s"
    using inv by (simp_all add: srv_inv_def)
  obtain ss where ss: "socket_mem s p = Some ss" "k \<noteq> INVALID_SOCKET"
    using maps_ok_poolE [OF pre(1) p] by metis
  show ?thesis
  proof (cases "length (g_Connected_Client s) = unat (MAX_USER_COUNT s)")
    case True
    obtain s1 where "Reuse_Socket env k s = Ok s1"
      using Reuse_Ok [OF pre p] by blast
    with True k(2) show ?thesis
      by (simp add: IOFunction_Accept_def)
  next
    case room: False
    let ?s1 = "accept_added env x p ss s"
    note a = accept_added_effect [OF inv p ss(1) k(1) room refl, of env x]
    obtain ok s2 where res: "Reserve_WSAReceive env k None ?s1 = Ok (ok, s2)"
      using Reserve_Ok [OF ss(2) a(3), of env None] by blast
    note r = Reserve_None_effect [OF a(3) res]
    have "maps_ok s2" "k \<in> connected s2"
      using maps_ok_same_io [OF r(2)] same_but_ioD(7) [OF r(2)] a(1,5) by (simp_all add: connected_def)
    then have "\<exists>s'. kick env k x s2 = Ok s'"
      using kick_Ok r(1) by blast
    with res show ?thesis
      by (auto simp: IOFunction_Accept_admits [OF inv p ss(1) k room])
  qed
qed

lemma IOFunction_Disconnect_Ok:
  assumes "\<not> debug_build env" and "g_Listen_Socket s = Some l"
  shows "\<exists>s'. IOFunction_Disconnect env x s = Ok s'"
proof -
  have "g_Listen_Socket (ov_upd x f s) = Some l" for f
    using assms(2) same_but_ioD(8) [OF same_but_io_prims(1)] by simp
  then show ?thesis
    using assms(1) by (auto simp: IOFunction_Disconnect_def Let_def split_def)
qed

lemma IOFunction_Disconnect_mem:
  assumes "IOFunction_Disconnect env x s = Ok s'"
  shows "socket_mem s' = socket_mem s"
proof -
  have same: "same_but_io s (ov_upd x (\<lambda>v. v\<lparr>m_IOType := IOType_Accept\<rparr>) s)"
    by simp
  have "same_but_io (ov_upd x (\<lambda>v. v\<lparr>m_IOType := IOType_Accept\<rparr>) s) s'"
    using assms by (auto simp: IOFunction_Disconnect_def Let_def split_def bindE_eq_Ok_iff
        split: option.splits if_splits intro: same_but_io_trans)
  with same show ?thesis
    using same_but_io_trans same_but_ioD(11) by blast
qed

lemma recv_rearm_Ok:
  assumes inv: "srv_inv (x # held) s" and sock: "socket_mem s p = Some ss" "ss_Socket ss = k"
    and k: "m_Socket (ov_at s x) = k" "k \<in> connected s" "k \<noteq> INVALID_SOCKET"
  shows "\<exists>s'. recv_rearm env x p s = Ok s'"
proof -
  have own: "srv_owns (x # held) s"
    using inv by (simp add: srv_inv_def)
  obtain ok s1 where res: "Reserve_WSAReceive env k (Some x) s = Ok (ok, s1)"
    using Reserve_Ok [OF k(3) own] by blast
  note eff = Reserve_effect [OF own res]
  show ?thesis
  proof (cases ok)
    case True
    with res k show ?thesis by (simp add: recv_rearm_def)
  next
    case False
    have "maps_ok s1" "k \<in> connected s1" "srv_owns (x # held) s1"
      using maps_ok_same_io [OF eff(1)] same_but_ioD(7) [OF eff(1)] inv k(2) eff(2) False
      by (simp_all add: srv_inv_def connected_def)
    then have "\<exists>s'. kick env k x s1 = Ok s'"
      using kick_Ok by blast
    moreover have "sock_at s1 p = Ok ss"
      using sock(1) same_but_ioD(11) [OF eff(1)] by (simp add: sock_at_def)
    ultimately show ?thesis
      using res k(1) sock(2) False by (simp add: recv_rearm_def)
  qed
qed

text \<open>How the bytes of a completed receive end, together with those kept from before.\<close>

definition recv_end :: "nat \<Rightarrow> u32 \<Rightarrow> server \<Rightarrow> parse_end" where
  "recv_end x n s = snd (snd (spec_parse (srv_pend x s @ recv_chunk n x s)))"

lemma IOFunction_Recv_Ok:
  assumes inv: "srv_inv (x # held) s" and sock: "socket_mem s p = Some ss" "ss_Socket ss = k"
    and k: "m_Socket (ov_at s x) = k" "k \<in> connected s" "k \<noteq> INVALID_SOCKET"
    and n: "n \<noteq> 0" "unat n \<le> OVERLAPPED_BUFIZE" and rel: "\<not> debug_build env"
    and wrap: "recv_end x n s \<noteq> Size_Wraps"
  shows "\<exists>s'. IOFunction_Recv env n x p s = Ok s'"
proof -
  have n0: "0 < n"
    using n(1) by (simp add: word_gt_0)
  have kick: "\<exists>s'. kick env k x t = Ok s'" if "srv_inv (x # held) t" "connected t = connected s" for t
    using kick_Ok [of t "x # held" k env x] that k(2) by (simp add: srv_inv_def)
  show ?thesis
  proof (cases "MAX_PACKET_SIZE < length (srv_pend x s) + unat n")
    case True
    have "connected (recv_start n x s) = connected s"
      by (simp add: connected_def)
    then show ?thesis
      using IOFunction_Recv_too_long [OF inv sock(1) n0 n(2) True, of env] rel sock(2)
        kick [OF recv_start_inv [OF inv]] by simp
  next
    case False
    then have fits: "length (srv_pend x s) + unat n \<le> MAX_PACKET_SIZE" by simp
    obtain ps r e where parse: "spec_parse (srv_pend x s @ recv_chunk n x s) = (ps, r, e)"
      by (metis prod_cases3)
    from IOFunction_Recv_outcome [OF inv sock n0 n(2) fits parse, of env] obtain s1 c where
      s1: "srv_inv (x # held) s1" "recv_good x p k c s1" "same_but_io (recv_start n x s) c"
        "m_Socket (ov_at s1 x) = m_Socket (ov_at s x)"
      and out: "case e of
           Need_More \<Rightarrow> srv_pend x s1 = r \<and> IOFunction_Recv env n x p s = recv_rearm env x p s1
         | No_Type \<Rightarrow> IOFunction_Recv env n x p s = kick env k x (discard_front s1)
         | Size_Wraps \<Rightarrow> IOFunction_Recv env n x p s = Fault Over_Read"
      by blast
    have "same_but_recv x c s1"
      using s1(2) by (simp add: recv_good_def)
    note same = same_but_recvD [OF this] same_but_ioD [OF s1(3)]
    have conn: "connected s1 = connected s" "connected (discard_front s1) = connected s"
      using same by (simp_all add: connected_def discard_front_def)
    have mem: "socket_mem s1 p = Some ss"
      using same sock(1) by simp
    show ?thesis
    proof (cases e)
      case Need_More
      then show ?thesis
        using out recv_rearm_Ok [OF s1(1) mem sock(2)] s1(4) k conn by simp
    next
      case No_Type
      then show ?thesis
        using out kick [OF discard_front_inv(1) [OF s1(1)] conn(2)] by simp
    next
      case Size_Wraps
      with wrap parse show ?thesis by (simp add: recv_end_def)
    qed
  qed
qed

lemma WorkThread_entry_Ok:
  assumes inv: "sys_inv s" and e: "entry_ok s e x" and data: "length data \<le> OVERLAPPED_BUFIZE"
    and rel: "\<not> debug_build env" and l: "g_Listen_Socket s \<noteq> None"
    and conn: "m_IOType (ov_at s x) \<notin> {IOType_Accept, IOType_Disconnect} \<Longrightarrow> m_Socket (ov_at s x) \<in> connected s"
    and wrap: "m_IOType (ov_at s x) = IOType_Recv \<Longrightarrow>
      recv_end x (dwNumberOfBytesTransferred e) (complete_io x data s) \<noteq> Size_Wraps"
  shows "\<exists>s'. WorkThread_entry env e (complete_io x data s) = Ok (False, s')"
proof -
  let ?t = "complete_io x data s" and ?io = "m_IOType (ov_at s x)" and ?k = "m_Socket (ov_at s x)"
  let ?n = "dwNumberOfBytesTransferred e"
  have e': "lpOverlapped e = Some x" and x: "x \<in> set (in_flight (ssys s))"
    and n: "unat ?n \<le> OVERLAPPED_BUFIZE"
    and key: "lpCompletionKey e = (if ?io = IOType_Accept then None else map_of (g_Socket_Struct_Pool s) ?k)"
    using e by (simp_all add: entry_ok_def)
  have at: "m_IOType (ov_at ?t x) = ?io" "m_Socket (ov_at ?t x) = ?k"
    by (simp_all add: complete_io_at)
  have inv_t: "srv_inv [x] ?t"
    by (rule complete_io_sys_inv [OF inv x data])
  then have maps_t: "maps_ok ?t"
    by (simp add: srv_inv_def)
  note same = same_but_ioD [OF complete_io_same [of s x data]]
  obtain p where p: "map_of (g_Socket_Struct_Pool s) ?k = Some p"
    using inv x by (auto simp: sys_inv_def known_flights_def)
  then have p_t: "map_of (g_Socket_Struct_Pool ?t) ?k = Some p"
    using same by simp
  obtain ss where ss: "socket_mem ?t p = Some ss" "ss_Socket ss = ?k" "?k \<noteq> INVALID_SOCKET"
    using maps_ok_poolE [OF maps_t p_t] by metis
  consider (accept) "?io = IOType_Accept" | (disconnect) "?io = IOType_Disconnect"
    | (data) "?io \<noteq> IOType_Accept" "?io \<noteq> IOType_Disconnect"
    by blast
  then show ?thesis
  proof cases
    case accept
    then have "is_token ?k (ov_at s x)" by (simp add: is_token_def)
    then have "?k \<notin> connected ?t"
      using token_free(1) [OF inv x] by simp
    from IOFunction_Accept_Ok [OF inv_t this at(2) p_t, of env] show ?thesis
      using e' at accept by (auto simp: WorkThread_entry_def)
  next
    case disconnect
    obtain l' where "g_Listen_Socket ?t = Some l'"
      using l same_but_ioD(8) [OF complete_io_same [of s x data]] by auto
    then obtain s1 where run: "IOFunction_Disconnect env x ?t = Ok s1"
      using IOFunction_Disconnect_Ok [OF rel] by blast
    have "socket_mem s1 = socket_mem ?t"
      by (rule IOFunction_Disconnect_mem [OF run])
    then show ?thesis
      using e' at disconnect run key p ss by (simp add: WorkThread_entry_def sock_at_def)
  next
    case d: data
    then have k: "?k \<in> connected ?t"
      using conn by simp
    have "\<exists>s'. kick env ?k x ?t = Ok s'"
      using kick_Ok [of ?t "[x]" ?k env x] inv_t k by (simp add: srv_inv_def)
    moreover have "\<exists>s'. IOFunction_Recv env ?n x p ?t = Ok s'" if "?io = IOType_Recv" "?n \<noteq> 0"
      using IOFunction_Recv_Ok [OF inv_t ss(1,2) at(2) k ss(3) that(2) n rel] wrap [OF that(1)] by simp
    ultimately show ?thesis
      using e' at key p ss d
      by (cases ?io) (auto simp: WorkThread_entry_def sock_at_def)
  qed
qed

text \<open>
  A completion with no bytes for a socket that is no longer connected: the worker waits forever for
  the client to come back on the list.
\<close>

lemma WorkThread_stale_spins:
  assumes inv: "sys_inv s" and e: "entry_ok s e x" and n: "dwNumberOfBytesTransferred e = 0"
    and io: "m_IOType (ov_at s x) \<notin> {IOType_Accept, IOType_Disconnect}"
    and k: "m_Socket (ov_at s x) \<notin> connected s"
  shows "WorkThread_entry env e (complete_io x data s) = Fault Spin"
proof -
  let ?t = "complete_io x data s" and ?k = "m_Socket (ov_at s x)"
  have e': "lpOverlapped e = Some x" and x: "x \<in> set (in_flight (ssys s))"
    and key: "lpCompletionKey e = map_of (g_Socket_Struct_Pool s) ?k"
    using e io by (simp_all add: entry_ok_def)
  note same = same_but_ioD [OF complete_io_same [of s x data]]
  obtain p where p: "map_of (g_Socket_Struct_Pool s) ?k = Some p"
    using inv x by (auto simp: sys_inv_def known_flights_def)
  have "maps_ok s"
    using inv by (simp add: sys_inv_def srv_inv_def)
  then obtain ss where ss: "socket_mem s p = Some ss" "ss_Socket ss = ?k"
    using maps_ok_poolE [OF _ p] by metis
  have "kick env ?k x ?t = Fault Spin"
    using Delete_not_connected [of ?t ?k p env] p same k by (simp add: kick_def)
  then show ?thesis
    using e' key p ss n io same
    by (cases "m_IOType (ov_at s x)") (simp_all add: WorkThread_entry_def sock_at_def complete_io_at)
qed

end
