(* ===== verification/DH_ClientState.thy ===== *)
theory DH_ClientState
  imports DH_ServerLife
begin

text \<open>
  The state of a \<open>DHClient\<close> object (\<open>DHClient.h\<close>) and the primitive accesses its functions are made
  of. The client has one socket, the structure \<open>g_Server_Socket\<close> points to, which is also the
  completion key of the port. Its receive and send engines are copies of the server's; \<open>cview\<close> shows
  the part of a client's state these engines work on as the state of a server without clients, so that
  what holds of the server's overlapped structures and queues holds of the client's.
\<close>

record client =
  c_PORT :: u16
  c_IP :: string
  c_Recv_Data_Queue :: "ptr list"
  c_Send_Data_Queue :: "ptr list"
  c_Available_Overlapped :: "Overlapped_Struct object_pool"
  g_Server_Socket :: "Socket_Struct option"
  c_Work_Thread :: nat
  g_Connect_Send_Client_Thread :: thread_ptr
  Is_Server_Connect_Success :: bool
  c_IOCP :: bool
  c_Is_Exit :: bool
  c_Debug_Option :: u16
  cheap :: heap
  csys :: sys

section \<open>Primitive accesses\<close>

definition cli_at :: "client \<Rightarrow> nat \<Rightarrow> Overlapped_Struct" where
  "cli_at c x = obj_mem (c_Available_Overlapped c) x"

definition cli_upd :: "nat \<Rightarrow> (Overlapped_Struct \<Rightarrow> Overlapped_Struct) \<Rightarrow> client \<Rightarrow> client" where
  "cli_upd x f c = c\<lparr>c_Available_Overlapped := pool_write x f (c_Available_Overlapped c)\<rparr>"

definition cli_get :: "os \<Rightarrow> client \<Rightarrow> (nat \<times> client) res" where
  "cli_get env c = bindE (GetObject (ov_class env) (c_Available_Overlapped c))
     (\<lambda>(x, p). Ok (x, c\<lparr>c_Available_Overlapped := p\<rparr>))"

definition cli_reset :: "os \<Rightarrow> nat \<Rightarrow> client \<Rightarrow> client" where
  "cli_reset env x c =
     c\<lparr>c_Available_Overlapped := ResetObject (ov_class env) x (c_Available_Overlapped c)\<rparr>"

definition cli_call :: "os \<Rightarrow> syscall \<Rightarrow> client \<Rightarrow> sysret \<times> client" where
  "cli_call env k c = (let (r, y) = sys_call env k (csys c) in (r, c\<lparr>csys := y\<rparr>))"

definition cli_do :: "os \<Rightarrow> syscall \<Rightarrow> client \<Rightarrow> client" where
  "cli_do env k c = snd (cli_call env k c)"

definition cli_async :: "os \<Rightarrow> syscall \<Rightarrow> nat \<Rightarrow> client \<Rightarrow> sysret \<times> client" where
  "cli_async env k x c = (let (r, y) = sys_async env k x (csys c) in (r, c\<lparr>csys := y\<rparr>))"

text \<open>\<open>g_Server_Socket->m_Socket\<close>, read and written.\<close>

definition server_socket :: "client \<Rightarrow> sock res" where
  "server_socket c =
     (case g_Server_Socket c of None \<Rightarrow> Fault Null_Deref | Some ss \<Rightarrow> Ok (ss_Socket ss))"

definition set_server_socket :: "sock \<Rightarrow> client \<Rightarrow> client" where
  "set_server_socket k c =
     c\<lparr>g_Server_Socket := map_option (ss_Socket_update (\<lambda>_. k)) (g_Server_Socket c)\<rparr>"

text \<open>
  \<open>Safe_CloseSocket\<close>. The pointer to the structure is never copied, so the wait for it to be the only
  one ends at once.
\<close>

definition Safe_CloseSocket :: "os \<Rightarrow> client \<Rightarrow> client res" where
  "Safe_CloseSocket env c =
     bindE (server_socket c) (\<lambda>k.
       let c = cli_do env (Sys_Shutdown k) c;
           c = cli_do env (Sys_CloseSocket k) c;
           c = set_server_socket INVALID_SOCKET c
       in Ok (c\<lparr>Is_Server_Connect_Success := False\<rparr>))"

section \<open>The client seen as a server\<close>

definition cview :: "client \<Rightarrow> server" where
  "cview c = (DHServer_init os_fine 0 empty_sys)
     \<lparr>Available_Overlapped := c_Available_Overlapped c, Recv_Data_Queue := c_Recv_Data_Queue c,
      Send_Data_Queue := map (Pair 0) (c_Send_Data_Queue c),
      socket_mem := (\<lambda>_. None)(0 := g_Server_Socket c),
      sheap := cheap c, ssys := csys c\<rparr>"

lemma cview_fields [simp]:
  "Available_Overlapped (cview c) = c_Available_Overlapped c"
  "Recv_Data_Queue (cview c) = c_Recv_Data_Queue c"
  "Send_Data_Queue (cview c) = map (Pair 0) (c_Send_Data_Queue c)"
  "socket_mem (cview c) 0 = g_Server_Socket c" "sheap (cview c) = cheap c" "ssys (cview c) = csys c"
  "g_Connected_Client (cview c) = []" "g_Socket_Struct_Pool (cview c) = []"
  "g_Debug_Option (cview c) = DHDEBUG_NONE" "ov_at (cview c) = cli_at c"
  by (simp_all add: cview_def DHServer_init_def ov_at_def cli_at_def fun_eq_iff)

lemma cview_ops [simp]:
  "cview (cli_upd x f c) = ov_upd x f (cview c)"
  "cview (cli_reset env x c) = ov_reset env x (cview c)"
  "cview (cli_do env k c) = srv_do env k (cview c)"
  "cview (snd (cli_call env k c)) = snd (srv_call env k (cview c))"
  "cview (snd (cli_async env k x c)) = snd (srv_async env k x (cview c))"
  "fst (cli_async env k x c) = fst (srv_async env k x (cview c))"
  "fst (cli_call env k c) = fst (srv_call env k (cview c))"
  by (simp_all add: cview_def cli_upd_def ov_upd_def cli_reset_def ov_reset_def cli_do_def srv_do_def
      cli_call_def srv_call_def cli_async_def srv_async_def split_def Let_def DHServer_init_def)

lemma cview_get: "ov_get env (cview c) = bindE (cli_get env c) (\<lambda>(x, c). Ok (x, cview c))"
  by (cases "GetObject (ov_class env) (c_Available_Overlapped c)")
    (auto simp: ov_get_def cli_get_def cview_def DHServer_init_def)

lemma cli_getE:
  assumes "ov_get env (cview c) = Ok (x, s)"
  obtains c' where "cli_get env c = Ok (x, c')" and "s = cview c'"
  using assms by (auto simp: cview_get bindE_eq_Ok_iff)

lemma cview_frame [simp]:
  "cview (c\<lparr>cheap := h\<rparr>) = (cview c)\<lparr>sheap := h\<rparr>"
  "cview (c\<lparr>c_Recv_Data_Queue := q\<rparr>) = (cview c)\<lparr>Recv_Data_Queue := q\<rparr>"
  "cview (c\<lparr>c_Send_Data_Queue := q\<rparr>) = (cview c)\<lparr>Send_Data_Queue := map (Pair 0) q\<rparr>"
  "cview (c\<lparr>Is_Server_Connect_Success := b\<rparr>) = cview c"
  "cview (c\<lparr>c_Is_Exit := b\<rparr>) = cview c" "cview (c\<lparr>c_Debug_Option := d\<rparr>) = cview c"
  "cview (c\<lparr>csys := y\<rparr>) = (cview c)\<lparr>ssys := y\<rparr>"
  by (simp_all add: cview_def DHServer_init_def)

section \<open>The invariant\<close>

definition cli_inv :: "nat list \<Rightarrow> client \<Rightarrow> bool" where
  "cli_inv held c \<longleftrightarrow> srv_inv held (cview c)"

lemma cview_maps [simp]: "maps_ok (cview c)" "avail_but K (cview c)"
  by (simp_all add: maps_ok_def hm_distinct_def avail_but_def)

lemma cli_inv_iff: "cli_inv held c \<longleftrightarrow> srv_owns held (cview c) \<and> srv_queues_ok (cview c)"
  by (simp add: cli_inv_def srv_inv_def)

definition cli_msgs :: "client \<Rightarrow> (sock \<times> packet) list" where
  "cli_msgs c = recv_view (cheap c) (c_Recv_Data_Queue c)"

definition cli_sends :: "client \<Rightarrow> packet list" where
  "cli_sends c = send_view (cheap c) (c_Send_Data_Queue c)"

lemma cli_msgs_view: "cli_msgs c = srv_msgs (cview c)"
  by (simp add: cli_msgs_def srv_msgs_def)

lemma snd_Pair_map [simp]: "map snd (map (Pair k) xs) = xs"
  by (induction xs) simp_all

lemma cli_queues_view: "srv_queues_ok (cview c) \<longleftrightarrow> queues_ok (cheap c) (c_Recv_Data_Queue c) (c_Send_Data_Queue c)"
  by (simp add: srv_queues_ok_def del: map_map)

text \<open>Everything but the overlapped pool and the system is the same.\<close>

definition cli_same :: "client \<Rightarrow> client \<Rightarrow> bool" where
  "cli_same c c' \<longleftrightarrow> c' = c\<lparr>c_Available_Overlapped := c_Available_Overlapped c', csys := csys c'\<rparr>"

lemma cli_same_refl [simp, intro]: "cli_same c c"
  by (simp add: cli_same_def)

lemma cli_same_trans: "cli_same c c' \<Longrightarrow> cli_same c' c'' \<Longrightarrow> cli_same c c''"
  unfolding cli_same_def by (cases c, cases c', cases c'') simp

lemma cli_sameD:
  assumes "cli_same c c'"
  shows "c_Recv_Data_Queue c' = c_Recv_Data_Queue c" "c_Send_Data_Queue c' = c_Send_Data_Queue c"
    "g_Server_Socket c' = g_Server_Socket c" "Is_Server_Connect_Success c' = Is_Server_Connect_Success c"
    "cheap c' = cheap c" "c_Is_Exit c' = c_Is_Exit c" "server_socket c' = server_socket c"
    "same_but_io (cview c) (cview c')" "cli_msgs c' = cli_msgs c" "cli_sends c' = cli_sends c"
  using assms unfolding cli_same_def same_but_io_def server_socket_def cview_def cli_msgs_def cli_sends_def
  by (cases c, cases c', simp)+

lemma cli_same_prims [simp, intro]:
  "cli_same c (cli_upd x f c)" "cli_same c (cli_reset env x c)" "cli_same c (cli_do env k c)"
  "cli_same c (snd (cli_call env k c))" "cli_same c (snd (cli_async env k x c))"
  by (simp_all add: cli_same_def cli_upd_def cli_reset_def cli_do_def cli_call_def cli_async_def
      split_def Let_def)

lemma cli_get_same: "cli_get env c = Ok (x, c') \<Longrightarrow> cli_same c c' \<and> csys c' = csys c"
  by (auto simp: cli_get_def bindE_eq_Ok_iff cli_same_def)

lemma cli_inv_same:
  assumes "cli_same c c'" and "srv_owns held' (cview c')" and "cli_inv held c"
  shows "cli_inv held' c'"
  using srv_inv_io [OF cli_sameD(8) [OF assms(1)] assms(2)] assms(3) by (simp add: cli_inv_def)

text \<open>Closing the socket.\<close>

lemma Safe_CloseSocket_effect:
  assumes "g_Server_Socket c = Some ss"
  obtains c' where "Safe_CloseSocket env c = Ok c'" and "\<not> Is_Server_Connect_Success c'"
    and "server_socket c' = Ok INVALID_SOCKET" and "cli_at c' = cli_at c"
    and "in_flight (csys c') = in_flight (csys c)" and "cli_msgs c' = cli_msgs c"
    and "cli_sends c' = cli_sends c" and "\<And>held. cli_inv held c' = cli_inv held c"
    and "Sys_CloseSocket (ss_Socket ss) \<in> set (calls (csys c'))"
    and "c_Recv_Data_Queue c' = c_Recv_Data_Queue c" and "c_Send_Data_Queue c' = c_Send_Data_Queue c"
    and "cheap c' = cheap c" and "g_Server_Socket c' = Some (ss\<lparr>ss_Socket := INVALID_SOCKET\<rparr>)"
    and "c_Available_Overlapped c' = c_Available_Overlapped c" and "c_Is_Exit c' = c_Is_Exit c"
    and "calls (csys c') = Sys_CloseSocket (ss_Socket ss) # Sys_Shutdown (ss_Socket ss) # calls (csys c)"
proof -
  let ?c1 = "cli_do env (Sys_CloseSocket (ss_Socket ss)) (cli_do env (Sys_Shutdown (ss_Socket ss)) c)"
  let ?c' = "(set_server_socket INVALID_SOCKET ?c1)\<lparr>Is_Server_Connect_Success := False\<rparr>"
  have run: "Safe_CloseSocket env c = Ok ?c'"
    using assms by (simp add: Safe_CloseSocket_def server_socket_def Let_def)
  have f: "c_Available_Overlapped ?c' = c_Available_Overlapped c" "cheap ?c' = cheap c"
    "c_Recv_Data_Queue ?c' = c_Recv_Data_Queue c" "c_Send_Data_Queue ?c' = c_Send_Data_Queue c"
    "in_flight (csys ?c') = in_flight (csys c)" "\<not> Is_Server_Connect_Success ?c'"
    "g_Server_Socket ?c' = Some (ss\<lparr>ss_Socket := INVALID_SOCKET\<rparr>)" "c_Is_Exit ?c' = c_Is_Exit c"
    "calls (csys ?c') = Sys_CloseSocket (ss_Socket ss) # Sys_Shutdown (ss_Socket ss) # calls (csys c)"
    using assms by (simp_all add: set_server_socket_def cli_do_def cli_call_def sys_call_def)
  have "cli_at ?c' = cli_at c"
    using f(1) by (simp add: cli_at_def fun_eq_iff)
  moreover have "cli_inv held ?c' = cli_inv held c" for held
  proof -
    have "srv_owns held (cview ?c') = srv_owns held (cview c)"
      by (rule srv_owns_cong) (use f in simp_all)
    then show ?thesis
      using f by (simp add: cli_inv_iff cli_queues_view)
  qed
  ultimately show thesis
    using that [OF run] f by (simp add: server_socket_def cli_msgs_def cli_sends_def)
qed

end
