(* ===== verification/DH_ClientRecv.thy ===== *)
theory DH_ClientRecv
  imports DH_ClientState
begin

text \<open>
  The receive path of \<open>DHClient.cpp\<close>: \<open>Reserve_WSAReceive\<close>, \<open>BackUp_Overlapped\<close>, \<open>Push_RecvData\<close>,
  \<open>IOFunction_Recv\<close>, and \<open>Recv\<close>. Except for what it does when it gives up on the connection, the
  engine is the server's: the lemmas ending in \<open>_sim\<close> say so through \<open>cview\<close>, and the contract
  \<open>receive_loop\<close> is interpreted on the client's loop.
\<close>

section \<open>The operations\<close>

definition Client_Reserve_WSAReceive :: "os \<Rightarrow> sock \<Rightarrow> nat option \<Rightarrow> client \<Rightarrow> (bool \<times> client) res" where
  "Client_Reserve_WSAReceive env socket psOverlapped c =
     bindE (assertE env (INVALID_SOCKET \<noteq> socket)) (\<lambda>_.
     bindE (case psOverlapped of None \<Rightarrow> cli_get env c | Some x \<Rightarrow> Ok (x, c)) (\<lambda>(x, c).
       let c = cli_upd x (\<lambda>v. v\<lparr>m_IOType := IOType_Recv, m_Socket := socket,
                               m_WSABUF_len := word_of_nat OVERLAPPED_BUFIZE\<rparr>) c;
           (iResult, c) = cli_async env (Sys_WSARecv socket x OVERLAPPED_BUFIZE) x c
       in if \<not> ret_ok iResult \<and> last_error iResult \<noteq> WSA_IO_PENDING
          then Ok (False, if psOverlapped = None then cli_reset env x c else c)
          else Ok (True, c)))"

definition Client_BackUp_Overlapped :: "os \<Rightarrow> nat \<Rightarrow> client \<Rightarrow> (bool \<times> client) res" where
  "Client_BackUp_Overlapped env x c =
     (let v = cli_at c x in
      if word_of_nat MAX_PACKET_SIZE < m_Processed_Packet_Size v + m_Data_Size v
      then bindE (assertE env False) (\<lambda>_. Ok (False, c))
      else bindE (memcpy_s (m_Processing_Packet_Buffer v) (unat (m_Processed_Packet_Size v))
                    (unat (word_of_nat MAX_PACKET_SIZE - m_Processed_Packet_Size v))
                    (m_Buffer v) (unat (m_Data_Size v)))
             (\<lambda>buf. Ok (True, cli_upd x (ov_append buf) c)))"

text \<open>Closing the socket and recycling the structure, as the receive path does on every failure.\<close>

definition close_and_reset :: "os \<Rightarrow> nat \<Rightarrow> client \<Rightarrow> client res" where
  "close_and_reset env x c = bindE (Safe_CloseSocket env c) (\<lambda>c. Ok (cli_reset env x c))"

definition Client_Push_RecvData ::
    "os \<Rightarrow> ptr \<Rightarrow> nat \<Rightarrow> u64 \<Rightarrow> client \<Rightarrow> (bool \<times> client) res" where
  "Client_Push_RecvData env Data_Packet x Pull_Size c =
     bindE (heap_packet Data_Packet (cheap c)) (\<lambda>blk.
     bindE (get_Packet_Type blk) (\<lambda>t.
     bindE (server_socket c) (\<lambda>k.
       if t = PACKET_TYPE_NONE
       then bindE (heap_free Data_Packet (cheap c)) (\<lambda>h.
            bindE (close_and_reset env x (c\<lparr>cheap := h\<rparr>)) (\<lambda>c. Ok (False, c)))
       else
         let (m, h) = heap_alloc (Net_Msg k Data_Packet) (cheap c);
             c = c\<lparr>cheap := h, c_Recv_Data_Queue := c_Recv_Data_Queue c @ [m]\<rparr>;
             buf = m_Processing_Packet_Buffer (cli_at c x)
         in bindE (memcpy_s buf 0 MAX_PACKET_SIZE (drop (unat Pull_Size) buf)
                     (unat (word_of_nat MAX_PACKET_SIZE - Pull_Size)))
              (\<lambda>buf. Ok (True, cli_upd x (ov_pull buf Pull_Size) c)))))"

definition client_body :: "os \<Rightarrow> nat \<Rightarrow> client \<Rightarrow> (bool \<times> client) res option" where
  "client_body env x c =
     (let v = cli_at c x in
      if m_Processed_Packet_Size v \<le> 0 then None
      else if m_Processed_Packet_Size v < word_of_nat PACKET_HEADER_SIZE then None
      else let Packet_Body_Size = read_u64 (m_Processing_Packet_Buffer v);
               Packet_Total_Size = packet_total Packet_Body_Size
           in if m_Processed_Packet_Size v < Packet_Total_Size then None
              else Some (
                bindE (memcpy_s (replicate (unat Packet_Total_Size) 0) 0 (unat Packet_Total_Size)
                         (m_Processing_Packet_Buffer v) (unat Packet_Total_Size)) (\<lambda>blk.
                let (q, h) = heap_alloc (Packet_Block blk) (cheap c)
                in Client_Push_RecvData env q x Packet_Total_Size (c\<lparr>cheap := h\<rparr>))))"

section \<open>The client's body is the server's\<close>

text \<open>The client whose view is a given server state that differs only in what the engine works on.\<close>

definition cback :: "client \<Rightarrow> server \<Rightarrow> client" where
  "cback c s = c\<lparr>c_Available_Overlapped := Available_Overlapped s, cheap := sheap s,
                c_Recv_Data_Queue := Recv_Data_Queue s\<rparr>"

text \<open>A body that lets the loop go on does the same on both sides; so does one that breaks.\<close>

lemma Push_sim:
  assumes "heap_packet q (cheap c) = Ok blk" and "get_Packet_Type blk = Ok t" and "t \<noteq> PACKET_TYPE_NONE"
    and "g_Server_Socket c = Some ss"
  shows "Push_RecvData env q 0 x pull (cview c) =
    bindE (Client_Push_RecvData env q x pull c) (\<lambda>(b, c). Ok (b, cview c))"
proof -
  have "g_Server_Socket (c\<lparr>cheap := h, c_Recv_Data_Queue := r\<rparr>) = g_Server_Socket c" for h r
    by simp
  then show ?thesis
    using assms
    by (simp add: Push_RecvData_def Client_Push_RecvData_def sock_at_def server_socket_def Let_def
        bindE_def cli_at_def split: prod.splits sum.splits)
qed

text \<open>A body that lets the loop go on makes the bytes to process fewer.\<close>

lemma client_body_less:
  assumes "client_body env x c = Some (Ok (True, c'))"
  shows "unat (m_Processed_Packet_Size (cli_at c' x)) < unat (m_Processed_Packet_Size (cli_at c x))"
proof -
  define v where "v = cli_at c x"
  define total where "total = packet_total (read_u64 (m_Processing_Packet_Buffer v))"
  obtain blk where le: "\<not> m_Processed_Packet_Size v < total"
    and blk: "memcpy_s (replicate (unat total) 0) 0 (unat total)
       (m_Processing_Packet_Buffer v) (unat total) = Ok blk"
    and push': "(case heap_alloc (Packet_Block blk) (cheap c) of (q, h) \<Rightarrow>
       Client_Push_RecvData env q x total (c\<lparr>cheap := h\<rparr>)) = Ok (True, c')"
    using assms unfolding client_body_def Let_def v_def [symmetric] total_def [symmetric]
    by (auto simp only: bindE_eq_Ok_iff option.inject split: if_splits)
  obtain q h where alloc: "heap_alloc (Packet_Block blk) (cheap c) = (q, h)"
    by force
  with push' have push: "Client_Push_RecvData env q x total (c\<lparr>cheap := h\<rparr>) = Ok (True, c')"
    by simp
  have "heap_packet q h = Ok blk"
    using alloc by (auto simp: heap_alloc_def heap_packet_def)
  with push obtain t buf where t: "get_Packet_Type blk = Ok t"
    and ov: "cli_at c' x = ov_pull buf total v"
    by (auto simp: Client_Push_RecvData_def Let_def bindE_eq_Ok_iff v_def cli_at_def cli_upd_def
        split: if_splits prod.splits)
  have "length blk = unat total"
    using memcpy_s_OkD [OF blk] by (simp add: mem_write_0)
  then have "0 < unat total"
    using t by (auto simp: get_Packet_Type_def split: if_splits)
  moreover have "unat (m_Processed_Packet_Size v - total) = unat (m_Processed_Packet_Size v) - unat total"
    using le by (intro unat_minus_nowrap64) simp
  moreover have "unat total \<le> unat (m_Processed_Packet_Size v)"
    using le by (simp add: word_le_iff_unat not_less)
  ultimately show ?thesis
    using ov by (auto simp: ov_pull_def v_def)
qed

function client_loop :: "os \<Rightarrow> nat \<Rightarrow> client \<Rightarrow> (bool \<times> client) res" where
  "client_loop env x c =
     (case client_body env x c of
        None \<Rightarrow> Ok (True, c)
      | Some (Fault e) \<Rightarrow> Fault e
      | Some (Ok (b, c')) \<Rightarrow> if b then client_loop env x c' else Ok (False, c'))"
  by pat_completeness auto
termination
  by (relation "measure (\<lambda>(env, x, c). unat (m_Processed_Packet_Size (cli_at c x)))")
    (auto simp: client_body_less)

declare client_loop.simps [simp del]

text \<open>The tail of the handler, and the handler.\<close>

definition client_rearm :: "os \<Rightarrow> nat \<Rightarrow> client \<Rightarrow> client res" where
  "client_rearm env x c =
     bindE (Client_Reserve_WSAReceive env (m_Socket (cli_at c x)) (Some x) c) (\<lambda>(ok, c).
       if ok then Ok c else close_and_reset env x c)"

definition Client_IOFunction_Recv :: "os \<Rightarrow> u32 \<Rightarrow> nat \<Rightarrow> client \<Rightarrow> client res" where
  "Client_IOFunction_Recv env dwBytesTransferred x c =
     (if dwBytesTransferred \<le> 0 then client_rearm env x c
      else
        let c = cli_upd x (\<lambda>v. v\<lparr>m_Data_Size := ucast dwBytesTransferred\<rparr>) c
        in bindE (Client_BackUp_Overlapped env x c) (\<lambda>(ok, c).
             if \<not> ok then close_and_reset env x c
             else bindE (client_loop env x c) (\<lambda>(go_on, c).
                    if go_on then client_rearm env x c else Ok c)))"

text \<open>\<open>Recv\<close>: unlike the server's, it releases the message blocks it has read.\<close>

primrec client_drain ::
    "ptr list \<Rightarrow> (sock \<times> ptr) list \<Rightarrow> heap \<Rightarrow> ((sock \<times> ptr) list \<times> heap) res" where
  "client_drain [] vec h = Ok (vec, h)"
| "client_drain (m # ms) vec h =
     bindE (heap_msg m h) (\<lambda>msg.
     bindE (heap_free m h) (\<lambda>h. client_drain ms (vec @ [msg]) h))"

definition Client_Recv :: "(sock \<times> ptr) list \<Rightarrow> client \<Rightarrow> (int \<times> (sock \<times> ptr) list \<times> client) res" where
  "Client_Recv Message_Vec c =
     (if c_Recv_Data_Queue c = [] then Ok (LOGIC_FAIL, Message_Vec, c)
      else bindE (client_drain (c_Recv_Data_Queue c) Message_Vec (cheap c))
             (\<lambda>(vec, h). Ok (LOGIC_SUCCESS, vec, c\<lparr>cheap := h, c_Recv_Data_Queue := []\<rparr>)))"

section \<open>Simulation of the primitives\<close>

lemma BackUp_sim:
  "BackUp_Overlapped env x (cview c) =
     bindE (Client_BackUp_Overlapped env x c) (\<lambda>(b, c). Ok (b, cview c))"
  by (simp add: BackUp_Overlapped_def Client_BackUp_Overlapped_def Let_def bindE_def assertE_def
      split: sum.splits)

lemma Reserve_sim:
  "Reserve_WSAReceive env k (Some x) (cview c) =
     bindE (Client_Reserve_WSAReceive env k (Some x) c) (\<lambda>(b, c). Ok (b, cview c))"
proof -
  define f where "f = (\<lambda>v :: Overlapped_Struct. v\<lparr>m_IOType := IOType_Recv, m_Socket := k,
                        m_WSABUF_len := word_of_nat OVERLAPPED_BUFIZE\<rparr>)"
  obtain r c' where a: "cli_async env (Sys_WSARecv k x OVERLAPPED_BUFIZE) x (cli_upd x f c) = (r, c')"
    by force
  have "srv_async env (Sys_WSARecv k x OVERLAPPED_BUFIZE) x (ov_upd x f (cview c)) = (r, cview c')"
    using arg_cong [OF a, of "cview \<circ> snd"] arg_cong [OF a, of fst] cview_ops(5,6) cview_ops(1)
    by (metis comp_apply fst_conv prod.exhaust_sel snd_conv)
  with a show ?thesis
    by (simp add: Reserve_WSAReceive_def Client_Reserve_WSAReceive_def Let_def bindE_def assertE_def
        f_def split: sum.splits)
qed

lemma client_body_None:
  assumes "recv_body env x 0 (cview c) = None"
  shows "client_body env x c = None"
  using assms by (simp add: recv_body_def client_body_def Let_def split: if_splits)

lemma cview_cback:
  "cview (cback c s) = (cview c)\<lparr>Available_Overlapped := Available_Overlapped s, sheap := sheap s,
     Recv_Data_Queue := Recv_Data_Queue s\<rparr>"
  by (simp add: cview_def cback_def)

lemma cback_cview: "cback c (cview c) = c"
  by (simp add: cback_def)

lemma cback_frame [simp]:
  "g_Server_Socket (cback c s) = g_Server_Socket c" "csys (cback c s) = csys c"
  "c_Send_Data_Queue (cback c s) = c_Send_Data_Queue c" "server_socket (cback c s) = server_socket c"
  "Is_Server_Connect_Success (cback c s) = Is_Server_Connect_Success c"
  "c_Is_Exit (cback c s) = c_Is_Exit c" "cback (cback c s) s' = cback c s'"
  by (simp_all add: cback_def server_socket_def)

lemma Client_Push_cback:
  assumes "Client_Push_RecvData env q x pull c = Ok (True, c')"
  shows "c' = cback c (cview c')"
  using assms
  by (auto simp: Client_Push_RecvData_def bindE_eq_Ok_iff cback_def cli_upd_def Let_def
      split: if_splits prod.splits)

lemma client_body_pushes:
  assumes ss: "g_Server_Socket c = Some ss" and body: "recv_body env x 0 (cview c) = Some (Ok (True, s'))"
  shows "client_body env x c = Some (Ok (True, cback c s'))" and "cview (cback c s') = s'"
proof -
  define v where "v = cli_at c x"
  define tot where "tot = packet_total (read_u64 (m_Processing_Packet_Buffer v))"
  obtain blk where guards: "\<not> m_Processed_Packet_Size v \<le> 0"
      "\<not> m_Processed_Packet_Size v < word_of_nat PACKET_HEADER_SIZE" "\<not> m_Processed_Packet_Size v < tot"
    and blk: "memcpy_s (replicate (unat tot) 0) 0 (unat tot)
       (m_Processing_Packet_Buffer v) (unat tot) = Ok blk"
    and push': "(case heap_alloc (Packet_Block blk) (sheap (cview c)) of (q, h) \<Rightarrow>
       Push_RecvData env q 0 x tot ((cview c)\<lparr>sheap := h\<rparr>)) = Ok (True, s')"
    using body unfolding recv_body_def Let_def cview_fields(10) v_def [symmetric] tot_def [symmetric]
    by (auto simp only: bindE_eq_Ok_iff option.inject split: if_splits)
  obtain q h where alloc: "heap_alloc (Packet_Block blk) (cheap c) = (q, h)"
    by force
  let ?c = "c\<lparr>cheap := h\<rparr>"
  have push: "Push_RecvData env q 0 x tot (cview ?c) = Ok (True, s')"
    using push' alloc by simp
  have hp: "heap_packet q (cheap ?c) = Ok blk"
    using alloc by (auto simp: heap_alloc_def heap_packet_def)
  with push obtain t where t: "get_Packet_Type blk = Ok t" "t \<noteq> PACKET_TYPE_NONE"
    by (auto simp: Push_RecvData_def bindE_eq_Ok_iff split: if_splits)
  have sk: "g_Server_Socket ?c = Some ss"
    using ss by simp
  from push obtain c' where c': "Client_Push_RecvData env q x tot ?c = Ok (True, c')" "s' = cview c'"
    unfolding Push_sim [OF hp t sk] by (auto simp: bindE_eq_Ok_iff)
  have "c' = cback ?c s'"
    using Client_Push_cback [OF c'(1)] c'(2) by simp
  then have eq: "c' = cback c s'"
    by (simp add: cback_def)
  show "client_body env x c = Some (Ok (True, cback c s'))"
    using guards blk alloc c'(1)
    by (simp add: client_body_def Let_def v_def [symmetric] tot_def [symmetric] eq [symmetric])
  show "cview (cback c s') = s'"
    using c'(2) eq by simp
qed

text \<open>The two ways out of the loop that end the connection, or worse.\<close>

definition client_discard :: "client \<Rightarrow> client" where
  "client_discard c =
     c\<lparr>cheap := \<lparr>cells = (cells (cheap c))(next_ptr (cheap c) := None), next_ptr = Suc (next_ptr (cheap c))\<rparr>\<rparr>"

definition client_kicked :: "os \<Rightarrow> nat \<Rightarrow> client \<Rightarrow> (bool \<times> client) res" where
  "client_kicked env x c = bindE (close_and_reset env x (client_discard c)) (\<lambda>c. Ok (False, c))"

lemma client_body_kicks:
  assumes ss: "g_Server_Socket c = Some ss" and ok: "ov_ok (cli_at c x)" and qs: "srv_queues_ok (cview c)"
    and nowrap: "PACKET_HEADER_SIZE + unat (read_u64 (srv_pend x (cview c))) < 2 ^ 64"
    and full: "PACKET_HEADER_SIZE + unat (read_u64 (srv_pend x (cview c))) \<le> length (srv_pend x (cview c))"
    and type: "read_u16 (drop 8 (srv_pend x (cview c))) = PACKET_TYPE_NONE"
  shows "client_body env x c = Some (client_kicked env x c)"
proof -
  define P where "P = decode_packet (srv_pend x (cview c))"
  define v where "v = cli_at c x"
  define tot where "tot = packet_total (read_u64 (m_Processing_Packet_Buffer v))"
  have ok': "ov_ok (ov_at (cview c) x)"
    using ok by simp
  note front = recv_body_front [OF ok' nowrap full, unfolded cview_fields(10), folded v_def, folded tot_def P_def]
  have len: "unat tot \<le> length (m_Processing_Packet_Buffer v)" "\<not> m_Processed_Packet_Size v < tot"
    using front(2) ok by (auto simp: word_le_iff_unat word_less_iff_unat ov_ok_def v_def)
  have "PACKET_HEADER_SIZE \<le> unat (m_Processed_Packet_Size v)"
    using front(1,2) by (simp add: word_le_iff_unat)
  then have guards: "\<not> m_Processed_Packet_Size v \<le> 0"
      "\<not> m_Processed_Packet_Size v < word_of_nat PACKET_HEADER_SIZE"
    by (auto simp: word_less_iff_unat word_le_iff_unat PACKET_HEADER_SIZE_def)
  have blk: "memcpy_s (replicate (unat tot) 0) 0 (unat tot) (m_Processing_Packet_Buffer v) (unat tot)
      = Ok (encode_packet P)"
    using len(1) unfolding front(3) [symmetric] by (simp add: memcpy_s_def mem_write_0)
  obtain q h where alloc: "heap_alloc (Packet_Block (encode_packet P)) (cheap c) = (q, h)"
    by force
  have cell: "cells h q = Some (Packet_Block (encode_packet P))"
    using alloc by (auto simp: heap_alloc_def)
  have "h\<lparr>cells := (cells h)(q := None)\<rparr> = cheap (client_discard c)"
    using alloc by (auto simp: heap_alloc_def client_discard_def)
  moreover have "fst P = PACKET_TYPE_NONE"
    using type by (simp add: P_def decode_packet_def)
  ultimately have "Client_Push_RecvData env q x tot (c\<lparr>cheap := h\<rparr>) = client_kicked env x c"
    using cell ss
    by (simp add: Client_Push_RecvData_def heap_packet_eq heap_free_eq get_type_encode server_socket_def
        client_kicked_def client_discard_def)
  then show ?thesis
    using guards len(2) blk alloc by (simp add: client_body_def Let_def v_def [symmetric] tot_def [symmetric])
qed

lemma client_body_over_reads:
  assumes ok: "ov_ok (cli_at c x)" and long: "PACKET_HEADER_SIZE \<le> length (srv_pend x (cview c))"
    and wrap: "2 ^ 64 \<le> PACKET_HEADER_SIZE + unat (read_u64 (srv_pend x (cview c)))"
  shows "client_body env x c = Some (Fault Over_Read)"
proof -
  have pend: "srv_pend x (cview c) = ov_pending (cli_at c x)"
    by (simp add: srv_pend_def)
  note w = wrapping_front [OF ok long [unfolded pend] wrap [unfolded pend]]
  obtain blk where blk: "memcpy_s (replicate (unat (packet_total (read_u64 (m_Processing_Packet_Buffer (cli_at c x))))) 0) 0
      (unat (packet_total (read_u64 (m_Processing_Packet_Buffer (cli_at c x)))))
      (m_Processing_Packet_Buffer (cli_at c x))
      (unat (packet_total (read_u64 (m_Processing_Packet_Buffer (cli_at c x))))) = Ok blk"
    "get_Packet_Type blk = Fault Over_Read"
    using w(1) by blast
  obtain q h where alloc: "heap_alloc (Packet_Block blk) (cheap c) = (q, h)"
    by force
  then have "heap_packet q h = Ok blk"
    by (auto simp: heap_alloc_def heap_packet_def)
  then show ?thesis
    using blk alloc w(2,3,4) by (simp add: client_body_def Let_def Client_Push_RecvData_def)
qed

section \<open>The client's loop satisfies the same contract\<close>

definition client_good :: "nat \<Rightarrow> sock \<Rightarrow> client \<Rightarrow> client \<Rightarrow> bool" where
  "client_good x k d c \<longleftrightarrow> recv_good x 0 k (cview d) (cview c) \<and> c = cback d (cview c)"

definition client_pend :: "nat \<Rightarrow> client \<Rightarrow> byte list" where
  "client_pend x c = srv_pend x (cview c)"

definition client_delivered :: "client \<Rightarrow> client \<Rightarrow> packet list" where
  "client_delivered d c = recv_delivered (cview d) (cview c)"

definition client_push_front :: "nat \<Rightarrow> sock \<Rightarrow> client \<Rightarrow> client" where
  "client_push_front x k c = cback c (push_front x k (cview c))"

lemma client_good_sock:
  assumes "client_good x k d c"
  shows "\<exists>ss. g_Server_Socket c = Some ss \<and> ss_Socket ss = k" and "g_Server_Socket c = g_Server_Socket d"
    and "ov_ok (cli_at c x)" and "srv_queues_ok (cview c)"
proof -
  have good: "recv_good x 0 k (cview d) (cview c)" and "c = cback d (cview c)"
    using assms by (simp_all add: client_good_def)
  show "\<exists>ss. g_Server_Socket c = Some ss \<and> ss_Socket ss = k"
    using recv_good_sock [OF good] by simp
  show "ov_ok (cli_at c x)" "srv_queues_ok (cview c)"
    using good by (simp_all add: recv_good_def)
  show "g_Server_Socket c = g_Server_Socket d"
    using \<open>c = cback d (cview c)\<close> cback_frame(1) by metis
qed

interpretation cli: receive_loop "client_loop env x" "client_good x k d" "client_pend x"
  "client_delivered d" "client_push_front x k" "client_kicked env x"
  for env x k d
proof unfold_locales
  fix c
  assume good: "client_good x k d c"
  have sg: "recv_good x 0 k (cview d) (cview c)" and cb0: "c = cback d (cview c)"
    using good by (simp_all add: client_good_def)
  obtain ss where ss: "g_Server_Socket c = Some ss" "ss_Socket ss = k"
    using client_good_sock(1) [OF good] by blast
  note ok = client_good_sock(3,4) [OF good]
  show "client_loop env x c = Ok (True, c)" if "length (client_pend x c) < PACKET_HEADER_SIZE"
    using client_body_None [OF loop_stops [OF sg]] that
    by (subst client_loop.simps) (simp add: client_pend_def)
  show "client_loop env x c = Ok (True, c)"
    if "PACKET_HEADER_SIZE \<le> length (client_pend x c)"
      "PACKET_HEADER_SIZE + unat (read_u64 (client_pend x c)) < 2 ^ 64"
      "length (client_pend x c) < PACKET_HEADER_SIZE + unat (read_u64 (client_pend x c))"
    using client_body_None [OF loop_stops [OF sg]] that
    by (subst client_loop.simps) (simp add: client_pend_def)
  show "client_loop env x c = Fault Over_Read"
    if "PACKET_HEADER_SIZE \<le> length (client_pend x c)"
      "2 ^ 64 \<le> PACKET_HEADER_SIZE + unat (read_u64 (client_pend x c))"
    using client_body_over_reads [OF ok(1) that [unfolded client_pend_def], of env]
    by (subst client_loop.simps) simp
  assume full: "PACKET_HEADER_SIZE + unat (read_u64 (client_pend x c)) < 2 ^ 64"
    "PACKET_HEADER_SIZE + unat (read_u64 (client_pend x c)) \<le> length (client_pend x c)"
  note full' = full [unfolded client_pend_def]
  show "client_loop env x c = client_kicked env x c"
    if "read_u16 (drop 8 (client_pend x c)) = PACKET_TYPE_NONE"
    using client_body_kicks [OF ss(1) ok full', of env] that
    by (subst client_loop.simps)
      (auto simp: client_pend_def client_kicked_def bindE_def split: sum.splits)
  assume type: "read_u16 (drop 8 (client_pend x c)) \<noteq> PACKET_TYPE_NONE"
  note push = loop_pushes [OF sg full' type [unfolded client_pend_def]]
  note cb = client_body_pushes [OF ss(1) push(1)]
  have "client_push_front x k c = cback d (cview (client_push_front x k c))"
    using cb0 cb(2) by (metis client_push_front_def cback_frame(7))
  with push cb show "client_loop env x c = client_loop env x (client_push_front x k c)
      \<and> client_good x k d (client_push_front x k c)
      \<and> client_pend x (client_push_front x k c)
        = drop (PACKET_HEADER_SIZE + unat (read_u64 (client_pend x c))) (client_pend x c)
      \<and> client_delivered d (client_push_front x k c) = client_delivered d c @ [decode_packet (client_pend x c)]"
    by (subst client_loop.simps)
      (simp add: client_good_def client_pend_def client_delivered_def client_push_front_def)
qed

end
