(* ===== verification/DH_ClientStream.thy ===== *)
theory DH_ClientStream
  imports DH_ClientRecv DH_ServerStream
begin

text \<open>
  What the client's receive handler does with \<open>n\<close> received bytes, whatever they are, and that it is
  a stream receiver as the server's is. The connection either goes on with the receive armed again,
  or it is closed: the socket is invalid and the flag of the connection is off.
\<close>

section \<open>The outcome of the handler\<close>

definition client_start :: "u32 \<Rightarrow> nat \<Rightarrow> client \<Rightarrow> client" where
  "client_start n x c = cli_upd x (\<lambda>v. v\<lparr>m_Data_Size := ucast n\<rparr>) c"

lemma client_start_view [simp]: "cview (client_start n x c) = recv_start n x (cview c)"
  by (simp add: client_start_def recv_start_def DHDEBUG_NONE_def DHDEBUG_SIMPLE_def)

lemma client_start_frame [simp]:
  "g_Server_Socket (client_start n x c) = g_Server_Socket c" "csys (client_start n x c) = csys c"
  "c_Send_Data_Queue (client_start n x c) = c_Send_Data_Queue c"
  "Is_Server_Connect_Success (client_start n x c) = Is_Server_Connect_Success c"
  "c_Is_Exit (client_start n x c) = c_Is_Exit c" "cheap (client_start n x c) = cheap c"
  "c_Recv_Data_Queue (client_start n x c) = c_Recv_Data_Queue c"
  by (simp_all add: client_start_def cli_upd_def)

lemma cback_upd: "cback c (ov_upd x f (cview c)) = cli_upd x f c"
  by (simp add: cback_def cli_upd_def ov_upd_def cli_at_def)

lemma Client_BackUp_back:
  "Client_BackUp_Overlapped env x c =
     bindE (BackUp_Overlapped env x (cview c)) (\<lambda>(b, s). Ok (b, cback c s))"
  by (simp add: BackUp_Overlapped_def Client_BackUp_Overlapped_def Let_def bindE_def assertE_def
      cback_upd cback_cview split: sum.splits)

lemma Client_IOFunction_Recv_start:
  assumes "0 < n"
  shows "Client_IOFunction_Recv env n x c =
    bindE (Client_BackUp_Overlapped env x (client_start n x c)) (\<lambda>(ok, c).
       if \<not> ok then close_and_reset env x c
       else bindE (client_loop env x c) (\<lambda>(go_on, c). if go_on then client_rearm env x c else Ok c))"
proof -
  have "\<not> n \<le> 0"
    using assms by (simp add: not_le)
  then show ?thesis
    unfolding Client_IOFunction_Recv_def client_start_def Let_def by (simp only: if_False)
qed

lemma cli_inv_known: "cli_inv (x # held) c \<Longrightarrow> ov_ok (cli_at c x)"
  using srv_owns_known [of "x # held" "cview c" x] by (simp add: cli_inv_iff)

lemma Client_Recv_too_long:
  assumes "cli_inv (x # held) c" and "0 < n" and "unat n \<le> OVERLAPPED_BUFIZE"
    and "MAX_PACKET_SIZE < length (client_pend x c) + unat n"
  shows "Client_IOFunction_Recv env n x c =
    (if debug_build env then Fault Assert_Fail else close_and_reset env x (client_start n x c))"
proof -
  have ok: "ov_ok (ov_at (cview c) x)"
    using cli_inv_known [OF assms(1)] by simp
  have "Client_BackUp_Overlapped env x (client_start n x c) =
      bindE (assertE env False) (\<lambda>_. Ok (False, client_start n x c))"
    unfolding Client_BackUp_back client_start_view BackUp_effect(1) [OF ok assms(3) assms(4)[unfolded client_pend_def]]
    by (simp add: assertE_def cback_cview flip: client_start_view)
  then show ?thesis
    by (simp add: Client_IOFunction_Recv_start [OF assms(2)] assertE_def)
qed

text \<open>Only the pool, the heap and the receive queue changed, and of the pool only \<open>x\<close>.\<close>

definition client_kept :: "nat \<Rightarrow> client \<Rightarrow> client \<Rightarrow> bool" where
  "client_kept x c c1 \<longleftrightarrow> c1 = cback c (cview c1)
     \<and> (\<forall>y. y \<noteq> x \<longrightarrow> cli_at c1 y = cli_at c y) \<and> m_Socket (cli_at c1 x) = m_Socket (cli_at c x)"

lemma client_keptD:
  assumes "client_kept x c c1"
  shows "g_Server_Socket c1 = g_Server_Socket c" "csys c1 = csys c"
    "Is_Server_Connect_Success c1 = Is_Server_Connect_Success c" "c_Is_Exit c1 = c_Is_Exit c"
    "c_Send_Data_Queue c1 = c_Send_Data_Queue c" "m_Socket (cli_at c1 x) = m_Socket (cli_at c x)"
    "y \<noteq> x \<Longrightarrow> cli_at c1 y = cli_at c y"
proof -
  have "c1 = cback c (cview c1)"
    using assms by (simp add: client_kept_def)
  from arg_cong [OF this, of g_Server_Socket] arg_cong [OF this, of csys]
    arg_cong [OF this, of Is_Server_Connect_Success] arg_cong [OF this, of c_Is_Exit]
    arg_cong [OF this, of c_Send_Data_Queue]
  show "g_Server_Socket c1 = g_Server_Socket c" "csys c1 = csys c"
    "Is_Server_Connect_Success c1 = Is_Server_Connect_Success c" "c_Is_Exit c1 = c_Is_Exit c"
    "c_Send_Data_Queue c1 = c_Send_Data_Queue c"
    by (simp_all only: cback_frame)
  show "m_Socket (cli_at c1 x) = m_Socket (cli_at c x)" "y \<noteq> x \<Longrightarrow> cli_at c1 y = cli_at c y"
    using assms by (simp_all add: client_kept_def)
qed

lemma same_but_recv_refl: "same_but_recv x s s"
  by (simp add: same_but_recv_def pool_write_def ov_proc_def ov_at_def)

lemma cli_sends_view: "cli_sends c = map snd (srv_sends (cview c))"
  by (simp add: cli_sends_def srv_sends_def send_view_def map_snd_zip del: map_map)

text \<open>The state in which the loop over the packets starts.\<close>

lemma client_backed_up:
  assumes inv: "cli_inv (x # held) c" and sock: "g_Server_Socket c = Some ss" "ss_Socket ss = k"
    and n: "0 < n" "unat n \<le> OVERLAPPED_BUFIZE"
    and fits: "length (client_pend x c) + unat n \<le> MAX_PACKET_SIZE"
  obtains d f buf where "Client_IOFunction_Recv env n x c =
      bindE (client_loop env x d) (\<lambda>(go_on, c). if go_on then client_rearm env x c else Ok c)"
    and "srv_inv (x # held) (cview d)" and "client_good x k d d"
    and "srv_msgs (cview d) = cli_msgs c" and "srv_sends (cview d) = srv_sends (cview c)"
    and "client_pend x d = client_pend x c @ recv_chunk n x (cview c)"
    and "d = cli_upd x f (client_start n x c)" and "f = ov_append buf"
proof -
  let ?c0 = "client_start n x c" and ?s0 = "recv_start n x (cview c)"
  have ok0: "ov_ok (ov_at (cview c) x)"
    using cli_inv_known [OF inv] by simp
  from BackUp_effect(2) [OF ok0 n(2) fits [unfolded client_pend_def], of env] obtain f buf where
    bk: "BackUp_Overlapped env x ?s0 = Ok (True, ov_upd x f ?s0)" and ok: "ov_ok (f (ov_at ?s0 x))"
    and pend: "ov_pending (f (ov_at ?s0 x)) = client_pend x c @ recv_chunk n x (cview c)"
    and f: "f = ov_append buf"
    unfolding client_pend_def by blast
  define d where "d = cli_upd x f ?c0"
  have dv: "cview d = ov_upd x f ?s0"
    by (simp add: d_def)
  have inv0: "srv_inv (x # held) ?s0"
    using inv by (simp add: cli_inv_def recv_start_inv)
  have inv_d: "srv_inv (x # held) (cview d)"
    using inv0 ok srv_owns_upd [of "x # held" ?s0 f x] same_but_io_prims(1) [of ?s0 x f]
    unfolding dv by (intro srv_inv_io [OF same_but_io_prims(1) _ inv0]) (simp add: srv_inv_def)
  have io: "same_but_io ?s0 (cview d)"
    by (simp add: dv)
  have "same_but_recv x (cview d) (cview d)"
    by (rule same_but_recv_refl)
  moreover have "socket_mem (cview d) 0 = Some ss"
    using sock same_but_ioD(11) [OF io] by simp
  moreover have "ov_ok (ov_at (cview d) x)"
    using ok by (simp add: dv)
  ultimately have "recv_good x 0 k (cview d) (cview d)"
    using inv_d sock unfolding recv_good_def srv_inv_def by fastforce
  then have good: "client_good x k d d"
    by (simp add: client_good_def cback_cview)
  show thesis
  proof (rule that [OF _ inv_d good _ _ _ d_def f])
    show "Client_IOFunction_Recv env n x c =
      bindE (client_loop env x d) (\<lambda>(go_on, c). if go_on then client_rearm env x c else Ok c)"
      using bk cback_upd [of ?c0 x f]
      by (simp add: Client_IOFunction_Recv_start [OF n(1)] Client_BackUp_back d_def)
    show "srv_msgs (cview d) = cli_msgs c" "srv_sends (cview d) = srv_sends (cview c)"
      by (simp_all add: srv_queues_io [OF io] cli_msgs_view) (simp_all add: srv_msgs_def srv_sends_def)
    show "client_pend x d = client_pend x c @ recv_chunk n x (cview c)"
      using pend by (simp add: client_pend_def srv_pend_def dv)
  qed
qed

lemma client_good_kept:
  assumes good: "client_good x k d c1" and d: "d = cli_upd x f (client_start n x c)" "f = ov_append buf"
  shows "client_kept x c c1"
proof -
  have "same_but_recv x (cview d) (cview c1)" and back1: "c1 = cback d (cview c1)"
    using good by (simp_all add: client_good_def recv_good_def)
  then have pool: "c_Available_Overlapped c1 = pool_write x (ov_proc (cli_at c1 x)) (c_Available_Overlapped d)"
    by (simp add: same_but_recv_def)
  have at: "cli_at c1 y = (if y = x then ov_proc (cli_at c1 x) (cli_at d x) else cli_at d y)" for y
    using arg_cong [OF pool, of "\<lambda>p. obj_mem p y"] by (simp add: cli_at_def)
  have at_d: "cli_at d y = (if y = x then f ((cli_at c x)\<lparr>m_Data_Size := ucast n\<rparr>) else cli_at c y)" for y
    by (simp add: d(1) client_start_def cli_at_def cli_upd_def)
  show ?thesis
    unfolding client_kept_def
  proof (intro conjI allI impI)
    have "cback d (cview c1) = cback c (cview c1)"
      by (simp add: d(1) client_start_def cli_upd_def cback_def)
    with back1 show "c1 = cback c (cview c1)"
      by simp
    show "cli_at c1 y = cli_at c y" if "y \<noteq> x" for y
      using at [of y] at_d [of y] that by simp
    show "m_Socket (cli_at c1 x) = m_Socket (cli_at c x)"
      using arg_cong [OF at [of x], of m_Socket] by (simp add: at_d ov_proc_def d(2) ov_append_def)
  qed
qed

lemma Client_IOFunction_Recv_outcome:
  assumes inv: "cli_inv (x # held) c" and sock: "g_Server_Socket c = Some ss" "ss_Socket ss = k"
    and n: "0 < n" "unat n \<le> OVERLAPPED_BUFIZE"
    and fits: "length (client_pend x c) + unat n \<le> MAX_PACKET_SIZE"
    and parse: "spec_parse (client_pend x c @ recv_chunk n x (cview c)) = (ps, r, e)"
  shows "\<exists>c1. cli_inv (x # held) c1 \<and> client_kept x c c1
      \<and> cli_msgs c1 = cli_msgs c @ map (Pair k) ps \<and> cli_sends c1 = cli_sends c
      \<and> (case e of
           Need_More \<Rightarrow> client_pend x c1 = r \<and> Client_IOFunction_Recv env n x c = client_rearm env x c1
         | No_Type \<Rightarrow> Client_IOFunction_Recv env n x c = close_and_reset env x (client_discard c1)
         | Size_Wraps \<Rightarrow> Client_IOFunction_Recv env n x c = Fault Over_Read)"
proof -
  obtain d f buf where run: "Client_IOFunction_Recv env n x c =
      bindE (client_loop env x d) (\<lambda>(go_on, c). if go_on then client_rearm env x c else Ok c)"
    and inv_d: "srv_inv (x # held) (cview d)" and good: "client_good x k d d"
    and msgs: "srv_msgs (cview d) = cli_msgs c" "srv_sends (cview d) = srv_sends (cview c)"
    and pend: "client_pend x d = client_pend x c @ recv_chunk n x (cview c)"
    and d: "d = cli_upd x f (client_start n x c)" "f = ov_append buf"
    by (rule client_backed_up [OF inv sock n fits, where env = env])
  from cli.loop_outcome [OF good, of _ _ _ env] parse pend obtain c1 where
    c1: "client_good x k d c1" "client_delivered d c1 = client_delivered d d @ ps"
    and out: "case e of Need_More \<Rightarrow> client_pend x c1 = r \<and> client_loop env x d = Ok (True, c1)
        | Size_Wraps \<Rightarrow> client_loop env x d = Fault Over_Read
        | No_Type \<Rightarrow> client_loop env x d = client_kicked env x c1"
    by metis
  have "bindE (client_kicked env x c1) (\<lambda>(go_on, c). if go_on then client_rearm env x c else Ok c)
      = close_and_reset env x (client_discard c1)"
    by (simp add: client_kicked_def bindE_def split: sum.splits)
  with run out have res: "case e of
        Need_More \<Rightarrow> client_pend x c1 = r \<and> Client_IOFunction_Recv env n x c = client_rearm env x c1
      | No_Type \<Rightarrow> Client_IOFunction_Recv env n x c = close_and_reset env x (client_discard c1)
      | Size_Wraps \<Rightarrow> Client_IOFunction_Recv env n x c = Fault Over_Read"
    by (auto split: parse_end.splits)
  have rg: "recv_good x 0 k (cview d) (cview c1)"
    using c1(1) by (simp add: client_good_def)
  have "recv_delivered (cview d) (cview d) = []"
    by (simp add: recv_delivered_def)
  then have "cli_msgs c1 = cli_msgs c @ map (Pair k) ps"
    using recv_good_msgs [OF rg] c1(2) msgs(1) by (simp add: client_delivered_def cli_msgs_view)
  moreover have "cli_sends c1 = cli_sends c"
    using rg msgs by (simp add: recv_good_def cli_sends_view)
  moreover have "cli_inv (x # held) c1"
    using recv_good_inv [OF rg inv_d] by (simp add: cli_inv_def)
  ultimately show ?thesis
    using client_good_kept [OF c1(1) d] res by blast
qed

section \<open>The handler keeps the invariant\<close>

definition client_closed :: "client \<Rightarrow> bool" where
  "client_closed c \<longleftrightarrow> \<not> Is_Server_Connect_Success c \<and> server_socket c = Ok INVALID_SOCKET"

definition cli_rearmed :: "client \<Rightarrow> sock \<Rightarrow> bool" where
  "cli_rearmed c k \<longleftrightarrow> (\<exists>x \<in> set (in_flight (csys c)).
     m_IOType (cli_at c x) = IOType_Recv \<and> m_Socket (cli_at c x) = k)"

definition cli_flights :: "client \<Rightarrow> client \<Rightarrow> bool" where
  "cli_flights c c' \<longleftrightarrow> flight_kept (cview c) (cview c')"

lemma cli_flights_refl [simp, intro]: "cli_flights c c"
  by (simp add: cli_flights_def)

lemma cli_flights_trans [trans]: "cli_flights c c' \<Longrightarrow> cli_flights c' c'' \<Longrightarrow> cli_flights c c''"
  unfolding cli_flights_def by (rule flight_kept_trans)

lemma cli_flightsI:
  "set (in_flight (csys c)) \<subseteq> set (in_flight (csys c')) \<Longrightarrow>
   (\<And>y. y \<in> set (in_flight (csys c)) \<Longrightarrow> cli_at c' y = cli_at c y) \<Longrightarrow> cli_flights c c'"
  by (simp add: cli_flights_def flight_kept_def)

lemma cli_rearmed_kept: "cli_flights c c' \<Longrightarrow> cli_rearmed c k \<Longrightarrow> cli_rearmed c' k"
  unfolding cli_rearmed_def cli_flights_def flight_kept_def cview_fields by (metis subsetD)

lemma cli_at_reset [simp]:
  "cli_at (cli_reset env x c) y =
     (if y = x then Overlapped_Struct_ctor (Overlapped_Struct_dtor (cli_at c x)) else cli_at c y)"
  using ov_at_reset [of env x "cview c" y] by (simp flip: cview_ops)

text \<open>The operations a client starts are receives and sends; \<open>new_io k\<close>: and they are on the socket \<open>k\<close>.\<close>

definition new_io :: "sock \<Rightarrow> server \<Rightarrow> server \<Rightarrow> bool" where
  "new_io k s s' \<longleftrightarrow> (\<forall>y \<in> set (in_flight (ssys s')) - set (in_flight (ssys s)).
     m_Socket (ov_at s' y) = k \<and> m_IOType (ov_at s' y) \<in> {IOType_Recv, IOType_Send})"

lemma new_io_same [simp, intro]: "in_flight (ssys s') = in_flight (ssys s) \<Longrightarrow> new_io k s s'"
  by (simp add: new_io_def)

lemma new_io_trans:
  "new_io k s s' \<Longrightarrow> new_io k s' s'' \<Longrightarrow> flight_kept s' s'' \<Longrightarrow> new_io k s s''"
  unfolding new_io_def flight_kept_def by (metis DiffD1 DiffD2 DiffI)

lemma new_io_async:
  "srv_async env c x s = (r, s') \<Longrightarrow> m_Socket (ov_at s x) = k \<Longrightarrow>
   m_IOType (ov_at s x) \<in> {IOType_Recv, IOType_Send} \<Longrightarrow> new_io k s s'"
  using srv_async_in_flight [of env c x s] ov_at_simps(2) [of env c x s]
  by (auto simp: new_io_def)

text \<open>What a handler of an operation on the socket \<open>j\<close> may do to the client.\<close>

definition client_after :: "sock \<Rightarrow> nat list \<Rightarrow> client \<Rightarrow> client \<Rightarrow> bool" where
  "client_after j held c c' \<longleftrightarrow> cli_inv held c' \<and> cli_flights c c'
     \<and> new_io j (cview c) (cview c') \<and> cli_sends c' = cli_sends c
     \<and> c_Is_Exit c' = c_Is_Exit c \<and> g_Server_Socket c' \<noteq> None
     \<and> (client_closed c'
        \<or> g_Server_Socket c' = g_Server_Socket c
          \<and> Is_Server_Connect_Success c' = Is_Server_Connect_Success c \<and> cli_rearmed c' j)"

lemma client_after_trans:
  assumes "cli_flights c c1" and "in_flight (csys c1) = in_flight (csys c)"
    and "cli_sends c1 = cli_sends c" and "c_Is_Exit c1 = c_Is_Exit c"
    and "g_Server_Socket c1 = g_Server_Socket c"
    and "Is_Server_Connect_Success c1 = Is_Server_Connect_Success c" and "client_after j held c1 c'"
  shows "client_after j held c c'"
proof -
  have "new_io j (cview c) (cview c')"
    using assms(2,7) new_io_trans [of j "cview c" "cview c1" "cview c'"]
    by (simp add: client_after_def cli_flights_def new_io_same)
  then show ?thesis
    using assms cli_flights_trans unfolding client_after_def by auto
qed

lemma cli_inv_not_in_flight: "cli_inv (x # held) c \<Longrightarrow> x \<notin> set (in_flight (csys c))"
  by (simp add: cli_inv_iff srv_owns_def op_owns_def)

lemma close_and_reset_after:
  assumes inv: "cli_inv (x # held) c" and sock: "g_Server_Socket c = Some ss"
  shows "\<exists>c'. close_and_reset env x c = Ok c' \<and> client_after j held c c' \<and> client_closed c'
    \<and> cli_msgs c' = cli_msgs c"
proof -
  obtain c1 where c1: "Safe_CloseSocket env c = Ok c1" "\<not> Is_Server_Connect_Success c1"
    "server_socket c1 = Ok INVALID_SOCKET" "cli_at c1 = cli_at c" "in_flight (csys c1) = in_flight (csys c)"
    "cli_msgs c1 = cli_msgs c" "cli_sends c1 = cli_sends c" "\<And>held. cli_inv held c1 = cli_inv held c"
    "g_Server_Socket c1 = Some (ss\<lparr>ss_Socket := INVALID_SOCKET\<rparr>)" "c_Is_Exit c1 = c_Is_Exit c"
    by (rule Safe_CloseSocket_effect [OF sock, where env = env]) blast
  let ?c = "cli_reset env x c1"
  have same: "cli_same c1 ?c"
    by simp
  have own: "srv_owns held (cview ?c)"
    using inv c1(8) [of "x # held"] srv_owns_reset [of x held "cview c1" env]
    by (simp add: cli_inv_iff)
  have "cli_inv held ?c"
    using cli_inv_same [OF same own] inv c1(8) by blast
  moreover have "cli_flights c ?c"
  proof (rule cli_flightsI)
    show "set (in_flight (csys c)) \<subseteq> set (in_flight (csys ?c))"
      using c1(5) by (simp add: cli_reset_def)
    show "cli_at ?c y = cli_at c y" if "y \<in> set (in_flight (csys c))" for y
      using that cli_inv_not_in_flight [OF inv] c1(4) by auto
  qed
  moreover have "client_closed ?c"
    using c1 cli_sameD [OF same] by (simp add: client_closed_def)
  moreover have "new_io j (cview c) (cview ?c)"
  proof (rule new_io_same)
    have "csys ?c = csys c1"
      by (simp add: cli_reset_def)
    with c1(5) show "in_flight (ssys (cview ?c)) = in_flight (ssys (cview c))"
      unfolding cview_fields(6) by simp
  qed
  ultimately show ?thesis
    using c1 cli_sameD [OF same] by (simp add: close_and_reset_def client_after_def)
qed

text \<open>Re-arming a structure the handler holds.\<close>

lemma Client_Reserve_Some:
  assumes inv: "cli_inv (x # held) c" and j: "j \<noteq> INVALID_SOCKET"
  shows "\<exists>ok c1. Client_Reserve_WSAReceive env j (Some x) c = Ok (ok, c1) \<and> cli_same c c1
    \<and> cli_inv (if ok then held else x # held) c1
    \<and> in_flight (csys c1) = (if ok then x # in_flight (csys c) else in_flight (csys c))
    \<and> (\<forall>y. cli_at c1 y = (if y = x then (cli_at c x)\<lparr>m_IOType := IOType_Recv, m_Socket := j,
                       m_WSABUF_len := word_of_nat OVERLAPPED_BUFIZE\<rparr> else cli_at c y))
    \<and> cli_flights c c1 \<and> new_io j (cview c) (cview c1) \<and> (ok \<longrightarrow> cli_rearmed c1 j)
    \<and> (recv_accepted env \<longrightarrow> ok)"
proof -
  have own: "srv_owns (x # held) (cview c)"
    using inv by (simp add: cli_inv_iff)
  obtain ok c1 where res: "Client_Reserve_WSAReceive env j (Some x) c = Ok (ok, c1)"
    and res': "Reserve_WSAReceive env j (Some x) (cview c) = Ok (ok, cview c1)"
  proof -
    obtain ok s1 where "Reserve_WSAReceive env j (Some x) (cview c) = Ok (ok, s1)"
      using Reserve_Ok [OF j own, of env "Some x"] by blast
    then show ?thesis
      using that unfolding Reserve_sim by (auto simp: bindE_eq_Ok_iff)
  qed
  note eff = Reserve_effect [OF own res']
  have fl: "in_flight (csys c1) = (if ok then x # in_flight (csys c) else in_flight (csys c))"
    and x1: "cli_at c1 y = (if y = x then (cli_at c x)\<lparr>m_IOType := IOType_Recv, m_Socket := j,
                       m_WSABUF_len := word_of_nat OVERLAPPED_BUFIZE\<rparr> else cli_at c y)" for y
    using eff(4,5) by auto
  have "cli_same c (cli_upd x f c)" for f by simp
  then have same: "cli_same c c1"
    using res by (auto simp: Client_Reserve_WSAReceive_def bindE_eq_Ok_iff Let_def cli_async_def cli_same_def
        cli_upd_def split: prod.splits if_splits)
  have inv1: "cli_inv (if ok then held else x # held) c1"
    using cli_inv_same [OF same _ inv] eff(2) by (cases ok) auto
  have flights: "cli_flights c c1"
    using fl x1 cli_inv_not_in_flight [OF inv] by (intro cli_flightsI) auto
  have new: "new_io j (cview c) (cview c1)"
    using fl x1 by (auto simp: new_io_def split: if_splits)
  have armed: "cli_rearmed c1 j" if ok
    using that fl x1 unfolding cli_rearmed_def by (intro bexI [of _ x]) auto
  have "ok" if "recv_accepted env"
  proof -
    obtain r where "srv_async env (Sys_WSARecv j x OVERLAPPED_BUFIZE) x
      (ov_upd x (\<lambda>v. v\<lparr>m_IOType := IOType_Recv, m_Socket := j,
                       m_WSABUF_len := word_of_nat OVERLAPPED_BUFIZE\<rparr>) (cview c)) = (r, cview c1)"
      and ok: "ok \<longleftrightarrow> goes_in_flight r"
      using Reserve_SomeE [OF res'] .
    then have "r = os_ret env (calls (csys c)) (Sys_WSARecv j x OVERLAPPED_BUFIZE)"
      by (auto simp: srv_async_def sys_async_def Let_def)
    with ok that show ?thesis
      by (simp add: recv_accepted_def)
  qed
  with res same inv1 fl x1 flights new armed show ?thesis
    by (intro exI [of _ ok] exI [of _ c1]) blast
qed

lemma client_rearm_after:
  assumes inv: "cli_inv (x # held) c" and sock: "g_Server_Socket c = Some ss"
    and j: "m_Socket (cli_at c x) = j" "j \<noteq> INVALID_SOCKET"
  shows "\<exists>c'. client_rearm env x c = Ok c' \<and> client_after j held c c' \<and> cli_msgs c' = cli_msgs c
    \<and> (recv_accepted env \<longrightarrow> cli_same c c' \<and> x \<in> set (in_flight (csys c'))
         \<and> client_pend x c' = client_pend x c \<and> m_Socket (cli_at c' x) = j)"
proof -
  from Client_Reserve_Some [OF inv j(2), of env] obtain ok c1 where
    res: "Client_Reserve_WSAReceive env j (Some x) c = Ok (ok, c1)" and same: "cli_same c c1"
    and inv1: "cli_inv (if ok then held else x # held) c1"
    and fl: "in_flight (csys c1) = (if ok then x # in_flight (csys c) else in_flight (csys c))"
    and x1: "\<forall>y. cli_at c1 y = (if y = x then (cli_at c x)\<lparr>m_IOType := IOType_Recv, m_Socket := j,
                       m_WSABUF_len := word_of_nat OVERLAPPED_BUFIZE\<rparr> else cli_at c y)"
    and flights: "cli_flights c c1" and new: "new_io j (cview c) (cview c1)"
    and armed: "ok \<longrightarrow> cli_rearmed c1 j" and acc: "recv_accepted env \<longrightarrow> ok"
    by blast
  have sock1: "g_Server_Socket c1 = Some ss"
    using cli_sameD(3) [OF same] sock by simp
  show ?thesis
  proof (cases ok)
    case True
    have "client_pend x c1 = client_pend x c" "m_Socket (cli_at c1 x) = j"
      using x1 by (simp_all add: client_pend_def srv_pend_def ov_pending_def)
    then show ?thesis
      using True res inv1 flights new armed same cli_sameD [OF same] sock sock1 fl j
      by (intro exI [of _ c1]) (simp add: client_rearm_def client_after_def)
  next
    case False
    with inv1 have inv1': "cli_inv (x # held) c1" by simp
    from close_and_reset_after [OF inv1' sock1, of env j] obtain c' where
      c': "close_and_reset env x c1 = Ok c'" "client_after j held c1 c'" "client_closed c'"
        "cli_msgs c' = cli_msgs c1"
      by blast
    have "in_flight (csys c1) = in_flight (csys c)"
      using fl False by simp
    then have "client_after j held c c'"
      using client_after_trans [OF flights _ _ _ _ _ c'(2)] cli_sameD [OF same] by simp
    moreover have "\<not> recv_accepted env"
      using acc False by blast
    ultimately show ?thesis
      using False res c' cli_sameD [OF same] j by (intro exI [of _ c']) (simp add: client_rearm_def)
  qed
qed

text \<open>Arming a structure taken from the pool; a refused one goes back.\<close>

lemma Client_Reserve_None:
  assumes inv: "cli_inv held c" and j: "j \<noteq> INVALID_SOCKET"
  shows "\<exists>ok c'. Client_Reserve_WSAReceive env j None c = Ok (ok, c') \<and> cli_same c c' \<and> cli_inv held c'
    \<and> cli_flights c c' \<and> new_io j (cview c) (cview c') \<and> (ok \<longrightarrow> cli_rearmed c' j)
    \<and> (recv_accepted env \<longrightarrow> ok)"
proof -
  have own: "srv_owns held (cview c)"
    using inv by (simp add: cli_inv_iff)
  then obtain x s0 where get': "ov_get env (cview c) = Ok (x, s0)"
    using ov_get_Ok by blast
  then obtain c0 where get: "cli_get env c = Ok (x, c0)" "s0 = cview c0"
    by (rule cli_getE)
  note own0 = srv_owns_get [OF own get', unfolded get(2)]
  have same0: "cli_same c c0" and sys0: "csys c0 = csys c"
    using cli_get_same [OF get(1)] by simp_all
  have inv0: "cli_inv (x # held) c0"
    using cli_inv_same [OF same0 own0(1) inv] .
  have fl0: "cli_flights c c0"
    using flight_kept_get [OF own get'] get(2) by (simp add: cli_flights_def)
  from Client_Reserve_Some [OF inv0 j, of env] obtain ok c1 where
    res: "Client_Reserve_WSAReceive env j (Some x) c0 = Ok (ok, c1)" and same: "cli_same c0 c1"
    and inv1: "cli_inv (if ok then held else x # held) c1"
    and flights: "cli_flights c0 c1" and new: "new_io j (cview c0) (cview c1)"
    and armed: "ok \<longrightarrow> cli_rearmed c1 j" and acc: "recv_accepted env \<longrightarrow> ok"
    by blast
  let ?c = "if ok then c1 else cli_reset env x c1"
  have run: "Client_Reserve_WSAReceive env j None c = Ok (ok, ?c)"
    using res get(1) by (auto simp: Client_Reserve_WSAReceive_def bindE_eq_Ok_iff Let_def
        split: prod.splits if_splits)
  have last: "cli_inv held ?c \<and> cli_flights c1 ?c \<and> new_io j (cview c1) (cview ?c) \<and> cli_same c1 ?c"
  proof (cases ok)
    case False
    with inv1 have i1: "cli_inv (x # held) c1" by simp
    have "srv_owns held (cview (cli_reset env x c1))"
      using i1 srv_owns_reset [of x held "cview c1" env] by (simp add: cli_inv_iff)
    from cli_inv_same [OF _ this i1] have "cli_inv held (cli_reset env x c1)"
      by simp
    moreover have "cli_flights c1 (cli_reset env x c1)"
      using flight_kept_upd(2) [of x held "cview c1" env] i1 by (simp add: cli_flights_def cli_inv_iff)
    ultimately show ?thesis
      using False by (simp add: new_io_same)
  qed (use inv1 in simp)
  have n0: "new_io j (cview c) (cview c0)"
    by (rule new_io_same) (simp add: sys0)
  have n1: "new_io j (cview c) (cview c1)"
    by (rule new_io_trans [OF n0 new flights [unfolded cli_flights_def]])
  have "flight_kept (cview c1) (cview ?c)"
    using last unfolding cli_flights_def by blast
  note n2 = new_io_trans [OF n1 _ this]
  have "cli_same c ?c"
    using last by (intro cli_same_trans [OF cli_same_trans [OF same0 same]]) simp
  moreover have "cli_flights c ?c"
    using last by (intro cli_flights_trans [OF cli_flights_trans [OF fl0 flights]]) simp
  ultimately show ?thesis
    using last run armed acc n2 by (intro exI [of _ ok] exI [of _ ?c]) auto
qed

lemma client_discard_view: "cview (client_discard c) = discard_front (cview c)"
  by (simp add: client_discard_def discard_front_def)

lemma client_discard_facts:
  assumes "cli_inv held c"
  shows "cli_inv held (client_discard c)" and "cli_msgs (client_discard c) = cli_msgs c"
    and "cli_sends (client_discard c) = cli_sends c" and "csys (client_discard c) = csys c"
    and "cli_at (client_discard c) = cli_at c" and "g_Server_Socket (client_discard c) = g_Server_Socket c"
    and "c_Is_Exit (client_discard c) = c_Is_Exit c" and "cli_flights c (client_discard c)"
proof -
  have inv: "srv_inv held (cview c)"
    using assms by (simp add: cli_inv_def)
  note disc = discard_front_inv [OF inv]
  show "cli_inv held (client_discard c)" "cli_msgs (client_discard c) = cli_msgs c"
    "cli_sends (client_discard c) = cli_sends c"
    using disc by (simp_all add: cli_inv_def cli_msgs_view cli_sends_view client_discard_view)
  show at: "csys (client_discard c) = csys c" "cli_at (client_discard c) = cli_at c"
    "g_Server_Socket (client_discard c) = g_Server_Socket c" "c_Is_Exit (client_discard c) = c_Is_Exit c"
    by (simp_all add: client_discard_def cli_at_def fun_eq_iff)
  then show "cli_flights c (client_discard c)"
    by (intro cli_flightsI) simp_all
qed

lemma client_kept_flights:
  assumes "client_kept x c c1" and "x \<notin> set (in_flight (csys c))"
  shows "cli_flights c c1"
proof (rule cli_flightsI)
  show "set (in_flight (csys c)) \<subseteq> set (in_flight (csys c1))"
    using client_keptD(2) [OF assms(1)] by simp
  show "cli_at c1 y = cli_at c y" if "y \<in> set (in_flight (csys c))" for y
    using client_keptD(7) [OF assms(1), of y] that assms(2) by metis
qed

lemma client_start_inv: "cli_inv (x # held) c \<Longrightarrow> cli_inv (x # held) (client_start n x c)"
  by (simp add: cli_inv_def recv_start_inv)

lemma client_start_flights: "cli_inv (x # held) c \<Longrightarrow> cli_flights c (client_start n x c)"
  using cli_inv_not_in_flight [of x held c]
  by (intro cli_flightsI) (auto simp: client_start_def cli_upd_def cli_at_def)

text \<open>How the bytes of a completed receive end, together with those kept from before.\<close>

definition client_end :: "nat \<Rightarrow> u32 \<Rightarrow> client \<Rightarrow> parse_end" where
  "client_end x n c = snd (snd (spec_parse (client_pend x c @ recv_chunk n x (cview c))))"

text \<open>What may happen before the socket is closed or the receive armed again.\<close>

definition client_steady :: "client \<Rightarrow> client \<Rightarrow> bool" where
  "client_steady c c1 \<longleftrightarrow> cli_flights c c1 \<and> in_flight (csys c1) = in_flight (csys c)
     \<and> cli_sends c1 = cli_sends c \<and> c_Is_Exit c1 = c_Is_Exit c
     \<and> g_Server_Socket c1 = g_Server_Socket c
     \<and> Is_Server_Connect_Success c1 = Is_Server_Connect_Success c"

lemma client_steady_refl [simp, intro]: "client_steady c c"
  by (simp add: client_steady_def)

lemma client_steady_trans [trans]:
  "client_steady c c1 \<Longrightarrow> client_steady c1 c2 \<Longrightarrow> client_steady c c2"
  by (auto simp: client_steady_def intro: cli_flights_trans)

lemma client_steady_start: "cli_inv (x # held) c \<Longrightarrow> client_steady c (client_start n x c)"
  using client_start_flights by (simp add: client_steady_def) (simp add: cli_sends_def)

lemma client_steady_discard: "cli_inv held c \<Longrightarrow> client_steady c (client_discard c)"
  using client_discard_facts [of held c] by (simp add: client_steady_def) (simp add: client_discard_def)

lemma client_steady_kept:
  assumes "cli_inv (x # held) c" and "client_kept x c c1" and "cli_sends c1 = cli_sends c"
  shows "client_steady c c1"
  using client_keptD(1-4) [OF assms(2)] client_kept_flights [OF assms(2) cli_inv_not_in_flight [OF assms(1)]]
    assms(3) by (simp add: client_steady_def)

definition client_result :: "sock \<Rightarrow> sock \<Rightarrow> nat list \<Rightarrow> client \<Rightarrow> client \<Rightarrow> bool" where
  "client_result k j held c c' \<longleftrightarrow> client_after j held c c'
     \<and> (\<exists>ps. cli_msgs c' = cli_msgs c @ map (Pair k) ps \<and> list_all (fits_buffer MAX_PACKET_SIZE) ps)"

lemma client_resultI:
  assumes "client_steady c c1" and "client_after j held c1 c'" and "cli_msgs c' = cli_msgs c1"
    and "cli_msgs c1 = cli_msgs c @ map (Pair k) ps" and "list_all (fits_buffer MAX_PACKET_SIZE) ps"
  shows "client_result k j held c c'"
  using assms client_after_trans [of c c1 j held c'] by (auto simp: client_result_def client_steady_def)

lemma client_result_close:
  assumes inv: "cli_inv (x # held) c1" and steady: "client_steady c c1" and sock: "g_Server_Socket c = Some ss"
    and msgs: "cli_msgs c1 = cli_msgs c @ map (Pair k) ps" "list_all (fits_buffer MAX_PACKET_SIZE) ps"
  shows "\<exists>c'. close_and_reset env x c1 = Ok c' \<and> client_result k j held c c'"
proof -
  have "g_Server_Socket c1 = Some ss"
    using steady sock by (simp add: client_steady_def)
  from close_and_reset_after [OF inv this, of env j] show ?thesis
    using client_resultI [OF steady _ _ msgs] by blast
qed

lemma client_result_rearm:
  assumes inv: "cli_inv (x # held) c1" and steady: "client_steady c c1" and sock: "g_Server_Socket c = Some ss"
    and j: "m_Socket (cli_at c1 x) = j" "j \<noteq> INVALID_SOCKET"
    and msgs: "cli_msgs c1 = cli_msgs c @ map (Pair k) ps" "list_all (fits_buffer MAX_PACKET_SIZE) ps"
  shows "\<exists>c'. client_rearm env x c1 = Ok c' \<and> client_result k j held c c'"
proof -
  have "g_Server_Socket c1 = Some ss"
    using steady sock by (simp add: client_steady_def)
  from client_rearm_after [OF inv this j, of env] show ?thesis
    using client_resultI [OF steady _ _ msgs] by blast
qed

text \<open>
  In a release build the handler faults only on a size that wraps; otherwise it keeps the invariant,
  queues only well-formed packets of the server's socket, and closes the connection or re-arms it.
\<close>

lemma Client_IOFunction_Recv_after:
  assumes inv: "cli_inv (x # held) c" and sock: "g_Server_Socket c = Some ss" "ss_Socket ss = k"
    and j: "m_Socket (cli_at c x) = j" "j \<noteq> INVALID_SOCKET"
    and n: "unat n \<le> OVERLAPPED_BUFIZE"
  shows "(\<exists>c'. Client_IOFunction_Recv env n x c = Ok c' \<and> client_result k j held c c')
         \<or> n \<noteq> 0 \<and> (debug_build env \<or> client_end x n c = Size_Wraps) \<and> (\<exists>e. Client_IOFunction_Recv env n x c = Fault e)"
proof -
  consider (zero) "n = 0"
    | (long) "0 < n" "MAX_PACKET_SIZE < length (client_pend x c) + unat n"
    | (fits) "0 < n" "length (client_pend x c) + unat n \<le> MAX_PACKET_SIZE"
    using word_gt_0 not_le by blast
  then show ?thesis
  proof cases
    case zero
    then have "Client_IOFunction_Recv env n x c = client_rearm env x c"
      by (simp add: Client_IOFunction_Recv_def)
    with client_result_rearm [OF inv client_steady_refl sock(1) j, of k "[]" env] show ?thesis
      by simp
  next
    case long
    have "cli_msgs (client_start n x c) = cli_msgs c"
      by (simp add: cli_msgs_def)
    from client_result_close [OF client_start_inv [OF inv] client_steady_start [OF inv] sock(1), of _ k "[]" env j]
      this Client_Recv_too_long [OF inv long(1) n long(2), of env] long(1)
    show ?thesis
      by (cases "debug_build env") auto
  next
    case fits
    obtain ps r e where parse: "spec_parse (client_pend x c @ recv_chunk n x (cview c)) = (ps, r, e)"
      by (metis prod_cases3)
    have "length (client_pend x c @ recv_chunk n x (cview c)) \<le> MAX_PACKET_SIZE"
      using fits(2) by (simp add: recv_chunk_def)
    then have ps: "list_all (fits_buffer MAX_PACKET_SIZE) ps"
      using spec_parse_ok [OF parse] fits_buffer_mono by blast
    from Client_IOFunction_Recv_outcome [OF inv sock fits(1) n fits(2) parse, of env] obtain c1 where
      c1: "cli_inv (x # held) c1" "client_kept x c c1" "cli_msgs c1 = cli_msgs c @ map (Pair k) ps"
        "cli_sends c1 = cli_sends c"
      and out: "case e of
           Need_More \<Rightarrow> client_pend x c1 = r \<and> Client_IOFunction_Recv env n x c = client_rearm env x c1
         | No_Type \<Rightarrow> Client_IOFunction_Recv env n x c = close_and_reset env x (client_discard c1)
         | Size_Wraps \<Rightarrow> Client_IOFunction_Recv env n x c = Fault Over_Read"
      by blast
    note steady = client_steady_kept [OF inv c1(2,4)]
    show ?thesis
    proof (cases e)
      case Need_More
      have "m_Socket (cli_at c1 x) = j"
        using client_keptD(6) [OF c1(2)] j(1) by simp
      from client_result_rearm [OF c1(1) steady sock(1) this j(2) c1(3) ps, of env] show ?thesis
        using out Need_More by simp
    next
      case No_Type
      have "cli_msgs (client_discard c1) = cli_msgs c @ map (Pair k) ps"
        using client_discard_facts(2) [OF c1(1)] c1(3) by simp
      from client_result_close [OF client_discard_facts(1) [OF c1(1)]
          client_steady_trans [OF steady client_steady_discard [OF c1(1)]] sock(1) this ps, of env j]
      show ?thesis
        using out No_Type by simp
    next
      case Size_Wraps
      with out parse fits(1) show ?thesis
        by (auto simp: client_end_def)
    qed
  qed
qed

section \<open>The client as a stream receiver\<close>

definition cli_complete :: "nat \<Rightarrow> byte list \<Rightarrow> client \<Rightarrow> client" where
  "cli_complete x data c =
     cli_upd x (\<lambda>v. v\<lparr>m_Buffer := mem_write (m_Buffer v) 0 data\<rparr>)
       (c\<lparr>csys := sys_complete x (csys c)\<rparr>)"

definition client_on_bytes :: "os \<Rightarrow> nat \<Rightarrow> client \<Rightarrow> byte list \<Rightarrow> client res" where
  "client_on_bytes env x c data =
     Client_IOFunction_Recv env (word_of_nat (length data)) x (cli_complete x data c)"

definition client_ready :: "os \<Rightarrow> nat \<Rightarrow> sock \<Rightarrow> client \<Rightarrow> bool" where
  "client_ready env x k c \<longleftrightarrow> cli_inv [] c \<and> x \<in> set (in_flight (csys c))
     \<and> (\<exists>ss. g_Server_Socket c = Some ss \<and> ss_Socket ss = k) \<and> m_Socket (cli_at c x) = k
     \<and> k \<noteq> INVALID_SOCKET \<and> recv_accepted env"

definition client_msgs_of :: "sock \<Rightarrow> client \<Rightarrow> packet list" where
  "client_msgs_of k c = map snd (filter (\<lambda>m. fst m = k) (cli_msgs c))"

lemma cli_complete_view [simp]: "cview (cli_complete x data c) = complete_io x data (cview c)"
  by (simp add: cli_complete_def complete_io_def)

lemma cli_complete_frame [simp]:
  "g_Server_Socket (cli_complete x data c) = g_Server_Socket c"
  "Is_Server_Connect_Success (cli_complete x data c) = Is_Server_Connect_Success c"
  "c_Is_Exit (cli_complete x data c) = c_Is_Exit c" "cheap (cli_complete x data c) = cheap c"
  "c_Recv_Data_Queue (cli_complete x data c) = c_Recv_Data_Queue c"
  "c_Send_Data_Queue (cli_complete x data c) = c_Send_Data_Queue c"
  "in_flight (csys (cli_complete x data c)) = remove1 x (in_flight (csys c))"
  "cli_msgs (cli_complete x data c) = cli_msgs c" "cli_sends (cli_complete x data c) = cli_sends c"
  by (simp_all add: cli_complete_def cli_upd_def cli_msgs_def cli_sends_def sys_complete_def)

lemma cli_complete_at:
  "cli_at (cli_complete x data c) =
     (cli_at c)(x := (cli_at c x)\<lparr>m_Buffer := mem_write (m_Buffer (cli_at c x)) 0 data\<rparr>)"
  using complete_io_at [of x data "cview c"] by (simp flip: cli_complete_view)

lemma cli_complete_inv:
  "cli_inv held c \<Longrightarrow> x \<in> set (in_flight (csys c)) \<Longrightarrow> length data \<le> OVERLAPPED_BUFIZE \<Longrightarrow>
     cli_inv (x # held) (cli_complete x data c)"
  by (simp add: cli_inv_def complete_io_inv)

lemma client_recv_step:
  assumes ready: "client_ready env x k c" and data: "chunk_ok data"
    and fits: "length (client_pend x c) + length data \<le> MAX_PACKET_SIZE"
    and parse: "spec_parse (client_pend x c @ data) = (ps, r, Need_More)"
  shows "\<exists>c'. client_on_bytes env x c data = Ok c' \<and> client_ready env x k c' \<and> client_pend x c' = r
           \<and> cli_msgs c' = cli_msgs c @ map (Pair k) ps"
proof -
  let ?n = "word_of_nat (length data) :: u32" and ?c0 = "cli_complete x data c"
  from ready obtain ss where inv: "cli_inv [] c" and x: "x \<in> set (in_flight (csys c))"
    and sock: "g_Server_Socket c = Some ss" "ss_Socket ss = k" and k: "m_Socket (cli_at c x) = k"
    and valid: "k \<noteq> INVALID_SOCKET" and env: "recv_accepted env"
    by (auto simp: client_ready_def)
  have len: "length data \<le> OVERLAPPED_BUFIZE" "data \<noteq> []"
    using data by (simp_all add: chunk_ok_def)
  have n: "unat ?n = length data"
    using len by (simp add: unat_of_nat OVERLAPPED_BUFIZE_def)
  have pos: "0 < ?n"
    using len(2) n by (simp add: word_less_iff_unat)
  have inv0: "cli_inv [x] ?c0"
    using cli_complete_inv [OF inv x len(1)] .
  have sock0: "g_Server_Socket ?c0 = Some ss"
    using sock by simp
  have pend0: "client_pend x ?c0 = client_pend x c"
    by (simp add: client_pend_def)
  have chunk0: "recv_chunk ?n x (cview ?c0) = data"
    using complete_io_chunk [of "[]" "cview c" x data] inv x len(1) by (simp add: cli_inv_def)
  have parse0: "spec_parse (client_pend x ?c0 @ recv_chunk ?n x (cview ?c0)) = (ps, r, Need_More)"
    using parse pend0 chunk0 by simp
  have fit0: "unat ?n \<le> OVERLAPPED_BUFIZE" "length (client_pend x ?c0) + unat ?n \<le> MAX_PACKET_SIZE"
    using len n fits pend0 by simp_all
  from Client_IOFunction_Recv_outcome [OF inv0 sock0 sock(2) pos fit0 parse0, of env]
  obtain c1 where c1: "cli_inv [x] c1" "client_kept x ?c0 c1"
      "cli_msgs c1 = cli_msgs ?c0 @ map (Pair k) ps" "client_pend x c1 = r"
    and run: "Client_IOFunction_Recv env ?n x ?c0 = client_rearm env x c1"
    by auto
  have sock1: "g_Server_Socket c1 = Some ss" "m_Socket (cli_at c1 x) = k"
    using client_keptD [OF c1(2)] sock k by (simp_all add: cli_complete_at)
  from client_rearm_after [OF c1(1) sock1(1,2) valid, of env] env obtain c' where
    c': "client_rearm env x c1 = Ok c'" "client_after k [] c1 c'" "cli_msgs c' = cli_msgs c1"
      "cli_same c1 c'" "x \<in> set (in_flight (csys c'))" "client_pend x c' = client_pend x c1"
      "m_Socket (cli_at c' x) = k"
    by blast
  have "client_ready env x k c'"
    using c' sock sock1 cli_sameD(3) [OF c'(4)] valid env by (simp add: client_ready_def client_after_def)
  then show ?thesis
    using run c' c1 by (simp add: client_on_bytes_def)
qed

interpretation cli_stream: stream_receiver "client_on_bytes env x" "client_ready env x k" "client_pend x"
  "client_msgs_of k"
  for env x k
proof unfold_locales
  fix c data ps r
  assume "client_ready env x k c" "chunk_ok data" "length (client_pend x c) + length data \<le> MAX_PACKET_SIZE"
    "spec_parse (client_pend x c @ data) = (ps, r, Need_More)"
  from client_recv_step [OF this] obtain c' where "client_on_bytes env x c data = Ok c'"
    "client_ready env x k c'" "client_pend x c' = r" "cli_msgs c' = cli_msgs c @ map (Pair k) ps"
    by blast
  moreover have "map snd (filter (\<lambda>m. fst m = k) (map (Pair k) ps)) = ps"
    by (induction ps) auto
  ultimately show "\<exists>c'. client_on_bytes env x c data = Ok c' \<and> client_ready env x k c' \<and> client_pend x c' = r
      \<and> client_msgs_of k c' = client_msgs_of k c @ ps"
    by (auto simp: client_msgs_of_def)
qed

section \<open>Recv\<close>

lemma client_drain_view:
  "queues_ok h rq sq \<Longrightarrow>
     \<exists>new h'. client_drain rq vec h = Ok (vec @ new, h') \<and> queues_ok h' [] sq
       \<and> send_view h' sq = send_view h sq \<and> vec_view h' new = recv_view h rq
       \<and> (\<forall>(k, q) \<in> set new. packet_at h' q) \<and> map snd new = concat (map (msg_packet h) rq)
       \<and> cells h' = (\<lambda>p. if p \<in> set rq then None else cells h p)"
proof (induction rq arbitrary: vec h)
  case Nil
  then show ?case by (auto simp: vec_view_def recv_view_def)
next
  case (Cons m rq)
  obtain sk q p where m: "heap_msg m h = Ok (sk, q)" "heap_packet q h = Ok (encode_packet p)"
    "packet_ok p" "recv_view h (m # rq) = (sk, p) # recv_view h rq" "queues_ok h rq sq"
    "m \<notin> set (heap_refs h rq sq)" "q \<notin> set (heap_refs h rq sq)" "m \<noteq> q"
    using queues_pop_recv [OF Cons.prems] by metis
  have "cells h m \<noteq> None"
    using m(1) by (auto simp: heap_msg_def split: option.splits)
  then obtain cell where "cells h m = Some cell" by blast
  from queues_release [OF m(5,6) this] obtain h1 where
    h1: "heap_free m h = Ok h1" "queues_ok h1 rq sq" "recv_view h1 rq = recv_view h rq"
      "send_view h1 sq = send_view h sq" "cells h1 = (cells h)(m := None)"
    by blast
  from Cons.IH [OF h1(2), of "vec @ [(sk, q)]"] obtain new h' where
    new: "client_drain rq (vec @ [(sk, q)]) h1 = Ok ((vec @ [(sk, q)]) @ new, h')" "queues_ok h' [] sq"
      "send_view h' sq = send_view h1 sq" "vec_view h' new = recv_view h1 rq"
      "\<forall>(k, q) \<in> set new. packet_at h' q" "cells h' = (\<lambda>p. if p \<in> set rq then None else cells h1 p)"
      "map snd new = concat (map (msg_packet h1) rq)"
    by blast
  have "m \<notin> set rq"
    using m(6) by (auto simp: heap_refs_def)
  then have "map (msg_packet h1) rq = map (msg_packet h) rq"
    by (intro map_cong) (auto simp: msg_packet_def h1(5))
  with new(7) have packets: "map snd new = concat (map (msg_packet h) rq)"
    by simp
  have "set rq \<subseteq> set (heap_refs h rq sq)"
    by (auto simp: heap_refs_def)
  then have "cells h' q = cells h q"
    using new(6) h1(5) m(7,8) by auto
  with heap_packet_OkD [OF m(2)] have q: "cells h' q = Some (Packet_Block (encode_packet p))"
    by simp
  then have "packet_view h' q = p" "packet_at h' q"
    using m(3) packet_atI by (auto simp: packet_view_def)
  with m(1,4) h1 new packets show ?case
    by (intro exI [of _ "(sk, q) # new"] exI [of _ h']) (auto simp: vec_view_def heap_msg_packet)
qed

text \<open>
  \<open>Recv\<close> hands all queued messages to the application, in order, and releases the message blocks:
  what is left of each message is the packet the application now owns.
\<close>

lemma Client_Recv_outcome:
  assumes inv: "cli_inv held c"
  shows "\<exists>r new c'. Client_Recv vec c = Ok (r, vec @ new, c') \<and> cli_inv held c'
    \<and> vec_view (cheap c') new = cli_msgs c \<and> cli_msgs c' = [] \<and> cli_sends c' = cli_sends c
    \<and> (r = LOGIC_FAIL \<longleftrightarrow> cli_msgs c = []) \<and> vec_ok (cheap c') new
    \<and> cells (cheap c') = (\<lambda>p. if p \<in> set (c_Recv_Data_Queue c) then None else cells (cheap c) p)
    \<and> c' = c\<lparr>cheap := cheap c', c_Recv_Data_Queue := []\<rparr>"
proof (cases "c_Recv_Data_Queue c = []")
  case True
  then show ?thesis
    using inv
    by (intro exI [of _ LOGIC_FAIL] exI [of _ "[]"] exI [of _ c])
      (auto simp: Client_Recv_def cli_msgs_def recv_view_def vec_view_def vec_ok_def)
next
  case False
  have qs: "queues_ok (cheap c) (c_Recv_Data_Queue c) (c_Send_Data_Queue c)"
    using inv by (simp add: cli_inv_iff cli_queues_view)
  obtain new h' where new: "client_drain (c_Recv_Data_Queue c) vec (cheap c) = Ok (vec @ new, h')"
    "queues_ok h' [] (c_Send_Data_Queue c)" "send_view h' (c_Send_Data_Queue c) = cli_sends c"
    "vec_view h' new = cli_msgs c" "\<forall>(k, q) \<in> set new. packet_at h' q"
    "map snd new = concat (map (msg_packet (cheap c)) (c_Recv_Data_Queue c))"
    "cells h' = (\<lambda>p. if p \<in> set (c_Recv_Data_Queue c) then None else cells (cheap c) p)"
    using client_drain_view [OF qs, of vec] unfolding cli_sends_def cli_msgs_def by blast
  have vec: "vec_ok h' new"
    unfolding vec_ok_def new(6) using queues_packets_distinct [OF qs] new(5) by (rule conjI)
  let ?c = "c\<lparr>cheap := h', c_Recv_Data_Queue := []\<rparr>"
  have "srv_owns held (cview ?c) = srv_owns held (cview c)"
    by (rule srv_owns_cong) simp_all
  moreover have "srv_queues_ok (cview ?c)"
    unfolding cli_queues_view using new(2) by simp
  ultimately have "cli_inv held ?c"
    using inv unfolding cli_inv_iff by blast
  moreover have "cli_msgs c \<noteq> []"
    using False by (simp add: cli_msgs_def recv_view_def)
  ultimately show ?thesis
    using False new vec
    by (intro exI [of _ LOGIC_SUCCESS] exI [of _ new] exI [of _ ?c])
      (auto simp: Client_Recv_def cli_msgs_def cli_sends_def recv_view_def LOGIC_SUCCESS_def LOGIC_FAIL_def)
qed

end
