(* ===== verification/DH_ClientSend.thy ===== *)
theory DH_ClientSend
  imports DH_ClientStream DH_ServerSend
begin

text \<open>
  The sending side of \<open>DHClient\<close>: \<open>Send\<close> queues a copy of the caller's packet, and \<open>SendFunction\<close>,
  run by the connecting thread while the client is connected, cuts the queued packets into buffers
  for \<open>WSASend\<close>. Unlike the server, the client stops at the first refused buffer: it closes the
  socket, and the packets after the one it was sending stay queued for the next connection.
\<close>

section \<open>The operations\<close>

definition Client_Send :: "os \<Rightarrow> byte list option \<Rightarrow> int \<Rightarrow> sock \<Rightarrow> client \<Rightarrow> (int \<times> client) res" where
  "Client_Send env Send_Packet SendType Socket c =
     bindE (assertE env (Send_Packet \<noteq> None)) (\<lambda>_.
     bindE (server_socket c) (\<lambda>k.
       if INVALID_SOCKET = k then Ok (LOGIC_FAIL, c)
       else case Send_Packet of
           None \<Rightarrow> Fault Null_Deref
         | Some blk \<Rightarrow> bindE (get_Packet_Type blk) (\<lambda>t.
             if PACKET_TYPE_NONE = t then Ok (LOGIC_FAIL, c)
             else bindE (get_Packet_Size blk) (\<lambda>sz.
                  bindE (copy_packet blk (packet_total sz) (cheap c)) (\<lambda>(Copy_Packet, h).
                    Ok (LOGIC_SUCCESS,
                        c\<lparr>cheap := h, c_Send_Data_Queue := c_Send_Data_Queue c @ [Copy_Packet]\<rparr>))))))"

text \<open>One turn of the fragment loop: whether it goes on, and the size still to send.\<close>

definition client_send_fragment ::
    "os \<Rightarrow> byte list \<Rightarrow> u64 \<Rightarrow> nat \<Rightarrow> client \<Rightarrow> (bool \<times> u64 \<times> client) res" where
  "client_send_fragment env blk Total_Packet_Size Buff_Offset c =
     bindE (cli_get env c) (\<lambda>(x, c).
     bindE (server_socket c) (\<lambda>k.
       let c = cli_upd x (\<lambda>v. v\<lparr>m_IOType := IOType_Send, m_Socket := k\<rparr>) c;
           full = word_of_nat OVERLAPPED_BUFIZE \<le> Total_Packet_Size;
           n = (if full then word_of_nat OVERLAPPED_BUFIZE else Total_Packet_Size);
           remaining = (if full then Total_Packet_Size - word_of_nat OVERLAPPED_BUFIZE else 0)
       in bindE (memcpy_s (m_Buffer (cli_at c x)) 0 OVERLAPPED_BUFIZE
                   (drop (Buff_Offset * OVERLAPPED_BUFIZE) blk) (unat n)) (\<lambda>buf.
            let c = cli_upd x (\<lambda>v. v\<lparr>m_Data_Size := n, m_Buffer := buf, m_WSABUF_len := ucast n\<rparr>) c;
                (iResult, c) = cli_async env
                   (Sys_WSASend k x (take (unat (m_WSABUF_len (cli_at c x))) buf)) x c
            in if \<not> ret_ok iResult \<and> last_error iResult \<noteq> WSA_IO_PENDING
               then bindE (close_and_reset env x c) (\<lambda>c. Ok (False, remaining, c))
               else Ok (True, remaining, c))))"

section \<open>One fragment\<close>

lemma send_fragment_new:
  assumes "srv_owns held s" and "send_fragment env k blk tot off s = Ok (b, tot', s')"
  shows "new_io k s s'"
proof -
  obtain x s1 buf r s2 where get: "ov_get env s = Ok (x, s1)"
    and call: "srv_async env (Sys_WSASend k x (take (unat (frag_size tot)) buf)) x
        (ov_upd x (frag_upd k (frag_size tot) buf) s1) = (r, s2)"
    and s': "s' = (if b then s2 else ov_reset env x s2)" and b: "b \<longleftrightarrow> goes_in_flight r"
    by (rule send_fragmentE [OF assms(2)])
  have "in_flight (ssys s1) = in_flight (ssys s)"
    using ov_get_same [OF get] by simp
  moreover have "new_io k (ov_upd x (frag_upd k (frag_size tot) buf) s1) s2"
    using new_io_async [OF call] by (simp add: frag_upd_def)
  moreover have "in_flight (ssys s2) = in_flight (ssys s1)" if "\<not> b"
    using srv_async_in_flight [of env "Sys_WSASend k x (take (unat (frag_size tot)) buf)" x
        "ov_upd x (frag_upd k (frag_size tot) buf) s1"] that b unfolding call by simp
  ultimately show ?thesis
    unfolding s' by (cases b) (auto simp: new_io_def)
qed

lemma cli_same_server_socket: "cli_same c c' \<Longrightarrow> server_socket c' = server_socket c"
  by (simp add: cli_sameD)

text \<open>The client's fragment is the server's up to the refusal, where the client closes its socket.\<close>

lemma client_send_fragment_sim:
  assumes sock: "server_socket c = Ok k" and run: "send_fragment env k blk tot off (cview c) = Ok (b, rest, s')"
  obtains x c1 where "cli_same c c1"
    and "client_send_fragment env blk tot off c =
      (if b then Ok (True, rest, c1) else bindE (close_and_reset env x c1) (\<lambda>c. Ok (False, rest, c)))"
    and "s' = (if b then cview c1 else ov_reset env x (cview c1))"
proof -
  define n where "n = frag_size tot"
  obtain x s1 buf r s2 where get: "ov_get env (cview c) = Ok (x, s1)"
    and buf: "memcpy_s (m_Buffer (ov_at s1 x)) 0 OVERLAPPED_BUFIZE
        (drop (off * OVERLAPPED_BUFIZE) blk) (unat n) = Ok buf"
    and call: "srv_async env (Sys_WSASend k x (take (unat n) buf)) x (ov_upd x (frag_upd k n buf) s1) = (r, s2)"
    and b: "b \<longleftrightarrow> goes_in_flight r" and s': "s' = (if b then s2 else ov_reset env x s2)"
    and rest: "rest = tot - frag_size tot"
    unfolding n_def by (rule send_fragmentE [OF run])
  obtain c0 where c0: "cli_get env c = Ok (x, c0)" "s1 = cview c0"
    using cli_getE [OF get] .
  obtain r' c1 where a: "cli_async env (Sys_WSASend k x (take (unat n) buf)) x
      (cli_upd x (frag_upd k n buf) c0) = (r', c1)"
    by force
  have "srv_async env (Sys_WSASend k x (take (unat n) buf)) x (ov_upd x (frag_upd k n buf) s1) = (r', cview c1)"
    using arg_cong [OF a, of "cview \<circ> snd"] arg_cong [OF a, of fst] c0(2)
    by (metis comp_apply cview_ops(1,5,6) fst_conv prod.exhaust_sel snd_conv)
  with call have r: "r' = r" "s2 = cview c1"
    by simp_all
  have same0: "cli_same c c0"
    using cli_get_same [OF c0(1)] by simp
  have "cli_same (cli_upd x (frag_upd k n buf) c0) c1"
    using cli_same_prims(5) [of "cli_upd x (frag_upd k n buf) c0" env "Sys_WSASend k x (take (unat n) buf)" x]
    by (simp add: a)
  then have same: "cli_same c c1"
    using same0 cli_same_prims(1) cli_same_trans by blast
  have upd: "cli_upd x (\<lambda>v. v\<lparr>m_Data_Size := n, m_Buffer := buf, m_WSABUF_len := ucast n\<rparr>)
      (cli_upd x (\<lambda>v. v\<lparr>m_IOType := IOType_Send, m_Socket := k\<rparr>) c0) = cli_upd x (frag_upd k n buf) c0"
    by (simp add: cli_upd_def pool_write_def frag_upd_def)
  have len: "unat (m_WSABUF_len (cli_at (cli_upd x (frag_upd k n buf) c0) x)) = unat n"
    using frag_len [of tot] by (simp add: cli_upd_def cli_at_def frag_upd_def n_def)
  have buf': "memcpy_s (m_Buffer (cli_at (cli_upd x (\<lambda>v. v\<lparr>m_IOType := IOType_Send, m_Socket := k\<rparr>) c0) x)) 0
      OVERLAPPED_BUFIZE (drop (off * OVERLAPPED_BUFIZE) blk) (unat n) = Ok buf"
    using buf c0(2) by (simp add: cli_upd_def cli_at_def)
  have sock0: "server_socket c0 = Ok k"
    using sock cli_same_server_socket [OF same0] by simp
  have "client_send_fragment env blk tot off c =
      (if b then Ok (True, rest, c1) else bindE (close_and_reset env x c1) (\<lambda>c. Ok (False, rest, c)))"
    unfolding client_send_fragment_def Let_def frag_size_def [symmetric] frag_rest rest b
    using c0(1) sock0 buf' len a r(1) upd
    by (simp add: n_def [symmetric] goes_in_flight_def)
  with same s' r(2) that show ?thesis by blast
qed

lemma sent_buffers_close:
  assumes "calls y' = Sys_CloseSocket a # Sys_Shutdown b # calls y"
  shows "sent_buffers j y' = sent_buffers j y"
  using assms by (simp add: sent_buffers_def)

text \<open>What a sending step leaves alone.\<close>

definition client_sending :: "sock \<Rightarrow> client \<Rightarrow> client \<Rightarrow> bool" where
  "client_sending k c c' \<longleftrightarrow> cli_flights c c' \<and> new_io k (cview c) (cview c') \<and> c_Is_Exit c' = c_Is_Exit c
     \<and> c_Recv_Data_Queue c' = c_Recv_Data_Queue c \<and> cli_msgs c' = cli_msgs c
     \<and> (client_closed c' \<and> g_Server_Socket c' \<noteq> None
        \<or> g_Server_Socket c' = g_Server_Socket c
          \<and> Is_Server_Connect_Success c' = Is_Server_Connect_Success c)"

lemma client_sending_refl [simp, intro]: "client_sending k c c"
  by (simp add: client_sending_def)

lemma client_sending_trans: "client_sending k c c' \<Longrightarrow> client_sending k c' c'' \<Longrightarrow> client_sending k c c''"
  using cli_flights_trans new_io_trans [of k "cview c" "cview c'" "cview c''"]
  by (auto simp: client_sending_def client_closed_def server_socket_def cli_flights_def)

text \<open>A refused fragment: the socket is closed and the overlapped structure given back.\<close>

lemma client_send_refused:
  assumes inv: "cli_inv held c" and sock: "g_Server_Socket c = Some ss" and same: "cli_same c c1"
    and s': "s' = ov_reset env x (cview c1)" and sinv: "srv_inv held s'"
    and kept: "flight_kept (cview c) s'" and new: "new_io k (cview c) s'"
  shows "\<exists>c'. close_and_reset env x c1 = Ok c' \<and> cli_inv held c' \<and> client_sending k c c'
    \<and> cheap c' = cheap c \<and> c_Send_Data_Queue c' = c_Send_Data_Queue c \<and> client_closed c'
    \<and> (\<forall>j. sent_buffers j (csys c') = sent_buffers j (csys c1))"
proof -
  note sameD = cli_sameD [OF same]
  have sock1: "g_Server_Socket c1 = Some ss"
    using sameD sock by simp
  obtain c2 where c2: "Safe_CloseSocket env c1 = Ok c2" "\<not> Is_Server_Connect_Success c2"
    "server_socket c2 = Ok INVALID_SOCKET" "cli_at c2 = cli_at c1" "in_flight (csys c2) = in_flight (csys c1)"
    "cli_msgs c2 = cli_msgs c1" "\<And>held. cli_inv held c2 = cli_inv held c1"
    "g_Server_Socket c2 = Some (ss\<lparr>ss_Socket := INVALID_SOCKET\<rparr>)" "c_Is_Exit c2 = c_Is_Exit c1"
    "c_Recv_Data_Queue c2 = c_Recv_Data_Queue c1" "c_Send_Data_Queue c2 = c_Send_Data_Queue c1"
    "cheap c2 = cheap c1" "c_Available_Overlapped c2 = c_Available_Overlapped c1"
    "calls (csys c2) = Sys_CloseSocket (ss_Socket ss) # Sys_Shutdown (ss_Socket ss) # calls (csys c1)"
    by (rule Safe_CloseSocket_effect [OF sock1, where env = env]) blast
  let ?c = "cli_reset env x c2"
  have res: "close_and_reset env x c1 = Ok ?c"
    using c2(1) by (simp add: close_and_reset_def)
  have "cli_same c2 ?c"
    by simp
  note D = cli_sameD [OF this]
  have pool: "c_Available_Overlapped ?c = Available_Overlapped s'" "in_flight (csys ?c) = in_flight (ssys s')"
    using s' c2(5,13) by (simp_all add: cli_reset_def ov_reset_def)
  have "srv_owns held (cview ?c) = srv_owns held s'"
    by (intro srv_owns_cong) (simp_all only: cview_fields pool)
  moreover have "srv_queues_ok (cview ?c)"
    unfolding cli_queues_view using inv D(1,2,5) c2(10-12) sameD(1,2,5) by (simp add: cli_inv_iff cli_queues_view)
  ultimately have "cli_inv held ?c"
    using sinv by (simp add: cli_inv_iff srv_inv_def)
  moreover have "cli_flights c ?c"
    using kept unfolding cli_flights_def flight_kept_def ov_at_def cview_fields(1,6) pool by blast
  moreover have "new_io k (cview c) (cview ?c)"
    using new unfolding new_io_def ov_at_def cview_fields(1,6) pool by blast
  moreover have "csys ?c = csys c2"
    by (simp add: cli_reset_def)
  moreover have "client_closed ?c"
    using D(3,4,7) c2(2,3) by (simp add: client_closed_def)
  ultimately show ?thesis
    using res sameD D c2(6,8-12) sent_buffers_close [OF c2(14)]
    by (intro exI [of _ ?c]) (simp add: client_sending_def)
qed

lemma client_send_fragment_effect:
  assumes inv: "cli_inv held c" and sock: "g_Server_Socket c = Some ss" "ss_Socket ss = k"
    and fit: "unat (frag_size tot) \<le> length (drop (off * OVERLAPPED_BUFIZE) blk)"
  shows "\<exists>b c'. client_send_fragment env blk tot off c = Ok (b, tot - frag_size tot, c') \<and> cli_inv held c'
    \<and> client_sending k c c' \<and> cheap c' = cheap c \<and> c_Send_Data_Queue c' = c_Send_Data_Queue c
    \<and> (if b then g_Server_Socket c' = Some ss else client_closed c')
    \<and> (\<forall>j. sent_buffers j (csys c') = sent_buffers j (csys c)
         @ (if j = k then [take (unat (frag_size tot)) (drop (off * OVERLAPPED_BUFIZE) blk)] else []))
    \<and> (send_accepted env \<longrightarrow> b)"
proof -
  have sinv: "srv_inv held (cview c)"
    using inv by (simp add: cli_inv_def)
  have sk: "server_socket c = Ok k"
    using sock by (simp add: server_socket_def)
  obtain b s' where run: "send_fragment env k blk tot off (cview c) = Ok (b, tot - frag_size tot, s')"
    using send_fragment_Ok [OF sinv fit] by blast
  note eff = send_fragment_effect [OF sinv run]
  have new: "new_io k (cview c) s'"
    using send_fragment_new [OF _ run, of held] sinv by (simp add: srv_inv_def)
  from client_send_fragment_sim [OF sk run] obtain x c1 where
    same: "cli_same c c1"
    and crun: "client_send_fragment env blk tot off c =
      (if b then Ok (True, tot - frag_size tot, c1)
       else bindE (close_and_reset env x c1) (\<lambda>c. Ok (False, tot - frag_size tot, c)))"
    and s': "s' = (if b then cview c1 else ov_reset env x (cview c1))"
    by blast
  note sameD = cli_sameD [OF same]
  have buffers: "\<And>j. sent_buffers j (csys c1) = sent_buffers j (csys c)
         @ (if j = k then [take (unat (frag_size tot)) (drop (off * OVERLAPPED_BUFIZE) blk)] else [])"
    using eff(4) s' by (cases b) simp_all
  show ?thesis
  proof (cases b)
    case True
    then have "cli_inv held c1" "cli_flights c c1" "new_io k (cview c) (cview c1)"
      using eff(1,3) s' new by (simp_all add: cli_inv_def cli_flights_def)
    then show ?thesis
      using True crun sameD sock buffers
      by (intro exI [of _ True] exI [of _ c1]) (simp add: client_sending_def)
  next
    case False
    with s' have "s' = ov_reset env x (cview c1)" by simp
    from client_send_refused [OF inv sock(1) same this eff(1,3) new] obtain c' where
      "close_and_reset env x c1 = Ok c'" "cli_inv held c'" "client_sending k c c'" "cheap c' = cheap c"
      "c_Send_Data_Queue c' = c_Send_Data_Queue c" "client_closed c'"
      "\<forall>j. sent_buffers j (csys c') = sent_buffers j (csys c1)"
      by blast
    moreover have "\<not> send_accepted env"
      using eff(5) False by blast
    ultimately show ?thesis
      using False crun buffers by (intro exI [of _ False] exI [of _ c']) simp
  qed
qed

section \<open>The fragment loop\<close>

lemma client_fragment_less:
  assumes "\<not> tot \<le> 0" and "client_send_fragment env blk tot off c = Ok (b, rest, c')"
  shows "unat rest < unat tot"
proof -
  have "rest = (if word_of_nat OVERLAPPED_BUFIZE \<le> tot then tot - word_of_nat OVERLAPPED_BUFIZE else 0)"
    using assms(2)
    by (auto simp: client_send_fragment_def bindE_eq_Ok_iff Let_def case_prod_beta split: if_splits)
  then have "rest = tot - frag_size tot"
    by (simp add: frag_rest frag_size_def split: if_splits)
  moreover have "0 < unat tot"
    using assms(1) by (simp add: word_le_iff_unat)
  ultimately show ?thesis
    by (simp add: unat_frag_rest OVERLAPPED_BUFIZE_def)
qed

function client_send_fragments :: "os \<Rightarrow> byte list \<Rightarrow> u64 \<Rightarrow> nat \<Rightarrow> client \<Rightarrow> client res" where
  "client_send_fragments env blk Total_Packet_Size Buff_Offset c =
     (if Total_Packet_Size \<le> 0 then Ok c
      else case client_send_fragment env blk Total_Packet_Size Buff_Offset c of
             Fault e \<Rightarrow> Fault e
           | Ok (go_on, remaining, c') \<Rightarrow>
               if go_on then client_send_fragments env blk remaining (Suc Buff_Offset) c' else Ok c')"
  by pat_completeness auto
termination
  by (relation "measure (\<lambda>(env, blk, tot, off, c). unat tot)") (auto simp: client_fragment_less)

declare client_send_fragments.simps [simp del]

text \<open>One packet, taken off the queue, and \<open>SendFunction\<close>.\<close>

definition client_send_packet :: "os \<Rightarrow> ptr \<Rightarrow> client \<Rightarrow> client res" where
  "client_send_packet env Send_Packet c =
     bindE (heap_packet Send_Packet (cheap c)) (\<lambda>blk.
     bindE (get_Packet_Size blk) (\<lambda>sz.
     bindE (client_send_fragments env blk (packet_total sz) 0 c) (\<lambda>c.
     bindE (heap_free Send_Packet (cheap c)) (\<lambda>h. Ok (c\<lparr>cheap := h\<rparr>)))))"

primrec client_send_queue :: "os \<Rightarrow> ptr list \<Rightarrow> client \<Rightarrow> client res" where
  "client_send_queue env [] c = Ok c"
| "client_send_queue env (q # qs) c =
     bindE (server_socket c) (\<lambda>k.
       if k = INVALID_SOCKET then Ok c
       else bindE (client_send_packet env q (c\<lparr>c_Send_Data_Queue := qs\<rparr>)) (client_send_queue env qs))"

definition SendFunction :: "os \<Rightarrow> client \<Rightarrow> client res" where
  "SendFunction env c = client_send_queue env (c_Send_Data_Queue c) c"

text \<open>
  The buffers handed to the system are the cut of the packet, or, after a refusal, a part of it that
  ends with the refused one; then the connection is closed.
\<close>

lemma client_send_fragments_effect:
  assumes "cli_inv held c" and "g_Server_Socket c = Some ss" and "ss_Socket ss = k"
    and "length (drop (off * OVERLAPPED_BUFIZE) blk) = unat tot"
  shows "\<exists>c' n. client_send_fragments env blk tot off c = Ok c' \<and> cli_inv held c' \<and> client_sending k c c'
    \<and> cheap c' = cheap c \<and> c_Send_Data_Queue c' = c_Send_Data_Queue c
    \<and> (\<forall>j. sent_buffers j (csys c') = sent_buffers j (csys c)
         @ (if j = k then take n (send_chunks (drop (off * OVERLAPPED_BUFIZE) blk)) else []))
    \<and> (g_Server_Socket c' = Some ss \<and> length (send_chunks (drop (off * OVERLAPPED_BUFIZE) blk)) \<le> n
       \<or> client_closed c' \<and> 0 < n \<and> \<not> send_accepted env)"
  using assms
proof (induction "unat tot" arbitrary: tot off c rule: less_induct)
  case less
  let ?bs = "drop (off * OVERLAPPED_BUFIZE) blk"
  show ?case
  proof (cases "tot \<le> 0")
    case True
    then have "tot = 0"
      by (simp add: word_le_0_iff)
    then have "?bs = []"
      using less.prems(4) by simp
    then show ?thesis
      using True less.prems(1,2)
      by (intro exI [of _ c] exI [of _ 0]) (simp add: client_send_fragments.simps)
  next
    case False
    note cut = fragment_cut [OF less.prems(4) False]
    from client_send_fragment_effect [OF less.prems(1-3) cut(1), of env] obtain b c1 where
      run: "client_send_fragment env blk tot off c = Ok (b, tot - frag_size tot, c1)"
      and c1: "cli_inv held c1" "client_sending k c c1" "cheap c1 = cheap c"
        "c_Send_Data_Queue c1 = c_Send_Data_Queue c"
        "if b then g_Server_Socket c1 = Some ss else client_closed c1"
        "\<forall>j. sent_buffers j (csys c1) = sent_buffers j (csys c)
           @ (if j = k then [take (unat (frag_size tot)) ?bs] else [])"
        "send_accepted env \<longrightarrow> b"
      by blast
    show ?thesis
    proof (cases b)
      case True
      have "g_Server_Socket c1 = Some ss"
        using True c1(5) by simp
      then obtain c' n where c': "client_send_fragments env blk (tot - frag_size tot) (Suc off) c1 = Ok c'"
        "cli_inv held c'" "client_sending k c1 c'" "cheap c' = cheap c1" "c_Send_Data_Queue c' = c_Send_Data_Queue c1"
        "\<forall>j. sent_buffers j (csys c') = sent_buffers j (csys c1)
          @ (if j = k then take n (send_chunks (drop (Suc off * OVERLAPPED_BUFIZE) blk)) else [])"
        "g_Server_Socket c' = Some ss \<and> length (send_chunks (drop (Suc off * OVERLAPPED_BUFIZE) blk)) \<le> n
         \<or> client_closed c' \<and> 0 < n \<and> \<not> send_accepted env"
        using less.hyps [OF cut(5) c1(1) _ less.prems(3) cut(4)] by blast
      have "client_send_fragments env blk tot off c = Ok c'"
        using False run True c'(1) by (subst client_send_fragments.simps) simp
      then show ?thesis
        using c'(2-7) c1(2-4,6) client_sending_trans [OF c1(2) c'(3)] cut(2,3)
        by (intro exI [of _ c'] exI [of _ "Suc n"]) auto
    next
      case no: False
      then have "client_send_fragments env blk tot off c = Ok c1"
        using False run by (subst client_send_fragments.simps) simp
      then show ?thesis
        using no c1 cut(2,3) by (intro exI [of _ c1] exI [of _ 1]) auto
    qed
  qed
qed

section \<open>The queue\<close>

definition cut_packets :: "packet list \<Rightarrow> byte list list" where
  "cut_packets ps = concat (map (\<lambda>p. send_chunks (encode_packet p)) ps)"

lemma client_send_packet_effect:
  assumes inv: "cli_inv held c" and queue: "c_Send_Data_Queue c = q # qs"
    and sock: "g_Server_Socket c = Some ss" "ss_Socket ss = k"
  shows "\<exists>p c' n. cli_sends c = p # cli_sends c' \<and> packet_ok p
    \<and> client_send_packet env q (c\<lparr>c_Send_Data_Queue := qs\<rparr>) = Ok c' \<and> cli_inv held c'
    \<and> client_sending k c c' \<and> c_Send_Data_Queue c' = qs \<and> cells (cheap c') q = None
    \<and> (\<forall>j. sent_buffers j (csys c') = sent_buffers j (csys c)
         @ (if j = k then take n (send_chunks (encode_packet p)) else []))
    \<and> (g_Server_Socket c' = Some ss \<and> length (send_chunks (encode_packet p)) \<le> n
       \<or> client_closed c' \<and> \<not> send_accepted env)"
proof -
  let ?c = "c\<lparr>c_Send_Data_Queue := qs\<rparr>"
  have own: "srv_owns held (cview c)" and qok: "queues_ok (cheap c) (c_Recv_Data_Queue c) (q # qs)"
    using inv queue by (simp_all add: cli_inv_iff cli_queues_view)
  obtain p where p: "heap_packet q (cheap c) = Ok (encode_packet p)" "packet_ok p"
    "send_view (cheap c) (q # qs) = p # send_view (cheap c) qs"
    "queues_ok (cheap c) (c_Recv_Data_Queue c) qs" "q \<notin> set (heap_refs (cheap c) (c_Recv_Data_Queue c) qs)"
    "cells (cheap c) q = Some (Packet_Block (encode_packet p))"
    using queues_pop_send [OF qok] by blast
  obtain h where h: "heap_free q (cheap c) = Ok h" "queues_ok h (c_Recv_Data_Queue c) qs"
    "recv_view h (c_Recv_Data_Queue c) = recv_view (cheap c) (c_Recv_Data_Queue c)"
    "send_view h qs = send_view (cheap c) qs" "cells h = (cells (cheap c))(q := None)"
    using queues_release [OF p(4,5,6)] by blast
  have inv': "cli_inv held ?c"
    unfolding cli_inv_iff cli_queues_view using own p(4) by simp
  have sock': "g_Server_Socket ?c = Some ss"
    using sock by simp
  have len: "length (drop (0 * OVERLAPPED_BUFIZE) (encode_packet p)) = unat (packet_total (word_of_nat (length (snd p))))"
    using packet_total_encode [OF p(2)] by simp
  obtain u n where u: "client_send_fragments env (encode_packet p) (packet_total (word_of_nat (length (snd p)))) 0 ?c = Ok u"
    "cli_inv held u" "client_sending k ?c u" "cheap u = cheap ?c" "c_Send_Data_Queue u = c_Send_Data_Queue ?c"
    "\<forall>j. sent_buffers j (csys u) = sent_buffers j (csys ?c)
         @ (if j = k then take n (send_chunks (drop (0 * OVERLAPPED_BUFIZE) (encode_packet p))) else [])"
    "g_Server_Socket u = Some ss \<and> length (send_chunks (drop (0 * OVERLAPPED_BUFIZE) (encode_packet p))) \<le> n
       \<or> client_closed u \<and> 0 < n \<and> \<not> send_accepted env"
    using client_send_fragments_effect [OF inv' sock' sock(2) len, of env] by blast
  let ?u = "u\<lparr>cheap := h\<rparr>"
  have size: "get_Packet_Size (encode_packet p) = Ok (word_of_nat (length (snd p)))"
    using get_Packet_Size_encode [of p "[]"] by simp
  have run: "client_send_packet env q ?c = Ok ?u"
    using p(1) size u(1,4) h(1) by (simp add: client_send_packet_def)
  have rq: "c_Recv_Data_Queue u = c_Recv_Data_Queue c"
    using u(3) by (simp add: client_sending_def)
  have "srv_owns held (cview ?u) = srv_owns held (cview u)"
    by simp
  then have "cli_inv held ?u"
    unfolding cli_inv_iff cli_queues_view using u(2,5) h(2) rq by (simp add: cli_inv_iff)
  moreover have "client_sending k c ?u"
  proof -
    have "client_sending k c ?c"
      by (auto simp: client_sending_def cli_msgs_def intro!: cli_flightsI new_io_same simp: cli_at_def)
    moreover have "client_sending k u ?u"
      using h(3) u(4) rq
      by (auto simp: client_sending_def cli_msgs_def cli_at_def intro!: cli_flightsI new_io_same)
    ultimately show ?thesis
      using u(3) client_sending_trans by blast
  qed
  moreover have "cli_sends c = p # cli_sends ?u"
    using queue p(3) h(4) u(5) by (simp add: cli_sends_def)
  moreover have "client_closed ?u = client_closed u"
    by (simp add: client_closed_def server_socket_def)
  ultimately show ?thesis
    using run p(2) h(5) u(5-7) by (intro exI [of _ p] exI [of _ ?u] exI [of _ n]) auto
qed

text \<open>
  All of \<open>SendFunction\<close>: the buffers handed to the system are the cut of the queued packets, in
  order, up to a refusal; when there was none the queue is empty and the connection is as before;
  after one the connection is closed and the packets not yet started are still queued.
\<close>

lemma client_send_queue_effect:
  assumes "cli_inv held c" and "g_Server_Socket c = Some ss" and "ss_Socket ss = k" and "k \<noteq> INVALID_SOCKET"
  shows "\<exists>c' done n. client_send_queue env (c_Send_Data_Queue c) c = Ok c' \<and> cli_inv held c'
    \<and> client_sending k c c' \<and> cli_sends c = done @ cli_sends c'
    \<and> (\<forall>j. sent_buffers j (csys c') = sent_buffers j (csys c)
         @ (if j = k then take n (cut_packets done) else []))
    \<and> (g_Server_Socket c' = Some ss \<and> cli_sends c' = [] \<and> length (cut_packets done) \<le> n
       \<or> client_closed c' \<and> done \<noteq> [] \<and> \<not> send_accepted env)"
  using assms
proof (induction "c_Send_Data_Queue c" arbitrary: c)
  case Nil
  then show ?case
    by (intro exI [of _ c] exI [of _ "[]"] exI [of _ 0])
      (simp add: cli_sends_def cut_packets_def send_view_def flip: Nil.hyps)
next
  case (Cons q qs)
  from client_send_packet_effect [OF Cons.prems(1) Cons.hyps(2) [symmetric] Cons.prems(2,3), of env]
  obtain p c1 n where c1: "cli_sends c = p # cli_sends c1" "packet_ok p"
    "client_send_packet env q (c\<lparr>c_Send_Data_Queue := qs\<rparr>) = Ok c1" "cli_inv held c1"
    "client_sending k c c1" "c_Send_Data_Queue c1 = qs"
    "\<forall>j. sent_buffers j (csys c1) = sent_buffers j (csys c)
         @ (if j = k then take n (send_chunks (encode_packet p)) else [])"
    "g_Server_Socket c1 = Some ss \<and> length (send_chunks (encode_packet p)) \<le> n
       \<or> client_closed c1 \<and> \<not> send_accepted env"
    by blast
  have step: "client_send_queue env (c_Send_Data_Queue c) c = client_send_queue env qs c1"
    using Cons.prems(2-4) c1(3) by (simp add: server_socket_def flip: Cons.hyps(2))
  from c1(8) show ?case
  proof (elim disjE conjE)
    assume ok: "g_Server_Socket c1 = Some ss" "length (send_chunks (encode_packet p)) \<le> n"
    from Cons.hyps(1) [OF c1(6) [symmetric] c1(4) ok(1) Cons.prems(3,4)] obtain c' ds m where
      c': "client_send_queue env qs c1 = Ok c'" "cli_inv held c'" "client_sending k c1 c'"
        "cli_sends c1 = ds @ cli_sends c'"
        "\<forall>j. sent_buffers j (csys c') = sent_buffers j (csys c1) @ (if j = k then take m (cut_packets ds) else [])"
        "g_Server_Socket c' = Some ss \<and> cli_sends c' = [] \<and> length (cut_packets ds) \<le> m
         \<or> client_closed c' \<and> ds \<noteq> [] \<and> \<not> send_accepted env"
      unfolding c1(6) by blast
    have "cut_packets (p # ds) = send_chunks (encode_packet p) @ cut_packets ds"
      by (simp add: cut_packets_def)
    with ok(2) c'(4-6) c1(1,7) step c'(1-3) client_sending_trans [OF c1(5) c'(3)] show ?case
      by (intro exI [of _ c'] exI [of _ "p # ds"] exI [of _ "length (send_chunks (encode_packet p)) + m"]) auto
  next
    assume closed: "client_closed c1" and ref: "\<not> send_accepted env"
    have "server_socket c1 = Ok INVALID_SOCKET"
      using closed by (simp add: client_closed_def)
    then have "client_send_queue env qs c1 = Ok c1"
      by (cases qs) simp_all
    moreover have "cut_packets [p] = send_chunks (encode_packet p)"
      by (simp add: cut_packets_def)
    ultimately show ?case
      using step c1 closed ref by (intro exI [of _ c1] exI [of _ "[p]"] exI [of _ n]) simp
  qed
qed

section \<open>What Send queues\<close>

lemma Client_Send_outcome:
  assumes inv: "cli_inv held c" and sock: "g_Server_Socket c = Some ss" and blk: "user_packet blk p"
  shows "ss_Socket ss = INVALID_SOCKET \<Longrightarrow> Client_Send env (Some blk) t k c = Ok (LOGIC_FAIL, c)"
    and "ss_Socket ss \<noteq> INVALID_SOCKET \<Longrightarrow>
      \<exists>c'. Client_Send env (Some blk) t k c = Ok (LOGIC_SUCCESS, c') \<and> cli_inv held c'
        \<and> cli_sends c' = cli_sends c @ [p] \<and> cli_msgs c' = cli_msgs c \<and> csys c' = csys c
        \<and> client_sending k c c' \<and> g_Server_Socket c' = Some ss"
proof -
  show "Client_Send env (Some blk) t k c = Ok (LOGIC_FAIL, c)" if "ss_Socket ss = INVALID_SOCKET"
    using that sock by (simp add: Client_Send_def server_socket_def)
  assume valid: "ss_Socket ss \<noteq> INVALID_SOCKET"
  note cp = copy_packet_Ok [OF blk]
  obtain q h where alloc: "heap_alloc (Packet_Block (encode_packet p)) (cheap c) = (q, h)"
    by force
  let ?c = "c\<lparr>cheap := h, c_Send_Data_Queue := c_Send_Data_Queue c @ [q]\<rparr>"
  have qok: "queues_ok (cheap c) (c_Recv_Data_Queue c) (c_Send_Data_Queue c)"
    using inv by (simp add: cli_inv_iff cli_queues_view)
  have p: "packet_ok p"
    using blk by (simp add: user_packet_def)
  note push = queues_push_send [OF qok alloc p]
  have run: "Client_Send env (Some blk) t k c = Ok (LOGIC_SUCCESS, ?c)"
    using valid sock cp(1,2,3) alloc
    by (simp add: Client_Send_def server_socket_def cp(4))
  have "srv_owns held (cview ?c) = srv_owns held (cview c)"
    by (rule srv_owns_cong) simp_all
  then have "cli_inv held ?c"
    unfolding cli_inv_iff cli_queues_view using inv push(1) by (simp add: cli_inv_iff)
  moreover have "client_sending k c ?c"
    using push(2) by (auto simp: client_sending_def cli_msgs_def cli_at_def intro!: cli_flightsI new_io_same)
  ultimately show "\<exists>c'. Client_Send env (Some blk) t k c = Ok (LOGIC_SUCCESS, c') \<and> cli_inv held c'
        \<and> cli_sends c' = cli_sends c @ [p] \<and> cli_msgs c' = cli_msgs c \<and> csys c' = csys c
        \<and> client_sending k c c' \<and> g_Server_Socket c' = Some ss"
    using run push(2,3) sock
    by (intro exI [of _ ?c]) (simp add: cli_sends_def cli_msgs_def)
qed

end
