(* ===== verification/DH_ClientLife.thy ===== *)
theory DH_ClientLife
  imports DH_ClientSend
begin

text \<open>
  The life of a client: its constructor, \<open>SetDebug\<close>, \<open>Connect\<close>, which only starts the connecting
  thread, the worker thread, the connecting thread and \<open>End\<close>. The connecting thread is a program with
  four control points between which another thread can act: the top of its loop, the attempts to
  connect, the registration of the socket at the port, and the assignment that marks the connection as
  established.
\<close>

section \<open>Construction\<close>

definition DHClient_init :: "os \<Rightarrow> sys \<Rightarrow> client" where
  "DHClient_init env y =
     \<lparr>c_PORT = 729, c_IP = ''127.0.0.1'', c_Recv_Data_Queue = [], c_Send_Data_Queue = [],
      c_Available_Overlapped = no_pool (ov_class env), g_Server_Socket = None, c_Work_Thread = 0,
      g_Connect_Send_Client_Thread = Thread_Null, Is_Server_Connect_Success = False,
      c_IOCP = False, c_Is_Exit = False, c_Debug_Option = DHDEBUG_NONE,
      cheap = empty_heap, csys = y\<rparr>"

primrec Client_CreateWorkThread :: "os \<Rightarrow> nat \<Rightarrow> client \<Rightarrow> client" where
  "Client_CreateWorkThread env 0 c = c"
| "Client_CreateWorkThread env (Suc n) c =
     (let c = cli_do env (Sys_ThreadStart ''WorkThread'') c
      in Client_CreateWorkThread env n (c\<lparr>c_Work_Thread := Suc (c_Work_Thread c)\<rparr>))"

definition DHClient_ctor :: "os \<Rightarrow> sys \<Rightarrow> client res" where
  "DHClient_ctor env y =
     bindE (NetWorkBase_ctor env y) (\<lambda>y.
       let c = (DHClient_init env y)\<lparr>g_Server_Socket := Some Socket_Struct_ctor\<rparr>;
           (r, c) = cli_call env Sys_CreatePort c;
           c = c\<lparr>c_IOCP := ret_ok r\<rparr>
       in bindE (assertE env (c_IOCP c)) (\<lambda>_.
            Ok (Client_CreateWorkThread env CLIENT_THREAD_COUNT
                  (c\<lparr>c_Available_Overlapped := ObjectPool_new (ov_class env) CLIENT_OVERLAPPED_COUNT\<rparr>))))"

definition Client_SetDebug :: "u16 \<Rightarrow> client \<Rightarrow> client" where
  "Client_SetDebug Debug_Option c = c\<lparr>c_Debug_Option := Debug_Option\<rparr>"

definition Client_Connect :: "os \<Rightarrow> u16 \<Rightarrow> string \<Rightarrow> client \<Rightarrow> int \<times> client" where
  "Client_Connect env Port Ip c =
     (if g_Connect_Send_Client_Thread c \<noteq> Thread_Null
      then (of_bool (Is_Server_Connect_Success c), c)
      else
        let c = c\<lparr>c_PORT := Port, c_IP := Ip\<rparr>;
            c = (cli_do env (Sys_ThreadStart ''ConnectSendThread'') c)
                  \<lparr>g_Connect_Send_Client_Thread := Thread_Live\<rparr>
        in (0, c))"

section \<open>The worker thread\<close>

definition Client_IOFunction_Send :: "os \<Rightarrow> u32 \<Rightarrow> nat \<Rightarrow> client \<Rightarrow> client" where
  "Client_IOFunction_Send env dwBytesTransferred x c = cli_reset env x c"

text \<open>One completion. The result says whether the thread returns.\<close>

definition Client_WorkThread_entry :: "os \<Rightarrow> OVERLAPPED_ENTRY \<Rightarrow> client \<Rightarrow> (bool \<times> client) res" where
  "Client_WorkThread_entry env e c =
     (case lpCompletionKey e of
        None \<Rightarrow> Ok (True, cli_do env Sys_PostQuit c)
      | Some p \<Rightarrow>
          bindE (assertE env (lpOverlapped e \<noteq> None)) (\<lambda>_.
          if dwNumberOfBytesTransferred e = 0
          then (case lpOverlapped e of
                  None \<Rightarrow> Fault Null_Deref
                | Some x \<Rightarrow>
                    let (r, c) = cli_call env (Sys_Shutdown (m_Socket (cli_at c x))) c
                    in bindE (if ret_ok r then Safe_CloseSocket env c else Ok c)
                         (\<lambda>c. Ok (False, cli_reset env x c)))
          else (case lpOverlapped e of
                  None \<Rightarrow> Ok (False, c)
                | Some x \<Rightarrow>
                    (case m_IOType (cli_at c x) of
                       IOType_Recv \<Rightarrow>
                         bindE (Client_IOFunction_Recv env (dwNumberOfBytesTransferred e) x c)
                           (\<lambda>c. Ok (False, c))
                     | IOType_Send \<Rightarrow>
                         Ok (False, Client_IOFunction_Send env (dwNumberOfBytesTransferred e) x c)
                     | _ \<Rightarrow> Ok (False, c)))))"

primrec Client_WorkThread_batch :: "os \<Rightarrow> OVERLAPPED_ENTRY list \<Rightarrow> client \<Rightarrow> (bool \<times> client) res" where
  "Client_WorkThread_batch env [] c = Ok (False, c)"
| "Client_WorkThread_batch env (e # es) c =
     bindE (Client_WorkThread_entry env e c) (\<lambda>(stop, c).
       if stop then Ok (True, c) else Client_WorkThread_batch env es c)"

text \<open>A failed \<open>GetQueuedCompletionStatusEx\<close>.\<close>

definition Client_WorkThread_failed :: "os \<Rightarrow> client \<Rightarrow> client res" where
  "Client_WorkThread_failed env c =
     bindE (Safe_CloseSocket env c) (\<lambda>c. Ok (c\<lparr>Is_Server_Connect_Success := False\<rparr>))"

primrec Client_WorkThread_loop ::
    "os \<Rightarrow> OVERLAPPED_ENTRY list option list \<Rightarrow> client \<Rightarrow> (bool \<times> client) res" where
  "Client_WorkThread_loop env [] c = Ok (False, c)"
| "Client_WorkThread_loop env (got # rest) c =
     (case got of
        None \<Rightarrow> bindE (Client_WorkThread_failed env c) (Client_WorkThread_loop env rest)
      | Some es \<Rightarrow> bindE (Client_WorkThread_batch env es c) (\<lambda>(stop, c).
          if stop then Ok (True, c) else Client_WorkThread_loop env rest c))"

definition Client_WorkThread ::
    "os \<Rightarrow> OVERLAPPED_ENTRY list option list \<Rightarrow> client \<Rightarrow> (bool \<times> client) res" where
  "Client_WorkThread env dequeues c =
     bindE (assertE env (c_IOCP c)) (\<lambda>_. Client_WorkThread_loop env dequeues c)"

section \<open>The connecting thread\<close>

text \<open>Getting a socket: whether there is one.\<close>

definition connect_socket :: "os \<Rightarrow> client \<Rightarrow> (bool \<times> client) res" where
  "connect_socket env c =
     bindE (server_socket c) (\<lambda>k.
       if INVALID_SOCKET = k
       then let (r, c) = cli_call env Sys_WSASocket c;
                c = set_server_socket (ret_sock r) c
            in bindE (assertE env (0 \<noteq> ret_sock r)) (\<lambda>_. Ok (ret_sock r \<noteq> INVALID_SOCKET, c))
       else Ok (True, c))"

text \<open>One attempt to connect: whether to try again.\<close>

definition connect_try :: "os \<Rightarrow> client \<Rightarrow> (bool \<times> client) res" where
  "connect_try env c =
     bindE (server_socket c) (\<lambda>k.
       let (r, c) = cli_call env (Sys_Connect k (c_PORT c) (c_IP c)) c
       in if ret_ok r then Ok (False, c)
          else if last_error r = WSAECONNREFUSED then Ok (True, c)
          else bindE (Safe_CloseSocket env c) (\<lambda>c. Ok (False, c)))"

text \<open>Registering the socket at the port and arming the first receive: whether both succeeded.\<close>

definition connect_register :: "os \<Rightarrow> client \<Rightarrow> (bool \<times> client) res" where
  "connect_register env c =
     bindE (server_socket c) (\<lambda>k.
       if c_Is_Exit c \<or> INVALID_SOCKET = k then Ok (False, c)
       else
         let (r, c) = cli_call env (Sys_Associate k (Some 0)) c
         in if \<not> ret_ok r then bindE (Safe_CloseSocket env c) (\<lambda>c. Ok (False, c))
            else bindE (Client_Reserve_WSAReceive env k None c) (\<lambda>(ok, c).
                   if \<not> ok then bindE (Safe_CloseSocket env c) (\<lambda>c. Ok (False, c))
                   else Ok (True, c)))"

datatype connect_pc = At_Top | At_Connect | At_Register | At_Mark | At_End

definition ConnectSendThread_step :: "os \<Rightarrow> connect_pc \<Rightarrow> client \<Rightarrow> (connect_pc \<times> client) res" where
  "ConnectSendThread_step env pc c =
     (case pc of
        At_Top \<Rightarrow>
          if c_Is_Exit c then Ok (At_End, c)
          else if Is_Server_Connect_Success c
          then bindE (SendFunction env c) (\<lambda>c. Ok (At_Top, c))
          else bindE (connect_socket env c) (\<lambda>(ok, c). Ok (if ok then At_Connect else At_End, c))
      | At_Connect \<Rightarrow>
          if c_Is_Exit c then Ok (At_Register, c)
          else bindE (connect_try env c) (\<lambda>(again, c). Ok (if again then At_Connect else At_Register, c))
      | At_Register \<Rightarrow>
          bindE (connect_register env c) (\<lambda>(ok, c). Ok (if ok then At_Mark else At_Top, c))
      | At_Mark \<Rightarrow> Ok (At_Top, c\<lparr>Is_Server_Connect_Success := True\<rparr>)
      | At_End \<Rightarrow> Ok (At_End, c))"

text \<open>The thread on its own for \<open>n\<close> steps.\<close>

primrec ConnectSendThread :: "os \<Rightarrow> nat \<Rightarrow> connect_pc \<Rightarrow> client \<Rightarrow> (connect_pc \<times> client) res" where
  "ConnectSendThread env 0 pc c = Ok (pc, c)"
| "ConnectSendThread env (Suc n) pc c =
     bindE (ConnectSendThread_step env pc c) (\<lambda>(pc, c). ConnectSendThread env n pc c)"

section \<open>End\<close>

primrec client_join_workers :: "os \<Rightarrow> nat \<Rightarrow> client \<Rightarrow> client" where
  "client_join_workers env 0 c = c"
| "client_join_workers env (Suc n) c =
     client_join_workers env n (cli_do env (Sys_ThreadJoin ''WorkThread'') c)"

text \<open>What \<open>End\<close> does before it waits for the threads.\<close>

definition client_stop :: "os \<Rightarrow> client \<Rightarrow> client" where
  "client_stop env c = (cli_do env Sys_PostQuit c)\<lparr>c_Is_Exit := True\<rparr>"

definition Client_End :: "os \<Rightarrow> client \<Rightarrow> (int \<times> client) res" where
  "Client_End env c =
     (let c = client_stop env c
      in bindE (case g_Connect_Send_Client_Thread c of
                  Thread_Null \<Rightarrow> Fault Null_Deref
                | Thread_Deleted \<Rightarrow> Fault Use_After_Free
                | Thread_Live \<Rightarrow> Ok (cli_do env (Sys_ThreadJoin ''ConnectSendThread'') c)) (\<lambda>c.
         let c = c\<lparr>g_Connect_Send_Client_Thread := Thread_Deleted\<rparr>;
             c = (client_join_workers env (c_Work_Thread c) c)\<lparr>c_Work_Thread := 0\<rparr>
         in bindE (free_recv_queue (c_Recv_Data_Queue c) (cheap c)) (\<lambda>h.
            bindE (free_send_queue (c_Send_Data_Queue c) h) (\<lambda>h.
            let c = c\<lparr>c_Recv_Data_Queue := [], c_Send_Data_Queue := [], cheap := h\<rparr>;
                c = (cli_do env Sys_CloseHandle c)\<lparr>c_IOCP := False\<rparr>
            in bindE (Safe_CloseSocket env c) (\<lambda>c.
               let c = cli_do env Sys_WSACleanup c;
                   c = c\<lparr>c_Available_Overlapped := snd (ObjectPool_delete (c_Available_Overlapped c))\<rparr>
               in Ok (1, c\<lparr>g_Server_Socket := None\<rparr>))))))"

text \<open>The destructor ends a client whose port is open.\<close>

definition DHClient_dtor :: "os \<Rightarrow> client \<Rightarrow> client res" where
  "DHClient_dtor env c = (if c_IOCP c then bindE (Client_End env c) (\<lambda>(_, c). Ok c) else Ok c)"

end
