(* ===== verification/DH_ClientSystem.thy ===== *)
theory DH_ClientSystem
  imports DH_ClientLife
begin

text \<open>
  The client as a state machine: the connecting thread between its control points, the worker, and the
  application act on the state in any order. In every reachable state each overlapped structure is in
  the pool or in flight, the operations in flight are receives and sends on real sockets, and, as long
  as the system never refuses a \<open>shutdown\<close>, a connected client with a socket has a receive in flight.
\<close>

section \<open>Steps that leave the data alone\<close>

definition cli_idle :: "client \<Rightarrow> client \<Rightarrow> bool" where
  "cli_idle c c' \<longleftrightarrow> c_Available_Overlapped c' = c_Available_Overlapped c
     \<and> in_flight (csys c') = in_flight (csys c) \<and> cheap c' = cheap c
     \<and> c_Recv_Data_Queue c' = c_Recv_Data_Queue c \<and> c_Send_Data_Queue c' = c_Send_Data_Queue c"

lemma cli_idle_refl [simp, intro]: "cli_idle c c"
  by (simp add: cli_idle_def)

lemma cli_idle_trans: "cli_idle c c' \<Longrightarrow> cli_idle c' c'' \<Longrightarrow> cli_idle c c''"
  by (simp add: cli_idle_def)

lemma cli_idleD:
  assumes "cli_idle c c'"
  shows "cli_inv held c' = cli_inv held c" and "cli_at c' = cli_at c"
    and "in_flight (csys c') = in_flight (csys c)" and "cli_rearmed c' = cli_rearmed c"
    and "cli_msgs c' = cli_msgs c" and "cli_sends c' = cli_sends c"
proof -
  have "srv_owns held (cview c') = srv_owns held (cview c)"
    using assms by (intro srv_owns_cong) (simp_all add: cli_idle_def)
  then show "cli_inv held c' = cli_inv held c"
    using assms by (simp add: cli_inv_iff cli_queues_view cli_idle_def)
  show at: "cli_at c' = cli_at c"
    using assms by (simp add: cli_idle_def cli_at_def fun_eq_iff)
  then show "cli_rearmed c' = cli_rearmed c"
    using assms by (simp add: cli_rearmed_def cli_idle_def fun_eq_iff)
qed (use assms in \<open>simp_all add: cli_idle_def cli_msgs_def cli_sends_def\<close>)

lemma cli_do_idle [simp, intro]: "cli_idle c (cli_do env k c)"
  by (simp add: cli_idle_def cli_do_def cli_call_def sys_call_def)

lemma cli_do_frame [simp]:
  "g_Server_Socket (cli_do env k c) = g_Server_Socket c" "cheap (cli_do env k c) = cheap c"
  "c_Recv_Data_Queue (cli_do env k c) = c_Recv_Data_Queue c"
  "c_Send_Data_Queue (cli_do env k c) = c_Send_Data_Queue c"
  "g_Connect_Send_Client_Thread (cli_do env k c) = g_Connect_Send_Client_Thread c"
  "c_Work_Thread (cli_do env k c) = c_Work_Thread c" "c_IOCP (cli_do env k c) = c_IOCP c"
  "calls (csys (cli_do env k c)) = k # calls (csys c)"
  "in_flight (csys (cli_do env k c)) = in_flight (csys c)"
  by (simp_all add: cli_do_def cli_call_def sys_call_def)

lemma cli_call_idle: "cli_call env k c = (r, c') \<Longrightarrow> cli_idle c c' \<and> g_Server_Socket c' = g_Server_Socket c
    \<and> Is_Server_Connect_Success c' = Is_Server_Connect_Success c \<and> c_Is_Exit c' = c_Is_Exit c
    \<and> g_Connect_Send_Client_Thread c' = g_Connect_Send_Client_Thread c \<and> r = os_ret env (calls (csys c)) k"
  by (auto simp: cli_idle_def cli_call_def sys_call_def)

lemma Safe_CloseSocket_idle:
  assumes "g_Server_Socket c \<noteq> None"
  shows "\<exists>c'. Safe_CloseSocket env c = Ok c' \<and> cli_idle c c' \<and> client_closed c'
    \<and> g_Server_Socket c' \<noteq> None \<and> c_Is_Exit c' = c_Is_Exit c"
proof -
  obtain ss where ss: "g_Server_Socket c = Some ss"
    using assms by auto
  obtain c' where "Safe_CloseSocket env c = Ok c'" "\<not> Is_Server_Connect_Success c'"
    "server_socket c' = Ok INVALID_SOCKET" "in_flight (csys c') = in_flight (csys c)"
    "c_Recv_Data_Queue c' = c_Recv_Data_Queue c" "c_Send_Data_Queue c' = c_Send_Data_Queue c"
    "cheap c' = cheap c" "g_Server_Socket c' = Some (ss\<lparr>ss_Socket := INVALID_SOCKET\<rparr>)"
    "c_Available_Overlapped c' = c_Available_Overlapped c" "c_Is_Exit c' = c_Is_Exit c"
    by (rule Safe_CloseSocket_effect [OF ss, where env = env]) blast
  then show ?thesis
    by (simp add: cli_idle_def client_closed_def)
qed

section \<open>The invariant\<close>

text \<open>What holds of the data, and of the connecting thread at its control point.\<close>

definition cli_valid :: "nat list \<Rightarrow> client \<Rightarrow> bool" where
  "cli_valid held c \<longleftrightarrow> cli_inv held c \<and> g_Server_Socket c \<noteq> None
     \<and> (\<forall>x \<in> set (in_flight (csys c)). m_Socket (cli_at c x) \<noteq> INVALID_SOCKET
          \<and> m_IOType (cli_at c x) \<in> {IOType_Recv, IOType_Send})"

definition pc_ok :: "connect_pc \<Rightarrow> client \<Rightarrow> bool" where
  "pc_ok pc c \<longleftrightarrow> (pc \<in> {At_Connect, At_Register, At_Mark} \<longrightarrow> \<not> Is_Server_Connect_Success c)"

definition cli_armed :: "connect_pc \<Rightarrow> client \<Rightarrow> bool" where
  "cli_armed pc c \<longleftrightarrow> (Is_Server_Connect_Success c \<or> pc = At_Mark \<longrightarrow>
     (\<forall>k. server_socket c = Ok k \<longrightarrow> k \<noteq> INVALID_SOCKET \<longrightarrow> cli_rearmed c k))"

lemma client_closed_ok [simp]: "client_closed c \<Longrightarrow> pc_ok pc c" "client_closed c \<Longrightarrow> cli_armed pc c"
  by (simp_all add: client_closed_def pc_ok_def cli_armed_def)

lemma cli_valid_idle: "cli_idle c c' \<Longrightarrow> g_Server_Socket c' \<noteq> None \<Longrightarrow> cli_valid held c \<Longrightarrow> cli_valid held c'"
  by (simp add: cli_valid_def cli_idleD)

lemma cli_valid_new:
  assumes "cli_valid held c" and "cli_inv held' c'" and "g_Server_Socket c' \<noteq> None" and "k \<noteq> INVALID_SOCKET"
    and "cli_flights c c'" and "new_io k (cview c) (cview c')"
  shows "cli_valid held' c'"
  unfolding cli_valid_def
proof (intro conjI ballI assms(2,3))
  fix x assume x: "x \<in> set (in_flight (csys c'))"
  have "m_Socket (cli_at c' x) \<noteq> INVALID_SOCKET \<and> m_IOType (cli_at c' x) \<in> {IOType_Recv, IOType_Send}"
  proof (cases "x \<in> set (in_flight (csys c))")
    case True
    then have "cli_at c' x = cli_at c x"
      using assms(5) by (simp add: cli_flights_def flight_kept_def)
    with True assms(1) show ?thesis
      by (simp add: cli_valid_def)
  next
    case False
    with x assms(4,6) show ?thesis
      by (simp add: new_io_def)
  qed
  then show "m_Socket (cli_at c' x) \<noteq> INVALID_SOCKET" "m_IOType (cli_at c' x) \<in> {IOType_Recv, IOType_Send}"
    by blast+
qed

section \<open>The connecting thread\<close>

lemma SendFunction_step:
  assumes valid: "cli_valid [] c"
  shows "\<exists>c'. SendFunction env c = Ok c' \<and> cli_valid [] c'
    \<and> (client_closed c' \<or> g_Server_Socket c' = g_Server_Socket c
         \<and> Is_Server_Connect_Success c' = Is_Server_Connect_Success c \<and> cli_flights c c')"
proof -
  obtain ss where ss: "g_Server_Socket c = Some ss"
    using valid by (auto simp: cli_valid_def)
  show ?thesis
  proof (cases "ss_Socket ss = INVALID_SOCKET")
    case True
    then have "SendFunction env c = Ok c"
      using ss by (cases "c_Send_Data_Queue c") (simp_all add: SendFunction_def server_socket_def)
    with valid show ?thesis by auto
  next
    case False
    have "cli_inv [] c"
      using valid by (simp add: cli_valid_def)
    from client_send_queue_effect [OF this ss refl False, of env] obtain c' where
      c': "SendFunction env c = Ok c'" "cli_inv [] c'" "client_sending (ss_Socket ss) c c'"
      unfolding SendFunction_def by blast
    have "g_Server_Socket c' \<noteq> None"
      using c'(3) ss by (auto simp: client_sending_def)
    with c' False have "cli_valid [] c'"
      by (intro cli_valid_new [OF valid c'(2) _ False]) (simp_all add: client_sending_def)
    with c' show ?thesis
      by (auto simp: client_sending_def)
  qed
qed

lemma connect_socket_step:
  assumes "g_Server_Socket c \<noteq> None" and "\<not> Is_Server_Connect_Success c"
  shows "(\<exists>ok c'. connect_socket env c = Ok (ok, c') \<and> cli_idle c c' \<and> g_Server_Socket c' \<noteq> None
            \<and> \<not> Is_Server_Connect_Success c')
         \<or> debug_build env \<and> (\<exists>e. connect_socket env c = Fault e)"
proof -
  obtain ss where ss: "g_Server_Socket c = Some ss"
    using assms by auto
  show ?thesis
  proof (cases "ss_Socket ss = INVALID_SOCKET")
    case False
    then have "connect_socket env c = Ok (True, c)"
      using ss by (simp add: connect_socket_def server_socket_def)
    with assms show ?thesis by auto
  next
    case True
    obtain r c1 where call: "cli_call env Sys_WSASocket c = (r, c1)"
      by force
    note c1 = cli_call_idle [OF call]
    have "cli_idle c (set_server_socket (ret_sock r) c1)"
      using c1 by (simp add: cli_idle_def set_server_socket_def)
    moreover have "g_Server_Socket (set_server_socket (ret_sock r) c1) \<noteq> None"
      "\<not> Is_Server_Connect_Success (set_server_socket (ret_sock r) c1)"
      using c1 ss assms by (simp_all add: set_server_socket_def)
    ultimately show ?thesis
      using True ss call
      by (cases "debug_build env \<and> ret_sock r = 0")
        (auto simp: connect_socket_def server_socket_def assertE_def)
  qed
qed

lemma connect_try_step:
  assumes "g_Server_Socket c \<noteq> None" and "\<not> Is_Server_Connect_Success c"
  shows "\<exists>again c'. connect_try env c = Ok (again, c') \<and> cli_idle c c' \<and> g_Server_Socket c' \<noteq> None
            \<and> \<not> Is_Server_Connect_Success c'"
proof -
  obtain ss where ss: "g_Server_Socket c = Some ss"
    using assms by auto
  obtain r c1 where call: "cli_call env (Sys_Connect (ss_Socket ss) (c_PORT c) (c_IP c)) c = (r, c1)"
    by force
  note c1 = cli_call_idle [OF call]
  obtain c2 where c2: "Safe_CloseSocket env c1 = Ok c2" "cli_idle c1 c2" "client_closed c2"
    "g_Server_Socket c2 \<noteq> None"
    using Safe_CloseSocket_idle [of c1 env] c1 ss by auto
  have "cli_idle c c2"
    using c1 c2(2) cli_idle_trans by blast
  then show ?thesis
    using c1 c2 call ss assms
    by (cases "ret_ok r"; cases "last_error r = WSAECONNREFUSED")
      (simp_all add: connect_try_def server_socket_def client_closed_def ex_bool_eq)
qed

lemma Safe_CloseSocket_valid:
  assumes "cli_valid [] c"
  shows "\<exists>c'. Safe_CloseSocket env c = Ok c' \<and> cli_valid [] c' \<and> client_closed c'"
proof -
  have "g_Server_Socket c \<noteq> None"
    using assms by (simp add: cli_valid_def)
  from Safe_CloseSocket_idle [OF this, of env] show ?thesis
    using cli_valid_idle [OF _ _ assms] by blast
qed

lemma connect_register_step:
  assumes valid: "cli_valid [] c" and off: "\<not> Is_Server_Connect_Success c"
  shows "\<exists>ok c'. connect_register env c = Ok (ok, c') \<and> cli_valid [] c' \<and> \<not> Is_Server_Connect_Success c'
    \<and> (ok \<longrightarrow> cli_armed At_Mark c')"
proof -
  obtain ss where ss: "g_Server_Socket c = Some ss"
    using valid by (auto simp: cli_valid_def)
  let ?k = "ss_Socket ss"
  show ?thesis
  proof (cases "c_Is_Exit c \<or> ?k = INVALID_SOCKET")
    case True
    then have "connect_register env c = Ok (False, c)"
      using ss by (auto simp: connect_register_def server_socket_def)
    with valid off show ?thesis by auto
  next
    case False
    then have k: "?k \<noteq> INVALID_SOCKET" by simp
    obtain r c1 where call: "cli_call env (Sys_Associate ?k (Some 0)) c = (r, c1)"
      by force
    note c1 = cli_call_idle [OF call]
    have v1: "cli_valid [] c1"
      using c1 ss by (intro cli_valid_idle [OF _ _ valid]) simp_all
    then have "cli_inv [] c1"
      by (simp add: cli_valid_def)
    from Client_Reserve_None [OF this k, of env] obtain ok c2 where
      res: "Client_Reserve_WSAReceive env ?k None c1 = Ok (ok, c2)" and same: "cli_same c1 c2"
      and c2: "cli_inv [] c2" "cli_flights c1 c2" "new_io ?k (cview c1) (cview c2)" "ok \<longrightarrow> cli_rearmed c2 ?k"
      by blast
    note D = cli_sameD [OF same]
    have v2: "cli_valid [] c2"
      using c2 D c1 ss by (intro cli_valid_new [OF v1 _ _ k]) simp_all
    have "ok \<longrightarrow> cli_armed At_Mark c2"
      using c2(4) D(3) c1 ss by (simp add: cli_armed_def server_socket_def)
    moreover have "\<not> Is_Server_Connect_Success c2"
      using D(4) c1 off by simp
    moreover obtain c3 where "Safe_CloseSocket env c1 = Ok c3" "cli_valid [] c3" "\<not> Is_Server_Connect_Success c3"
      using Safe_CloseSocket_valid [OF v1, of env] by (auto simp: client_closed_def)
    moreover obtain c4 where "Safe_CloseSocket env c2 = Ok c4" "cli_valid [] c4" "\<not> Is_Server_Connect_Success c4"
      using Safe_CloseSocket_valid [OF v2, of env] by (auto simp: client_closed_def)
    moreover have "server_socket c = Ok ?k"
      using ss by (simp add: server_socket_def)
    ultimately show ?thesis
      using False call res v2
      by (cases "ret_ok r"; cases ok) (simp_all add: connect_register_def ex_bool_eq k [symmetric])
  qed
qed

lemma ConnectSendThread_top:
  assumes valid: "cli_valid [] c"
  shows "(\<exists>pc' c'. ConnectSendThread_step env At_Top c = Ok (pc', c') \<and> cli_valid [] c' \<and> pc_ok pc' c'
            \<and> (cli_armed At_Top c \<longrightarrow> cli_armed pc' c'))
         \<or> debug_build env \<and> (\<exists>e. ConnectSendThread_step env At_Top c = Fault e)"
proof -
  consider (ex) "c_Is_Exit c" | (on) "\<not> c_Is_Exit c" "Is_Server_Connect_Success c"
    | (off) "\<not> c_Is_Exit c" "\<not> Is_Server_Connect_Success c" by blast
  then show ?thesis
  proof cases
    case ex
    with valid show ?thesis
      by (simp add: ConnectSendThread_step_def pc_ok_def cli_armed_def)
  next
    case on
    from SendFunction_step [OF valid, of env] obtain c' where
      c': "SendFunction env c = Ok c'" "cli_valid [] c'"
        "client_closed c' \<or> g_Server_Socket c' = g_Server_Socket c
         \<and> Is_Server_Connect_Success c' = Is_Server_Connect_Success c \<and> cli_flights c c'"
      by blast
    have "cli_armed At_Top c \<longrightarrow> cli_armed At_Top c'"
      using c'(3) cli_rearmed_kept by (auto simp: cli_armed_def client_closed_def server_socket_def)
    with on c' show ?thesis
      by (simp add: ConnectSendThread_step_def pc_ok_def)
  next
    case off
    have "g_Server_Socket c \<noteq> None"
      using valid by (simp add: cli_valid_def)
    from connect_socket_step [OF this off(2), of env] show ?thesis
    proof (elim disjE exE conjE)
      fix ok c' assume c': "connect_socket env c = Ok (ok, c')" "cli_idle c c'" "g_Server_Socket c' \<noteq> None"
        "\<not> Is_Server_Connect_Success c'"
      have "cli_valid [] c'"
        using cli_valid_idle [OF c'(2,3) valid] .
      with off c' show ?thesis
        by (simp add: ConnectSendThread_step_def pc_ok_def cli_armed_def)
    qed (use off in \<open>simp add: ConnectSendThread_step_def\<close>)
  qed
qed

text \<open>The thread keeps the invariant and, in a release build, never faults.\<close>

lemma ConnectSendThread_step_inv:
  assumes valid: "cli_valid [] c" and pc: "pc_ok pc c"
  shows "(\<exists>pc' c'. ConnectSendThread_step env pc c = Ok (pc', c') \<and> cli_valid [] c' \<and> pc_ok pc' c'
            \<and> (cli_armed pc c \<longrightarrow> cli_armed pc' c'))
         \<or> debug_build env \<and> (\<exists>e. ConnectSendThread_step env pc c = Fault e)"
proof (cases pc)
  case At_Top
  with ConnectSendThread_top [OF valid] show ?thesis by simp
next
  case At_Connect
  have off: "\<not> Is_Server_Connect_Success c" and some: "g_Server_Socket c \<noteq> None"
    using pc At_Connect valid by (simp_all add: pc_ok_def cli_valid_def)
  from connect_try_step [OF some off, of env] obtain again c' where
    c': "connect_try env c = Ok (again, c')" "cli_idle c c'" "g_Server_Socket c' \<noteq> None"
      "\<not> Is_Server_Connect_Success c'"
    by blast
  have "cli_valid [] c'"
    using cli_valid_idle [OF c'(2,3) valid] .
  with At_Connect c' off valid show ?thesis
    by (simp add: ConnectSendThread_step_def pc_ok_def cli_armed_def)
next
  case At_Register
  have off: "\<not> Is_Server_Connect_Success c"
    using pc At_Register by (simp add: pc_ok_def)
  from connect_register_step [OF valid off, of env] At_Register show ?thesis
    by (force simp: ConnectSendThread_step_def pc_ok_def cli_armed_def)
next
  case At_Mark
  let ?c = "c\<lparr>Is_Server_Connect_Success := True\<rparr>"
  have idle: "cli_idle c ?c"
    by (simp add: cli_idle_def)
  have "cli_valid [] ?c"
    using valid by (intro cli_valid_idle [OF idle]) (simp_all add: cli_valid_def)
  moreover have "cli_armed At_Mark c \<longrightarrow> cli_armed At_Top ?c"
    using cli_idleD(4) [OF idle] by (simp add: cli_armed_def server_socket_def)
  ultimately show ?thesis
    using At_Mark by (simp add: ConnectSendThread_step_def pc_ok_def)
next
  case At_End
  with valid show ?thesis
    by (simp add: ConnectSendThread_step_def pc_ok_def)
qed

section \<open>The worker\<close>

lemma cli_rearmed_complete:
  assumes "cli_rearmed c k" and "m_Socket (cli_at c x) \<noteq> k \<or> m_IOType (cli_at c x) \<noteq> IOType_Recv"
  shows "cli_rearmed (cli_complete x data c) k"
proof -
  obtain y where y: "y \<in> set (in_flight (csys c))" "m_IOType (cli_at c y) = IOType_Recv"
    "m_Socket (cli_at c y) = k"
    using assms(1) by (auto simp: cli_rearmed_def)
  with assms(2) have "y \<noteq> x" by auto
  with y show ?thesis
    by (auto simp: cli_rearmed_def cli_complete_at intro!: bexI [of _ y])
qed

lemma cli_valid_complete:
  assumes "cli_valid [] c" and "x \<in> set (in_flight (csys c))" and "length data \<le> OVERLAPPED_BUFIZE"
  shows "cli_valid [x] (cli_complete x data c)"
  using assms cli_complete_inv [of "[]" c x data]
  by (auto simp: cli_valid_def cli_complete_at dest: notin_set_remove1)

lemma cli_valid_after:
  assumes "cli_valid held c" and "client_after j held' c c'" and "j \<noteq> INVALID_SOCKET"
  shows "cli_valid held' c'"
  using assms cli_valid_new [of held c held' c' j] by (simp add: client_after_def)

lemma cli_reset_frame [simp]:
  "csys (cli_reset env x c) = csys c" "g_Server_Socket (cli_reset env x c) = g_Server_Socket c"
  by (simp_all add: cli_reset_def)

lemma cli_valid_reset:
  assumes "cli_valid (x # held) c"
  shows "cli_valid held (cli_reset env x c)"
proof -
  have inv: "cli_inv (x # held) c"
    using assms by (simp add: cli_valid_def)
  then have "srv_owns held (cview (cli_reset env x c))"
    using srv_owns_reset [of x held "cview c" env] by (simp add: cli_inv_iff)
  from cli_inv_same [OF cli_same_prims(2) this inv] have "cli_inv held (cli_reset env x c)" .
  with assms show ?thesis
    using cli_inv_not_in_flight [OF inv] by (auto simp: cli_valid_def)
qed

definition shutdown_ok :: "os \<Rightarrow> bool" where
  "shutdown_ok env \<longleftrightarrow> (\<forall>cs k. ret_ok (os_ret env cs (Sys_Shutdown k)))"

text \<open>A completion of an operation on the socket \<open>j\<close> whose handler closed the connection or re-armed it.\<close>

lemma cli_armed_after:
  assumes "cli_armed pc c" and "m_Socket (cli_at c x) = j" and "client_after j held (cli_complete x data c) c'"
  shows "cli_armed pc c'"
proof (cases "client_closed c'")
  case False
  let ?d = "cli_complete x data c"
  have same: "g_Server_Socket c' = g_Server_Socket c" "cli_rearmed c' j" "cli_flights ?d c'"
    "Is_Server_Connect_Success c' = Is_Server_Connect_Success c"
    using assms(3) False by (simp_all add: client_after_def)
  have "cli_rearmed c' k" if "cli_rearmed c k" for k
    using that same(2,3) assms(2) cli_rearmed_complete [of c k x data] cli_rearmed_kept by (cases "j = k") auto
  then show ?thesis
    using assms(1) same(1,4) by (simp add: cli_armed_def server_socket_def)
qed simp

lemma pc_ok_after: "pc_ok pc c \<Longrightarrow> client_after j held c c' \<Longrightarrow> pc_ok pc c'"
  by (auto simp: pc_ok_def client_after_def client_closed_def)

definition client_entry :: "client \<Rightarrow> OVERLAPPED_ENTRY \<Rightarrow> nat \<Rightarrow> bool" where
  "client_entry c e x \<longleftrightarrow> lpOverlapped e = Some x \<and> x \<in> set (in_flight (csys c))
     \<and> lpCompletionKey e = Some 0 \<and> unat (dwNumberOfBytesTransferred e) \<le> OVERLAPPED_BUFIZE"

text \<open>A completed receive or send of no bytes: the connection is shut down and the socket closed.\<close>

lemma Client_WorkThread_zero:
  assumes d: "cli_valid [x] d" and j: "m_Socket (cli_at d x) = j" "j \<noteq> INVALID_SOCKET" and pc: "pc_ok pc d"
    and e: "lpOverlapped e = Some x" "lpCompletionKey e = Some 0" "dwNumberOfBytesTransferred e = 0"
  shows "\<exists>c'. Client_WorkThread_entry env e d = Ok (False, c') \<and> cli_valid [] c' \<and> pc_ok pc c'
    \<and> (shutdown_ok env \<longrightarrow> cli_armed pc c')"
proof -
  obtain ss where ss: "g_Server_Socket d = Some ss"
    using d by (auto simp: cli_valid_def)
  obtain r c1 where call: "cli_call env (Sys_Shutdown j) d = (r, c1)"
    by force
  note c1 = cli_call_idle [OF call]
  have v1: "cli_valid [x] c1"
    using c1 ss by (intro cli_valid_idle [OF _ _ d]) simp_all
  then have inv1: "cli_inv [x] c1"
    by (simp add: cli_valid_def)
  show ?thesis
  proof (cases "ret_ok r")
    case True
    have "g_Server_Socket c1 = Some ss"
      using c1 ss by simp
    from close_and_reset_after [OF inv1 this, of env j] obtain c' where
      c': "close_and_reset env x c1 = Ok c'" "client_after j [] c1 c'" "client_closed c'"
      by blast
    have "Client_WorkThread_entry env e d = Ok (False, c')"
      using c'(1) e call j True
      by (auto simp: Client_WorkThread_entry_def close_and_reset_def bindE_eq_Ok_iff)
    with c'(3) cli_valid_after [OF v1 c'(2) j(2)] show ?thesis by simp
  next
    case False
    have "Client_WorkThread_entry env e d = Ok (False, cli_reset env x c1)"
      using e call j False by (simp add: Client_WorkThread_entry_def)
    moreover have "pc_ok pc (cli_reset env x c1)"
      using pc c1 by (simp add: pc_ok_def cli_reset_def)
    moreover have "\<not> shutdown_ok env"
      using False c1 by (auto simp: shutdown_ok_def)
    ultimately show ?thesis
      using cli_valid_reset [OF v1] by simp
  qed
qed

lemma cli_armed_reset:
  assumes inv: "cli_inv (x # held) (cli_complete x data c)" and send: "m_IOType (cli_at c x) = IOType_Send"
    and armed: "cli_armed pc c"
  shows "cli_armed pc (cli_reset env x (cli_complete x data c))"
proof -
  let ?d = "cli_complete x data c" and ?c = "cli_reset env x (cli_complete x data c)"
  have "cli_flights ?d ?c"
    using cli_inv_not_in_flight [OF inv] by (intro cli_flightsI) auto
  then have "cli_rearmed ?c k" if "cli_rearmed c k" for k
    using that cli_rearmed_complete [of c k x data] send cli_rearmed_kept by simp
  with armed show ?thesis
    by (simp add: cli_armed_def server_socket_def cli_reset_def)
qed

lemma Client_WorkThread_entry_inv:
  assumes valid: "cli_valid [] c" and pc: "pc_ok pc c" and e: "client_entry c e x"
    and data: "length data \<le> OVERLAPPED_BUFIZE"
  shows "(\<exists>c'. Client_WorkThread_entry env e (cli_complete x data c) = Ok (False, c') \<and> cli_valid [] c'
            \<and> pc_ok pc c' \<and> (shutdown_ok env \<longrightarrow> cli_armed pc c \<longrightarrow> cli_armed pc c'))
         \<or> dwNumberOfBytesTransferred e \<noteq> 0
           \<and> (debug_build env
              \<or> client_end x (dwNumberOfBytesTransferred e) (cli_complete x data c) = Size_Wraps)
           \<and> (\<exists>f. Client_WorkThread_entry env e (cli_complete x data c) = Fault f)"
proof -
  let ?d = "cli_complete x data c" and ?n = "dwNumberOfBytesTransferred e"
  define j where "j = m_Socket (cli_at c x)"
  have x: "x \<in> set (in_flight (csys c))" and n: "unat ?n \<le> OVERLAPPED_BUFIZE"
    and ev: "lpOverlapped e = Some x" "lpCompletionKey e = Some 0"
    using e by (simp_all add: client_entry_def)
  have jx: "j \<noteq> INVALID_SOCKET" "m_IOType (cli_at c x) \<in> {IOType_Recv, IOType_Send}"
    using valid x by (simp_all add: cli_valid_def j_def)
  have d: "cli_valid [x] ?d" and dx: "m_Socket (cli_at ?d x) = j" "m_IOType (cli_at ?d x) = m_IOType (cli_at c x)"
    using cli_valid_complete [OF valid x data] by (simp_all add: cli_complete_at j_def)
  then have invd: "cli_inv [x] ?d" and "g_Server_Socket ?d \<noteq> None"
    by (simp_all add: cli_valid_def)
  then obtain ss where ss: "g_Server_Socket ?d = Some ss"
    by blast
  have pcd: "pc_ok pc ?d"
    using pc by (simp add: pc_ok_def)
  consider (zero) "?n = 0" | (recv) "?n \<noteq> 0" "m_IOType (cli_at c x) = IOType_Recv"
    | (send) "?n \<noteq> 0" "m_IOType (cli_at c x) = IOType_Send"
    using jx by auto
  then show ?thesis
  proof cases
    case zero
    from Client_WorkThread_zero [OF d dx(1) jx(1) pcd ev zero, of env] show ?thesis by blast
  next
    case recv
    have run: "Client_WorkThread_entry env e ?d
        = bindE (Client_IOFunction_Recv env ?n x ?d) (\<lambda>c. Ok (False, c))"
      using ev recv dx by (simp add: Client_WorkThread_entry_def)
    from Client_IOFunction_Recv_after [OF invd ss refl dx(1) jx(1) n, of env] show ?thesis
    proof (elim disjE exE conjE)
      fix c' assume "Client_IOFunction_Recv env ?n x ?d = Ok c'" "client_result (ss_Socket ss) j [] ?d c'"
      then have c': "Client_IOFunction_Recv env ?n x ?d = Ok c'" "client_after j [] ?d c'"
        by (simp_all add: client_result_def)
      then show ?thesis
        using cli_valid_after [OF d c'(2) jx(1)] pc_ok_after [OF pcd c'(2)] run
          cli_armed_after [OF _ j_def [symmetric] c'(2), of pc] by simp
    qed (use run in auto)
  next
    case send
    have "Client_WorkThread_entry env e ?d = Ok (False, cli_reset env x ?d)"
      using ev send dx by (simp add: Client_WorkThread_entry_def Client_IOFunction_Send_def)
    moreover have "pc_ok pc (cli_reset env x ?d)"
      using pc by (simp add: pc_ok_def cli_reset_def)
    ultimately show ?thesis
      using cli_valid_reset [OF d] cli_armed_reset [OF invd send(2)] by simp
  qed
qed

section \<open>Steps and reachable states\<close>

inductive cli_step :: "os \<Rightarrow> connect_pc \<times> client \<Rightarrow> connect_pc \<times> client \<Rightarrow> bool" for env where
  connecting: "g_Connect_Send_Client_Thread c = Thread_Live \<Longrightarrow>
      ConnectSendThread_step env pc c = Ok (pc', c') \<Longrightarrow> cli_step env (pc, c) (pc', c')"
| cli_completion: "client_entry c e x \<Longrightarrow> length data \<le> OVERLAPPED_BUFIZE \<Longrightarrow>
      Client_WorkThread_entry env e (cli_complete x data c) = Ok (stop, c') \<Longrightarrow>
      cli_step env (pc, c) (pc, c')"
| dequeue_failed: "Client_WorkThread_failed env c = Ok c' \<Longrightarrow> cli_step env (pc, c) (pc, c')"
| app_connect: "Client_Connect env port ip c = (r, c') \<Longrightarrow> cli_step env (pc, c) (pc, c')"
| cli_app_send: "user_packet blk p \<Longrightarrow> Client_Send env (Some blk) t k c = Ok (r, c') \<Longrightarrow>
      cli_step env (pc, c) (pc, c')"
| cli_app_recv: "Client_Recv vec c = Ok (r, vec', c') \<Longrightarrow> cli_step env (pc, c) (pc, c')"
| app_debug: "cli_step env (pc, c) (pc, Client_SetDebug d c)"
| app_exit: "cli_step env (pc, c) (pc, client_stop env c)"

inductive_cases cli_stepE: "cli_step env (pc, c) (pc', c')"

inductive cli_reach :: "os \<Rightarrow> connect_pc \<times> client \<Rightarrow> bool" for env where
  created: "in_flight y = [] \<Longrightarrow> DHClient_ctor env y = Ok c \<Longrightarrow> cli_reach env (At_Top, c)"
| cli_next: "cli_reach env s \<Longrightarrow> cli_step env s s' \<Longrightarrow> cli_reach env s'"

text \<open>A step that changes neither the socket, the flag of the connection nor the pool.\<close>

lemma cli_quiet_step:
  assumes "cli_valid [] c" and "cli_inv [] c'" and "cli_at c' = cli_at c" and "in_flight (csys c') = in_flight (csys c)"
    and "g_Server_Socket c' = g_Server_Socket c" and "Is_Server_Connect_Success c' = Is_Server_Connect_Success c"
  shows "cli_valid [] c'" and "pc_ok pc c' = pc_ok pc c" and "cli_armed pc c' = cli_armed pc c"
  using assms by (simp_all add: cli_valid_def pc_ok_def cli_armed_def server_socket_def cli_rearmed_def)

text \<open>What every step keeps.\<close>

definition client_keeps :: "os \<Rightarrow> connect_pc \<times> client \<Rightarrow> connect_pc \<times> client \<Rightarrow> bool" where
  "client_keeps env s s' \<longleftrightarrow> cli_valid [] (snd s') \<and> pc_ok (fst s') (snd s')
     \<and> (shutdown_ok env \<longrightarrow> cli_armed (fst s) (snd s) \<longrightarrow> cli_armed (fst s') (snd s'))"

lemma client_keeps_quiet:
  assumes "cli_valid [] c" and "pc_ok pc c" and "cli_inv [] c'" and "cli_at c' = cli_at c"
    and "in_flight (csys c') = in_flight (csys c)" and "g_Server_Socket c' = g_Server_Socket c"
    and "Is_Server_Connect_Success c' = Is_Server_Connect_Success c"
  shows "client_keeps env (pc, c) (pc, c')"
  using cli_quiet_step [OF assms(1,3-7)] assms(2) by (simp add: client_keeps_def)

lemma client_keeps_idle:
  assumes valid: "cli_valid [] c" and pc: "pc_ok pc c" and idle: "cli_idle c c'"
    and same: "g_Server_Socket c' = g_Server_Socket c" "Is_Server_Connect_Success c' = Is_Server_Connect_Success c"
  shows "client_keeps env (pc, c) (pc, c')"
proof -
  have "cli_inv [] c'"
    using valid cli_idleD(1) [OF idle] by (simp add: cli_valid_def)
  from client_keeps_quiet [OF valid pc this cli_idleD(2,3) [OF idle] same] show ?thesis .
qed

lemma client_keeps_failed:
  assumes valid: "cli_valid [] c" and run: "Client_WorkThread_failed env c = Ok c'"
  shows "client_keeps env (pc, c) (pc, c')"
proof -
  from Safe_CloseSocket_valid [OF valid, of env] obtain c1 where
    c1: "Safe_CloseSocket env c = Ok c1" "cli_valid [] c1" "client_closed c1"
    by blast
  have "c' = c1"
    using run c1(1,3) by (cases c1) (auto simp: Client_WorkThread_failed_def client_closed_def)
  with c1 show ?thesis by (simp add: client_keeps_def)
qed

lemma client_keeps_send:
  assumes valid: "cli_valid [] c" and pc: "pc_ok pc c" and p: "user_packet blk p"
    and run: "Client_Send env (Some blk) t k c = Ok (r, c')"
  shows "client_keeps env (pc, c) (pc, c')"
proof -
  obtain ss where ss: "g_Server_Socket c = Some ss" and inv: "cli_inv [] c"
    using valid by (auto simp: cli_valid_def)
  note out = Client_Send_outcome [OF inv ss p, of env t k]
  show ?thesis
  proof (cases "ss_Socket ss = INVALID_SOCKET")
    case True
    with out(1) run valid pc show ?thesis by (simp add: client_keeps_def)
  next
    case False
    from out(2) [OF this] run have c': "cli_inv [] c'" "csys c' = csys c" "g_Server_Socket c' = Some ss"
      by auto
    have "Is_Server_Connect_Success c' = Is_Server_Connect_Success c" "cli_at c' = cli_at c"
      using run by (auto simp: Client_Send_def bindE_eq_Ok_iff Let_def cli_at_def fun_eq_iff
          case_prod_beta split: if_splits)
    with client_keeps_quiet [OF valid pc c'(1)] c'(2,3) ss show ?thesis by simp
  qed
qed

lemma client_keeps_recv:
  assumes valid: "cli_valid [] c" and pc: "pc_ok pc c" and run: "Client_Recv vec c = Ok (r, vec', c')"
  shows "client_keeps env (pc, c) (pc, c')"
proof -
  have "cli_inv [] c"
    using valid by (simp add: cli_valid_def)
  from Client_Recv_outcome [OF this, of vec] run have c': "cli_inv [] c'"
    "c' = c\<lparr>cheap := cheap c', c_Recv_Data_Queue := []\<rparr>"
    by auto
  have "cli_at c' = cli_at c" "csys c' = csys c" "g_Server_Socket c' = g_Server_Socket c"
    "Is_Server_Connect_Success c' = Is_Server_Connect_Success c"
    by (subst c'(2); simp add: cli_at_def fun_eq_iff)+
  with client_keeps_quiet [OF valid pc c'(1)] show ?thesis by simp
qed

lemma client_keeps_app:
  assumes "cli_valid [] c" and "pc_ok pc c"
  shows "Client_Connect env port ip c = (r, c') \<Longrightarrow> client_keeps env (pc, c) (pc, c')"
    and "client_keeps env (pc, c) (pc, Client_SetDebug d c)"
    and "client_keeps env (pc, c) (pc, client_stop env c)"
proof -
  show "client_keeps env (pc, c) (pc, c')" if "Client_Connect env port ip c = (r, c')"
    using that by (intro client_keeps_idle [OF assms])
      (auto simp: Client_Connect_def Let_def cli_idle_def cli_do_def cli_call_def sys_call_def split: if_splits)
  show "client_keeps env (pc, c) (pc, Client_SetDebug d c)"
    by (rule client_keeps_idle [OF assms]) (simp_all add: Client_SetDebug_def cli_idle_def)
  show "client_keeps env (pc, c) (pc, client_stop env c)"
    by (rule client_keeps_idle [OF assms])
      (simp_all add: client_stop_def cli_idle_def cli_do_def cli_call_def sys_call_def)
qed

lemma client_step_keeps:
  assumes step: "cli_step env (pc, c) (pc', c')" and valid: "cli_valid [] c" and pc: "pc_ok pc c"
  shows "client_keeps env (pc, c) (pc', c')"
  using step
proof (cases rule: cli_stepE [consumes 1, case_names connecting cli_completion dequeue_failed app_connect
      cli_app_send cli_app_recv app_debug app_exit])
  case connecting
  from ConnectSendThread_step_inv [OF valid pc, of env] show ?thesis
    unfolding connecting(2) by (auto simp: client_keeps_def)
next
  case (cli_completion e x data stop)
  with Client_WorkThread_entry_inv [OF valid pc cli_completion(2,3), of env] show ?thesis
    by (auto simp: client_keeps_def)
next
  case dequeue_failed
  with client_keeps_failed [OF valid] show ?thesis by simp
next
  case (app_connect port ip r)
  with client_keeps_app(1) [OF valid pc] show ?thesis by simp
next
  case (cli_app_send blk p t k r)
  with client_keeps_send [OF valid pc] show ?thesis by simp
next
  case (cli_app_recv vec r vec')
  with client_keeps_recv [OF valid pc] show ?thesis by simp
next
  case (app_debug d)
  with client_keeps_app(2) [OF valid pc] show ?thesis by simp
next
  case app_exit
  with client_keeps_app(3) [OF valid pc] show ?thesis by simp
qed

lemma cli_step_inv:
  assumes "cli_step env (pc, c) (pc', c')" and "cli_valid [] c" and "pc_ok pc c"
  shows "cli_valid [] c' \<and> pc_ok pc' c' \<and> (shutdown_ok env \<longrightarrow> cli_armed pc c \<longrightarrow> cli_armed pc' c')"
  using client_step_keeps [OF assms] by (simp add: client_keeps_def)

section \<open>The constructor\<close>

lemma NetWorkBase_ctor_flight: "NetWorkBase_ctor env y = Ok y' \<Longrightarrow> in_flight y' = in_flight y"
  by (auto simp: NetWorkBase_ctor_def Let_def case_prod_beta bindE_eq_Ok_iff)

lemma Client_CreateWorkThread_same:
  "cli_idle c (Client_CreateWorkThread env n c)
     \<and> g_Server_Socket (Client_CreateWorkThread env n c) = g_Server_Socket c
     \<and> Is_Server_Connect_Success (Client_CreateWorkThread env n c) = Is_Server_Connect_Success c
     \<and> g_Connect_Send_Client_Thread (Client_CreateWorkThread env n c) = g_Connect_Send_Client_Thread c
     \<and> c_Is_Exit (Client_CreateWorkThread env n c) = c_Is_Exit c
     \<and> c_Work_Thread (Client_CreateWorkThread env n c) = c_Work_Thread c + n"
  by (induction n arbitrary: c)
    (simp_all add: Let_def cli_idle_def cli_do_def cli_call_def sys_call_def)

lemma DHClient_ctor_inv:
  assumes y: "in_flight y = []" and run: "DHClient_ctor env y = Ok c"
  shows "cli_valid [] c" and "\<not> Is_Server_Connect_Success c" and "server_socket c = Ok INVALID_SOCKET"
    and "g_Connect_Send_Client_Thread c = Thread_Null" and "cli_msgs c = []" and "cli_sends c = []"
    and "c_Work_Thread c = CLIENT_THREAD_COUNT" and "\<not> c_Is_Exit c" and "in_flight (csys c) = []"
proof -
  obtain y' where y': "NetWorkBase_ctor env y = Ok y'"
    using run by (auto simp: DHClient_ctor_def bindE_eq_Ok_iff)
  let ?c0 = "(DHClient_init env y')\<lparr>g_Server_Socket := Some Socket_Struct_ctor\<rparr>"
  obtain r c1 where call: "cli_call env Sys_CreatePort ?c0 = (r, c1)"
    by force
  let ?c2 = "c1\<lparr>c_IOCP := ret_ok r, c_Available_Overlapped := ObjectPool_new (ov_class env) CLIENT_OVERLAPPED_COUNT\<rparr>"
  have c: "c = Client_CreateWorkThread env CLIENT_THREAD_COUNT ?c2"
    using run y' call by (auto simp: DHClient_ctor_def bindE_eq_Ok_iff)
  have c1: "c1 = ?c0\<lparr>csys := csys c1\<rparr>" "in_flight (csys c1) = []"
    using call NetWorkBase_ctor_flight [OF y'] y by (auto simp: cli_call_def sys_call_def DHClient_init_def)
  have c2: "g_Server_Socket ?c2 = Some Socket_Struct_ctor" "\<not> Is_Server_Connect_Success ?c2"
    "g_Connect_Send_Client_Thread ?c2 = Thread_Null" "\<not> c_Is_Exit ?c2" "c_Work_Thread ?c2 = 0"
    "c_Recv_Data_Queue ?c2 = []" "c_Send_Data_Queue ?c2 = []" "cheap ?c2 = empty_heap"
    by (subst c1(1); simp add: DHClient_init_def)+
  have "srv_owns [] (cview ?c2)"
    using c1(2) by (intro new_pool_owns [where n = CLIENT_OVERLAPPED_COUNT and env = env])
      (simp_all add: CLIENT_OVERLAPPED_COUNT_def)
  then have inv2: "cli_inv [] ?c2"
    using c2(6-8) queues_ok_empty by (simp add: cli_inv_iff cli_queues_view)
  note same = Client_CreateWorkThread_same [of ?c2 env CLIENT_THREAD_COUNT, folded c]
  note D = cli_idleD [OF conjunct1 [OF same]]
  show "cli_valid [] c"
    using D(1) inv2 same c1(2) D(3) c2(1) by (simp add: cli_valid_def)
  show "\<not> Is_Server_Connect_Success c" "server_socket c = Ok INVALID_SOCKET"
    "g_Connect_Send_Client_Thread c = Thread_Null" "c_Work_Thread c = CLIENT_THREAD_COUNT" "\<not> c_Is_Exit c"
    using same c2(1-5) by (simp_all add: server_socket_def Socket_Struct_ctor_def)
  show "in_flight (csys c) = []"
    using D(3) c1(2) by simp
  show "cli_msgs c = []" "cli_sends c = []"
    using D(5,6) c2(6-8) by (simp_all add: cli_msgs_def cli_sends_def recv_view_def send_view_def)
qed

lemma cli_reach_inv:
  assumes "cli_reach env (pc, c)"
  shows "cli_valid [] c \<and> pc_ok pc c \<and> (shutdown_ok env \<longrightarrow> cli_armed pc c)"
  using assms
proof (induction "(pc, c)" arbitrary: pc c)
  case (created y c)
  from DHClient_ctor_inv [OF this] show ?case
    by (simp add: pc_ok_def cli_armed_def)
next
  case (cli_next s)
  obtain pc0 c0 where s: "s = (pc0, c0)"
    by (cases s)
  with cli_next have "cli_valid [] c0 \<and> pc_ok pc0 c0 \<and> (shutdown_ok env \<longrightarrow> cli_armed pc0 c0)"
    by blast
  with cli_step_inv [of env pc0 c0 pc c] cli_next(3) s show ?case by blast
qed

section \<open>What the thread does while it is left alone\<close>

text \<open>
  A connection closed by the worker between its registration and its mark is marked as established
  all the same; the thread then sends forever on no socket and never connects again.
\<close>

lemma ConnectSendThread_lost:
  assumes "\<not> c_Is_Exit c" and "server_socket c = Ok INVALID_SOCKET"
  shows "ConnectSendThread env (Suc n) At_Mark c = Ok (At_Top, c\<lparr>Is_Server_Connect_Success := True\<rparr>)"
proof -
  let ?c = "c\<lparr>Is_Server_Connect_Success := True\<rparr>"
  have inv: "server_socket ?c = Ok INVALID_SOCKET"
    using assms(2) by (simp add: server_socket_def)
  then have "SendFunction env ?c = Ok ?c"
    by (cases "c_Send_Data_Queue ?c") (simp_all add: SendFunction_def)
  then have stay: "ConnectSendThread_step env At_Top ?c = Ok (At_Top, ?c)"
    using assms(1) by (simp add: ConnectSendThread_step_def)
  have "ConnectSendThread env m At_Top ?c = Ok (At_Top, ?c)" for m
    by (induction m) (simp_all add: stay)
  then show ?thesis
    by (simp add: ConnectSendThread_step_def)
qed

text \<open>The worker that closes it: a completion with no bytes of the receive just armed.\<close>

lemma client_connection_race:
  assumes valid: "cli_valid [] c" and pc: "pc_ok At_Mark c" and e: "client_entry c e x"
    and zero: "dwNumberOfBytesTransferred e = 0" and shut: "shutdown_ok env" and go: "\<not> c_Is_Exit c"
  shows "\<exists>c'. Client_WorkThread_entry env e (cli_complete x [] c) = Ok (False, c')
    \<and> server_socket c' = Ok INVALID_SOCKET
    \<and> (\<forall>n. \<exists>c''. ConnectSendThread env (Suc n) At_Mark c' = Ok (At_Top, c'')
         \<and> Is_Server_Connect_Success c'' \<and> server_socket c'' = Ok INVALID_SOCKET)"
proof -
  let ?d = "cli_complete x [] c"
  have x: "x \<in> set (in_flight (csys c))"
    using e by (simp add: client_entry_def)
  have d: "cli_valid [x] ?d"
    using cli_valid_complete [OF valid x, of "[]"] by simp
  obtain ss where ss: "g_Server_Socket ?d = Some ss"
    using d by (auto simp: cli_valid_def)
  obtain r c1 where call: "cli_call env (Sys_Shutdown (m_Socket (cli_at ?d x))) ?d = (r, c1)"
    by force
  note c1 = cli_call_idle [OF call]
  have r: "ret_ok r"
    using c1 shut by (simp add: shutdown_ok_def)
  have v1: "cli_valid [x] c1"
    using c1 ss by (intro cli_valid_idle [OF _ _ d]) simp_all
  then have inv1: "cli_inv [x] c1"
    by (simp add: cli_valid_def)
  have "g_Server_Socket c1 = Some ss"
    using c1 ss by simp
  from close_and_reset_after [OF inv1 this, of env 0] obtain c' where
    c': "close_and_reset env x c1 = Ok c'" "client_after 0 [] c1 c'" "client_closed c'"
    by blast
  have run: "Client_WorkThread_entry env e ?d = Ok (False, c')"
    using c'(1) e zero call r
    by (auto simp: Client_WorkThread_entry_def client_entry_def close_and_reset_def bindE_eq_Ok_iff)
  have off: "server_socket c' = Ok INVALID_SOCKET" "\<not> c_Is_Exit c'"
    using c'(2,3) c1 go by (simp_all add: client_closed_def client_after_def)
  note lost = ConnectSendThread_lost [OF off(2,1), of env]
  have "\<exists>c''. ConnectSendThread env (Suc n) At_Mark c' = Ok (At_Top, c'')
        \<and> Is_Server_Connect_Success c'' \<and> server_socket c'' = Ok INVALID_SOCKET" for n
    using lost [of n] off(1)
    by (intro exI [of _ "c'\<lparr>Is_Server_Connect_Success := True\<rparr>"]) (simp add: server_socket_def)
  with run off(1) show ?thesis by blast
qed

text \<open>A server that refuses every connection is asked again and again.\<close>

definition refusing :: "os \<Rightarrow> bool" where
  "refusing env \<longleftrightarrow> (\<forall>cs k p ip. \<not> ret_ok (os_ret env cs (Sys_Connect k p ip))
     \<and> last_error (os_ret env cs (Sys_Connect k p ip)) = WSAECONNREFUSED)"

lemma ConnectSendThread_refused:
  assumes "refusing env" and "\<not> c_Is_Exit c" and "server_socket c = Ok k"
  shows "\<exists>c'. ConnectSendThread env n At_Connect c = Ok (At_Connect, c')
    \<and> calls (csys c') = replicate n (Sys_Connect k (c_PORT c) (c_IP c)) @ calls (csys c)
    \<and> \<not> c_Is_Exit c' \<and> server_socket c' = Ok k"
  using assms(2,3)
proof (induction n arbitrary: c)
  case (Suc n)
  let ?c = "c\<lparr>csys := snd (sys_call env (Sys_Connect k (c_PORT c) (c_IP c)) (csys c))\<rparr>"
  have "connect_try env c = Ok (True, ?c)"
    using assms(1) Suc.prems
    by (simp add: connect_try_def cli_call_def sys_call_def refusing_def)
  then have step: "ConnectSendThread_step env At_Connect c = Ok (At_Connect, ?c)"
    using Suc.prems by (simp add: ConnectSendThread_step_def)
  have "\<not> c_Is_Exit ?c" "server_socket ?c = Ok k"
    using Suc.prems by (simp_all add: server_socket_def)
  from Suc.IH [OF this] step show ?case
    by (auto simp: replicate_append_same simp flip: replicate_Suc)
qed simp

text \<open>Once the flag of \<open>End\<close> is set the thread ends within three steps, wherever it is.\<close>

lemma ConnectSendThread_exits:
  assumes "c_Is_Exit c" and "g_Server_Socket c \<noteq> None"
  shows "\<exists>c'. ConnectSendThread env 3 pc c = Ok (At_End, c') \<and> cli_idle c c'"
proof -
  have "connect_register env c = Ok (False, c)"
    using assms by (auto simp: connect_register_def server_socket_def)
  moreover have "cli_idle c (c\<lparr>Is_Server_Connect_Success := True\<rparr>)"
    by (simp add: cli_idle_def)
  ultimately show ?thesis
    using assms(1) by (cases pc) (simp_all add: ConnectSendThread_step_def numeral_3_eq_3)
qed

section \<open>End\<close>

lemma client_join_workers_same [simp]:
  "g_Server_Socket (client_join_workers env n c) = g_Server_Socket c"
  "cheap (client_join_workers env n c) = cheap c"
  "c_Recv_Data_Queue (client_join_workers env n c) = c_Recv_Data_Queue c"
  "c_Send_Data_Queue (client_join_workers env n c) = c_Send_Data_Queue c"
  "g_Connect_Send_Client_Thread (client_join_workers env n c) = g_Connect_Send_Client_Thread c"
  by (induction n arbitrary: c) simp_all

text \<open>
  \<open>End\<close> of a client that ever called \<open>Connect\<close> releases every block the two queues own, closes the
  socket, and leaves nothing for the destructor; a client that never did has no thread to join.
\<close>

lemma Safe_CloseSocket_frame:
  assumes "Safe_CloseSocket env c = Ok c'"
  shows "c_IOCP c' = c_IOCP c"
    and "g_Connect_Send_Client_Thread c' = g_Connect_Send_Client_Thread c"
  using assms by (auto simp: Safe_CloseSocket_def bindE_eq_Ok_iff Let_def set_server_socket_def)

lemma Client_End_effect:
  assumes inv: "cli_inv [] c" and sock: "g_Server_Socket c = Some ss"
    and live: "g_Connect_Send_Client_Thread c = Thread_Live"
  shows "\<exists>c'. Client_End env c = Ok (1, c') \<and> c_Recv_Data_Queue c' = [] \<and> c_Send_Data_Queue c' = []
    \<and> cells (cheap c') = (\<lambda>p. if p \<in> set (heap_refs (cheap c) (c_Recv_Data_Queue c) (c_Send_Data_Queue c))
                             then None else cells (cheap c) p)
    \<and> Sys_CloseSocket (ss_Socket ss) \<in> set (calls (csys c')) \<and> g_Server_Socket c' = None
    \<and> \<not> c_IOCP c' \<and> DHClient_dtor env c' = Ok c'
    \<and> g_Connect_Send_Client_Thread c' = Thread_Deleted"
proof -
  define a where "a = cli_do env (Sys_ThreadJoin ''ConnectSendThread'') (client_stop env c)"
  define b where "b = (client_join_workers env (c_Work_Thread a) (a\<lparr>g_Connect_Send_Client_Thread := Thread_Deleted\<rparr>))
    \<lparr>c_Work_Thread := 0\<rparr>"
  have b: "c_Recv_Data_Queue b = c_Recv_Data_Queue c" "c_Send_Data_Queue b = c_Send_Data_Queue c"
    "cheap b = cheap c" "g_Server_Socket b = Some ss" "g_Connect_Send_Client_Thread b = Thread_Deleted"
    using sock by (simp_all add: b_def a_def client_stop_def)
  have a: "c_Recv_Data_Queue a = c_Recv_Data_Queue c" "c_Send_Data_Queue a = c_Send_Data_Queue c" "cheap a = cheap c"
    by (simp_all add: a_def client_stop_def)
  have ok: "queues_ok (cheap c) (c_Recv_Data_Queue c) (c_Send_Data_Queue c)"
    using inv by (simp add: cli_inv_iff cli_queues_view)
  obtain h1 where h1: "free_recv_queue (c_Recv_Data_Queue c) (cheap c) = Ok h1"
    "queues_ok h1 [] (c_Send_Data_Queue c)"
    "cells h1 = (\<lambda>p. if p \<in> set (heap_refs (cheap c) (c_Recv_Data_Queue c) []) then None else cells (cheap c) p)"
    using free_recv_queue_Ok [OF ok] by blast
  obtain h2 where h2: "free_send_queue (c_Send_Data_Queue c) h1 = Ok h2"
    "cells h2 = (\<lambda>p. if p \<in> set (c_Send_Data_Queue c) then None else cells h1 p)"
    using free_send_queue_Ok [OF h1(2)] by blast
  define d where "d = (cli_do env Sys_CloseHandle
    (b\<lparr>c_Recv_Data_Queue := [], c_Send_Data_Queue := [], cheap := h2\<rparr>))\<lparr>c_IOCP := False\<rparr>"
  have d: "c_Recv_Data_Queue d = []" "c_Send_Data_Queue d = []" "cheap d = h2" "g_Server_Socket d = Some ss"
    "\<not> c_IOCP d" "g_Connect_Send_Client_Thread d = Thread_Deleted"
    using b by (simp_all add: d_def)
  obtain e where e: "Safe_CloseSocket env d = Ok e" "Sys_CloseSocket (ss_Socket ss) \<in> set (calls (csys e))"
    "c_Recv_Data_Queue e = c_Recv_Data_Queue d" "c_Send_Data_Queue e = c_Send_Data_Queue d" "cheap e = cheap d"
    by (rule Safe_CloseSocket_effect [OF d(4), where env = env]) blast
  note ef = Safe_CloseSocket_frame [OF e(1)]
  let ?f = "(cli_do env Sys_WSACleanup e)
    \<lparr>c_Available_Overlapped := snd (ObjectPool_delete (c_Available_Overlapped (cli_do env Sys_WSACleanup e))),
     g_Server_Socket := None\<rparr>"
  have "g_Connect_Send_Client_Thread (client_stop env c) = Thread_Live"
    using live by (simp add: client_stop_def)
  then have "Client_End env c = Ok (1, ?f)"
    unfolding Client_End_def Let_def
    by (simp add: a_def [symmetric] b_def [symmetric] a h1(1) h2(1) d_def [symmetric] e(1))
  moreover have "cells h2 = (\<lambda>p. if p \<in> set (heap_refs (cheap c) (c_Recv_Data_Queue c) (c_Send_Data_Queue c))
                             then None else cells (cheap c) p)"
    using h1(3) h2(2) by (auto simp: heap_refs_def fun_eq_iff)
  ultimately show ?thesis
    using e(2-5) d ef by (intro exI [of _ ?f]) (simp add: DHClient_dtor_def)
qed

lemma Client_End_unconnected:
  assumes "g_Connect_Send_Client_Thread c = Thread_Null"
  shows "Client_End env c = Fault Null_Deref"
    and "c_IOCP c \<Longrightarrow> DHClient_dtor env c = Fault Null_Deref"
proof -
  have "g_Connect_Send_Client_Thread (client_stop env c) = Thread_Null"
    using assms by (simp add: client_stop_def)
  then show "Client_End env c = Fault Null_Deref"
    by (simp add: Client_End_def)
  then show "c_IOCP c \<Longrightarrow> DHClient_dtor env c = Fault Null_Deref"
    by (simp add: DHClient_dtor_def)
qed

text \<open>A second \<open>End\<close> joins a thread object that was deleted.\<close>

lemma Client_End_twice:
  assumes "g_Connect_Send_Client_Thread c = Thread_Deleted"
  shows "Client_End env c = Fault Use_After_Free"
proof -
  have "g_Connect_Send_Client_Thread (client_stop env c) = Thread_Deleted"
    using assms by (simp add: client_stop_def)
  then show ?thesis
    by (simp add: Client_End_def)
qed

end
