(* ===== verification/DH_NetWork.thy ===== *)
theory DH_NetWork
  imports DH_ServerSystem DH_ClientSystem
begin

text \<open>
  \<open>DHNetWork\<close> (the adapter that becomes a server at its first \<open>Accept\<close> or a client at its first
  \<open>Connect\<close>) and \<open>DHNetWorkAPI\<close> (the handle an application holds). Both own the object they forward
  to. The contract of the two kinds of network for a message is the locale \<open>messenger\<close>.
\<close>

section \<open>DHNetWork\<close>

definition TYPE_NONSET :: int where "TYPE_NONSET = 0"
definition TYPE_DHSERVER :: int where "TYPE_DHSERVER = 1"
definition TYPE_DHCLIENT :: int where "TYPE_DHCLIENT = 2"

datatype net_object = Net_Server server | Net_Client client

text \<open>
  \<open>nw_sys\<close> is the state of the system while no object exists, \<open>nw_users\<close> the static member
  \<open>MAX_USER_COUNT\<close> of \<open>DHServer\<close>.
\<close>

record DHNetWork =
  m_NetWork :: "net_object option"
  nw_Debug_Option :: u16
  Current_Type :: int
  nw_users :: u16
  nw_sys :: sys

definition DHNetWork_ctor :: "u16 \<Rightarrow> sys \<Rightarrow> DHNetWork" where
  "DHNetWork_ctor users y =
     \<lparr>m_NetWork = None, nw_Debug_Option = DHDEBUG_NONE, Current_Type = TYPE_NONSET,
      nw_users = users, nw_sys = y\<rparr>"

definition NW_Initialize :: "u16 \<Rightarrow> DHNetWork \<Rightarrow> int \<times> DHNetWork" where
  "NW_Initialize Debug_Option nw = (LOGIC_SUCCESS, nw\<lparr>nw_Debug_Option := Debug_Option\<rparr>)"

definition NW_Send :: "os \<Rightarrow> byte list option \<Rightarrow> int \<Rightarrow> sock \<Rightarrow> DHNetWork \<Rightarrow> (int \<times> DHNetWork) res" where
  "NW_Send env Packet SendType Socket nw =
     (if Current_Type nw = TYPE_NONSET then Ok (LOGIC_FAIL, nw)
      else case m_NetWork nw of
             None \<Rightarrow> Fault Null_Deref
           | Some (Net_Server s) \<Rightarrow> bindE (Send env Packet SendType Socket s)
               (\<lambda>(r, s). Ok (r, nw\<lparr>m_NetWork := Some (Net_Server s)\<rparr>))
           | Some (Net_Client c) \<Rightarrow> bindE (Client_Send env Packet SendType Socket c)
               (\<lambda>(r, c). Ok (r, nw\<lparr>m_NetWork := Some (Net_Client c)\<rparr>)))"

definition NW_Connect :: "os \<Rightarrow> u16 \<Rightarrow> string \<Rightarrow> DHNetWork \<Rightarrow> (int \<times> DHNetWork) res" where
  "NW_Connect env Port Ip nw =
     (if Current_Type nw = TYPE_DHSERVER then Ok (LOGIC_FAIL, nw)
      else
        bindE (if Current_Type nw = TYPE_NONSET
               then bindE (DHClient_ctor env (nw_sys nw)) (\<lambda>c.
                      Ok (nw\<lparr>Current_Type := TYPE_DHCLIENT,
                             m_NetWork := Some (Net_Client (Client_SetDebug (nw_Debug_Option nw) c))\<rparr>))
               else Ok nw) (\<lambda>nw.
        case m_NetWork nw of
          None \<Rightarrow> Fault Null_Deref
        | Some (Net_Server s) \<Rightarrow> Ok (LOGIC_FAIL, nw)
        | Some (Net_Client c) \<Rightarrow>
            let (r, c) = Client_Connect env Port Ip c
            in Ok (r, nw\<lparr>m_NetWork := Some (Net_Client c)\<rparr>)))"

definition NW_Accept ::
    "os \<Rightarrow> int \<Rightarrow> u16 \<Rightarrow> u16 \<Rightarrow> u16 \<Rightarrow> DHNetWork \<Rightarrow> (int \<times> DHNetWork) res option" where
  "NW_Accept env now Port Max_User_Count Work_Thread_Count nw =
     (if Current_Type nw = TYPE_DHCLIENT then Some (Ok (LOGIC_FAIL, nw))
      else
        case (if Current_Type nw \<noteq> TYPE_DHSERVER
              then bindE (DHServer_ctor env (nw_users nw) (nw_sys nw)) (\<lambda>s.
                     Ok (nw\<lparr>Current_Type := TYPE_DHSERVER,
                            m_NetWork := Some (Net_Server (SetDebug (nw_Debug_Option nw) s))\<rparr>))
              else Ok nw) of
          Inl e \<Rightarrow> Some (Fault e)
        | Inr nw \<Rightarrow>
            (case m_NetWork nw of
               None \<Rightarrow> Some (Fault Null_Deref)
             | Some (Net_Client c) \<Rightarrow> Some (Ok (LOGIC_FAIL, nw))
             | Some (Net_Server s) \<Rightarrow>
                 map_option (\<lambda>r. bindE r (\<lambda>(b, s). Ok (b, nw\<lparr>m_NetWork := Some (Net_Server s)\<rparr>)))
                   (Accept env now Port Max_User_Count Work_Thread_Count s)))"

definition NW_Disconnect :: "os \<Rightarrow> sock \<Rightarrow> DHNetWork \<Rightarrow> (int \<times> DHNetWork) res" where
  "NW_Disconnect env Socket nw =
     (if Current_Type nw = TYPE_DHCLIENT \<or> Current_Type nw = TYPE_NONSET then Ok (LOGIC_FAIL, nw)
      else case m_NetWork nw of
             None \<Rightarrow> Fault Null_Deref
           | Some (Net_Server s) \<Rightarrow> bindE (Disconnect env Socket s)
               (\<lambda>(r, s). Ok (r, nw\<lparr>m_NetWork := Some (Net_Server s)\<rparr>))
           | Some (Net_Client c) \<Rightarrow> Ok (LOGIC_FAIL, nw))"

definition NW_Recv :: "(sock \<times> ptr) list \<Rightarrow> DHNetWork \<Rightarrow> (int \<times> (sock \<times> ptr) list \<times> DHNetWork) res" where
  "NW_Recv Message_Vec nw =
     (if Current_Type nw = TYPE_NONSET then Ok (LOGIC_FAIL, Message_Vec, nw)
      else case m_NetWork nw of
             None \<Rightarrow> Fault Null_Deref
           | Some (Net_Server s) \<Rightarrow> bindE (Recv Message_Vec s)
               (\<lambda>(r, vec, s). Ok (r, vec, nw\<lparr>m_NetWork := Some (Net_Server s)\<rparr>))
           | Some (Net_Client c) \<Rightarrow> bindE (Client_Recv Message_Vec c)
               (\<lambda>(r, vec, c). Ok (r, vec, nw\<lparr>m_NetWork := Some (Net_Client c)\<rparr>)))"

text \<open>\<open>End\<close> stops the object and deletes it; the type of the network stays what it was.\<close>

definition NW_End :: "os \<Rightarrow> DHNetWork \<Rightarrow> (int \<times> DHNetWork) res" where
  "NW_End env nw =
     (case m_NetWork nw of
        None \<Rightarrow> Ok (1, nw)
      | Some (Net_Server s) \<Rightarrow>
          bindE (End env s) (\<lambda>(End_result, s).
          bindE (DHServer_dtor env s) (\<lambda>s.
            Ok (of_bool (End_result \<noteq> 0),
                nw\<lparr>m_NetWork := None, nw_users := MAX_USER_COUNT s, nw_sys := ssys s\<rparr>)))
      | Some (Net_Client c) \<Rightarrow>
          bindE (Client_End env c) (\<lambda>(End_result, c).
          bindE (DHClient_dtor env c) (\<lambda>c.
            Ok (of_bool (End_result \<noteq> 0), nw\<lparr>m_NetWork := None, nw_sys := csys c\<rparr>))))"

definition DHNetWork_dtor :: "os \<Rightarrow> DHNetWork \<Rightarrow> DHNetWork res" where
  "DHNetWork_dtor env nw = bindE (NW_End env nw) (\<lambda>(_, nw). Ok nw)"

section \<open>DHNetWorkAPI\<close>

datatype DHNetWork_Name = DHNet

datatype api_ptr = Api_Null | Api_Live DHNetWork | Api_Deleted

definition api_get :: "api_ptr \<Rightarrow> DHNetWork res" where
  "api_get a = (case a of Api_Null \<Rightarrow> Fault Null_Deref | Api_Live nw \<Rightarrow> Ok nw | Api_Deleted \<Rightarrow> Fault Use_After_Free)"

text \<open>A new object is made each time; one made before is not deleted.\<close>

definition API_Initialize :: "DHNetWork_Name \<Rightarrow> u16 \<Rightarrow> u16 \<Rightarrow> sys \<Rightarrow> api_ptr \<Rightarrow> int \<times> api_ptr" where
  "API_Initialize Using_NetWork_Name Debug_Option users y a =
     (case Using_NetWork_Name of
        DHNet \<Rightarrow> let (r, nw) = NW_Initialize Debug_Option (DHNetWork_ctor users y) in (r, Api_Live nw))"

definition API_Recv :: "(sock \<times> ptr) list \<Rightarrow> api_ptr \<Rightarrow> (int \<times> (sock \<times> ptr) list \<times> api_ptr) res" where
  "API_Recv Message_Vec a =
     bindE (api_get a) (\<lambda>nw. bindE (NW_Recv Message_Vec nw) (\<lambda>(r, vec, nw). Ok (r, vec, Api_Live nw)))"

definition API_Send :: "os \<Rightarrow> byte list option \<Rightarrow> int \<Rightarrow> sock \<Rightarrow> api_ptr \<Rightarrow> (int \<times> api_ptr) res" where
  "API_Send env Packet SendType Socket a =
     bindE (api_get a) (\<lambda>nw. bindE (NW_Send env Packet SendType Socket nw) (\<lambda>(r, nw). Ok (r, Api_Live nw)))"

definition API_Connect :: "os \<Rightarrow> u16 \<Rightarrow> string \<Rightarrow> api_ptr \<Rightarrow> (int \<times> api_ptr) res" where
  "API_Connect env Port Ip a =
     bindE (api_get a) (\<lambda>nw. bindE (NW_Connect env Port Ip nw) (\<lambda>(r, nw). Ok (r, Api_Live nw)))"

definition API_Accept ::
    "os \<Rightarrow> int \<Rightarrow> u16 \<Rightarrow> u16 \<Rightarrow> u16 \<Rightarrow> api_ptr \<Rightarrow> (int \<times> api_ptr) res option" where
  "API_Accept env now Port Max_User_Count Work_Thread_Count a =
     (case api_get a of
        Inl e \<Rightarrow> Some (Fault e)
      | Inr nw \<Rightarrow> map_option (\<lambda>r. bindE r (\<lambda>(b, nw). Ok (b, Api_Live nw)))
                   (NW_Accept env now Port Max_User_Count Work_Thread_Count nw))"

definition API_Disconnect :: "os \<Rightarrow> sock \<Rightarrow> api_ptr \<Rightarrow> (int \<times> api_ptr) res" where
  "API_Disconnect env Socket a =
     bindE (api_get a) (\<lambda>nw. bindE (NW_Disconnect env Socket nw) (\<lambda>(r, nw). Ok (r, Api_Live nw)))"

text \<open>\<open>End\<close> deletes the object and keeps the pointer.\<close>

definition API_End :: "os \<Rightarrow> api_ptr \<Rightarrow> (int \<times> api_ptr) res" where
  "API_End env a =
     (if a = Api_Null then Ok (1, a)
      else bindE (api_get a) (\<lambda>nw.
           bindE (NW_End env nw) (\<lambda>(_, nw).
           bindE (DHNetWork_dtor env nw) (\<lambda>_. Ok (1, Api_Deleted)))))"

definition DHNetWorkAPI_dtor :: "os \<Rightarrow> api_ptr \<Rightarrow> api_ptr res" where
  "DHNetWorkAPI_dtor env a = bindE (API_End env a) (\<lambda>(_, a). Ok a)"

section \<open>The contract of a messenger\<close>

text \<open>
  What the application relies on, whichever kind of network it uses: \<open>Recv\<close> hands over all messages
  in order and leaves none.
\<close>

locale messenger =
  fixes ok :: "'s \<Rightarrow> bool"
    and inbox :: "'s \<Rightarrow> (sock \<times> packet) list"
    and memory :: "'s \<Rightarrow> heap"
    and receive :: "(sock \<times> ptr) list \<Rightarrow> 's \<Rightarrow> (int \<times> (sock \<times> ptr) list \<times> 's) res"
  assumes receive_all: "ok s \<Longrightarrow> \<exists>r new s'. receive vec s = Ok (r, vec @ new, s') \<and> ok s'
      \<and> vec_view (memory s') new = inbox s \<and> inbox s' = [] \<and> (r = LOGIC_FAIL \<longleftrightarrow> inbox s = [])
      \<and> vec_ok (memory s') new"
begin

lemma receive_ok: "ok s \<Longrightarrow> receive vec s = Ok (r, vec', s') \<Longrightarrow> ok s' \<and> inbox s' = []"
  using receive_all [of s vec] by auto

lemma receive_packets:
  "ok s \<Longrightarrow> receive [] s = Ok (r, vec, s') \<Longrightarrow>
     vec_view (memory s') vec = inbox s \<and> vec_ok (memory s') vec"
  using receive_all [of s "[]"] by auto

text \<open>A message is handed over once: a second call right after the first finds nothing.\<close>

lemma receive_twice:
  assumes "ok s" and "receive vec s = Ok (r, vec', s')"
  shows "\<exists>s''. receive vec' s' = Ok (LOGIC_FAIL, vec', s'') \<and> inbox s'' = []"
proof -
  have "ok s'" "inbox s' = []"
    using receive_ok [OF assms] by simp_all
  from receive_all [OF this(1), of vec'] this(2) show ?thesis
    by (auto simp: vec_view_def)
qed

end

interpretation srv_inbox: messenger "srv_inv held" srv_msgs sheap Recv
  for held
proof
  fix s vec assume inv: "srv_inv held s"
  from Recv_outcome [OF inv, of vec] obtain r new s' where
    *: "Recv vec s = Ok (r, vec @ new, s')" "srv_inv held s'" "vec_view (sheap s') new = srv_msgs s"
       "srv_msgs s' = []" "r = LOGIC_FAIL \<longleftrightarrow> srv_msgs s = []" "vec_ok (sheap s') new"
    by blast
  then show "\<exists>r new s'. Recv vec s = Ok (r, vec @ new, s') \<and> srv_inv held s'
      \<and> vec_view (sheap s') new = srv_msgs s \<and> srv_msgs s' = [] \<and> (r = LOGIC_FAIL) = (srv_msgs s = [])
      \<and> vec_ok (sheap s') new"
    by (intro exI [of _ r] exI [of _ new] exI [of _ s']) simp
qed

interpretation cli_inbox: messenger "cli_inv held" cli_msgs cheap Client_Recv
  for held
proof
  fix c vec assume inv: "cli_inv held c"
  from Client_Recv_outcome [OF inv, of vec] obtain r new c' where
    *: "Client_Recv vec c = Ok (r, vec @ new, c')" "cli_inv held c'" "vec_view (cheap c') new = cli_msgs c"
       "cli_msgs c' = []" "r = LOGIC_FAIL \<longleftrightarrow> cli_msgs c = []" "vec_ok (cheap c') new"
    by blast
  then show "\<exists>r new s'. Client_Recv vec c = Ok (r, vec @ new, s') \<and> cli_inv held s'
      \<and> vec_view (cheap s') new = cli_msgs c \<and> cli_msgs s' = [] \<and> (r = LOGIC_FAIL) = (cli_msgs c = [])
      \<and> vec_ok (cheap s') new"
    by (intro exI [of _ r] exI [of _ new] exI [of _ c']) simp
qed

section \<open>The adapter keeps its role\<close>

definition nw_typed :: "DHNetWork \<Rightarrow> bool" where
  "nw_typed nw \<longleftrightarrow> (case m_NetWork nw of
       None \<Rightarrow> Current_Type nw \<in> {TYPE_NONSET, TYPE_DHSERVER, TYPE_DHCLIENT}
     | Some (Net_Server s) \<Rightarrow> Current_Type nw = TYPE_DHSERVER
     | Some (Net_Client c) \<Rightarrow> Current_Type nw = TYPE_DHCLIENT)"

lemmas nw_types = TYPE_NONSET_def TYPE_DHSERVER_def TYPE_DHCLIENT_def

lemma nw_typed_ctor: "nw_typed (DHNetWork_ctor users y)"
  by (simp add: nw_typed_def DHNetWork_ctor_def nw_types)

lemma NW_Send_typed: "nw_typed nw \<Longrightarrow> NW_Send env pkt t k nw = Ok (r, nw') \<Longrightarrow>
    nw_typed nw' \<and> Current_Type nw' = Current_Type nw"
  by (auto simp: NW_Send_def nw_typed_def bindE_eq_Ok_iff split: if_splits option.splits net_object.splits)

lemma NW_Recv_typed: "nw_typed nw \<Longrightarrow> NW_Recv vec nw = Ok (r, vec', nw') \<Longrightarrow>
    nw_typed nw' \<and> Current_Type nw' = Current_Type nw"
  by (auto simp: NW_Recv_def nw_typed_def bindE_eq_Ok_iff split: if_splits option.splits net_object.splits)

lemma NW_Disconnect_typed: "nw_typed nw \<Longrightarrow> NW_Disconnect env k nw = Ok (r, nw') \<Longrightarrow>
    nw_typed nw' \<and> Current_Type nw' = Current_Type nw"
  by (auto simp: NW_Disconnect_def nw_typed_def bindE_eq_Ok_iff split: if_splits option.splits net_object.splits)

lemma NW_End_typed: "nw_typed nw \<Longrightarrow> NW_End env nw = Ok (r, nw') \<Longrightarrow>
    nw_typed nw' \<and> Current_Type nw' = Current_Type nw \<and> m_NetWork nw' = None"
  by (auto simp: NW_End_def nw_typed_def bindE_eq_Ok_iff nw_types split: option.splits net_object.splits)

lemma NW_Connect_typed:
  assumes "nw_typed nw" and "NW_Connect env port ip nw = Ok (r, nw')"
  shows "nw_typed nw'" and "Current_Type nw \<noteq> TYPE_NONSET \<Longrightarrow> Current_Type nw' = Current_Type nw"
  using assms by (auto simp: NW_Connect_def nw_typed_def bindE_eq_Ok_iff nw_types Let_def case_prod_beta
      split: if_splits option.splits net_object.splits)

lemma NW_Accept_typed:
  assumes "nw_typed nw" and "NW_Accept env now port users w nw = Some (Ok (r, nw'))"
  shows "nw_typed nw'" and "Current_Type nw \<noteq> TYPE_NONSET \<Longrightarrow> Current_Type nw' = Current_Type nw"
  using assms by (auto simp: NW_Accept_def nw_typed_def bindE_eq_Ok_iff nw_types
      split: if_splits sum.splits option.splits net_object.splits)

text \<open>A call that does not fit the role fails and changes nothing.\<close>

lemma NW_wrong_role:
  "Current_Type nw = TYPE_DHSERVER \<Longrightarrow> NW_Connect env port ip nw = Ok (LOGIC_FAIL, nw)"
  "Current_Type nw = TYPE_DHCLIENT \<Longrightarrow> NW_Accept env now port users w nw = Some (Ok (LOGIC_FAIL, nw))"
  "Current_Type nw = TYPE_DHCLIENT \<Longrightarrow> NW_Disconnect env k nw = Ok (LOGIC_FAIL, nw)"
  "Current_Type nw = TYPE_NONSET \<Longrightarrow> NW_Disconnect env k nw = Ok (LOGIC_FAIL, nw)"
  "Current_Type nw = TYPE_NONSET \<Longrightarrow> NW_Send env pkt t k nw = Ok (LOGIC_FAIL, nw)"
  "Current_Type nw = TYPE_NONSET \<Longrightarrow> NW_Recv vec nw = Ok (LOGIC_FAIL, vec, nw)"
  by (simp_all add: NW_Connect_def NW_Accept_def NW_Disconnect_def NW_Send_def NW_Recv_def nw_types)

text \<open>
  After \<open>End\<close> the type is still set and the object is gone: every further call of the role
  dereferences a null pointer.
\<close>

lemma NW_after_End:
  assumes "m_NetWork nw = None" and "Current_Type nw \<in> {TYPE_DHSERVER, TYPE_DHCLIENT}"
  shows "NW_Send env pkt t k nw = Fault Null_Deref" and "NW_Recv vec nw = Fault Null_Deref"
    and "Current_Type nw = TYPE_DHCLIENT \<Longrightarrow> NW_Connect env port ip nw = Fault Null_Deref"
    and "Current_Type nw = TYPE_DHSERVER \<Longrightarrow>
      NW_Accept env now port users w nw = Some (Fault Null_Deref) \<and> NW_Disconnect env k nw = Fault Null_Deref"
  using assms by (auto simp: NW_Send_def NW_Recv_def NW_Connect_def NW_Accept_def NW_Disconnect_def nw_types)

text \<open>The first \<open>Connect\<close> makes the client, starts its thread and reports failure whatever happens.\<close>

lemma NW_first_Connect:
  assumes "Current_Type nw = TYPE_NONSET" and "in_flight (nw_sys nw) = []"
    and run: "NW_Connect env port ip nw = Ok (r, nw')"
  shows "r = 0" and "Current_Type nw' = TYPE_DHCLIENT"
    and "\<exists>c. m_NetWork nw' = Some (Net_Client c) \<and> cli_valid [] c \<and> c_PORT c = port \<and> c_IP c = ip
           \<and> g_Connect_Send_Client_Thread c = Thread_Live \<and> \<not> Is_Server_Connect_Success c
           \<and> c_Debug_Option c = nw_Debug_Option nw"
proof -
  obtain c0 where c0: "DHClient_ctor env (nw_sys nw) = Ok c0"
    using assms(1) run by (auto simp: NW_Connect_def nw_types bindE_eq_Ok_iff)
  note ctor = DHClient_ctor_inv [OF assms(2) c0]
  let ?c = "Client_SetDebug (nw_Debug_Option nw) c0"
  obtain c where con: "Client_Connect env port ip ?c = (0, c)"
    and c: "c = (cli_do env (Sys_ThreadStart ''ConnectSendThread'') (?c\<lparr>c_PORT := port, c_IP := ip\<rparr>))
                  \<lparr>g_Connect_Send_Client_Thread := Thread_Live\<rparr>"
    using ctor(4) by (auto simp: Client_Connect_def Client_SetDebug_def Let_def)
  have res: "r = 0 \<and> m_NetWork nw' = Some (Net_Client c) \<and> Current_Type nw' = TYPE_DHCLIENT"
    using run assms(1) c0 con by (auto simp: NW_Connect_def nw_types bindE_eq_Ok_iff)
  then show "r = 0" "Current_Type nw' = TYPE_DHCLIENT"
    by simp_all
  have idle: "cli_idle c0 c"
    by (simp add: c cli_idle_def Client_SetDebug_def cli_do_def cli_call_def sys_call_def)
  have fields: "g_Server_Socket c = g_Server_Socket c0" "c_PORT c = port" "c_IP c = ip"
    "g_Connect_Send_Client_Thread c = Thread_Live" "\<not> Is_Server_Connect_Success c"
    "c_Debug_Option c = nw_Debug_Option nw"
    using ctor(2) by (simp_all add: c Client_SetDebug_def cli_do_def cli_call_def sys_call_def)
  have "cli_valid [] c"
    using ctor(1) fields(1) by (intro cli_valid_idle [OF idle]) (simp_all add: cli_valid_def)
  with res fields show "\<exists>c. m_NetWork nw' = Some (Net_Client c) \<and> cli_valid [] c \<and> c_PORT c = port
      \<and> c_IP c = ip \<and> g_Connect_Send_Client_Thread c = Thread_Live \<and> \<not> Is_Server_Connect_Success c
      \<and> c_Debug_Option c = nw_Debug_Option nw"
    by blast
qed

text \<open>Later calls only report whether the connection is established.\<close>

lemma NW_later_Connect:
  assumes "Current_Type nw = TYPE_DHCLIENT" and "m_NetWork nw = Some (Net_Client c)"
    and "g_Connect_Send_Client_Thread c \<noteq> Thread_Null"
  shows "NW_Connect env port ip nw = Ok (of_bool (Is_Server_Connect_Success c), nw)"
  using assms by (simp add: NW_Connect_def nw_types Client_Connect_def)

section \<open>The adapter and the handle as messengers\<close>

definition nw_live :: "DHNetWork \<Rightarrow> bool" where
  "nw_live nw \<longleftrightarrow> (case m_NetWork nw of
       None \<Rightarrow> Current_Type nw = TYPE_NONSET
     | Some (Net_Server s) \<Rightarrow> Current_Type nw = TYPE_DHSERVER \<and> srv_inv [] s
     | Some (Net_Client c) \<Rightarrow> Current_Type nw = TYPE_DHCLIENT \<and> cli_inv [] c)"

definition nw_inbox :: "DHNetWork \<Rightarrow> (sock \<times> packet) list" where
  "nw_inbox nw = (case m_NetWork nw of
       None \<Rightarrow> [] | Some (Net_Server s) \<Rightarrow> srv_msgs s | Some (Net_Client c) \<Rightarrow> cli_msgs c)"

definition nw_memory :: "DHNetWork \<Rightarrow> heap" where
  "nw_memory nw = (case m_NetWork nw of
       None \<Rightarrow> empty_heap | Some (Net_Server s) \<Rightarrow> sheap s | Some (Net_Client c) \<Rightarrow> cheap c)"

interpretation nw_inbox: messenger nw_live nw_inbox nw_memory NW_Recv
proof
  fix nw vec assume live: "nw_live nw"
  show "\<exists>r new nw'. NW_Recv vec nw = Ok (r, vec @ new, nw') \<and> nw_live nw'
      \<and> vec_view (nw_memory nw') new = nw_inbox nw \<and> nw_inbox nw' = [] \<and> (r = LOGIC_FAIL) = (nw_inbox nw = [])
      \<and> vec_ok (nw_memory nw') new"
  proof (cases "m_NetWork nw")
    case None
    with live show ?thesis
      by (intro exI [of _ LOGIC_FAIL] exI [of _ "[]"] exI [of _ nw])
        (simp add: nw_live_def NW_Recv_def nw_inbox_def vec_view_def vec_ok_def)
  next
    case (Some obj)
    show ?thesis
    proof (cases obj)
      case (Net_Server s)
      with Some live have inv: "srv_inv [] s" and type: "Current_Type nw = TYPE_DHSERVER"
        by (simp_all add: nw_live_def)
      from srv_inbox.receive_all [OF inv, of vec] obtain r new s' where
        "Recv vec s = Ok (r, vec @ new, s')" "srv_inv [] s'" "vec_view (sheap s') new = srv_msgs s"
        "srv_msgs s' = []" "(r = LOGIC_FAIL) = (srv_msgs s = [])" "vec_ok (sheap s') new"
        by blast
      with Some Net_Server type show ?thesis
        by (intro exI [of _ r] exI [of _ new] exI [of _ "nw\<lparr>m_NetWork := Some (Net_Server s')\<rparr>"])
          (simp add: nw_live_def NW_Recv_def nw_inbox_def nw_memory_def nw_types)
    next
      case (Net_Client c)
      with Some live have inv: "cli_inv [] c" and type: "Current_Type nw = TYPE_DHCLIENT"
        by (simp_all add: nw_live_def)
      from cli_inbox.receive_all [OF inv, of vec] obtain r new c' where
        "Client_Recv vec c = Ok (r, vec @ new, c')" "cli_inv [] c'" "vec_view (cheap c') new = cli_msgs c"
        "cli_msgs c' = []" "(r = LOGIC_FAIL) = (cli_msgs c = [])" "vec_ok (cheap c') new"
        by blast
      with Some Net_Client type show ?thesis
        by (intro exI [of _ r] exI [of _ new] exI [of _ "nw\<lparr>m_NetWork := Some (Net_Client c')\<rparr>"])
          (simp add: nw_live_def NW_Recv_def nw_inbox_def nw_memory_def nw_types)
    qed
  qed
qed

definition api_live :: "api_ptr \<Rightarrow> bool" where
  "api_live a \<longleftrightarrow> (\<exists>nw. a = Api_Live nw \<and> nw_live nw)"

definition api_inbox :: "api_ptr \<Rightarrow> (sock \<times> packet) list" where
  "api_inbox a = (case a of Api_Live nw \<Rightarrow> nw_inbox nw | _ \<Rightarrow> [])"

definition api_memory :: "api_ptr \<Rightarrow> heap" where
  "api_memory a = (case a of Api_Live nw \<Rightarrow> nw_memory nw | _ \<Rightarrow> empty_heap)"

interpretation api_inbox: messenger api_live api_inbox api_memory API_Recv
proof
  fix a vec assume "api_live a"
  then obtain nw where nw: "a = Api_Live nw" "nw_live nw"
    by (auto simp: api_live_def)
  from nw_inbox.receive_all [OF nw(2), of vec] nw(1)
  show "\<exists>r new a'. API_Recv vec a = Ok (r, vec @ new, a') \<and> api_live a'
      \<and> vec_view (api_memory a') new = api_inbox a \<and> api_inbox a' = [] \<and> (r = LOGIC_FAIL) = (api_inbox a = [])
      \<and> vec_ok (api_memory a') new"
    by (fastforce simp: API_Recv_def api_get_def api_live_def api_inbox_def api_memory_def)
qed

section \<open>Ending\<close>

lemma API_End_dtor:
  assumes "API_End env a = Ok (r, a')" and "a \<noteq> Api_Null"
  shows "r = 1" and "DHNetWorkAPI_dtor env a' = Fault Use_After_Free"
proof -
  have "r = 1 \<and> a' = Api_Deleted"
    using assms by (auto simp: API_End_def bindE_eq_Ok_iff)
  then show "r = 1" "DHNetWorkAPI_dtor env a' = Fault Use_After_Free"
    by (simp_all add: DHNetWorkAPI_dtor_def API_End_def api_get_def)
qed

text \<open>A handle that is only destroyed, never ended, is ended once.\<close>

lemma DHNetWorkAPI_dtor_client:
  assumes "a = Api_Live nw" and "m_NetWork nw = Some (Net_Client c)" and "cli_inv [] c"
    and "g_Server_Socket c \<noteq> None" and "g_Connect_Send_Client_Thread c = Thread_Live"
  shows "DHNetWorkAPI_dtor env a = Ok Api_Deleted"
proof -
  obtain ss where ss: "g_Server_Socket c = Some ss"
    using assms(4) by auto
  from Client_End_effect [OF assms(3) ss assms(5), of env] obtain c' where
    "Client_End env c = Ok (1, c')" "DHClient_dtor env c' = Ok c'"
    by blast
  then have "NW_End env nw = Ok (1, nw\<lparr>m_NetWork := None, nw_sys := csys c'\<rparr>)"
    using assms(2) by (simp add: NW_End_def)
  then show ?thesis
    using assms(1) by (simp add: DHNetWorkAPI_dtor_def API_End_def api_get_def DHNetWork_dtor_def NW_End_def)
qed

end
