(* ===== verification/DH_EndToEnd.thy ===== *)
theory DH_EndToEnd
  imports DH_NetWork
begin

text \<open>
  Both ends of a connection. What one side hands to \<open>WSASend\<close> for a socket is a list of buffers; TCP
  delivers their concatenation to the other side, cut into chunks of its own. The sending theorems and
  the contract \<open>stream_receiver\<close> together say that the packets queued on one side arrive on the other.
\<close>

section \<open>The bytes on the wire\<close>

text \<open>The chunks a receiver gets carry the bytes of the buffers, and each fits into a receive buffer.\<close>

definition wire :: "byte list list \<Rightarrow> byte list list \<Rightarrow> bool" where
  "wire sent got \<longleftrightarrow> concat got = concat sent \<and> list_all chunk_ok got"

lemma concat_cut_packets: "concat (cut_packets ps) = concat (map encode_packet ps)"
  by (induction ps) (simp_all add: cut_packets_def)

lemma wire_cut: "wire (cut_packets ps) got \<Longrightarrow> concat got = concat (map encode_packet ps)"
  by (simp add: wire_def concat_cut_packets)

text \<open>TCP could deliver each buffer as it was sent.\<close>

lemma wire_id: "wire (cut_packets ps) (cut_packets ps)"
proof -
  have "list_all chunk_ok (cut_packets ps)"
    unfolding cut_packets_def by (induction ps) (simp_all add: chunk_ok_chunks)
  then show ?thesis
    by (simp add: wire_def)
qed

section \<open>Client to server\<close>

text \<open>What a client's \<open>SendFunction\<close> hands over while every \<open>WSASend\<close> is accepted.\<close>

lemma SendFunction_all:
  assumes inv: "cli_inv held c" and sock: "g_Server_Socket c = Some ss" "ss_Socket ss = k"
    and k: "k \<noteq> INVALID_SOCKET" and env: "send_accepted env"
  shows "\<exists>c'. SendFunction env c = Ok c' \<and> cli_inv held c' \<and> cli_sends c' = []
    \<and> g_Server_Socket c' = Some ss
    \<and> sent_buffers k (csys c') = sent_buffers k (csys c) @ cut_packets (cli_sends c)"
proof -
  from client_send_queue_effect [OF inv sock k, of env] obtain c' gone n where
    c': "SendFunction env c = Ok c'" "cli_inv held c'" "cli_sends c = gone @ cli_sends c'"
      "\<forall>j. sent_buffers j (csys c') = sent_buffers j (csys c)
         @ (if j = k then take n (cut_packets gone) else [])"
      "g_Server_Socket c' = Some ss \<and> cli_sends c' = [] \<and> length (cut_packets gone) \<le> n
       \<or> client_closed c' \<and> gone \<noteq> [] \<and> \<not> send_accepted env"
    unfolding SendFunction_def by blast
  with env show ?thesis by auto
qed

text \<open>
  The packets a client queued, all of them, in order and once, reach the application's queue of the
  server, however TCP cuts the stream.
\<close>

lemma client_to_server:
  assumes cinv: "cli_inv held c" and sock: "g_Server_Socket c = Some ss" "ss_Socket ss = j"
      "j \<noteq> INVALID_SOCKET"
    and env: "send_accepted env" and fresh: "sent_buffers j (csys c) = []"
    and small: "list_all stream_packet (cli_sends c)"
    and ready: "srv_ready env' x p k s" and idle: "srv_pend x s = []"
  shows "\<exists>c'. SendFunction env c = Ok c' \<and> cli_sends c' = []
    \<and> (\<forall>got. wire (sent_buffers j (csys c')) got \<longrightarrow>
         (\<exists>s'. feed (srv_on_bytes env' x p) s got = Ok s' \<and> srv_ready env' x p k s' \<and> srv_pend x s' = []
            \<and> msgs_of k s' = msgs_of k s @ cli_sends c))"
proof -
  from SendFunction_all [OF cinv sock env] fresh obtain c' where
    c': "SendFunction env c = Ok c'" "cli_sends c' = []" "sent_buffers j (csys c') = cut_packets (cli_sends c)"
    by auto
  have "\<exists>s'. feed (srv_on_bytes env' x p) s got = Ok s' \<and> srv_ready env' x p k s' \<and> srv_pend x s' = []
      \<and> msgs_of k s' = msgs_of k s @ cli_sends c"
    if "wire (sent_buffers j (csys c')) got" for got
    using that c'(3) small srv_stream.feed_all [OF ready idle, of got "cli_sends c"]
    by (simp add: wire_cut) (simp add: wire_def)
  with c'(1,2) show ?thesis by blast
qed

section \<open>Server to client\<close>

definition sends_for :: "sock \<Rightarrow> server \<Rightarrow> packet list" where
  "sends_for k s = map snd (filter (\<lambda>m. fst m = k) (srv_sends s))"

lemma bytes_for_cut:
  assumes "k \<in> connected s"
  shows "bytes_for k s = cut_packets (sends_for k s)"
proof -
  have "concat (map (\<lambda>(j, p). if j = k \<and> k \<in> connected s then send_chunks (encode_packet p) else []) ms)
      = cut_packets (map snd (filter (\<lambda>m. fst m = k) ms))" for ms
    using assms by (induction ms) (auto simp: cut_packets_def)
  then show ?thesis
    by (simp add: bytes_for_def sends_for_def)
qed

lemma server_to_client:
  assumes inv: "srv_inv held s" and k: "k \<in> connected s" and env: "send_accepted env"
    and run: "\<not> g_Is_Exit s" and fresh: "sent_buffers k (ssys s) = []"
    and small: "list_all stream_packet (sends_for k s)"
    and ready: "client_ready env' x j c" and idle: "client_pend x c = []"
  shows "\<exists>s'. SendThread env s = Ok (Some s') \<and> Send_Data_Queue s' = []
    \<and> (\<forall>got. wire (sent_buffers k (ssys s')) got \<longrightarrow>
         (\<exists>c'. feed (client_on_bytes env' x) c got = Ok c' \<and> client_ready env' x j c' \<and> client_pend x c' = []
            \<and> client_msgs_of j c' = client_msgs_of j c @ sends_for k s))"
proof -
  from send_queue_effect [OF inv env] fresh bytes_for_cut [OF k] obtain s' where
    s': "send_queue env (Send_Data_Queue s) s = Ok s'" "Send_Data_Queue s' = []"
      "sent_buffers k (ssys s') = cut_packets (sends_for k s)"
    by auto
  have "\<exists>c'. feed (client_on_bytes env' x) c got = Ok c' \<and> client_ready env' x j c' \<and> client_pend x c' = []
      \<and> client_msgs_of j c' = client_msgs_of j c @ sends_for k s"
    if "wire (sent_buffers k (ssys s')) got" for got
    using that s'(3) small cli_stream.feed_all [OF ready idle, of got "sends_for k s"]
    by (simp add: wire_cut) (simp add: wire_def)
  with s' run show ?thesis
    by (simp add: SendThread_def)
qed

section \<open>Broadcast\<close>

text \<open>
  One call of \<open>Send\<close> with the broadcast type, followed by a round of the send thread: every connected
  client, and nobody else, is handed the buffers of the packet.
\<close>

lemma filter_clients:
  assumes "distinct (map fst es)"
  shows "map snd (filter (\<lambda>m. fst m = k) (map (\<lambda>e. (fst e, p)) es)) = (if k \<in> fst ` set es then [p] else [])"
  using assms by (induction es) (auto simp: image_iff)

lemma broadcast_reaches_all:
  assumes inv: "srv_inv held s" and blk: "user_packet blk p" and env: "send_accepted env"
    and empty: "srv_sends s = []"
  shows "\<exists>s1 s2. Send env (Some blk) SEND_TYPE_BROADCAST j s = Ok (int (length (g_Connected_Client s)), s1)
    \<and> send_queue env (Send_Data_Queue s1) s1 = Ok s2 \<and> srv_inv held s2
    \<and> (\<forall>k. sent_buffers k (ssys s2) = sent_buffers k (ssys s)
         @ (if k \<in> connected s then send_chunks (encode_packet p) else []))"
proof -
  from Send_broadcast [OF inv blk, of env j] obtain s1 where
    s1: "Send env (Some blk) SEND_TYPE_BROADCAST j s = Ok (int (length (g_Connected_Client s)), s1)"
      "queued held (map (\<lambda>e. (fst e, p)) (g_Connected_Client s)) s s1"
    by blast
  have q: "srv_inv held s1" "srv_sends s1 = map (\<lambda>e. (fst e, p)) (g_Connected_Client s)" "ssys s1 = ssys s"
    "connected s1 = connected s"
    using s1(2) empty same_but_sendD(9) [of s s1] by (simp_all add: queued_def)
  from send_queue_effect [OF q(1) env] obtain s2 where
    s2: "send_queue env (Send_Data_Queue s1) s1 = Ok s2" "srv_inv held s2"
      "\<forall>k. sent_buffers k (ssys s2) = sent_buffers k (ssys s1) @ bytes_for k s1"
    by blast
  have dist: "distinct (map fst (g_Connected_Client s))"
    using inv by (simp add: srv_inv_def maps_ok_def hm_distinct_def)
  have "bytes_for k s1 = (if k \<in> connected s then send_chunks (encode_packet p) else [])" for k
  proof (cases "k \<in> connected s")
    case True
    then have "k \<in> fst ` set (g_Connected_Client s)"
      using connected_keys by simp
    then have "sends_for k s1 = [p]"
      using filter_clients [OF dist, of k p] by (simp add: sends_for_def q(2))
    with True bytes_for_cut [of k s1] q(4) show ?thesis
      by (simp add: cut_packets_def)
  next
    case False
    then show ?thesis
      by (simp add: bytes_for_def q(4))
  qed
  with s1(1) s2 q(3) show ?thesis by auto
qed

end
