(* ===== verification/DH_ClientDemo.thy ===== *)
theory DH_ClientDemo
  imports DH_Demo DH_EndToEnd
begin

text \<open>
  More concrete states: the server of \<open>DH_Demo\<close> at rest, the same with a packet queued for its client,
  and a connected client whose receive is in flight, with and without a packet queued.
\<close>

section \<open>The server at rest\<close>

lemma demo_sys_inv: "sys_inv demo_server"
proof -
  have io: "m_IOType (ov_at demo_server 0) = IOType_Recv" "m_Socket (ov_at demo_server 0) = 7"
    by (simp_all add: demo_at0)
  have "rearmed demo_server 7"
    by (simp add: rearmed_def io)
  then have "armed demo_server"
    by (simp add: armed_def demo_connected)
  moreover have "known_flights demo_server"
    by (simp add: known_flights_def io) (simp add: demo_server_def)
  moreover have "tokens demo_server k \<le> 1" for k
    by (simp add: tokens_def flight_tokens_def is_token_def io)
  ultimately show ?thesis
    by (simp add: sys_inv_def demo_inv)
qed

lemma demo_fields [simp]:
  "g_Connected_Client demo_server = [(7, 0)]" "g_Socket_Struct_Pool demo_server = [(7, 0), (8, 1)]"
  "g_Is_Exit demo_server = False" "Recv_Data_Queue demo_server = []" "Send_Data_Queue demo_server = []"
  "g_Listen_Socket demo_server = Some 5" "g_IOCP demo_server = True" "sheap demo_server = empty_heap"
  "g_Send_Thread demo_server = Thread_Live" "g_Time_Check_Thread demo_server = Thread_Live"
  "g_Debug_Option demo_server = DHDEBUG_SIMPLE" "calls (ssys demo_server) = []"
  by (simp_all add: demo_server_def)

text \<open>One packet in memory at the address 0.\<close>

definition demo_heap :: heap where
  "demo_heap = \<lparr>cells = [0 \<mapsto> Packet_Block (encode_packet demo_packet1)], next_ptr = 1\<rparr>"

lemma demo_heap_queue:
  "queues_ok demo_heap [] [0]" "send_view demo_heap [0] = [demo_packet1]"
proof -
  have "cells demo_heap 0 = Some (Packet_Block (encode_packet demo_packet1))"
    by (simp add: demo_heap_def)
  then have "packet_at demo_heap 0" "packet_view demo_heap 0 = demo_packet1"
    using packet_atI [OF demo_packets_ok(3)] demo_packets_ok(3) by (simp_all add: packet_view_def)
  then show "queues_ok demo_heap [] [0]" "send_view demo_heap [0] = [demo_packet1]"
    by (simp_all add: queues_ok_def heap_ok_def heap_refs_def send_view_def) (simp add: demo_heap_def)
qed

definition demo_sending :: server where
  "demo_sending = demo_server\<lparr>sheap := demo_heap, Send_Data_Queue := [(7, 0)]\<rparr>"

lemma demo_sending_inv: "srv_inv [] demo_sending"
proof -
  have "srv_owns [] demo_sending"
    using demo_inv by (simp add: srv_inv_def srv_owns_def demo_sending_def ovs_ok_def ov_at_def)
  moreover have "maps_ok demo_sending" "avail_ok demo_sending"
    using demo_inv by (simp_all add: srv_inv_def maps_ok_def avail_but_def demo_sending_def)
  moreover have "srv_queues_ok demo_sending"
    using demo_heap_queue by (simp add: srv_queues_ok_def demo_sending_def)
  ultimately show ?thesis
    by (simp add: srv_inv_def)
qed

lemma demo_sending_facts:
  "srv_sends demo_sending = [(7, demo_packet1)]" "connected demo_sending = {7}"
  "\<not> g_Is_Exit demo_sending" "sent_buffers k (ssys demo_sending) = []" "srv_msgs demo_sending = []"
  using demo_heap_queue(2) demo_connected
  by (simp_all add: srv_sends_def demo_sending_def connected_def sent_buffers_def srv_msgs_def recv_view_def)

section \<open>A client\<close>

definition demo_client :: client where
  "demo_client =
     \<lparr>c_PORT = 729, c_IP = ''127.0.0.1'', c_Recv_Data_Queue = [], c_Send_Data_Queue = [],
      c_Available_Overlapped = demo_pool, g_Server_Socket = Some (demo_sock 7 False), c_Work_Thread = 1,
      g_Connect_Send_Client_Thread = Thread_Live, Is_Server_Connect_Success = True,
      c_IOCP = True, c_Is_Exit = False, c_Debug_Option = DHDEBUG_NONE,
      cheap = empty_heap, csys = \<lparr>calls = [], in_flight = [0]\<rparr>\<rparr>"

definition demo_client_sending :: client where
  "demo_client_sending = demo_client\<lparr>cheap := demo_heap, c_Send_Data_Queue := [0]\<rparr>"

lemma demo_client_fields [simp]:
  "c_Recv_Data_Queue demo_client = []" "c_Send_Data_Queue demo_client = []"
  "c_Available_Overlapped demo_client = demo_pool" "g_Server_Socket demo_client = Some (demo_sock 7 False)"
  "cheap demo_client = empty_heap" "csys demo_client = \<lparr>calls = [], in_flight = [0]\<rparr>"
  "Is_Server_Connect_Success demo_client" "\<not> c_Is_Exit demo_client" "c_IOCP demo_client"
  "g_Connect_Send_Client_Thread demo_client = Thread_Live" "c_PORT demo_client = 729"
  "c_IP demo_client = ''127.0.0.1''"
  by (simp_all add: demo_client_def)

lemma demo_client_at: "cli_at demo_client = ov_at demo_server"
  by (rule ext) (simp add: cli_at_def ov_at_def demo_server_def)

lemma demo_client_owns: "srv_owns [] (cview demo_client)"
  using demo_inv by (simp add: srv_inv_def srv_owns_def ovs_ok_def demo_client_at) (simp add: demo_server_def)

lemma demo_client_inv: "cli_inv [] demo_client"
  using demo_client_owns queues_ok_empty by (simp add: cli_inv_iff cli_queues_view)

lemma demo_client_valid: "cli_valid [] demo_client"
  using demo_client_inv by (simp add: cli_valid_def demo_client_at demo_at0 INVALID_SOCKET_def)

lemma demo_client_ready: "client_ready os_fine 0 7 demo_client"
  using demo_client_inv os_fine_accepted
  by (simp add: client_ready_def demo_client_at demo_at0 INVALID_SOCKET_def)

lemma demo_client_pend: "client_pend 0 demo_client = []"
  using demo_pend by (simp add: client_pend_def srv_pend_def demo_client_at)

lemma demo_client_msgs: "cli_msgs demo_client = []" "cli_sends demo_client = []"
  by (simp_all add: cli_msgs_def cli_sends_def recv_view_def send_view_def)

lemma demo_client_sending_inv: "cli_inv [] demo_client_sending"
proof -
  have "srv_owns [] (cview demo_client_sending)"
    using demo_client_owns by (simp add: demo_client_sending_def srv_owns_def ovs_ok_def ov_at_def)
  moreover have "srv_queues_ok (cview demo_client_sending)"
    unfolding cli_queues_view using demo_heap_queue by (simp add: demo_client_sending_def)
  ultimately show ?thesis
    by (simp add: cli_inv_iff)
qed

lemma demo_client_sending_facts:
  "cli_sends demo_client_sending = [demo_packet1]" "g_Server_Socket demo_client_sending = Some (demo_sock 7 False)"
  "sent_buffers k (csys demo_client_sending) = []" "c_Send_Data_Queue demo_client_sending = [0]"
  using demo_heap_queue(2) by (simp_all add: cli_sends_def demo_client_sending_def sent_buffers_def)

section \<open>A handle\<close>

definition demo_network :: DHNetWork where
  "demo_network = \<lparr>m_NetWork = Some (Net_Client demo_client), nw_Debug_Option = DHDEBUG_NONE,
     Current_Type = TYPE_DHCLIENT, nw_users = 0, nw_sys = empty_sys\<rparr>"

lemma demo_network_fields [simp]:
  "m_NetWork demo_network = Some (Net_Client demo_client)" "Current_Type demo_network = TYPE_DHCLIENT"
  by (simp_all add: demo_network_def)

lemma demo_network_live: "nw_live demo_network"
  by (simp add: nw_live_def demo_client_inv)

text \<open>A handle of a client with one received packet.\<close>

definition demo_inbox_heap :: "packet \<Rightarrow> heap" where
  "demo_inbox_heap p = \<lparr>cells = [0 \<mapsto> Packet_Block (encode_packet p), 1 \<mapsto> Net_Msg 7 0], next_ptr = 2\<rparr>"

definition demo_inbox_client :: "packet \<Rightarrow> client" where
  "demo_inbox_client p = demo_client\<lparr>cheap := demo_inbox_heap p, c_Recv_Data_Queue := [1]\<rparr>"

lemma demo_inbox_queue:
  assumes "packet_ok p"
  shows "queues_ok (demo_inbox_heap p) [1] []" and "recv_view (demo_inbox_heap p) [1] = [(7, p)]"
proof -
  have c: "cells (demo_inbox_heap p) 0 = Some (Packet_Block (encode_packet p))"
    "cells (demo_inbox_heap p) 1 = Some (Net_Msg 7 0)"
    by (simp_all add: demo_inbox_heap_def)
  then have "packet_at (demo_inbox_heap p) 0" "packet_view (demo_inbox_heap p) 0 = p"
    using packet_atI [OF assms] assms by (simp_all add: packet_view_def)
  then show "queues_ok (demo_inbox_heap p) [1] []" "recv_view (demo_inbox_heap p) [1] = [(7, p)]"
    using c by (simp_all add: queues_ok_def heap_ok_def heap_refs_def msg_packet_def msg_at_def recv_view_def
        msg_view_def) (simp add: demo_inbox_heap_def)
qed

lemma demo_inbox_inv:
  assumes "packet_ok p"
  shows "cli_inv [] (demo_inbox_client p)"
proof -
  have "srv_owns [] (cview (demo_inbox_client p))"
    using demo_client_owns by (simp add: demo_inbox_client_def srv_owns_def ovs_ok_def ov_at_def)
  moreover have "srv_queues_ok (cview (demo_inbox_client p))"
    unfolding cli_queues_view using demo_inbox_queue [OF assms] by (simp add: demo_inbox_client_def)
  ultimately show ?thesis
    by (simp add: cli_inv_iff)
qed

definition demo_handle :: "packet \<Rightarrow> api_ptr" where
  "demo_handle p = Api_Live (demo_network\<lparr>m_NetWork := Some (Net_Client (demo_inbox_client p))\<rparr>)"

lemma demo_handle_facts:
  assumes "packet_ok p"
  shows "api_live (demo_handle p)" and "api_inbox (demo_handle p) = [(7, p)]"
  using demo_inbox_inv [OF assms] demo_inbox_queue(2) [OF assms]
  by (simp_all add: api_live_def demo_handle_def nw_live_def api_inbox_def nw_inbox_def cli_msgs_def
      demo_inbox_client_def)

end
