(* ===== verification/DH_ServerProps.thy ===== *)
theory DH_ServerProps
  imports DH_ClientDemo
begin

text \<open>
  Properties of the server and of the two pools, each with a concrete instance.
\<close>

section \<open>Receiving\<close>

text \<open>C5. The receive handler refines the abstract parser. For every received chunk that fits into the
  processing buffer, it queues exactly the complete packets \<open>spec_parse\<close> finds in the pending bytes and
  the chunk, in order. If the bytes end in an incomplete packet, these stay pending and the receive is
  armed again; a packet without a type disconnects the client; a size field for which
  \<open>PACKET_HEADER_SIZE + size\<close> wraps around makes the handler read past the end of the block it
  allocated.\<close>

theorem server_refines_parser:
  assumes ready: "srv_ready env x p k s" and on: "k \<in> connected s" and c: "chunk_ok c"
    and fits: "length (srv_pend x s) + length c \<le> MAX_PACKET_SIZE"
    and parse: "spec_parse (srv_pend x s @ c) = (ps, r, e)"
  shows "case e of
      Need_More \<Rightarrow> \<exists>s'. srv_on_bytes env x p s c = Ok s' \<and> srv_ready env x p k s' \<and> srv_pend x s' = r
        \<and> srv_msgs s' = srv_msgs s @ map (Pair k) ps \<and> connected s' = connected s
    | No_Type \<Rightarrow> \<exists>s'. srv_on_bytes env x p s c = Ok s' \<and> srv_inv [] s'
        \<and> srv_msgs s' = srv_msgs s @ map (Pair k) ps \<and> connected s' = connected s - {k}
    | Size_Wraps \<Rightarrow> srv_on_bytes env x p s c = Fault Over_Read"
proof (cases e)
  case Need_More
  then show ?thesis
    using srv_recv_step [OF ready c fits] parse by auto
next
  case No_Type
  then show ?thesis
    using srv_recv_untyped [OF ready on c fits] parse by simp
next
  case Size_Wraps
  have "srv_on_bytes env x p s c = Fault Over_Read"
    by (rule srv_recv_outcome [OF ready c fits parse]) (use Size_Wraps in simp)
  then show ?thesis
    using Size_Wraps by simp
qed

text \<open>A header whose size field is all ones.\<close>

theorem server_refines_parser_witness:
  "srv_on_bytes os_fine 0 0 demo_server (replicate 10 255) = Fault Over_Read"
proof -
  have "replicate 8 (255 :: byte) = [255, 255, 255, 255, 255, 255, 255, 255]"
    by (simp add: numeral_eq_Suc)
  then have "le_to_nat (take 8 (replicate 10 255)) = 18446744073709551615"
    by simp
  then have wrap: "2 ^ 64 \<le> PACKET_HEADER_SIZE + unat (read_u64 (replicate 10 255))"
    by (simp add: read_u64_def unat_of_nat64 PACKET_HEADER_SIZE_def)
  have parse: "spec_parse (srv_pend 0 demo_server @ replicate 10 255) = ([], replicate 10 255, Size_Wraps)"
    using spec_parse_wraps [OF _ wrap] by (simp add: demo_pend PACKET_HEADER_SIZE_def)
  have c: "chunk_ok (replicate 10 255)"
    by (simp add: chunk_ok_def OVERLAPPED_BUFIZE_def)
  show ?thesis
    using server_refines_parser [OF demo_ready _ c _ parse]
    by (simp add: demo_connected demo_pend MAX_PACKET_SIZE_def)
qed

section \<open>The invariant\<close>


text \<open>The server the constructor makes on a system that refuses nothing, opened for two users.\<close>

lemma demo_fresh: "fresh_server (DHServer_init os_fine 0 empty_sys)"
  using fresh_server_init [of empty_sys DHDEBUG_NONE os_fine 0]
  by (simp add: SetDebug_def DHServer_init_def empty_sys_def)



section \<open>Accept\<close>

text \<open>C16. On a system that grants its calls, \<open>Accept\<close> on a fresh server returns with success, and then
  every one of the \<open>users + 10\<close> sockets of the pool has an \<open>AcceptEx\<close> in flight, nobody is connected,
  and the invariant of the running server holds.\<close>

theorem accept_opens_server:
  assumes fresh: "fresh_server s" and env: "os_fresh env" "accept_granted env B"
    and room: "length (calls (ssys s)) + unat w + 3 * (unat users + 10) + 5 \<le> B"
    and few: "unat users + 10 < 2 ^ 16"
  shows "\<exists>s'. Accept env now port users w s = Some (Ok (LOGIC_SUCCESS, s')) \<and> sys_inv s' \<and> connected s' = {}
    \<and> length (g_Socket_Struct_Pool s') = unat users + 10
    \<and> (\<forall>k \<in> fst ` set (g_Socket_Struct_Pool s'). waiting s' k)"
proof -
  obtain s' where run: "Accept env now port users w s = Some (Ok (LOGIC_SUCCESS, s'))"
    using Accept_granted [OF fresh env(2) room few] by blast
  note est = Accept_establishes [OF env(1) fresh few run]
  have "waiting s' k" if "k \<in> fst ` set (g_Socket_Struct_Pool s')" for k
    using that est(5) by (metis map_of_eq_None_iff not_None_eq)
  then show ?thesis
    using run est(1,2,4) by blast
qed

theorem accept_opens_server_witness:
  "\<exists>s'. Accept os_fine 0 729 2 2 (DHServer_init os_fine 0 empty_sys) = Some (Ok (LOGIC_SUCCESS, s'))
      \<and> length (g_Socket_Struct_Pool s') = 12 \<and> (\<forall>k \<in> fst ` set (g_Socket_Struct_Pool s'). waiting s' k)"
  using accept_opens_server [OF demo_fresh os_fine_fresh os_fine_granted, of 2 2 0 729]
  by (auto simp: DHServer_init_def empty_sys_def)





section \<open>The worker\<close>


definition demo_entry :: "u32 \<Rightarrow> OVERLAPPED_ENTRY" where
  "demo_entry n = \<lparr>lpCompletionKey = Some 0, lpOverlapped = Some 0, dwNumberOfBytesTransferred = n\<rparr>"

lemma demo_entry_ok: "unat n \<le> OVERLAPPED_BUFIZE \<Longrightarrow> entry_ok demo_server (demo_entry n) 0"
  by (simp add: entry_ok_def demo_entry_def demo_at0)


text \<open>C37. A completion with no bytes for a socket that is no longer connected (a receive or a send that
  was still in flight when the client was dropped) makes the worker wait forever.\<close>

theorem worker_spins_on_stale:
  assumes inv: "sys_inv s" and e: "entry_ok s e x" and n: "dwNumberOfBytesTransferred e = 0"
    and io: "m_IOType (ov_at s x) \<notin> {IOType_Accept, IOType_Disconnect}"
    and k: "m_Socket (ov_at s x) \<notin> connected s"
  shows "WorkThread_entry env e (complete_io x data s) = Fault Spin"
  using WorkThread_stale_spins [OF assms] .

text \<open>The client was dropped while its receive was in flight.\<close>

definition demo_dropped :: server where
  "demo_dropped = demo_server\<lparr>g_Connected_Client := []\<rparr>"

lemma demo_dropped_inv: "sys_inv demo_dropped"
proof -
  have at: "ov_at demo_dropped = ov_at demo_server"
    by (simp add: demo_dropped_def ov_at_def)
  have "srv_inv [] demo_dropped"
    using demo_inv by (simp add: srv_inv_def maps_ok_def avail_but_def srv_owns_def ovs_ok_def srv_queues_ok_def
        at hm_distinct_def) (simp add: demo_dropped_def)
  moreover have "armed demo_dropped"
    by (simp add: armed_def connected_def demo_dropped_def)
  moreover have "known_flights demo_dropped"
    using demo_sys_inv by (simp add: sys_inv_def known_flights_def at) (simp add: demo_dropped_def)
  moreover have "tokens demo_dropped k \<le> 1" for k
    by (simp add: tokens_def flight_tokens_def at connected_def) (simp add: demo_dropped_def)
  ultimately show ?thesis
    by (simp add: sys_inv_def)
qed

theorem worker_spins_on_stale_witness:
  "WorkThread_entry os_fine (demo_entry 0) (complete_io 0 [] demo_dropped) = Fault Spin"
proof -
  have at: "ov_at demo_dropped 0 = ov_at demo_server 0"
    by (simp add: demo_dropped_def ov_at_def)
  have "entry_ok demo_dropped (demo_entry 0) 0"
    using demo_entry_ok [of 0] by (simp add: entry_ok_def at) (simp add: demo_dropped_def)
  then show ?thesis
    using worker_spins_on_stale [OF demo_dropped_inv] by (simp add: demo_entry_def at demo_at0 connected_def demo_dropped_def)
qed

section \<open>Sending\<close>

text \<open>C18. The fragment loop of the send thread hands a packet to the system as the abstract cut says:
  the buffers, in order, are \<open>send_chunks\<close> of the packet. Together they are the packet, none is longer
  than the buffer, and their number is the length divided by the buffer size, rounded up.\<close>

theorem fragments_are_chunks:
  assumes inv: "srv_inv held s" and env: "send_accepted env" and len: "length blk = unat tot"
  shows "\<exists>s' bufs. send_fragments env k blk tot 0 s = Ok s' \<and> srv_inv held s'
    \<and> sent_buffers k (ssys s') = sent_buffers k (ssys s) @ bufs
    \<and> concat bufs = blk \<and> list_all chunk_ok bufs
    \<and> length bufs = (length blk + OVERLAPPED_BUFIZE - 1) div OVERLAPPED_BUFIZE"
proof -
  obtain s' n where "send_fragments env k blk tot 0 s = Ok s'" "srv_inv held s'"
      "sent_buffers k (ssys s') = sent_buffers k (ssys s) @ take n (send_chunks blk)"
      "length (send_chunks blk) \<le> n"
    using send_fragments_effect [OF inv, of 0 blk tot env k] len env by auto
  then show ?thesis
    using chunk_ok_chunks [of blk] send_chunks_length [of blk] by (auto simp: OVERLAPPED_BUFIZE_def)
qed

theorem fragments_are_chunks_witness:
  "\<exists>s' bufs. send_fragments os_fine 7 (replicate 5000 1) 5000 0 demo_server = Ok s'
     \<and> concat bufs = replicate 5000 (1 :: byte) \<and> length bufs = 3"
proof -
  have "length (replicate 5000 (1 :: byte)) = unat (5000 :: u64)"
    by simp
  from fragments_are_chunks [OF demo_inv os_fine_send_accepted this, of 7]
  obtain s' bufs where r: "send_fragments os_fine 7 (replicate 5000 1) 5000 0 demo_server = Ok s'"
      "concat bufs = replicate 5000 (1 :: byte)"
      "length bufs = (length (replicate 5000 (1 :: byte)) + OVERLAPPED_BUFIZE - 1) div OVERLAPPED_BUFIZE"
    by blast
  have "length bufs = 3"
    using r(3) by (simp add: OVERLAPPED_BUFIZE_def)
  then show ?thesis
    using r(1,2) by blast
qed

text \<open>C21. \<open>Send\<close> to one client: a connected one gets exactly this packet queued, once; for one that is
  not connected failure is reported and nothing is queued, but the copy that was made stays allocated and
  no queue owns it.\<close>

theorem send_to_target:
  assumes inv: "srv_inv held s" and blk: "user_packet blk p"
  shows "if k \<in> connected s
    then \<exists>s'. Send env (Some blk) SEND_TYPE_TARGET k s = Ok (LOGIC_SUCCESS, s') \<and> srv_inv held s'
      \<and> srv_sends s' = srv_sends s @ [(k, p)]
    else \<exists>s' q. Send env (Some blk) SEND_TYPE_TARGET k s = Ok (LOGIC_FAIL, s') \<and> srv_inv held s'
      \<and> srv_sends s' = srv_sends s \<and> cells (sheap s) q = None
      \<and> cells (sheap s') q = Some (Packet_Block (encode_packet p))
      \<and> q \<notin> set (heap_refs (sheap s') (Recv_Data_Queue s') (map snd (Send_Data_Queue s')))"
  using Send_target [OF inv blk, of k env] Send_target_absent [OF inv blk, of k env] by (auto simp: queued_def)

theorem send_to_target_witness:
  "(\<exists>s'. Send os_fine (Some (encode_packet demo_packet1)) SEND_TYPE_TARGET 7 demo_server = Ok (LOGIC_SUCCESS, s')
      \<and> srv_sends s' = [(7, demo_packet1)])
   \<and> (\<exists>s'. Send os_fine (Some (encode_packet demo_packet1)) SEND_TYPE_TARGET 8 demo_server = Ok (LOGIC_FAIL, s')
      \<and> srv_sends s' = [])"
proof -
  have blk: "user_packet (encode_packet demo_packet1) demo_packet1"
    using user_packet_encode [OF demo_packets_ok(3), of "[]"] by simp
  show ?thesis
    using send_to_target [OF demo_inv blk, of 7 os_fine] send_to_target [OF demo_inv blk, of 8 os_fine]
    by (auto simp: demo_connected)
qed

text \<open>C20. \<open>Send\<close> to all but one: the result is the number of the other clients, each of them gets the
  packet queued once, the excepted one gets nothing.\<close>

theorem send_except_target:
  assumes inv: "srv_inv held s" and blk: "user_packet blk p"
  shows "\<exists>s'. Send env (Some blk) SEND_TYPE_EXCEPT_TARGET k s = Ok (int (card (connected s - {k})), s')
    \<and> srv_inv held s' \<and> (\<forall>j. sends_for j s' = sends_for j s @ (if j \<in> connected s - {k} then [p] else []))"
proof -
  let ?es = "filter (\<lambda>e. fst e \<noteq> k) (g_Connected_Client s)"
  obtain s' where s': "Send env (Some blk) SEND_TYPE_EXCEPT_TARGET k s = Ok (int (length ?es), s')"
      "queued held (map (\<lambda>e. (fst e, p)) ?es) s s'"
    using Send_except [OF inv blk] by blast
  have dist: "distinct (map fst ?es)" and keys: "fst ` set ?es = connected s - {k}"
    using inv connected_keys [of s]
    by (auto simp: srv_inv_def maps_ok_def hm_distinct_def distinct_map_filter)
  have card: "card (connected s - {k}) = length ?es"
    using distinct_card [OF dist] keys by simp
  have "sends_for j s' = sends_for j s @ (if j \<in> connected s - {k} then [p] else [])" for j
    using s'(2) filter_clients [OF dist, of j p] keys by (simp add: sends_for_def queued_def)
  then show ?thesis
    using s' card by (auto simp: queued_def)
qed

theorem send_except_target_witness:
  "\<exists>s'. Send os_fine (Some (encode_packet demo_packet1)) SEND_TYPE_EXCEPT_TARGET 8 demo_server = Ok (1, s')
     \<and> sends_for 7 s' = [demo_packet1]"
proof -
  have blk: "user_packet (encode_packet demo_packet1) demo_packet1"
    using user_packet_encode [OF demo_packets_ok(3), of "[]"] by simp
  show ?thesis
    using send_except_target [OF demo_inv blk, of os_fine 8]
    by (auto simp: demo_connected sends_for_def)
qed

section \<open>Disconnecting and ending\<close>

text \<open>C22. \<open>Disconnect\<close> of a connected client succeeds, takes exactly this client off, keeps all
  received messages and the invariant of the running server; for any other socket it does not return
  normally.\<close>

theorem disconnect_takes_off:
  assumes inv: "sys_inv s"
  shows "if k \<in> connected s
    then \<exists>s'. Disconnect env k s = Ok (LOGIC_SUCCESS, s') \<and> connected s' = connected s - {k}
        \<and> srv_msgs s' = srv_msgs s \<and> sys_inv s'
    else \<exists>e. Disconnect env k s = Fault e"
proof (cases "k \<in> connected s")
  case True
  have data: "maps_ok s" "srv_owns [] s"
    using inv by (simp_all add: sys_inv_def srv_inv_def)
  obtain p where "map_of (g_Connected_Client s) k = Some p"
    using True by (auto simp: connected_def)
  then have "FindSocketOnClient k s" "k \<noteq> INVALID_SOCKET"
    using data(1) by (auto simp: FindSocketOnClient_def maps_ok_def)
  moreover obtain s1 where "drop_client env k s = Ok s1"
    using drop_client_Ok [OF data True] by blast
  ultimately have run: "Disconnect env k s = Ok (LOGIC_SUCCESS, s1)"
    by (simp add: Disconnect_drop)
  then show ?thesis
    using True Disconnect_inv [OF inv run] by simp
next
  case False
  then show ?thesis
    using Disconnect_faults by simp
qed

theorem disconnect_takes_off_witness:
  "(\<exists>s'. Disconnect os_fine 7 demo_server = Ok (LOGIC_SUCCESS, s') \<and> connected s' = {})
   \<and> (\<exists>e. Disconnect os_fine 8 demo_server = Fault e)"
  using disconnect_takes_off [OF demo_sys_inv, of 7 os_fine] disconnect_takes_off [OF demo_sys_inv, of 8 os_fine]
  by (auto simp: demo_connected)



section \<open>The pools\<close>

text \<open>\<open>ObjectPool\<close>: an object that is handed out was held by nobody, and is not handed out again
  before it is put back; putting it back makes it available with its buffers' first bytes cleared.\<close>

theorem object_pool_exclusive:
  assumes own: "op.owns held p" and run: "GetObject T p = Ok (x, p')"
  shows "x \<notin> set held \<and> op.owns (x # held) p' \<and> op.owns held (ResetObject T x p')
    \<and> (\<forall>y p''. GetObject T p' = Ok (y, p'') \<longrightarrow> y \<noteq> x \<and> y \<notin> set held)"
proof -
  have get: "op.owns (x # held) p'" "x \<notin> set held"
    using op.owns_get [OF own run] by simp_all
  have "y \<noteq> x \<and> y \<notin> set held" if "GetObject T p' = Ok (y, p'')" for y p''
    using op.owns_get(2) [OF get(1) that] by simp
  then show ?thesis
    using get op.owns_put [OF get(1)] by blast
qed

theorem object_pool_exclusive_witness:
  "\<exists>x p'. GetObject (ov_class os_fine) demo_pool = Ok (x, p') \<and> x \<noteq> 0"
proof -
  obtain x p' where run: "GetObject (ov_class os_fine) demo_pool = Ok (x, p')"
    using GetObject_Ok [of demo_pool "ov_class os_fine"] by (auto simp: demo_pool_fields)
  have "op.owns [0] demo_pool"
    by (simp add: op_owns_def demo_pool_ok demo_pool_fields)
  from object_pool_exclusive [OF this run] show ?thesis
    using run by auto
qed

text \<open>C24. \<open>MemoryPool\<close>: a block that is handed out shares no byte with any other block that is out, has
  the size of its class, and can be given back.\<close>

theorem memory_pool_disjoint:
  assumes own: "mp_owns out mp" and ready: "mp_ready mp" and run: "GetMemory k mp = Ok (Some a, mp')"
  shows "(\<forall>b \<in># out. blocks_disjoint (a, nat k) b) \<and> mp_owns (add_mset (a, nat k) out) mp' \<and> mp_ready mp'
    \<and> (\<exists>mp''. ResetMemory (Some a) k mp' = Ok mp'' \<and> mp_owns out mp'')"
proof -
  have own': "mp_owns (add_mset (a, nat k) out) mp'"
    using GetMemory_owns [OF own run] .
  have ready': "mp_ready mp'"
    using GetMemory_ready [OF ready run] by simp
  have size: "k \<in> set pool_sizes"
    by (rule GetMemoryE [OF run]) (use block_count_sizes [of mp k] in auto)
  have "blocks_disjoint (a, nat k) b" if b: "b \<in># out" for b
  proof -
    have "blocks_ok (mp_next mp') (add_mset (a, nat k) (add_mset b (out - {#b#} + map_blocks (m_Memory_Pool mp'))))"
      using own' b by (simp add: mp_owns_def)
    then show ?thesis
      by (rule blocks_ok_disjoint)
  qed
  moreover obtain mp'' where "ResetMemory (Some a) k mp' = Ok mp''"
    using ResetMemory_Ok_iff [OF ready', of a k] size by (auto simp: is_Ok_iff)
  ultimately show ?thesis
    using own' ready' ResetMemory_owns [OF own'] by blast
qed

theorem memory_pool_disjoint_witness:
  "\<exists>mp a mp1 b mp2. MemoryPool_new (\<lambda>_. 0) 2000 = Ok mp \<and> GetMemory 4 mp = Ok (Some a, mp1)
     \<and> GetMemory 4 mp1 = Ok (Some b, mp2) \<and> blocks_disjoint (b, 4) (a, 4)"
proof -
  obtain mp where mp: "MemoryPool_new (\<lambda>_. 0) 2000 = Ok mp" "mp_owns {#} mp" "mp_ready mp"
      "block_count mp = (\<lambda>k. if k \<in> {4, 8, 16, 32, 64} then Some 2000
         else if k \<in> {128, 256} then Some (2000 div 2) else if k = 512 then Some (2000 div 4) else None)"
    using MemoryPool_new_Ok [of 2000 "\<lambda>_. 0"] by auto
  have four: "\<exists>a p'. GetMemory 4 p = Ok (Some a, p')" if "mp_ready p" "block_count p = block_count mp" for p
  proof -
    have "4 \<in> hm_keys (m_Memory_Pool p)"
      using that(1) by (simp add: mp_ready_def pool_sizes_def)
    then obtain q where "map_of (m_Memory_Pool p) 4 = Some q"
      unfolding hm_keys_iff by blast
    then obtain a p' where "FindMemory 4 2000 p = Ok (a, p')"
      using FindMemory_Ok [of p 4 q 2000] by auto
    then show ?thesis
      using that(2) mp(4) by (simp add: GetMemory_def)
  qed
  obtain a mp1 where a: "GetMemory 4 mp = Ok (Some a, mp1)"
    using four [OF mp(3)] by auto
  have ready1: "mp_ready mp1" "block_count mp1 = block_count mp"
    using GetMemory_ready [OF mp(3) a] by simp_all
  obtain b mp2 where b: "GetMemory 4 mp1 = Ok (Some b, mp2)"
    using four [OF ready1] by auto
  have "mp_owns {#(a, 4)#} mp1"
    using GetMemory_owns [OF mp(2) a] by simp
  from memory_pool_disjoint [OF this ready1(1) b] show ?thesis
    using mp(1) a b by auto
qed

end
