(* ===== verification/DH_ClientProps.thy ===== *)
theory DH_ClientProps
  imports DH_ClientDemo
begin

text \<open>
  Properties of the client, each with a concrete instance.
\<close>

section \<open>Receiving and sending\<close>

text \<open>C25. The client's receive handler delivers the packets of the server's stream, in order and once,
  however TCP cuts the stream, as long as no packet is larger than \<open>max_stream_packet\<close>.\<close>

theorem client_delivers_stream:
  assumes "client_ready env x k c" and "client_pend x c = []"
    and "list_all chunk_ok cs" and "list_all stream_packet ps"
    and "concat cs = concat (map encode_packet ps)"
  shows "\<exists>c'. feed (client_on_bytes env x) c cs = Ok c' \<and> client_ready env x k c' \<and> client_pend x c' = []
           \<and> client_msgs_of k c' = client_msgs_of k c @ ps"
  using cli_stream.feed_all [OF assms] .

theorem client_delivers_stream_witness:
  "\<exists>c'. feed (client_on_bytes os_fine 0) demo_client
          [take 5 (encode_packet demo_packet1),
           drop 5 (encode_packet demo_packet1) @ encode_packet demo_packet2] = Ok c'
        \<and> client_msgs_of 7 c' = [demo_packet1, demo_packet2]"
proof -
  have cs: "list_all chunk_ok [take 5 (encode_packet demo_packet1),
      drop 5 (encode_packet demo_packet1) @ encode_packet demo_packet2]"
    by (auto simp: chunk_ok_def packet_size_def demo_packet1_def demo_packet2_def net_consts
        simp flip: length_greater_0_conv)
  from client_delivers_stream [OF demo_client_ready demo_client_pend cs, of "[demo_packet1, demo_packet2]"]
  show ?thesis
    using demo_packets_ok by (auto simp: client_msgs_of_def demo_client_msgs)
qed

text \<open>C11. \<open>SendFunction\<close> of a client with a socket never faults, and what it hands to the system is the cut
  of a prefix of its queue, up to a refused call. Either nothing was refused: the whole queue is sent and
  the connection stays. Or a call was refused: the connection is closed, and exactly the packets behind the
  one being sent are still queued.\<close>

theorem client_sends_queue:
  assumes inv: "cli_inv held c" and sock: "g_Server_Socket c = Some ss" "ss_Socket ss = k" "k \<noteq> INVALID_SOCKET"
  shows "\<exists>c' sent n. SendFunction env c = Ok c' \<and> cli_inv held c' \<and> cli_sends c = sent @ cli_sends c'
    \<and> sent_buffers k (csys c') = sent_buffers k (csys c) @ take n (cut_packets sent)
    \<and> (g_Server_Socket c' = Some ss \<and> cli_sends c' = [] \<and> length (cut_packets sent) \<le> n
       \<or> server_socket c' = Ok INVALID_SOCKET \<and> \<not> Is_Server_Connect_Success c' \<and> sent \<noteq> []
         \<and> \<not> send_accepted env)"
proof -
  obtain c' sent n where "SendFunction env c = Ok c'" "cli_inv held c'" "cli_sends c = sent @ cli_sends c'"
      "\<forall>j. sent_buffers j (csys c') = sent_buffers j (csys c) @ (if j = k then take n (cut_packets sent) else [])"
      "g_Server_Socket c' = Some ss \<and> cli_sends c' = [] \<and> length (cut_packets sent) \<le> n
       \<or> client_closed c' \<and> sent \<noteq> [] \<and> \<not> send_accepted env"
    using client_send_queue_effect [OF inv sock, of env] unfolding SendFunction_def by blast
  then show ?thesis
    by (intro exI [of _ c'] exI [of _ sent] exI [of _ n]) (auto simp: client_closed_def)
qed

theorem client_sends_queue_witness:
  "\<exists>c'. SendFunction os_fine demo_client_sending = Ok c' \<and> cli_sends c' = []
      \<and> sent_buffers 7 (csys c') = [encode_packet demo_packet1]"
proof -
  have cut: "cut_packets [demo_packet1] = [encode_packet demo_packet1]"
    by (simp add: cut_packets_def send_chunks.simps demo_packet1_def packet_size_def net_consts
        flip: length_0_conv)
  have "ss_Socket (demo_sock 7 False) = 7" "(7 :: sock) \<noteq> INVALID_SOCKET"
    by (simp_all add: INVALID_SOCKET_def)
  from client_sends_queue [OF demo_client_sending_inv demo_client_sending_facts(2) this, of os_fine]
  show ?thesis
    using os_fine_send_accepted cut by (auto simp: demo_client_sending_facts)
qed

section \<open>The invariant\<close>




section \<open>The connecting thread\<close>

text \<open>A connection that the server closes between the moment the connecting thread has armed the first
  receive and the moment it marks the connection as established: the worker closes the socket, the
  connecting thread marks the client as connected all the same, and from then on the client has no socket,
  counts as connected, and is never connected again.\<close>

theorem client_race_lost:
  assumes valid: "cli_valid [] c" and pc: "\<not> Is_Server_Connect_Success c" and e: "client_entry c e x"
    and zero: "dwNumberOfBytesTransferred e = 0" and shut: "shutdown_ok env" and go: "\<not> c_Is_Exit c"
  shows "\<exists>c'. Client_WorkThread_entry env e (cli_complete x [] c) = Ok (False, c')
    \<and> (\<forall>n. \<exists>c''. ConnectSendThread env (Suc n) At_Mark c' = Ok (At_Top, c'')
         \<and> Is_Server_Connect_Success c'' \<and> server_socket c'' = Ok INVALID_SOCKET)"
proof -
  have "pc_ok At_Mark c"
    using pc by (simp add: pc_ok_def)
  then show ?thesis
    using client_connection_race [OF valid _ e zero shut go] by blast
qed

definition demo_marking :: client where
  "demo_marking = demo_client\<lparr>Is_Server_Connect_Success := False\<rparr>"

lemma demo_marking_facts:
  "cli_valid [] demo_marking" "\<not> Is_Server_Connect_Success demo_marking" "\<not> c_Is_Exit demo_marking"
proof -
  have "cli_idle demo_client demo_marking"
    by (simp add: cli_idle_def demo_marking_def)
  then show "cli_valid [] demo_marking"
    by (rule cli_valid_idle) (simp_all add: demo_client_valid, simp add: demo_marking_def)
  show "\<not> Is_Server_Connect_Success demo_marking" "\<not> c_Is_Exit demo_marking"
    by (simp_all add: demo_marking_def)
qed

theorem client_race_lost_witness:
  "\<exists>c'. \<forall>n. \<exists>c''. ConnectSendThread os_fine (Suc n) At_Mark c' = Ok (At_Top, c'')
         \<and> Is_Server_Connect_Success c'' \<and> server_socket c'' = Ok INVALID_SOCKET"
proof -
  let ?e = "\<lparr>lpCompletionKey = Some 0, lpOverlapped = Some 0, dwNumberOfBytesTransferred = 0\<rparr>"
  have "client_entry demo_marking ?e 0"
    by (simp add: client_entry_def demo_marking_def)
  moreover have "shutdown_ok os_fine"
    by (simp add: shutdown_ok_def os_fine_def)
  ultimately show ?thesis
    using client_race_lost [OF demo_marking_facts(1,2) _ _ _ demo_marking_facts(3), of ?e 0 os_fine] by auto
qed

text \<open>C26. While the server refuses the connection the thread keeps trying: after \<open>n\<close> steps it has made
  exactly \<open>n\<close> attempts, all with the socket, port and address of the client, and is about to make the
  next one.\<close>

theorem client_retries:
  assumes "refusing env" and "\<not> c_Is_Exit c" and "server_socket c = Ok k"
  shows "\<exists>c'. ConnectSendThread env n At_Connect c = Ok (At_Connect, c')
    \<and> calls (csys c') = replicate n (Sys_Connect k (c_PORT c) (c_IP c)) @ calls (csys c)"
  using ConnectSendThread_refused [OF assms] by blast

definition os_refusing :: os where
  "os_refusing = os_fine\<lparr>os_ret := (\<lambda>cs c.
     case c of Sys_Connect k p ip \<Rightarrow> \<lparr>ret_ok = False, last_error = WSAECONNREFUSED, ret_sock = 0\<rparr>
             | _ \<Rightarrow> os_ret os_fine cs c)\<rparr>"

theorem client_retries_witness:
  "\<exists>c'. ConnectSendThread os_refusing 3 At_Connect demo_client = Ok (At_Connect, c')
     \<and> calls (csys c') = replicate 3 (Sys_Connect 7 729 ''127.0.0.1'')"
proof -
  have "refusing os_refusing"
    by (simp add: refusing_def os_refusing_def)
  moreover have "server_socket demo_client = Ok 7"
    by (simp add: server_socket_def)
  ultimately show ?thesis
    using client_retries [of os_refusing demo_client 7 3] by simp
qed

section \<open>Ending\<close>

text \<open>C27. Once \<open>End\<close> has set its flag, the connecting thread reaches its end within three steps, whatever
  it was doing and whatever the system answers, without touching the data.\<close>

theorem client_thread_ends:
  assumes "c_Is_Exit c" and "g_Server_Socket c \<noteq> None"
  shows "\<exists>c'. ConnectSendThread env 3 pc c = Ok (At_End, c') \<and> cli_idle c c'"
  using ConnectSendThread_exits [OF assms] .

theorem client_thread_ends_witness:
  "\<exists>c'. ConnectSendThread os_refusing 3 At_Connect (client_stop os_refusing demo_client) = Ok (At_End, c')"
  using client_thread_ends [of "client_stop os_refusing demo_client" os_refusing At_Connect]
  by (auto simp: client_stop_def)

text \<open>C28. \<open>End\<close> of a client that called \<open>Connect\<close> releases every packet and message its queues own and
  nothing else, closes its socket and its port, and leaves nothing for the destructor; ending it again
  joins a deleted thread, and ending a client that never called \<open>Connect\<close> joins a thread that does not
  exist.\<close>

theorem client_end_releases:
  assumes inv: "cli_inv [] c" and sock: "g_Server_Socket c = Some ss"
  shows "case g_Connect_Send_Client_Thread c of
      Thread_Live \<Rightarrow> \<exists>c'. Client_End env c = Ok (1, c') \<and> c_Recv_Data_Queue c' = [] \<and> c_Send_Data_Queue c' = []
        \<and> (\<forall>p. cells (cheap c') p = (if p \<in> set (heap_refs (cheap c) (c_Recv_Data_Queue c) (c_Send_Data_Queue c))
                                    then None else cells (cheap c) p))
        \<and> Sys_CloseSocket (ss_Socket ss) \<in> set (calls (csys c')) \<and> \<not> c_IOCP c' \<and> DHClient_dtor env c' = Ok c'
        \<and> Client_End env c' = Fault Use_After_Free
    | Thread_Deleted \<Rightarrow> Client_End env c = Fault Use_After_Free
    | Thread_Null \<Rightarrow> Client_End env c = Fault Null_Deref"
proof (cases "g_Connect_Send_Client_Thread c")
  case Thread_Live
  obtain c' where "Client_End env c = Ok (1, c')" "c_Recv_Data_Queue c' = []" "c_Send_Data_Queue c' = []"
      "cells (cheap c') = (\<lambda>p. if p \<in> set (heap_refs (cheap c) (c_Recv_Data_Queue c) (c_Send_Data_Queue c))
                             then None else cells (cheap c) p)"
      "Sys_CloseSocket (ss_Socket ss) \<in> set (calls (csys c'))" "\<not> c_IOCP c'" "DHClient_dtor env c' = Ok c'"
      "g_Connect_Send_Client_Thread c' = Thread_Deleted"
    using Client_End_effect [OF inv sock Thread_Live] by blast
  then show ?thesis
    using Thread_Live Client_End_twice [of c' env] by auto
qed (simp_all add: Client_End_unconnected Client_End_twice)

theorem client_end_releases_witness:
  "\<exists>c'. Client_End os_fine demo_client_sending = Ok (1, c') \<and> c_Send_Data_Queue c' = [] \<and> cells (cheap c') 0 = None"
proof -
  have "g_Connect_Send_Client_Thread demo_client_sending = Thread_Live"
    by (simp add: demo_client_sending_def)
  then show ?thesis
    using client_end_releases [OF demo_client_sending_inv demo_client_sending_facts(2), of os_fine]
    by (auto simp: heap_refs_def demo_client_sending_facts)
qed

end
