(* ===== verification/DH_NetProps.thy ===== *)
theory DH_NetProps
  imports DH_ClientDemo
begin

text \<open>
  Properties of the adapter \<open>DHNetWork\<close> and of the handle \<open>DHNetWorkAPI\<close>, each with a concrete instance.
\<close>

section \<open>Roles\<close>

text \<open>One call of the application that returns.\<close>

definition nw_run :: "os \<Rightarrow> DHNetWork \<Rightarrow> DHNetWork \<Rightarrow> bool" where
  "nw_run env nw nw' \<longleftrightarrow>
     (\<exists>port ip r. NW_Connect env port ip nw = Ok (r, nw'))
   \<or> (\<exists>now port users w r. NW_Accept env now port users w nw = Some (Ok (r, nw')))
   \<or> (\<exists>pkt t k r. NW_Send env pkt t k nw = Ok (r, nw'))
   \<or> (\<exists>vec vec' r. NW_Recv vec nw = Ok (r, vec', nw'))
   \<or> (\<exists>k r. NW_Disconnect env k nw = Ok (r, nw'))
   \<or> (\<exists>r. NW_End env nw = Ok (r, nw'))"

lemma nw_run_typed:
  assumes "nw_run env y z" and y: "nw_typed y"
  shows "nw_typed z \<and> (Current_Type y \<noteq> TYPE_NONSET \<longrightarrow> Current_Type z = Current_Type y)"
  using assms(1) unfolding nw_run_def
  by (elim disjE exE)
    (auto dest: NW_Connect_typed [OF y] NW_Accept_typed [OF y] NW_Send_typed [OF y] NW_Recv_typed [OF y]
      NW_Disconnect_typed [OF y] NW_End_typed [OF y])

text \<open>C36. The type the adapter carries always fits the object it owns: every call of \<open>Connect\<close>,
  \<open>Accept\<close>, \<open>Send\<close>, \<open>Recv\<close>, \<open>Disconnect\<close> and \<open>End\<close> that returns keeps that, and once the type is set it
  never changes again.\<close>

theorem network_role_fixed:
  assumes typed: "nw_typed nw" and run: "(nw_run env)\<^sup>*\<^sup>* nw nw'"
  shows "nw_typed nw' \<and> (Current_Type nw \<noteq> TYPE_NONSET \<longrightarrow> Current_Type nw' = Current_Type nw)"
  using run
proof (induction rule: rtranclp_induct)
  case base
  then show ?case
    using typed by simp
next
  case (step y z)
  have y: "nw_typed y"
    using step.IH by simp
  have "nw_typed z \<and> (Current_Type y \<noteq> TYPE_NONSET \<longrightarrow> Current_Type z = Current_Type y)"
    using step.hyps(2) y by (rule nw_run_typed)
  then show ?case
    using step.IH by auto
qed

theorem network_role_fixed_witness:
  "\<exists>nw. (nw_run os_fine)\<^sup>*\<^sup>* demo_network nw \<and> m_NetWork nw = None \<and> Current_Type nw = TYPE_DHCLIENT"
proof -
  obtain c' where "Client_End os_fine demo_client = Ok (1, c')" "DHClient_dtor os_fine c' = Ok c'"
    using Client_End_effect [OF demo_client_inv, of "demo_sock 7 False" os_fine] by auto
  then have run: "NW_End os_fine demo_network = Ok (1, demo_network\<lparr>m_NetWork := None, nw_sys := csys c'\<rparr>)"
    by (simp add: NW_End_def)
  let ?nw = "demo_network\<lparr>m_NetWork := None, nw_sys := csys c'\<rparr>"
  have "nw_run os_fine demo_network ?nw"
    using run unfolding nw_run_def by blast
  moreover have "nw_typed demo_network"
    by (simp add: nw_typed_def)
  ultimately show ?thesis
    using network_role_fixed [of demo_network os_fine ?nw] by (intro exI [of _ ?nw]) (auto simp: nw_types)
qed

section \<open>Receiving through the handle\<close>

text \<open>C35. Through the handle, as through the server and the client, \<open>Recv\<close> hands over all received messages
  in order, each a live packet of the application, and leaves none: a second call right after it appends
  nothing and reports failure.\<close>

theorem handle_receives_once:
  assumes live: "api_live a"
  shows "\<exists>r new a'. API_Recv vec a = Ok (r, vec @ new, a') \<and> vec_view (api_memory a') new = api_inbox a
    \<and> vec_ok (api_memory a') new
    \<and> (\<exists>a''. API_Recv (vec @ new) a' = Ok (LOGIC_FAIL, vec @ new, a'') \<and> api_inbox a'' = [])"
proof -
  obtain r new a' where a': "API_Recv vec a = Ok (r, vec @ new, a')" "api_live a'"
      "vec_view (api_memory a') new = api_inbox a" "vec_ok (api_memory a') new"
    using api_inbox.receive_all [OF live, of vec] by blast
  then show ?thesis
    using api_inbox.receive_twice [OF live a'(1)] by blast
qed

theorem handle_receives_once_witness:
  "\<exists>r new a'. API_Recv [] (demo_handle demo_packet1) = Ok (r, new, a')
     \<and> vec_view (api_memory a') new = [(7, demo_packet1)]"
  using handle_receives_once [OF demo_handle_facts(1) [OF demo_packets_ok(3)], of "[]"]
  by (auto simp: demo_handle_facts(2) [OF demo_packets_ok(3)])

section \<open>Ending\<close>

text \<open>\<open>DHNetWork::End\<close> deletes the object and keeps the type, so that every later call of the role
  dereferences a null pointer; and \<open>DHNetWorkAPI::End\<close> keeps its pointer, so that the destructor that
  follows uses the deleted network.\<close>

theorem use_after_end:
  shows "(m_NetWork nw = None \<and> Current_Type nw = TYPE_DHCLIENT \<longrightarrow>
      NW_Send env pkt t k nw = Fault Null_Deref \<and> NW_Recv vec nw = Fault Null_Deref
      \<and> NW_Connect env port ip nw = Fault Null_Deref)
    \<and> (m_NetWork nw = None \<and> Current_Type nw = TYPE_DHSERVER \<longrightarrow>
      NW_Send env pkt t k nw = Fault Null_Deref \<and> NW_Recv vec nw = Fault Null_Deref
      \<and> NW_Accept env now port users w nw = Some (Fault Null_Deref) \<and> NW_Disconnect env k nw = Fault Null_Deref)
    \<and> (API_End env a = Ok (r, a') \<and> a \<noteq> Api_Null \<longrightarrow> DHNetWorkAPI_dtor env a' = Fault Use_After_Free)"
  using NW_after_End [of nw] API_End_dtor(2) by auto

theorem use_after_end_witness:
  "\<exists>r a'. API_End os_fine (Api_Live demo_network) = Ok (r, a') \<and> DHNetWorkAPI_dtor os_fine a' = Fault Use_After_Free"
proof -
  obtain c' where "Client_End os_fine demo_client = Ok (1, c')" "DHClient_dtor os_fine c' = Ok c'"
    using Client_End_effect [OF demo_client_inv, of "demo_sock 7 False" os_fine] by auto
  then have "NW_End os_fine demo_network = Ok (1, demo_network\<lparr>m_NetWork := None, nw_sys := csys c'\<rparr>)"
    by (simp add: NW_End_def)
  moreover have "NW_End os_fine (nw\<lparr>m_NetWork := None, nw_sys := y\<rparr>) = Ok (1, nw\<lparr>m_NetWork := None, nw_sys := y\<rparr>)"
    for nw y
    by (simp add: NW_End_def)
  ultimately have "API_End os_fine (Api_Live demo_network) = Ok (1, Api_Deleted)"
    by (simp add: API_End_def api_get_def DHNetWork_dtor_def)
  then show ?thesis
    using use_after_end [where a = "Api_Live demo_network" and env = os_fine] by auto
qed

end
