(* ===== verification/DH_DB.thy ===== *)
theory DH_DB
  imports DH_Prelude
begin

text \<open>
  \<open>DHDBCore\<close> and its facade \<open>DHDB\<close>: accounts and friends kept in a MySQL database, reached by SQL text
  the functions build from their arguments. The MySQL client library is a parameter, a record of the
  calls the code makes; what the code relies on is the predicate \<open>sql_behaves\<close>: on the statements the
  code sends, for arguments without a quote, the server does what SQL says on the two tables.
\<close>

section \<open>The client library\<close>

text \<open>A stored result: the number of columns, and the rows, with \<open>NULL\<close> as \<open>None\<close>.\<close>

record mysql_res =
  num_fields :: nat
  res_rows :: "string option list list"

record 'db mysql =
  mysql_init :: "'db option"
  mysql_options :: "'db \<Rightarrow> 'db"
  mysql_real_connect :: "string \<Rightarrow> string \<Rightarrow> string \<Rightarrow> string \<Rightarrow> u32 \<Rightarrow> 'db \<Rightarrow> bool \<times> 'db"
  mysql_query :: "string \<Rightarrow> 'db \<Rightarrow> bool \<times> 'db"   \<comment> \<open>whether the call reports an error\<close>
  mysql_store_result :: "'db \<Rightarrow> mysql_res option \<times> 'db"

record 'db DHDBCore =
  m_MYSQL :: 'db
  Is_Connect :: bool

section \<open>The SQL text\<close>

definition SELECTSTRING :: string where "SELECTSTRING = ''SELECT ''"
definition INSERTSTRING :: string where "INSERTSTRING = ''INSERT INTO ''"
definition DELETESTRING :: string where "DELETESTRING = ''DELETE FROM ''"
definition UPDATESTRING :: string where "UPDATESTRING = ''UPDATE ''"

text \<open>The single quote, and a value between two of them.\<close>

definition sq :: char where
  "sq = CHR 0x27"

definition quoted :: "string \<Rightarrow> string" where
  "quoted v = sq # v @ [sq]"

definition q_ids :: string where
  "q_ids = SELECTSTRING @ ''ID FROM LOGIN''"

definition q_password :: "string \<Rightarrow> string" where
  "q_password User_ID = SELECTSTRING @ ''PASSWORD FROM LOGIN WHERE ID='' @ quoted User_ID"

definition q_identifier :: "string \<Rightarrow> string" where
  "q_identifier User_ID = SELECTSTRING @ ''IDENTIFIER FROM LOGIN WHERE ID='' @ quoted User_ID"

definition q_create :: "string \<Rightarrow> string \<Rightarrow> string" where
  "q_create User_ID User_Password =
     INSERTSTRING @ ''LOGIN (ID,PASSWORD) VALUES ('' @ quoted User_ID @ '', '' @ quoted User_Password @ '')''"

definition q_find_friend :: "string \<Rightarrow> string \<Rightarrow> string" where
  "q_find_friend User_ID Friend_ID =
     SELECTSTRING @ ''* FROM FRIEND WHERE USERID='' @ quoted User_ID @ '' AND FRIENDID ='' @ quoted Friend_ID"

definition q_add_friend :: "string \<Rightarrow> string \<Rightarrow> string \<Rightarrow> string" where
  "q_add_friend User_ID Friend_ID flag =
     INSERTSTRING @ ''FRIEND (USERID,FRIENDID,ACCEPTFLAG) VALUES ('' @ quoted User_ID @ '', ''
       @ quoted Friend_ID @ '', '' @ flag @ '')''"

definition q_remove_friend :: "string \<Rightarrow> string \<Rightarrow> string" where
  "q_remove_friend User_ID Friend_ID =
     DELETESTRING @ ''FRIEND WHERE USERID='' @ quoted User_ID @ '' AND FRIENDID ='' @ quoted Friend_ID"

definition q_accept_friend :: "string \<Rightarrow> string \<Rightarrow> string" where
  "q_accept_friend User_ID Friend_ID =
     UPDATESTRING @ ''FRIEND SET ACCEPTFLAG=1 WHERE USERID='' @ quoted User_ID @ '' AND FRIENDID ='' @ quoted Friend_ID"

definition q_remove_user :: "string \<Rightarrow> string" where
  "q_remove_user User_ID = DELETESTRING @ ''FRIEND WHERE USERID='' @ quoted User_ID"

definition q_remove_from_friends :: "string \<Rightarrow> string" where
  "q_remove_from_friends User_ID = DELETESTRING @ ''FRIEND WHERE FRIENDID='' @ quoted User_ID"

definition q_friends :: "string \<Rightarrow> string" where
  "q_friends User_ID = SELECTSTRING @ ''ACCEPTFLAG,FRIENDID FROM FRIEND WHERE USERID='' @ quoted User_ID"

definition q_delete_account :: "string \<Rightarrow> string" where
  "q_delete_account User_ID = DELETESTRING @ ''LOGIN WHERE ID='' @ quoted User_ID"

section \<open>Construction and connection\<close>

definition DHDBCore_ctor :: "'db mysql \<Rightarrow> 'db DHDBCore res" where
  "DHDBCore_ctor api =
     (case mysql_init api of
        None \<Rightarrow> Fault Null_Deref
      | Some db \<Rightarrow> Ok \<lparr>m_MYSQL = mysql_options api db, Is_Connect = False\<rparr>)"

definition ConnectDB ::
    "'db mysql \<Rightarrow> string \<Rightarrow> string \<Rightarrow> string \<Rightarrow> string \<Rightarrow> u32 \<Rightarrow> 'db DHDBCore \<Rightarrow> bool \<times> 'db DHDBCore" where
  "ConnectDB api Server_IP User_ID User_Password DB_Name Port d =
     (let (connected, db) = mysql_real_connect api Server_IP User_ID User_Password DB_Name Port (m_MYSQL d)
      in if \<not> connected then (False, d\<lparr>m_MYSQL := db\<rparr>)
         else let (_, db) = mysql_query api ''set names euckr'' db
              in (True, d\<lparr>m_MYSQL := db, Is_Connect := True\<rparr>))"

text \<open>A query whose result is ignored, and a query followed by \<open>mysql_store_result\<close>.\<close>

definition db_query :: "'db mysql \<Rightarrow> string \<Rightarrow> 'db DHDBCore \<Rightarrow> bool \<times> 'db DHDBCore" where
  "db_query api q d = (let (err, db) = mysql_query api q (m_MYSQL d) in (err, d\<lparr>m_MYSQL := db\<rparr>))"

definition db_store :: "'db mysql \<Rightarrow> 'db DHDBCore \<Rightarrow> mysql_res option \<times> 'db DHDBCore" where
  "db_store api d = (let (r, db) = mysql_store_result api (m_MYSQL d) in (r, d\<lparr>m_MYSQL := db\<rparr>))"

section \<open>Reading results\<close>

text \<open>\<open>std::string(Row_Data[i])\<close>: a \<open>NULL\<close> column is a null pointer.\<close>

definition field_string :: "string option \<Rightarrow> string res" where
  "field_string f = (case f of None \<Rightarrow> Fault Null_Deref | Some v \<Rightarrow> Ok v)"

text \<open>All columns of all rows, in order.\<close>

primrec row_data :: "string option list \<Rightarrow> string list res" where
  "row_data [] = Ok []"
| "row_data (f # fs) = bindE (field_string f) (\<lambda>v. bindE (row_data fs) (\<lambda>vs. Ok (v # vs)))"

primrec rows_data :: "nat \<Rightarrow> string option list list \<Rightarrow> string list res" where
  "rows_data n [] = Ok []"
| "rows_data n (r # rs) = bindE (row_data (take n r)) (\<lambda>v. bindE (rows_data n rs) (\<lambda>vs. Ok (v @ vs)))"

text \<open>Whether some column of some row is the value; the search stops at the first.\<close>

primrec row_has :: "string \<Rightarrow> string option list \<Rightarrow> bool res" where
  "row_has v [] = Ok False"
| "row_has v (f # fs) = bindE (field_string f) (\<lambda>w. if v = w then Ok True else row_has v fs)"

primrec rows_have :: "nat \<Rightarrow> string \<Rightarrow> string option list list \<Rightarrow> bool res" where
  "rows_have n v [] = Ok False"
| "rows_have n v (r # rs) = bindE (row_has v (take n r)) (\<lambda>b. if b then Ok True else rows_have n v rs)"

text \<open>
  \<open>std::stoi\<close>: white space, a sign, digits; anything may follow. It throws when there is no digit and
  when the number is not an \<open>int\<close>.
\<close>

definition is_digit :: "char \<Rightarrow> bool" where
  "is_digit c \<longleftrightarrow> 48 \<le> (of_char c :: nat) \<and> (of_char c :: nat) \<le> 57"

definition is_blank :: "char \<Rightarrow> bool" where
  "is_blank c \<longleftrightarrow> (of_char c :: nat) = 32 \<or> 9 \<le> (of_char c :: nat) \<and> (of_char c :: nat) \<le> 13"

definition digits_value :: "string \<Rightarrow> int" where
  "digits_value ds = foldl (\<lambda>a c. 10 * a + (int (of_char c) - 48)) 0 ds"

definition stoi :: "string \<Rightarrow> int res" where
  "stoi s =
     (let t = dropWhile is_blank s;
          (neg, u) = (case t of c # cs \<Rightarrow> if c = CHR ''-'' then (True, cs)
                                          else if c = CHR ''+'' then (False, cs) else (False, t)
                               | [] \<Rightarrow> (False, []));
          ds = takeWhile is_digit u;
          v = (if neg then - digits_value ds else digits_value ds)
      in if ds = [] \<or> v < - (2 ^ 31) \<or> 2 ^ 31 \<le> v then Fault Uncaught else Ok v)"

section \<open>The operations\<close>

text \<open>
  Each function does nothing when there is no connection, and those with a result then run off their
  end. \<open>FriendAccept\<close> is the exception: its last statement returns true.
\<close>

definition QueryDB ::
    "'db mysql \<Rightarrow> string \<Rightarrow> nat \<Rightarrow> string list \<Rightarrow> 'db DHDBCore \<Rightarrow> (bool \<times> nat \<times> string list \<times> 'db DHDBCore) res" where
  "QueryDB api Query Fields_Count Query_Data d =
     (if \<not> Is_Connect d then Fault No_Return
      else
        let (err, d) = db_query api Query d
        in if err then Ok (False, Fields_Count, Query_Data, d)
           else let (r, d) = db_store api d
                in case r of
                     None \<Rightarrow> Ok (False, Fields_Count, Query_Data, d)
                   | Some res \<Rightarrow> bindE (rows_data (num_fields res) (res_rows res))
                       (\<lambda>vs. Ok (True, num_fields res, Query_Data @ vs, d)))"

definition SearchID :: "'db mysql \<Rightarrow> string \<Rightarrow> 'db DHDBCore \<Rightarrow> (bool \<times> 'db DHDBCore) res" where
  "SearchID api User_ID d =
     (if \<not> Is_Connect d then Fault No_Return
      else
        let (_, d) = db_query api q_ids d;
            (r, d) = db_store api d
        in case r of
             None \<Rightarrow> Ok (False, d)
           | Some res \<Rightarrow> bindE (rows_have (num_fields res) User_ID (res_rows res)) (\<lambda>b. Ok (b, d)))"

definition ComparePassword ::
    "'db mysql \<Rightarrow> string \<Rightarrow> string \<Rightarrow> 'db DHDBCore \<Rightarrow> (bool \<times> 'db DHDBCore) res" where
  "ComparePassword api User_ID User_Password d =
     (if \<not> Is_Connect d then Fault No_Return
      else
        let (_, d) = db_query api (q_password User_ID) d;
            (r, d) = db_store api d
        in case r of
             None \<Rightarrow> Ok (False, d)
           | Some res \<Rightarrow> bindE (rows_have (num_fields res) User_Password (res_rows res)) (\<lambda>b. Ok (b, d)))"

definition CreateNewAccount ::
    "'db mysql \<Rightarrow> string \<Rightarrow> string \<Rightarrow> 'db DHDBCore \<Rightarrow> (bool \<times> 'db DHDBCore) res" where
  "CreateNewAccount api User_ID User_Password d =
     (if \<not> Is_Connect d then Fault No_Return
      else let (err, d) = db_query api (q_create User_ID User_Password) d in Ok (\<not> err, d))"

definition FriendRequest ::
    "'db mysql \<Rightarrow> string \<Rightarrow> string \<Rightarrow> 'db DHDBCore \<Rightarrow> (bool \<times> 'db DHDBCore) res" where
  "FriendRequest api User_ID Friend_ID d =
     (if \<not> Is_Connect d then Fault No_Return
      else
        let (_, d) = db_query api (q_find_friend User_ID Friend_ID) d;
            (r, d) = db_store api d
        in case r of
             None \<Rightarrow> Fault Null_Deref
           | Some res \<Rightarrow>
               if res_rows res \<noteq> [] then Ok (True, d)
               else
                 let (err, d) = db_query api (q_add_friend User_ID Friend_ID ''2'') d
                 in if err then Ok (False, d)
                    else
                      let (err, d) = db_query api (q_add_friend Friend_ID User_ID ''3'') d
                      in if err
                         then let (_, d) = db_query api (q_remove_friend User_ID Friend_ID) d in Ok (False, d)
                         else Ok (True, d))"

definition FriendAccept ::
    "'db mysql \<Rightarrow> string \<Rightarrow> string \<Rightarrow> bool \<Rightarrow> 'db DHDBCore \<Rightarrow> (bool \<times> 'db DHDBCore) res" where
  "FriendAccept api User_ID Friend_ID Is_Accept d =
     (if \<not> Is_Connect d then Ok (True, d)
      else if Is_Accept
      then
        let (_, d) = db_query api (q_find_friend User_ID Friend_ID) d;
            (r, d) = db_store api d
        in case r of
             None \<Rightarrow> Fault Null_Deref
           | Some res \<Rightarrow>
               if res_rows res = [] then Ok (False, d)
               else
                 let (err, d) = db_query api (q_accept_friend User_ID Friend_ID) d
                 in if err then Ok (False, d)
                    else
                      let (err, d) = db_query api (q_accept_friend Friend_ID User_ID) d
                      in if err
                         then let (_, d) = db_query api (q_remove_friend User_ID Friend_ID) d in Ok (False, d)
                         else Ok (True, d)
      else
        let (_, d) = db_query api (q_remove_user User_ID) d;
            (_, d) = db_query api (q_remove_from_friends User_ID) d
        in Ok (True, d))"

text \<open>The rows \<open>(ACCEPTFLAG, FRIENDID)\<close> sorted into friends and requests, by the first character.\<close>

primrec friend_rows ::
    "string option list list \<Rightarrow> string set \<Rightarrow> string set \<Rightarrow> (string set \<times> string set) res" where
  "friend_rows [] Friend_List Request_List = Ok (Friend_List, Request_List)"
| "friend_rows (r # rs) Friend_List Request_List =
     (case r of
        f # g # _ \<Rightarrow>
          bindE (field_string g) (\<lambda>name.
          bindE (field_string f) (\<lambda>flag.
            let c = (case flag of [] \<Rightarrow> CHR 0x00 | c # _ \<Rightarrow> c)
            in if c = CHR ''3'' then friend_rows rs Friend_List (insert name Request_List)
               else if c = CHR ''1'' then friend_rows rs (insert name Friend_List) Request_List
               else friend_rows rs Friend_List Request_List))
      | _ \<Rightarrow> Fault Over_Read)"

definition GetFriendList ::
    "'db mysql \<Rightarrow> string \<Rightarrow> string set \<Rightarrow> string set \<Rightarrow> 'db DHDBCore \<Rightarrow>
       (bool \<times> string set \<times> string set \<times> 'db DHDBCore) res" where
  "GetFriendList api User_ID Friend_List Request_List d =
     (if \<not> Is_Connect d then Fault No_Return
      else
        let (_, d) = db_query api (q_friends User_ID) d;
            (r, d) = db_store api d
        in case r of
             None \<Rightarrow> Ok (False, Friend_List, Request_List, d)
           | Some res \<Rightarrow> bindE (friend_rows (res_rows res) Friend_List Request_List)
               (\<lambda>(fl, rl). Ok (True, fl, rl, d)))"

text \<open>The first column of the first row that has one.\<close>

fun first_field :: "nat \<Rightarrow> string option list list \<Rightarrow> string option option" where
  "first_field n [] = None"
| "first_field n (r # rs) = (case take n r of [] \<Rightarrow> first_field n rs | f # _ \<Rightarrow> Some f)"

definition GetIdentifier :: "'db mysql \<Rightarrow> string \<Rightarrow> 'db DHDBCore \<Rightarrow> (u32 \<times> 'db DHDBCore) res" where
  "GetIdentifier api User_ID d =
     (if \<not> Is_Connect d then Fault No_Return
      else
        let (_, d) = db_query api (q_identifier User_ID) d;
            (r, d) = db_store api d
        in case r of
             None \<Rightarrow> Ok (0, d)
           | Some res \<Rightarrow>
               (case first_field (num_fields res) (res_rows res) of
                  None \<Rightarrow> Ok (0, d)
                | Some f \<Rightarrow> bindE (field_string f) (\<lambda>v. bindE (stoi v) (\<lambda>i. Ok (word_of_int i, d)))))"

definition DeleteAccount :: "'db mysql \<Rightarrow> string \<Rightarrow> 'db DHDBCore \<Rightarrow> 'db DHDBCore" where
  "DeleteAccount api User_ID d =
     (if \<not> Is_Connect d then d
      else
        let (_, d) = db_query api (q_delete_account User_ID) d;
            (_, d) = db_query api (q_remove_user User_ID) d;
            (_, d) = db_query api (q_remove_from_friends User_ID) d
        in d)"

end
