(* ===== verification/DH_DBSpec.thy ===== *)
theory DH_DBSpec
  imports DH_DB
begin

text \<open>
  What the account and friend operations of \<open>DHDBCore\<close> do to the two tables, for a database server that
  behaves as SQL says on the statements they send. The abstract state is the pair of tables; the
  friendship table is consistent when requests and friendships are recorded on both sides.
\<close>

section \<open>The tables and the server\<close>

record db_tables =
  LOGIN :: "(string \<times> string \<times> string) list"    \<comment> \<open>ID, PASSWORD, IDENTIFIER\<close>
  FRIEND :: "(string \<times> string \<times> string) list"   \<comment> \<open>USERID, FRIENDID, ACCEPTFLAG\<close>

text \<open>An argument that ends a literal neither with a quote nor with a backslash of its own.\<close>

definition plain :: "string \<Rightarrow> bool" where
  "plain v \<longleftrightarrow> sq \<notin> set v \<and> CHR 0x5C \<notin> set v"

definition selects ::
    "'db mysql \<Rightarrow> ('db \<Rightarrow> db_tables) \<Rightarrow> string \<Rightarrow> nat \<Rightarrow> (db_tables \<Rightarrow> string option list list) \<Rightarrow> bool" where
  "selects api tab q n f \<longleftrightarrow> (\<forall>db. \<exists>db1 db2. mysql_query api q db = (False, db1)
     \<and> mysql_store_result api db1 = (Some \<lparr>num_fields = n, res_rows = f (tab db)\<rparr>, db2)
     \<and> tab db2 = tab db)"

text \<open>A statement that changes the tables may fail, and then changes nothing.\<close>

definition changes :: "'db mysql \<Rightarrow> ('db \<Rightarrow> db_tables) \<Rightarrow> string \<Rightarrow> (db_tables \<Rightarrow> db_tables) \<Rightarrow> bool" where
  "changes api tab q f \<longleftrightarrow> (\<forall>db. \<exists>err db1. mysql_query api q db = (err, db1)
     \<and> tab db1 = (if err then tab db else f (tab db)))"

definition deletes :: "'db mysql \<Rightarrow> ('db \<Rightarrow> db_tables) \<Rightarrow> string \<Rightarrow> (db_tables \<Rightarrow> db_tables) \<Rightarrow> bool" where
  "deletes api tab q f \<longleftrightarrow> (\<forall>db. \<exists>db1. mysql_query api q db = (False, db1) \<and> tab db1 = f (tab db))"

definition set_flag :: "string \<Rightarrow> string \<Rightarrow> (string \<times> string \<times> string) list \<Rightarrow> (string \<times> string \<times> string) list" where
  "set_flag u v rows = map (\<lambda>(a, b, f). (a, b, if a = u \<and> b = v then ''1'' else f)) rows"

definition add_login :: "string \<Rightarrow> string \<Rightarrow> string \<Rightarrow> db_tables \<Rightarrow> db_tables" where
  "add_login u p i t = t\<lparr>LOGIN := LOGIN t @ [(u, p, i)]\<rparr>"

definition add_friend :: "string \<Rightarrow> string \<Rightarrow> string \<Rightarrow> db_tables \<Rightarrow> db_tables" where
  "add_friend u v f t = t\<lparr>FRIEND := FRIEND t @ [(u, v, f)]\<rparr>"

definition drop_friend :: "(string \<Rightarrow> string \<Rightarrow> bool) \<Rightarrow> db_tables \<Rightarrow> db_tables" where
  "drop_friend P t = t\<lparr>FRIEND := filter (\<lambda>(a, b, f). \<not> P a b) (FRIEND t)\<rparr>"

definition drop_login :: "string \<Rightarrow> db_tables \<Rightarrow> db_tables" where
  "drop_login u t = t\<lparr>LOGIN := filter (\<lambda>(i, p, k). i \<noteq> u) (LOGIN t)\<rparr>"

definition sql_login :: "'db mysql \<Rightarrow> ('db \<Rightarrow> db_tables) \<Rightarrow> bool" where
  "sql_login api tab \<longleftrightarrow> selects api tab q_ids 1 (\<lambda>t. map (\<lambda>(i, p, k). [Some i]) (LOGIN t))
     \<and> (\<forall>u. plain u \<longrightarrow>
          selects api tab (q_password u) 1
            (\<lambda>t. map (\<lambda>(i, p, k). [Some p]) (filter (\<lambda>(i, p, k). i = u) (LOGIN t)))
        \<and> selects api tab (q_identifier u) 1
            (\<lambda>t. map (\<lambda>(i, p, k). [Some k]) (filter (\<lambda>(i, p, k). i = u) (LOGIN t)))
        \<and> deletes api tab (q_delete_account u) (drop_login u)
        \<and> (\<forall>p. plain p \<longrightarrow> (\<exists>k. changes api tab (q_create u p) (\<lambda>t. add_login u p (k t) t))))"

definition sql_friend :: "'db mysql \<Rightarrow> ('db \<Rightarrow> db_tables) \<Rightarrow> bool" where
  "sql_friend api tab \<longleftrightarrow> (\<forall>u. plain u \<longrightarrow>
          selects api tab (q_friends u) 2
            (\<lambda>t. map (\<lambda>(a, b, f). [Some f, Some b]) (filter (\<lambda>(a, b, f). a = u) (FRIEND t)))
        \<and> deletes api tab (q_remove_user u) (drop_friend (\<lambda>a b. a = u))
        \<and> deletes api tab (q_remove_from_friends u) (drop_friend (\<lambda>a b. b = u))
        \<and> (\<forall>v. plain v \<longrightarrow>
             selects api tab (q_find_friend u v) 3
               (\<lambda>t. map (\<lambda>(a, b, f). [Some a, Some b, Some f])
                      (filter (\<lambda>(a, b, f). a = u \<and> b = v) (FRIEND t)))
           \<and> deletes api tab (q_remove_friend u v) (drop_friend (\<lambda>a b. a = u \<and> b = v))
           \<and> changes api tab (q_accept_friend u v) (\<lambda>t. t\<lparr>FRIEND := set_flag u v (FRIEND t)\<rparr>)
           \<and> changes api tab (q_add_friend u v ''2'') (add_friend u v ''2'')
           \<and> changes api tab (q_add_friend u v ''3'') (add_friend u v ''3'')))"

definition sql_behaves :: "'db mysql \<Rightarrow> ('db \<Rightarrow> db_tables) \<Rightarrow> bool" where
  "sql_behaves api tab \<longleftrightarrow> sql_login api tab \<and> sql_friend api tab"

section \<open>Running a statement\<close>

text \<open>The tables a core object works on.\<close>

definition tables :: "('db \<Rightarrow> db_tables) \<Rightarrow> 'db DHDBCore \<Rightarrow> db_tables" where
  "tables tab d = tab (m_MYSQL d)"

lemma db_selectE:
  assumes "selects api tab q n f"
  obtains d1 d2 where "db_query api q d = (False, d1)"
    and "db_store api d1 = (Some \<lparr>num_fields = n, res_rows = f (tables tab d)\<rparr>, d2)"
    and "tables tab d2 = tables tab d" and "Is_Connect d2 = Is_Connect d"
proof -
  obtain db1 db2 where "mysql_query api q (m_MYSQL d) = (False, db1)"
    "mysql_store_result api db1 = (Some \<lparr>num_fields = n, res_rows = f (tab (m_MYSQL d))\<rparr>, db2)"
    "tab db2 = tab (m_MYSQL d)"
    using assms unfolding selects_def by blast
  then show ?thesis
    by (intro that [of "d\<lparr>m_MYSQL := db1\<rparr>" "d\<lparr>m_MYSQL := db2\<rparr>"])
      (simp_all add: db_query_def db_store_def tables_def)
qed

lemma db_changeE:
  assumes "changes api tab q f"
  obtains err d1 where "db_query api q d = (err, d1)"
    and "tables tab d1 = (if err then tables tab d else f (tables tab d))" and "Is_Connect d1 = Is_Connect d"
proof -
  obtain err db1 where "mysql_query api q (m_MYSQL d) = (err, db1)"
    "tab db1 = (if err then tab (m_MYSQL d) else f (tab (m_MYSQL d)))"
    using assms unfolding changes_def by blast
  then show ?thesis
    by (intro that [of err "d\<lparr>m_MYSQL := db1\<rparr>"]) (simp_all add: db_query_def tables_def)
qed

lemma db_deleteE:
  assumes "deletes api tab q f"
  obtains d1 where "db_query api q d = (False, d1)" and "tables tab d1 = f (tables tab d)"
    and "Is_Connect d1 = Is_Connect d"
proof -
  obtain db1 where "mysql_query api q (m_MYSQL d) = (False, db1)" "tab db1 = f (tab (m_MYSQL d))"
    using assms unfolding deletes_def by blast
  then show ?thesis
    by (intro that [of "d\<lparr>m_MYSQL := db1\<rparr>"]) (simp_all add: db_query_def tables_def)
qed

section \<open>Accounts\<close>

lemma rows_have_ids: "rows_have (Suc 0) v (map (\<lambda>(i, p, k). [Some i]) xs) = Ok (v \<in> fst ` set xs)"
  by (induction xs) (auto simp: field_string_def)

lemma rows_have_passwords:
  "rows_have (Suc 0) v (map (\<lambda>(i, p, k). [Some p]) xs) = Ok (\<exists>i k. (i, v, k) \<in> set xs)"
  by (induction xs) (auto simp: field_string_def, blast)

lemma SearchID_correct:
  assumes sql: "sql_behaves api tab" and on: "Is_Connect d"
  shows "\<exists>d'. SearchID api u d = Ok (u \<in> fst ` set (LOGIN (tables tab d)), d')
    \<and> tables tab d' = tables tab d \<and> Is_Connect d'"
proof -
  have "selects api tab q_ids 1 (\<lambda>t. map (\<lambda>(i, p, k). [Some i]) (LOGIN t))"
    using sql by (simp add: sql_behaves_def sql_login_def)
  then obtain d1 d2 where "db_query api q_ids d = (False, d1)"
    "db_store api d1 = (Some \<lparr>num_fields = 1, res_rows = map (\<lambda>(i, p, k). [Some i]) (LOGIN (tables tab d))\<rparr>, d2)"
    "tables tab d2 = tables tab d" "Is_Connect d2 = Is_Connect d"
    by (rule db_selectE)
  then show ?thesis
    using on by (simp add: SearchID_def rows_have_ids)
qed

lemma ComparePassword_correct:
  assumes sql: "sql_behaves api tab" and on: "Is_Connect d" and u: "plain u"
  shows "\<exists>d'. ComparePassword api u p d = Ok (\<exists>k. (u, p, k) \<in> set (LOGIN (tables tab d)), d')
    \<and> tables tab d' = tables tab d \<and> Is_Connect d'"
proof -
  have "selects api tab (q_password u) 1
      (\<lambda>t. map (\<lambda>(i, p, k). [Some p]) (filter (\<lambda>(i, p, k). i = u) (LOGIN t)))"
    using sql u by (simp add: sql_behaves_def sql_login_def)
  then obtain d1 d2 where d: "db_query api (q_password u) d = (False, d1)"
    "db_store api d1 = (Some \<lparr>num_fields = 1, res_rows = map (\<lambda>(i, p, k). [Some p])
       (filter (\<lambda>(i, p, k). i = u) (LOGIN (tables tab d)))\<rparr>, d2)"
    "tables tab d2 = tables tab d" "Is_Connect d2 = Is_Connect d"
    by (rule db_selectE)
  have "(\<exists>i k. (i, p, k) \<in> set (filter (\<lambda>(i, p, k). i = u) (LOGIN (tables tab d))))
      \<longleftrightarrow> (\<exists>k. (u, p, k) \<in> set (LOGIN (tables tab d)))"
    by auto
  with d on show ?thesis
    by (simp add: ComparePassword_def rows_have_passwords)
qed

text \<open>
  A new account can be found and logged into; a failed creation leaves the tables alone.
\<close>

lemma CreateNewAccount_correct:
  assumes sql: "sql_behaves api tab" and on: "Is_Connect d" and plain: "plain u" "plain p"
  shows "\<exists>r d' k. CreateNewAccount api u p d = Ok (r, d') \<and> Is_Connect d'
    \<and> tables tab d' = (if r then add_login u p k (tables tab d) else tables tab d)"
proof -
  obtain k where "changes api tab (q_create u p) (\<lambda>t. add_login u p (k t) t)"
    using sql plain by (auto simp: sql_behaves_def sql_login_def)
  then obtain err d1 where d: "db_query api (q_create u p) d = (err, d1)"
    "tables tab d1 = (if err then tables tab d else add_login u p (k (tables tab d)) (tables tab d))"
    "Is_Connect d1 = Is_Connect d"
    by (rule db_changeE)
  then show ?thesis
    using on by (intro exI [of _ "\<not> err"] exI [of _ d1] exI [of _ "k (tables tab d)"])
      (simp add: CreateNewAccount_def)
qed

lemma account_round_trip:
  assumes sql: "sql_behaves api tab" and on: "Is_Connect d" and plain: "plain u" "plain p"
    and made: "CreateNewAccount api u p d = Ok (True, d1)"
  shows "\<exists>d2 d3. SearchID api u d1 = Ok (True, d2) \<and> ComparePassword api u p d2 = Ok (True, d3)"
proof -
  from CreateNewAccount_correct [OF sql on plain] made obtain k where
    d1: "Is_Connect d1" "tables tab d1 = add_login u p k (tables tab d)"
    by auto
  then have row: "(u, p, k) \<in> set (LOGIN (tables tab d1))"
    by (simp add: add_login_def)
  from SearchID_correct [OF sql d1(1), of u] obtain d2 where
    d2: "SearchID api u d1 = Ok (u \<in> fst ` set (LOGIN (tables tab d1)), d2)" "tables tab d2 = tables tab d1"
      "Is_Connect d2"
    by blast
  from ComparePassword_correct [OF sql d2(3) plain(1), of p] obtain d3 where
    d3: "ComparePassword api u p d2 = Ok (\<exists>k. (u, p, k) \<in> set (LOGIN (tables tab d2)), d3)"
    by blast
  have "u \<in> fst ` set (LOGIN (tables tab d1))" "\<exists>k. (u, p, k) \<in> set (LOGIN (tables tab d2))"
    using row d2(2) by force+
  with d2(1) d3 show ?thesis
    by simp
qed

section \<open>Friends\<close>

text \<open>
  The consistent friendship table: one row for each ordered pair, nobody with himself, a friendship on
  both sides, and a request (flag 2) on one side for a received request (flag 3) on the other.
\<close>

definition friends_ok :: "db_tables \<Rightarrow> bool" where
  "friends_ok t \<longleftrightarrow> distinct (map (\<lambda>(a, b, f). (a, b)) (FRIEND t))
     \<and> (\<forall>(a, b, f) \<in> set (FRIEND t). a \<noteq> b \<and> f \<in> {''1'', ''2'', ''3''})
     \<and> (\<forall>a b. (a, b, ''1'') \<in> set (FRIEND t) \<longrightarrow> (b, a, ''1'') \<in> set (FRIEND t))
     \<and> (\<forall>a b. (a, b, ''2'') \<in> set (FRIEND t) \<longleftrightarrow> (b, a, ''3'') \<in> set (FRIEND t))"

definition knows :: "string \<Rightarrow> string \<Rightarrow> db_tables \<Rightarrow> bool" where
  "knows u v t \<longleftrightarrow> (\<exists>f. (u, v, f) \<in> set (FRIEND t))"

lemma friends_ok_mutual:
  assumes "friends_ok t" and "knows u v t"
  shows "knows v u t" and "u \<noteq> v"
proof -
  obtain f where f: "(u, v, f) \<in> set (FRIEND t)"
    using assms(2) by (auto simp: knows_def)
  with assms(1) show "u \<noteq> v"
    by (auto simp: friends_ok_def)
  from f assms(1) have "f = ''1'' \<or> f = ''2'' \<or> f = ''3''"
    by (auto simp: friends_ok_def)
  with f assms(1) show "knows v u t"
    unfolding friends_ok_def knows_def by blast
qed

text \<open>
  A request adds the two rows or nothing: when the second insertion fails the first row is taken back.
\<close>

lemma FriendRequest_correct:
  assumes sql: "sql_behaves api tab" and on: "Is_Connect d" and plain: "plain u" "plain v"
  shows "\<exists>r d'. FriendRequest api u v d = Ok (r, d') \<and> Is_Connect d'
    \<and> (knows u v (tables tab d) \<longrightarrow> r \<and> tables tab d' = tables tab d)
    \<and> (\<not> knows u v (tables tab d) \<longrightarrow> tables tab d' =
         (if r then add_friend v u ''3'' (add_friend u v ''2'' (tables tab d)) else tables tab d))"
proof -
  let ?t = "tables tab d"
  have laws: "selects api tab (q_find_friend u v) 3 (\<lambda>t. map (\<lambda>(a, b, f). [Some a, Some b, Some f])
                      (filter (\<lambda>(a, b, f). a = u \<and> b = v) (FRIEND t)))"
    "changes api tab (q_add_friend u v ''2'') (add_friend u v ''2'')"
    "changes api tab (q_add_friend v u ''3'') (add_friend v u ''3'')"
    "deletes api tab (q_remove_friend u v) (drop_friend (\<lambda>a b. a = u \<and> b = v))"
    using sql plain by (simp_all add: sql_behaves_def sql_friend_def)
  obtain d1 d2 where find: "db_query api (q_find_friend u v) d = (False, d1)"
    "db_store api d1 = (Some \<lparr>num_fields = 3, res_rows = map (\<lambda>(a, b, f). [Some a, Some b, Some f])
                      (filter (\<lambda>(a, b, f). a = u \<and> b = v) (FRIEND ?t))\<rparr>, d2)"
    "tables tab d2 = ?t" "Is_Connect d2 = Is_Connect d"
    using laws(1) by (rule db_selectE)
  have empty: "filter (\<lambda>(a, b, f). a = u \<and> b = v) (FRIEND ?t) = [] \<longleftrightarrow> \<not> knows u v ?t"
    by (auto simp: filter_empty_conv knows_def)
  show ?thesis
  proof (cases "knows u v ?t")
    case True
    with find on empty show ?thesis
      by (simp add: FriendRequest_def ex_bool_eq)
  next
    case False
    obtain e3 d3 where add1: "db_query api (q_add_friend u v ''2'') d2 = (e3, d3)"
      "tables tab d3 = (if e3 then tables tab d2 else add_friend u v ''2'' (tables tab d2))"
      "Is_Connect d3 = Is_Connect d2"
      using laws(2) by (rule db_changeE)
    obtain e4 d4 where add2: "db_query api (q_add_friend v u ''3'') d3 = (e4, d4)"
      "tables tab d4 = (if e4 then tables tab d3 else add_friend v u ''3'' (tables tab d3))"
      "Is_Connect d4 = Is_Connect d3"
      using laws(3) by (rule db_changeE)
    obtain d5 where del: "db_query api (q_remove_friend u v) d4 = (False, d5)"
      "tables tab d5 = drop_friend (\<lambda>a b. a = u \<and> b = v) (tables tab d4)" "Is_Connect d5 = Is_Connect d4"
      using laws(4) by (rule db_deleteE)
    have "filter (\<lambda>(a, b, f). \<not> (a = u \<and> b = v)) (FRIEND ?t) = FRIEND ?t"
      using False by (auto simp: filter_id_conv knows_def)
    then have "drop_friend (\<lambda>a b. a = u \<and> b = v) (add_friend u v ''2'' ?t) = ?t"
      by (simp add: drop_friend_def add_friend_def)
    then show ?thesis
      using False find on empty add1 add2 del
      by (cases e3; cases e4) (simp_all add: FriendRequest_def ex_bool_eq)
  qed
qed

lemma FriendRequest_keeps_ok:
  assumes sql: "sql_behaves api tab" and on: "Is_Connect d" and plain: "plain u" "plain v" and ne: "u \<noteq> v"
    and ok: "friends_ok (tables tab d)" and run: "FriendRequest api u v d = Ok (r, d')"
  shows "friends_ok (tables tab d')"
proof -
  let ?t = "tables tab d"
  from FriendRequest_correct [OF sql on plain] run have t': "tables tab d' =
      (if r \<and> \<not> knows u v ?t then add_friend v u ''3'' (add_friend u v ''2'' ?t) else ?t)"
    by (auto split: if_splits)
  show ?thesis
  proof (cases "r \<and> \<not> knows u v ?t")
    case True
    have new: "(u, v, f) \<notin> set (FRIEND ?t)" "(v, u, f) \<notin> set (FRIEND ?t)" for f
    proof -
      show "(u, v, f) \<notin> set (FRIEND ?t)"
        using True by (simp add: knows_def)
      show "(v, u, f) \<notin> set (FRIEND ?t)"
        using True friends_ok_mutual(1) [OF ok, of v u] by (auto simp: knows_def)
    qed
    have mem: "(a, b, f) \<in> set (FRIEND (tables tab d')) \<longleftrightarrow> (a, b, f) \<in> set (FRIEND ?t)
        \<or> a = u \<and> b = v \<and> f = ''2'' \<or> a = v \<and> b = u \<and> f = ''3''" for a b f
      using True by (auto simp: t' add_friend_def)
    show ?thesis
      unfolding friends_ok_def
    proof (intro conjI allI ballI)
      show "distinct (map (\<lambda>(a, b, f). (a, b)) (FRIEND (tables tab d')))"
        using ok True ne new by (auto simp: t' friends_ok_def add_friend_def)
      show "case r of (a, b, f) \<Rightarrow> a \<noteq> b \<and> f \<in> {''1'', ''2'', ''3''}"
        if "r \<in> set (FRIEND (tables tab d'))" for r
      proof -
        obtain a b f where r: "r = (a, b, f)"
          by (cases r)
        have "a \<noteq> b \<and> f \<in> {''1'', ''2'', ''3''}" if "(a, b, f) \<in> set (FRIEND ?t)"
          using that ok by (auto simp: friends_ok_def)
        with that ne show ?thesis
          unfolding r mem by blast
      qed
      show "(a, b, ''1'') \<in> set (FRIEND (tables tab d')) \<longrightarrow> (b, a, ''1'') \<in> set (FRIEND (tables tab d'))" for a b
        using ok by (simp add: mem friends_ok_def)
      show "((a, b, ''2'') \<in> set (FRIEND (tables tab d'))) = ((b, a, ''3'') \<in> set (FRIEND (tables tab d')))" for a b
        using ok by (auto simp: mem friends_ok_def)
    qed
  qed (use t' ok in auto)
qed

text \<open>Accepting a request makes the two friends of each other.\<close>

lemma FriendAccept_correct:
  assumes sql: "sql_behaves api tab" and on: "Is_Connect d" and plain: "plain u" "plain v"
  shows "\<exists>r d'. FriendAccept api u v True d = Ok (r, d') \<and> Is_Connect d'
    \<and> (\<not> knows u v (tables tab d) \<longrightarrow> \<not> r \<and> tables tab d' = tables tab d)
    \<and> (r \<longrightarrow> tables tab d' = (tables tab d)\<lparr>FRIEND := set_flag v u (set_flag u v (FRIEND (tables tab d)))\<rparr>)"
proof -
  let ?t = "tables tab d"
  have laws: "selects api tab (q_find_friend u v) 3 (\<lambda>t. map (\<lambda>(a, b, f). [Some a, Some b, Some f])
                      (filter (\<lambda>(a, b, f). a = u \<and> b = v) (FRIEND t)))"
    "changes api tab (q_accept_friend u v) (\<lambda>t. t\<lparr>FRIEND := set_flag u v (FRIEND t)\<rparr>)"
    "changes api tab (q_accept_friend v u) (\<lambda>t. t\<lparr>FRIEND := set_flag v u (FRIEND t)\<rparr>)"
    "deletes api tab (q_remove_friend u v) (drop_friend (\<lambda>a b. a = u \<and> b = v))"
    using sql plain by (simp_all add: sql_behaves_def sql_friend_def)
  obtain d1 d2 where find: "db_query api (q_find_friend u v) d = (False, d1)"
    "db_store api d1 = (Some \<lparr>num_fields = 3, res_rows = map (\<lambda>(a, b, f). [Some a, Some b, Some f])
                      (filter (\<lambda>(a, b, f). a = u \<and> b = v) (FRIEND ?t))\<rparr>, d2)"
    "tables tab d2 = ?t" "Is_Connect d2 = Is_Connect d"
    using laws(1) by (rule db_selectE)
  obtain e3 d3 where set1: "db_query api (q_accept_friend u v) d2 = (e3, d3)"
    "tables tab d3 = (if e3 then tables tab d2 else (tables tab d2)\<lparr>FRIEND := set_flag u v (FRIEND (tables tab d2))\<rparr>)"
    "Is_Connect d3 = Is_Connect d2"
    using laws(2) by (rule db_changeE)
  obtain e4 d4 where set2: "db_query api (q_accept_friend v u) d3 = (e4, d4)"
    "tables tab d4 = (if e4 then tables tab d3 else (tables tab d3)\<lparr>FRIEND := set_flag v u (FRIEND (tables tab d3))\<rparr>)"
    "Is_Connect d4 = Is_Connect d3"
    using laws(3) by (rule db_changeE)
  obtain d5 where del: "db_query api (q_remove_friend u v) d4 = (False, d5)"
    "tables tab d5 = drop_friend (\<lambda>a b. a = u \<and> b = v) (tables tab d4)" "Is_Connect d5 = Is_Connect d4"
    using laws(4) by (rule db_deleteE)
  have empty: "filter (\<lambda>(a, b, f). a = u \<and> b = v) (FRIEND ?t) = [] \<longleftrightarrow> \<not> knows u v ?t"
    by (auto simp: filter_empty_conv knows_def)
  show ?thesis
    using find on empty set1 set2 del
    by (cases "knows u v ?t"; cases e3; cases e4) (simp_all add: FriendAccept_def ex_bool_eq)
qed

text \<open>
  When the second update of an acceptance fails, the row of the first is deleted: it was there before
  the call, so that one side of the request is lost.
\<close>

lemma FriendAccept_half_lost:
  assumes sql: "sql_behaves api tab" and on: "Is_Connect d" and plain: "plain u" "plain v" and ne: "u \<noteq> v"
    and known: "knows u v (tables tab d)"
    and first: "\<And>db. fst (mysql_query api (q_accept_friend u v) db) = False"
    and second: "\<And>db. fst (mysql_query api (q_accept_friend v u) db) = True"
  shows "\<exists>d'. FriendAccept api u v True d = Ok (False, d') \<and> \<not> knows u v (tables tab d')
    \<and> (knows v u (tables tab d') \<longleftrightarrow> knows v u (tables tab d))"
proof -
  let ?t = "tables tab d"
  have laws: "selects api tab (q_find_friend u v) 3 (\<lambda>t. map (\<lambda>(a, b, f). [Some a, Some b, Some f])
                      (filter (\<lambda>(a, b, f). a = u \<and> b = v) (FRIEND t)))"
    "changes api tab (q_accept_friend u v) (\<lambda>t. t\<lparr>FRIEND := set_flag u v (FRIEND t)\<rparr>)"
    "changes api tab (q_accept_friend v u) (\<lambda>t. t\<lparr>FRIEND := set_flag v u (FRIEND t)\<rparr>)"
    "deletes api tab (q_remove_friend u v) (drop_friend (\<lambda>a b. a = u \<and> b = v))"
    using sql plain by (simp_all add: sql_behaves_def sql_friend_def)
  obtain d1 d2 where find: "db_query api (q_find_friend u v) d = (False, d1)"
    "db_store api d1 = (Some \<lparr>num_fields = 3, res_rows = map (\<lambda>(a, b, f). [Some a, Some b, Some f])
                      (filter (\<lambda>(a, b, f). a = u \<and> b = v) (FRIEND ?t))\<rparr>, d2)"
    "tables tab d2 = ?t" "Is_Connect d2 = Is_Connect d"
    using laws(1) by (rule db_selectE)
  obtain e3 d3 where set1: "db_query api (q_accept_friend u v) d2 = (e3, d3)"
    "tables tab d3 = (if e3 then tables tab d2 else (tables tab d2)\<lparr>FRIEND := set_flag u v (FRIEND (tables tab d2))\<rparr>)"
    "Is_Connect d3 = Is_Connect d2"
    using laws(2) by (rule db_changeE)
  obtain e4 d4 where set2: "db_query api (q_accept_friend v u) d3 = (e4, d4)"
    "tables tab d4 = (if e4 then tables tab d3 else (tables tab d3)\<lparr>FRIEND := set_flag v u (FRIEND (tables tab d3))\<rparr>)"
    "Is_Connect d4 = Is_Connect d3"
    using laws(3) by (rule db_changeE)
  obtain d5 where del: "db_query api (q_remove_friend u v) d4 = (False, d5)"
    "tables tab d5 = drop_friend (\<lambda>a b. a = u \<and> b = v) (tables tab d4)" "Is_Connect d5 = Is_Connect d4"
    using laws(4) by (rule db_deleteE)
  have "\<not> e3" "e4"
    using first [of "m_MYSQL d2"] second [of "m_MYSQL d3"] set1(1) set2(1)
    by (simp_all add: db_query_def case_prod_beta)
  moreover have "filter (\<lambda>(a, b, f). a = u \<and> b = v) (FRIEND ?t) \<noteq> []"
    using known by (auto simp: filter_empty_conv knows_def)
  ultimately have run: "FriendAccept api u v True d = Ok (False, d5)"
      "tables tab d5 = drop_friend (\<lambda>a b. a = u \<and> b = v) (?t\<lparr>FRIEND := set_flag u v (FRIEND ?t)\<rparr>)"
    using find on set1 set2 del by (simp_all add: FriendAccept_def)
  have "\<not> knows u v (tables tab d5)" "knows v u (tables tab d5) \<longleftrightarrow> knows v u ?t"
    using ne unfolding run(2) knows_def drop_friend_def set_flag_def by (force split: if_splits)+
  with run(1) show ?thesis by blast
qed

text \<open>Declining one request removes the user from the whole table.\<close>

lemma FriendDecline_correct:
  assumes sql: "sql_behaves api tab" and on: "Is_Connect d" and u: "plain u"
  shows "\<exists>d'. FriendAccept api u v False d = Ok (True, d') \<and> Is_Connect d'
    \<and> LOGIN (tables tab d') = LOGIN (tables tab d)
    \<and> FRIEND (tables tab d') = filter (\<lambda>(a, b, f). a \<noteq> u \<and> b \<noteq> u) (FRIEND (tables tab d))"
proof -
  have laws: "deletes api tab (q_remove_user u) (drop_friend (\<lambda>a b. a = u))"
    "deletes api tab (q_remove_from_friends u) (drop_friend (\<lambda>a b. b = u))"
    using sql u by (simp_all add: sql_behaves_def sql_friend_def)
  obtain d1 where d1: "db_query api (q_remove_user u) d = (False, d1)"
    "tables tab d1 = drop_friend (\<lambda>a b. a = u) (tables tab d)" "Is_Connect d1 = Is_Connect d"
    using laws(1) by (rule db_deleteE)
  obtain d2 where d2: "db_query api (q_remove_from_friends u) d1 = (False, d2)"
    "tables tab d2 = drop_friend (\<lambda>a b. b = u) (tables tab d1)" "Is_Connect d2 = Is_Connect d1"
    using laws(2) by (rule db_deleteE)
  have "FRIEND (tables tab d2) = filter (\<lambda>(a, b, f). a \<noteq> u \<and> b \<noteq> u) (FRIEND (tables tab d))"
    unfolding d2(2) d1(2) drop_friend_def by (auto intro!: filter_cong)
  moreover have "LOGIN (tables tab d2) = LOGIN (tables tab d)"
    unfolding d2(2) d1(2) drop_friend_def by simp
  ultimately show ?thesis
    using d1 d2 on by (simp add: FriendAccept_def)
qed

section \<open>The friend list\<close>

lemma friend_rows_Ok:
  "(\<forall>(a, b, f) \<in> set rows. f \<in> {''1'', ''2'', ''3''}) \<Longrightarrow>
   friend_rows (map (\<lambda>(a, b, f). [Some f, Some b]) rows) fl rl
     = Ok (fl \<union> {b. \<exists>a. (a, b, ''1'') \<in> set rows}, rl \<union> {b. \<exists>a. (a, b, ''3'') \<in> set rows})"
proof (induction rows arbitrary: fl rl)
  case (Cons r rows)
  obtain a b f where r: "r = (a, b, f)"
    by (cases r)
  with Cons.prems have "f = ''1'' \<or> f = ''2'' \<or> f = ''3''" and rest: "\<forall>(a, b, f) \<in> set rows. f \<in> {''1'', ''2'', ''3''}"
    by auto
  then show ?case
    by (elim disjE) (auto simp: r field_string_def Cons.IH [OF rest])
qed simp

lemma GetFriendList_correct:
  assumes sql: "sql_behaves api tab" and on: "Is_Connect d" and u: "plain u"
    and ok: "friends_ok (tables tab d)"
  shows "\<exists>d'. GetFriendList api u {} {} d =
      Ok (True, {v. (u, v, ''1'') \<in> set (FRIEND (tables tab d))},
                {v. (u, v, ''3'') \<in> set (FRIEND (tables tab d))}, d')
    \<and> tables tab d' = tables tab d"
proof -
  let ?rows = "filter (\<lambda>(a, b, f). a = u) (FRIEND (tables tab d))"
  have "selects api tab (q_friends u) 2
      (\<lambda>t. map (\<lambda>(a, b, f). [Some f, Some b]) (filter (\<lambda>(a, b, f). a = u) (FRIEND t)))"
    using sql u by (simp add: sql_behaves_def sql_friend_def)
  then obtain d1 d2 where d: "db_query api (q_friends u) d = (False, d1)"
    "db_store api d1 = (Some \<lparr>num_fields = 2, res_rows = map (\<lambda>(a, b, f). [Some f, Some b]) ?rows\<rparr>, d2)"
    "tables tab d2 = tables tab d"
    by (rule db_selectE)
  have "\<forall>(a, b, f) \<in> set ?rows. f \<in> {''1'', ''2'', ''3''}"
    using ok by (auto simp: friends_ok_def)
  from friend_rows_Ok [OF this, of "{}" "{}"] d on show ?thesis
    by (auto simp: GetFriendList_def)
qed

text \<open>Two users who asked and accepted see each other as friends, and nobody else's list changed.\<close>

lemma set_flag_member:
  "(a, b, f) \<in> set (set_flag u v rows) \<longleftrightarrow>
     (if a = u \<and> b = v then f = ''1'' \<and> (\<exists>g. (a, b, g) \<in> set rows) else (a, b, f) \<in> set rows)"
  by (force simp: set_flag_def)

lemma FriendAccept_keeps_ok:
  assumes sql: "sql_behaves api tab" and on: "Is_Connect d" and plain: "plain u" "plain v"
    and ok: "friends_ok (tables tab d)" and run: "FriendAccept api u v True d = Ok (True, d')"
  shows "friends_ok (tables tab d')" and "(u, v, ''1'') \<in> set (FRIEND (tables tab d'))"
    and "(v, u, ''1'') \<in> set (FRIEND (tables tab d'))"
proof -
  let ?t = "tables tab d"
  from FriendAccept_correct [OF sql on plain] run have known: "knows u v ?t"
    and t': "tables tab d' = ?t\<lparr>FRIEND := set_flag v u (set_flag u v (FRIEND ?t))\<rparr>"
    by auto
  note ne = friends_ok_mutual(2) [OF ok known] and mutual = friends_ok_mutual(1) [OF ok known]
  show one: "(u, v, ''1'') \<in> set (FRIEND (tables tab d'))" "(v, u, ''1'') \<in> set (FRIEND (tables tab d'))"
    using known mutual ne by (auto simp: t' set_flag_member knows_def)
  have keys: "map (\<lambda>(a, b, f). (a, b)) (set_flag x y rows) = map (\<lambda>(a, b, f). (a, b)) rows" for x y rows
    by (simp add: set_flag_def case_prod_beta)
  have mem: "(a, b, g) \<in> set (FRIEND (tables tab d')) \<longleftrightarrow>
      (if (a = u \<and> b = v) \<or> (a = v \<and> b = u) then g = ''1'' else (a, b, g) \<in> set (FRIEND ?t))" for a b g
    using known mutual ne by (auto simp: t' set_flag_member knows_def)
  show "friends_ok (tables tab d')"
    unfolding friends_ok_def
  proof (intro conjI allI ballI)
    show "distinct (map (\<lambda>(a, b, f). (a, b)) (FRIEND (tables tab d')))"
      using ok by (simp add: t' keys friends_ok_def)
    show "case r of (a, b, f) \<Rightarrow> a \<noteq> b \<and> f \<in> {''1'', ''2'', ''3''}"
      if "r \<in> set (FRIEND (tables tab d'))" for r
    proof -
      obtain a b f where r: "r = (a, b, f)"
        by (cases r)
      have "a \<noteq> b \<and> f \<in> {''1'', ''2'', ''3''}" if "(a, b, f) \<in> set (FRIEND ?t)"
        using that ok by (auto simp: friends_ok_def)
      with that ne show ?thesis
        unfolding r mem by (auto split: if_splits)
    qed
    show "(a, b, ''1'') \<in> set (FRIEND (tables tab d')) \<longrightarrow> (b, a, ''1'') \<in> set (FRIEND (tables tab d'))" for a b
      using ok by (auto simp: mem friends_ok_def)
    show "((a, b, ''2'') \<in> set (FRIEND (tables tab d'))) = ((b, a, ''3'') \<in> set (FRIEND (tables tab d')))" for a b
      using ok by (auto simp: mem friends_ok_def)
  qed
qed

section \<open>Identifiers\<close>

lemma GetIdentifier_correct:
  assumes sql: "sql_behaves api tab" and on: "Is_Connect d" and u: "plain u"
    and row: "filter (\<lambda>(i, p, k). i = u) (LOGIN (tables tab d)) = (u, p, k) # rest"
    and k: "stoi k = Ok n"
  shows "\<exists>d'. GetIdentifier api u d = Ok (word_of_int n, d') \<and> tables tab d' = tables tab d"
proof -
  have "selects api tab (q_identifier u) 1
      (\<lambda>t. map (\<lambda>(i, p, k). [Some k]) (filter (\<lambda>(i, p, k). i = u) (LOGIN t)))"
    using sql u by (simp add: sql_behaves_def sql_login_def)
  then obtain d1 d2 where d: "db_query api (q_identifier u) d = (False, d1)"
    "db_store api d1 = (Some \<lparr>num_fields = 1, res_rows = map (\<lambda>(i, p, k). [Some k])
       (filter (\<lambda>(i, p, k). i = u) (LOGIN (tables tab d)))\<rparr>, d2)"
    "tables tab d2 = tables tab d"
    by (rule db_selectE)
  then show ?thesis
    using on row k by (simp add: GetIdentifier_def field_string_def)
qed

lemma DeleteAccount_correct:
  assumes sql: "sql_behaves api tab" and on: "Is_Connect d" and u: "plain u"
  shows "tables tab (DeleteAccount api u d) =
    \<lparr>LOGIN = filter (\<lambda>(i, p, k). i \<noteq> u) (LOGIN (tables tab d)),
     FRIEND = filter (\<lambda>(a, b, f). a \<noteq> u \<and> b \<noteq> u) (FRIEND (tables tab d))\<rparr>"
proof -
  have laws: "deletes api tab (q_delete_account u) (drop_login u)"
    "deletes api tab (q_remove_user u) (drop_friend (\<lambda>a b. a = u))"
    "deletes api tab (q_remove_from_friends u) (drop_friend (\<lambda>a b. b = u))"
    using sql u by (simp_all add: sql_behaves_def sql_friend_def sql_login_def)
  obtain d0 where d0: "db_query api (q_delete_account u) d = (False, d0)"
    "tables tab d0 = drop_login u (tables tab d)"
    using laws(1) by (rule db_deleteE)
  obtain d1 where d1: "db_query api (q_remove_user u) d0 = (False, d1)"
    "tables tab d1 = drop_friend (\<lambda>a b. a = u) (tables tab d0)"
    using laws(2) by (rule db_deleteE)
  obtain d2 where d2: "db_query api (q_remove_from_friends u) d1 = (False, d2)"
    "tables tab d2 = drop_friend (\<lambda>a b. b = u) (tables tab d1)"
    using laws(3) by (rule db_deleteE)
  have "FRIEND (tables tab d2) = filter (\<lambda>(a, b, f). a \<noteq> u \<and> b \<noteq> u) (FRIEND (tables tab d))"
    unfolding d2(2) d1(2) d0(2) drop_friend_def drop_login_def by (auto intro!: filter_cong)
  moreover have "LOGIN (tables tab d2) = filter (\<lambda>(i, p, k). i \<noteq> u) (LOGIN (tables tab d))"
    unfolding d2(2) d1(2) d0(2) drop_friend_def drop_login_def by simp
  ultimately show ?thesis
    using d0 d1 d2 on by (simp add: DeleteAccount_def)
qed

section \<open>Without a connection, and with a quote\<close>

lemma not_connected:
  assumes "\<not> Is_Connect d"
  shows "QueryDB api q n data d = Fault No_Return" and "SearchID api u d = Fault No_Return"
    and "ComparePassword api u p d = Fault No_Return" and "CreateNewAccount api u p d = Fault No_Return"
    and "FriendRequest api u v d = Fault No_Return" and "GetFriendList api u fl rl d = Fault No_Return"
    and "GetIdentifier api u d = Fault No_Return" and "FriendAccept api u v b d = Ok (True, d)"
    and "DeleteAccount api u d = d"
  using assms by (simp_all add: QueryDB_def SearchID_def ComparePassword_def CreateNewAccount_def
      FriendRequest_def GetFriendList_def GetIdentifier_def FriendAccept_def DeleteAccount_def)

text \<open>
  The text of a statement determines its arguments when they have no quote; with quotes two different
  accounts have the same statement, and a user name can turn into a condition that is always true.
\<close>

lemma append_quote_inj:
  assumes "sq \<notin> set a" and "sq \<notin> set b" and "a @ sq # x = b @ sq # y"
  shows "a = b \<and> x = y"
  using assms
proof (induction a arbitrary: b)
  case Nil
  then show ?case by (cases b) auto
next
  case (Cons c a)
  then show ?case by (cases b) auto
qed

lemma q_create_inj:
  assumes "plain u" and "plain p" and "plain u'" and "plain p'" and "q_create u p = q_create u' p'"
  shows "u = u' \<and> p = p'"
proof -
  have "u @ sq # '', '' @ sq # p @ sq # '')'' = u' @ sq # '', '' @ sq # p' @ sq # '')''"
    using assms(5) by (simp add: q_create_def quoted_def)
  then have "u = u' \<and> p @ sq # '')'' = p' @ sq # '')''"
    using append_quote_inj [of u u'] assms(1,3) by (auto simp: plain_def)
  then show ?thesis by simp
qed

lemma q_create_clash:
  "q_create (''a'' @ [sq] @ '', '' @ [sq] @ ''b'') ''c'' = q_create ''a'' (''b'' @ [sq] @ '', '' @ [sq] @ ''c'')"
  by (simp add: q_create_def quoted_def)

lemma q_password_injection:
  "q_password (''x'' @ [sq] @ '' OR '' @ [sq] @ ''1'' @ [sq] @ ''='' @ [sq] @ ''1'') =
     ''SELECT PASSWORD FROM LOGIN WHERE ID='' @ quoted ''x'' @ '' OR '' @ quoted ''1'' @ ''='' @ quoted ''1''"
  by (simp add: q_password_def quoted_def SELECTSTRING_def)

end
