(* ===== verification/DH_DBDemo.thy ===== *)
theory DH_DBDemo
  imports DH_DBSpec
begin

text \<open>
  A small database server for the concrete runs: it recognises the statements \<open>DHDBCore\<close> sends by the
  text between the quotes, and answers them on two tables. It satisfies \<open>sql_behaves\<close>.
\<close>

record mini_db =
  mini_tables :: db_tables
  mini_result :: "mysql_res option"

text \<open>The pieces of a text between its quotes.\<close>

fun split_sq :: "string \<Rightarrow> string list" where
  "split_sq [] = [[]]"
| "split_sq (c # cs) =
     (if c = sq then [] # split_sq cs
      else case split_sq cs of [] \<Rightarrow> [[c]] | w # ws \<Rightarrow> (c # w) # ws)"

definition h_password :: string where "h_password = SELECTSTRING @ ''PASSWORD FROM LOGIN WHERE ID=''"
definition h_identifier :: string where "h_identifier = SELECTSTRING @ ''IDENTIFIER FROM LOGIN WHERE ID=''"
definition h_create :: string where "h_create = INSERTSTRING @ ''LOGIN (ID,PASSWORD) VALUES (''"
definition h_find :: string where "h_find = SELECTSTRING @ ''* FROM FRIEND WHERE USERID=''"
definition h_add :: string where "h_add = INSERTSTRING @ ''FRIEND (USERID,FRIENDID,ACCEPTFLAG) VALUES (''"
definition h_remove :: string where "h_remove = DELETESTRING @ ''FRIEND WHERE USERID=''"
definition h_remove_from :: string where "h_remove_from = DELETESTRING @ ''FRIEND WHERE FRIENDID=''"
definition h_accept :: string where "h_accept = UPDATESTRING @ ''FRIEND SET ACCEPTFLAG=1 WHERE USERID=''"
definition h_friends :: string where "h_friends = SELECTSTRING @ ''ACCEPTFLAG,FRIENDID FROM FRIEND WHERE USERID=''"
definition h_delete :: string where "h_delete = DELETESTRING @ ''LOGIN WHERE ID=''"

lemmas h_defs = h_password_def h_identifier_def h_create_def h_find_def h_add_def h_remove_def
  h_remove_from_def h_accept_def h_friends_def h_delete_def
  SELECTSTRING_def INSERTSTRING_def DELETESTRING_def UPDATESTRING_def

definition answer :: "mini_db \<Rightarrow> nat \<Rightarrow> string option list list \<Rightarrow> bool \<times> mini_db" where
  "answer db n rows = (False, db\<lparr>mini_result := Some \<lparr>num_fields = n, res_rows = rows\<rparr>\<rparr>)"

definition change :: "mini_db \<Rightarrow> (db_tables \<Rightarrow> db_tables) \<Rightarrow> bool \<times> mini_db" where
  "change db f = (False, db\<lparr>mini_tables := f (mini_tables db), mini_result := None\<rparr>)"

text \<open>One and two literals.\<close>

definition mini_one :: "string \<Rightarrow> string \<Rightarrow> mini_db \<Rightarrow> bool \<times> mini_db" where
  "mini_one h u db =
     (let t = mini_tables db in
      if h = h_password then answer db 1 (map (\<lambda>(i, p, k). [Some p]) (filter (\<lambda>(i, p, k). i = u) (LOGIN t)))
      else if h = h_identifier then answer db 1 (map (\<lambda>(i, p, k). [Some k]) (filter (\<lambda>(i, p, k). i = u) (LOGIN t)))
      else if h = h_friends then answer db 2 (map (\<lambda>(a, b, f). [Some f, Some b]) (filter (\<lambda>(a, b, f). a = u) (FRIEND t)))
      else if h = h_delete then change db (drop_login u)
      else if h = h_remove then change db (drop_friend (\<lambda>a b. a = u))
      else if h = h_remove_from then change db (drop_friend (\<lambda>a b. b = u))
      else (True, db))"

definition mini_two :: "string \<Rightarrow> string \<Rightarrow> string \<Rightarrow> string \<Rightarrow> mini_db \<Rightarrow> bool \<times> mini_db" where
  "mini_two h u v z db =
     (let t = mini_tables db in
      if h = h_create then change db (\<lambda>t. add_login u v ''1'' t)
      else if h = h_find then answer db 3 (map (\<lambda>(a, b, f). [Some a, Some b, Some f])
                                            (filter (\<lambda>(a, b, f). a = u \<and> b = v) (FRIEND t)))
      else if h = h_remove then change db (drop_friend (\<lambda>a b. a = u \<and> b = v))
      else if h = h_accept then change db (\<lambda>t. t\<lparr>FRIEND := set_flag u v (FRIEND t)\<rparr>)
      else if h = h_add then change db (add_friend u v (if z = '', 2)'' then ''2'' else ''3''))
      else (True, db))"

definition mini_query :: "string \<Rightarrow> mini_db \<Rightarrow> bool \<times> mini_db" where
  "mini_query q db =
     (case split_sq q of
        [h] \<Rightarrow> if h = q_ids then answer db 1 (map (\<lambda>(i, p, k). [Some i]) (LOGIN (mini_tables db))) else (True, db)
      | [h, u, z] \<Rightarrow> mini_one h u db
      | [h, u, m, v, z] \<Rightarrow> mini_two h u v z db
      | _ \<Rightarrow> (True, db))"

definition empty_tables :: db_tables where
  "empty_tables = \<lparr>LOGIN = [], FRIEND = []\<rparr>"

definition mini_mysql :: "mini_db mysql" where
  "mini_mysql = \<lparr>mysql_init = Some \<lparr>mini_tables = empty_tables, mini_result = None\<rparr>,
     mysql_options = id, mysql_real_connect = (\<lambda>_ _ _ _ _ db. (True, db)),
     mysql_query = mini_query, mysql_store_result = (\<lambda>db. (mini_result db, db))\<rparr>"

definition mini_core :: "db_tables \<Rightarrow> mini_db DHDBCore" where
  "mini_core t = \<lparr>m_MYSQL = \<lparr>mini_tables = t, mini_result = None\<rparr>, Is_Connect = True\<rparr>"

section \<open>It behaves as SQL says\<close>

lemma split_sq_free: "sq \<notin> set a \<Longrightarrow> split_sq a = [a]"
  by (induction a) auto

lemma split_sq_quote: "sq \<notin> set a \<Longrightarrow> split_sq (a @ sq # x) = a # split_sq x"
  by (induction a) auto

lemma split_sq_one: "sq \<notin> set h \<Longrightarrow> plain u \<Longrightarrow> split_sq (h @ quoted u) = [h, u, []]"
  using split_sq_quote [of h "u @ [sq]"] split_sq_quote [of u "[]"]
  by (simp add: quoted_def plain_def)

lemma split_sq_two:
  assumes "sq \<notin> set h" and "plain u" and "sq \<notin> set m" and "plain v" and "sq \<notin> set z"
  shows "split_sq (h @ quoted u @ m @ quoted v @ z) = [h, u, m, v, z]"
proof -
  have "h @ quoted u @ m @ quoted v @ z = h @ sq # u @ sq # m @ sq # v @ sq # z"
    by (simp add: quoted_def)
  then show ?thesis
    using assms unfolding plain_def by (simp only: split_sq_quote split_sq_free not_False_eq_True simp_thms)
qed

lemma heads_free:
  "sq \<notin> set h_password" "sq \<notin> set h_identifier" "sq \<notin> set h_create" "sq \<notin> set h_find"
  "sq \<notin> set h_add" "sq \<notin> set h_remove" "sq \<notin> set h_remove_from" "sq \<notin> set h_accept"
  "sq \<notin> set h_friends" "sq \<notin> set h_delete" "sq \<notin> set q_ids"
  by (simp_all add: h_defs sq_def q_ids_def)

lemma query_texts:
  "q_password u = h_password @ quoted u" "q_identifier u = h_identifier @ quoted u"
  "q_delete_account u = h_delete @ quoted u" "q_friends u = h_friends @ quoted u"
  "q_remove_user u = h_remove @ quoted u" "q_remove_from_friends u = h_remove_from @ quoted u"
  "q_create u v = h_create @ quoted u @ '', '' @ quoted v @ '')''"
  "q_find_friend u v = h_find @ quoted u @ '' AND FRIENDID ='' @ quoted v @ []"
  "q_remove_friend u v = h_remove @ quoted u @ '' AND FRIENDID ='' @ quoted v @ []"
  "q_accept_friend u v = h_accept @ quoted u @ '' AND FRIENDID ='' @ quoted v @ []"
  "q_add_friend u v f = h_add @ quoted u @ '', '' @ quoted v @ '', '' @ f @ '')''"
  by (simp_all add: q_password_def q_identifier_def q_delete_account_def q_friends_def q_remove_user_def
      q_remove_from_friends_def q_create_def q_find_friend_def q_remove_friend_def q_accept_friend_def
      q_add_friend_def h_password_def h_identifier_def h_create_def h_find_def h_add_def h_remove_def
      h_remove_from_def h_accept_def h_friends_def h_delete_def)

lemma heads_distinct:
  "h_identifier \<noteq> h_password" "h_friends \<noteq> h_password" "h_friends \<noteq> h_identifier"
  "h_delete \<noteq> h_password" "h_delete \<noteq> h_identifier" "h_delete \<noteq> h_friends"
  "h_remove \<noteq> h_password" "h_remove \<noteq> h_identifier" "h_remove \<noteq> h_friends" "h_remove \<noteq> h_delete"
  "h_remove_from \<noteq> h_password" "h_remove_from \<noteq> h_identifier" "h_remove_from \<noteq> h_friends"
  "h_remove_from \<noteq> h_delete" "h_remove_from \<noteq> h_remove"
  "h_find \<noteq> h_create" "h_remove \<noteq> h_create" "h_remove \<noteq> h_find"
  "h_accept \<noteq> h_create" "h_accept \<noteq> h_find" "h_accept \<noteq> h_remove"
  "h_add \<noteq> h_create" "h_add \<noteq> h_find" "h_add \<noteq> h_remove" "h_add \<noteq> h_accept"
  by (simp_all add: h_defs)

text \<open>What the server answers to each text.\<close>

lemma mini_query_one:
  "plain u \<Longrightarrow> sq \<notin> set h \<Longrightarrow> mini_query (h @ quoted u) db = mini_one h u db"
  by (simp add: mini_query_def split_sq_one)

lemma mini_query_two:
  "plain u \<Longrightarrow> plain v \<Longrightarrow> sq \<notin> set h \<Longrightarrow> sq \<notin> set m \<Longrightarrow> sq \<notin> set z \<Longrightarrow>
     mini_query (h @ quoted u @ m @ quoted v @ z) db = mini_two h u v z db"
  by (simp add: mini_query_def split_sq_two del: append_assoc)

lemma middles_free: "sq \<notin> set '' AND FRIENDID =''" "sq \<notin> set '', ''" "sq \<notin> set '')''" "sq \<notin> set []"
    "sq \<notin> set ('', '' @ ''2'' @ '')'')" "sq \<notin> set ('', '' @ ''3'' @ '')'')"
  by (simp_all add: sq_def)

lemma mini_selects:
  "(\<And>db. mini_query q db = answer db n (f (mini_tables db))) \<Longrightarrow> selects mini_mysql mini_tables q n f"
  by (simp add: selects_def mini_mysql_def answer_def)

lemma mini_changes:
  "(\<And>db. mini_query q db = change db f) \<Longrightarrow> changes mini_mysql mini_tables q f"
  by (simp add: changes_def mini_mysql_def change_def ex_bool_eq)

lemma mini_deletes:
  "(\<And>db. mini_query q db = change db f) \<Longrightarrow> deletes mini_mysql mini_tables q f"
  by (simp add: deletes_def mini_mysql_def change_def)

lemma mini_login: "sql_login mini_mysql mini_tables"
  unfolding sql_login_def
proof (intro conjI allI impI)
  show "selects mini_mysql mini_tables q_ids 1 (\<lambda>t. map (\<lambda>(i, p, k). [Some i]) (LOGIN t))"
    by (rule mini_selects) (simp add: mini_query_def split_sq_free heads_free)
  fix u assume u: "plain u"
  show "selects mini_mysql mini_tables (q_password u) 1
      (\<lambda>t. map (\<lambda>(i, p, k). [Some p]) (filter (\<lambda>(i, p, k). i = u) (LOGIN t)))"
    by (rule mini_selects) (simp add: query_texts mini_query_one u heads_free mini_one_def Let_def)
  show "selects mini_mysql mini_tables (q_identifier u) 1
      (\<lambda>t. map (\<lambda>(i, p, k). [Some k]) (filter (\<lambda>(i, p, k). i = u) (LOGIN t)))"
    by (rule mini_selects)
      (simp add: query_texts mini_query_one u heads_free mini_one_def Let_def heads_distinct)
  show "deletes mini_mysql mini_tables (q_delete_account u) (drop_login u)"
    by (rule mini_deletes)
      (simp add: query_texts mini_query_one u heads_free mini_one_def Let_def heads_distinct)
  fix p assume p: "plain p"
  have "changes mini_mysql mini_tables (q_create u p) (\<lambda>t. add_login u p ''1'' t)"
    unfolding query_texts
    by (rule mini_changes) (simp only: mini_query_two u p heads_free middles_free not_False_eq_True mini_two_def
        Let_def if_True refl)
  then show "\<exists>k. changes mini_mysql mini_tables (q_create u p) (\<lambda>t. add_login u p (k t) t)"
    by (rule exI [of _ "\<lambda>t. ''1''"])
qed

lemma mini_friend: "sql_friend mini_mysql mini_tables"
  unfolding sql_friend_def
proof (intro allI impI conjI)
  fix u assume u: "plain u"
  show "selects mini_mysql mini_tables (q_friends u) 2
      (\<lambda>t. map (\<lambda>(a, b, f). [Some f, Some b]) (filter (\<lambda>(a, b, f). a = u) (FRIEND t)))"
    by (rule mini_selects)
      (simp add: query_texts mini_query_one u heads_free mini_one_def Let_def heads_distinct)
  show "deletes mini_mysql mini_tables (q_remove_user u) (drop_friend (\<lambda>a b. a = u))"
    by (rule mini_deletes)
      (simp add: query_texts mini_query_one u heads_free mini_one_def Let_def heads_distinct)
  show "deletes mini_mysql mini_tables (q_remove_from_friends u) (drop_friend (\<lambda>a b. b = u))"
    by (rule mini_deletes)
      (simp add: query_texts mini_query_one u heads_free mini_one_def Let_def heads_distinct)
  fix v assume v: "plain v"
  note two = mini_query_two [OF u v] heads_free middles_free mini_two_def Let_def heads_distinct
  show "selects mini_mysql mini_tables (q_find_friend u v) 3
      (\<lambda>t. map (\<lambda>(a, b, f). [Some a, Some b, Some f])
             (filter (\<lambda>(a, b, f). a = u \<and> b = v) (FRIEND t)))"
    unfolding query_texts by (rule mini_selects) (simp only: two not_False_eq_True if_True if_False refl)
  show "deletes mini_mysql mini_tables (q_remove_friend u v) (drop_friend (\<lambda>a b. a = u \<and> b = v))"
    unfolding query_texts by (rule mini_deletes) (simp only: two not_False_eq_True if_True if_False refl)
  show "changes mini_mysql mini_tables (q_accept_friend u v) (\<lambda>t. t\<lparr>FRIEND := set_flag u v (FRIEND t)\<rparr>)"
    unfolding query_texts by (rule mini_changes) (simp only: two not_False_eq_True if_True if_False refl)
  have z: "('', '' @ ''2'' @ '')'' = '', 2)'') = True" "('', '' @ ''3'' @ '')'' = '', 2)'') = False"
    by simp_all
  show "changes mini_mysql mini_tables (q_add_friend u v ''2'') (add_friend u v ''2'')"
    unfolding query_texts by (rule mini_changes) (simp only: two z not_False_eq_True if_True if_False refl)
  show "changes mini_mysql mini_tables (q_add_friend u v ''3'') (add_friend u v ''3'')"
    unfolding query_texts by (rule mini_changes) (simp only: two z not_False_eq_True if_True if_False refl)
qed

lemma mini_behaves: "sql_behaves mini_mysql mini_tables"
  by (simp add: sql_behaves_def mini_login mini_friend)

lemma mini_core_facts [simp]: "Is_Connect (mini_core t)" "tables mini_tables (mini_core t) = t"
  by (simp_all add: mini_core_def tables_def)

end
