(* ===== verification/DH_DBFacade.thy ===== *)
theory DH_DBFacade
  imports DH_DBDemo
begin

text \<open>
  The facade \<open>DHDB\<close>, the class the DLL exports: it owns one \<open>DHDBCore\<close> and forwards every call to it. What a
  client of accounts and friends relies on is the contract \<open>account_store\<close>, which the core and the facade both
  meet.
\<close>

section \<open>The facade\<close>

record 'db DHDB =
  m_C2DB :: "'db DHDBCore"

definition DHDB_ctor :: "'db mysql \<Rightarrow> 'db DHDB res" where
  "DHDB_ctor api = bindE (DHDBCore_ctor api) (\<lambda>d. Ok \<lparr>m_C2DB = d\<rparr>)"

text \<open>The destructor of the core closes the connection; the one of the facade calls it and keeps the memory.\<close>

definition DHDBCore_dtor :: "('db \<Rightarrow> 'db) \<Rightarrow> 'db DHDBCore \<Rightarrow> 'db DHDBCore" where
  "DHDBCore_dtor mysql_close d = d\<lparr>m_MYSQL := mysql_close (m_MYSQL d)\<rparr>"

definition DHDB_dtor :: "('db \<Rightarrow> 'db) \<Rightarrow> 'db DHDB \<Rightarrow> 'db DHDB" where
  "DHDB_dtor mysql_close f = f\<lparr>m_C2DB := DHDBCore_dtor mysql_close (m_C2DB f)\<rparr>"

text \<open>One forwarded call: the result of the core, and the core it leaves behind.\<close>

definition forward :: "('db DHDBCore \<Rightarrow> ('a \<times> 'db DHDBCore) res) \<Rightarrow> 'db DHDB \<Rightarrow> ('a \<times> 'db DHDB) res" where
  "forward op f = bindE (op (m_C2DB f)) (\<lambda>(r, d). Ok (r, f\<lparr>m_C2DB := d\<rparr>))"

definition DHDB_QueryDB :: "'db mysql \<Rightarrow> string \<Rightarrow> nat \<Rightarrow> string list \<Rightarrow> 'db DHDB \<Rightarrow>
    (bool \<times> nat \<times> string list \<times> 'db DHDB) res" where
  "DHDB_QueryDB api Query Fields_Count Query_Data f =
     bindE (QueryDB api Query Fields_Count Query_Data (m_C2DB f))
       (\<lambda>(r, n, vs, d). Ok (r, n, vs, f\<lparr>m_C2DB := d\<rparr>))"

definition DHDB_ConnectDB ::
    "'db mysql \<Rightarrow> string \<Rightarrow> string \<Rightarrow> string \<Rightarrow> string \<Rightarrow> u32 \<Rightarrow> 'db DHDB \<Rightarrow> bool \<times> 'db DHDB" where
  "DHDB_ConnectDB api Server_IP User_ID User_Password DB_Name Port f =
     (let (r, d) = ConnectDB api Server_IP User_ID User_Password DB_Name Port (m_C2DB f) in (r, f\<lparr>m_C2DB := d\<rparr>))"

definition DHDB_SearchID :: "'db mysql \<Rightarrow> string \<Rightarrow> 'db DHDB \<Rightarrow> (bool \<times> 'db DHDB) res" where
  "DHDB_SearchID api User_ID = forward (SearchID api User_ID)"

definition DHDB_ComparePassword :: "'db mysql \<Rightarrow> string \<Rightarrow> string \<Rightarrow> 'db DHDB \<Rightarrow> (bool \<times> 'db DHDB) res" where
  "DHDB_ComparePassword api User_ID User_Password = forward (ComparePassword api User_ID User_Password)"

definition DHDB_CreateNewAccount :: "'db mysql \<Rightarrow> string \<Rightarrow> string \<Rightarrow> 'db DHDB \<Rightarrow> (bool \<times> 'db DHDB) res" where
  "DHDB_CreateNewAccount api User_ID User_Password = forward (CreateNewAccount api User_ID User_Password)"

definition DHDB_FriendRequest :: "'db mysql \<Rightarrow> string \<Rightarrow> string \<Rightarrow> 'db DHDB \<Rightarrow> (bool \<times> 'db DHDB) res" where
  "DHDB_FriendRequest api User_ID Friend_ID = forward (FriendRequest api User_ID Friend_ID)"

definition DHDB_FriendAccept :: "'db mysql \<Rightarrow> string \<Rightarrow> string \<Rightarrow> bool \<Rightarrow> 'db DHDB \<Rightarrow> (bool \<times> 'db DHDB) res" where
  "DHDB_FriendAccept api User_ID Friend_ID Is_Accept = forward (FriendAccept api User_ID Friend_ID Is_Accept)"

definition DHDB_GetFriendList :: "'db mysql \<Rightarrow> string \<Rightarrow> string set \<Rightarrow> string set \<Rightarrow> 'db DHDB \<Rightarrow>
    (bool \<times> string set \<times> string set \<times> 'db DHDB) res" where
  "DHDB_GetFriendList api User_ID Friend_List Request_List f =
     bindE (GetFriendList api User_ID Friend_List Request_List (m_C2DB f))
       (\<lambda>(r, fl, rl, d). Ok (r, fl, rl, f\<lparr>m_C2DB := d\<rparr>))"

definition DHDB_GetIdentifier :: "'db mysql \<Rightarrow> string \<Rightarrow> 'db DHDB \<Rightarrow> (u32 \<times> 'db DHDB) res" where
  "DHDB_GetIdentifier api User_ID = forward (GetIdentifier api User_ID)"

definition DHDB_DeleteAccount :: "'db mysql \<Rightarrow> string \<Rightarrow> 'db DHDB \<Rightarrow> 'db DHDB" where
  "DHDB_DeleteAccount api User_ID f = f\<lparr>m_C2DB := DeleteAccount api User_ID (m_C2DB f)\<rparr>"

lemma forward_Ok: "op (m_C2DB f) = Ok (r, d) \<Longrightarrow> forward op f = Ok (r, f\<lparr>m_C2DB := d\<rparr>)"
  by (simp add: forward_def)

lemma forward_eq_Ok: "forward op f = Ok (r, f') \<longleftrightarrow> (\<exists>d. op (m_C2DB f) = Ok (r, d) \<and> f' = f\<lparr>m_C2DB := d\<rparr>)"
  by (auto simp: forward_def bindE_eq_Ok_iff)

section \<open>The contract of an account store\<close>

locale account_store =
  fixes ok :: "'s \<Rightarrow> bool"
    and tabs :: "'s \<Rightarrow> db_tables"
    and search :: "string \<Rightarrow> 's \<Rightarrow> (bool \<times> 's) res"
    and compare :: "string \<Rightarrow> string \<Rightarrow> 's \<Rightarrow> (bool \<times> 's) res"
    and create :: "string \<Rightarrow> string \<Rightarrow> 's \<Rightarrow> (bool \<times> 's) res"
    and remove :: "string \<Rightarrow> 's \<Rightarrow> 's"
  assumes search_spec: "ok s \<Longrightarrow> \<exists>s'. search u s = Ok (u \<in> fst ` set (LOGIN (tabs s)), s') \<and> tabs s' = tabs s \<and> ok s'"
    and compare_spec: "ok s \<Longrightarrow> plain u \<Longrightarrow>
      \<exists>s'. compare u p s = Ok (\<exists>k. (u, p, k) \<in> set (LOGIN (tabs s)), s') \<and> tabs s' = tabs s \<and> ok s'"
    and create_spec: "ok s \<Longrightarrow> plain u \<Longrightarrow> plain p \<Longrightarrow>
      \<exists>r s' k. create u p s = Ok (r, s') \<and> ok s' \<and> tabs s' = (if r then add_login u p k (tabs s) else tabs s)"
    and remove_spec: "ok s \<Longrightarrow> plain u \<Longrightarrow> ok (remove u s) \<and> tabs (remove u s) =
      \<lparr>LOGIN = filter (\<lambda>(i, p, k). i \<noteq> u) (LOGIN (tabs s)),
       FRIEND = filter (\<lambda>(a, b, f). a \<noteq> u \<and> b \<noteq> u) (FRIEND (tabs s))\<rparr>"
begin

lemma opens_with_password:
  assumes s: "ok s" and plain: "plain u" "plain p" and fresh: "u \<notin> fst ` set (LOGIN (tabs s))"
    and made: "create u p s = Ok (True, s1)"
  shows "\<exists>s2 s3. search u s1 = Ok (True, s2) \<and> compare u p' s2 = Ok (p' = p, s3)"
proof -
  obtain k where s1: "ok s1" "tabs s1 = add_login u p k (tabs s)"
    using create_spec [OF s plain] made by auto
  then have found: "u \<in> fst ` set (LOGIN (tabs s1))"
    by (simp add: add_login_def)
  obtain s2 where s2: "search u s1 = Ok (True, s2)" "tabs s2 = tabs s1" "ok s2"
    using search_spec [OF s1(1), of u] found by auto
  have "(\<exists>k. (u, p', k) \<in> set (LOGIN (tabs s2))) \<longleftrightarrow> p' = p"
    using fresh by (force simp: s2(2) s1(2) add_login_def)
  then show ?thesis
    using compare_spec [OF s2(3) plain(1), of p'] s2(1) by auto
qed

lemma removed_not_found:
  assumes s: "ok s" and u: "plain u"
  shows "\<exists>s1 s2. search u (remove u s) = Ok (False, s1) \<and> compare u p (remove u s) = Ok (False, s2)"
proof -
  have r: "ok (remove u s)" "LOGIN (tabs (remove u s)) = filter (\<lambda>(i, p, k). i \<noteq> u) (LOGIN (tabs s))"
    using remove_spec [OF s u] by simp_all
  then have "u \<notin> fst ` set (LOGIN (tabs (remove u s)))" "\<not> (\<exists>k. (u, p, k) \<in> set (LOGIN (tabs (remove u s))))"
    by auto
  then show ?thesis
    using search_spec [OF r(1), of u] compare_spec [OF r(1) u, of p] by auto
qed

end

definition core_ok :: "'db mysql \<Rightarrow> ('db \<Rightarrow> db_tables) \<Rightarrow> 'db DHDBCore \<Rightarrow> bool" where
  "core_ok api tab d \<longleftrightarrow> sql_behaves api tab \<and> Is_Connect d"

lemma DeleteAccount_connected: "Is_Connect (DeleteAccount api u d) = Is_Connect d"
  by (simp add: DeleteAccount_def db_query_def case_prod_beta)

interpretation core: account_store "core_ok api tab" "tables tab" "SearchID api" "ComparePassword api"
    "CreateNewAccount api" "DeleteAccount api"
  for api tab
proof
  fix d u p
  assume d: "core_ok api tab d"
  then have *: "sql_behaves api tab" "Is_Connect d"
    by (simp_all add: core_ok_def)
  show "\<exists>s'. SearchID api u d = Ok (u \<in> fst ` set (LOGIN (tables tab d)), s')
      \<and> tables tab s' = tables tab d \<and> core_ok api tab s'"
    using SearchID_correct [OF *, of u] *(1) by (auto simp: core_ok_def)
  assume u: "plain u"
  show "\<exists>s'. ComparePassword api u p d = Ok (\<exists>k. (u, p, k) \<in> set (LOGIN (tables tab d)), s')
      \<and> tables tab s' = tables tab d \<and> core_ok api tab s'"
    using ComparePassword_correct [OF * u, of p] *(1) by (auto simp: core_ok_def)
  show "core_ok api tab (DeleteAccount api u d) \<and> tables tab (DeleteAccount api u d) =
      \<lparr>LOGIN = filter (\<lambda>(i, p, k). i \<noteq> u) (LOGIN (tables tab d)),
       FRIEND = filter (\<lambda>(a, b, f). a \<noteq> u \<and> b \<noteq> u) (FRIEND (tables tab d))\<rparr>"
    using DeleteAccount_correct [OF * u] * by (simp add: core_ok_def DeleteAccount_connected)
  assume p: "plain p"
  show "\<exists>r s' k. CreateNewAccount api u p d = Ok (r, s') \<and> core_ok api tab s'
      \<and> tables tab s' = (if r then add_login u p k (tables tab d) else tables tab d)"
    using CreateNewAccount_correct [OF * u p] *(1) unfolding core_ok_def by blast
qed

interpretation facade: account_store "\<lambda>f :: 'db DHDB. core_ok api tab (m_C2DB f)" "\<lambda>f. tables tab (m_C2DB f)"
    "DHDB_SearchID api" "DHDB_ComparePassword api" "DHDB_CreateNewAccount api" "DHDB_DeleteAccount api"
  for api tab
proof
  fix f :: "'db DHDB" and u p
  assume f: "core_ok api tab (m_C2DB f)"
  show "\<exists>s'. DHDB_SearchID api u f = Ok (u \<in> fst ` set (LOGIN (tables tab (m_C2DB f))), s')
      \<and> tables tab (m_C2DB s') = tables tab (m_C2DB f) \<and> core_ok api tab (m_C2DB s')"
    using core.search_spec [OF f, of u] unfolding DHDB_SearchID_def by (auto dest!: forward_Ok)
  assume u: "plain u"
  show "\<exists>s'. DHDB_ComparePassword api u p f = Ok (\<exists>k. (u, p, k) \<in> set (LOGIN (tables tab (m_C2DB f))), s')
      \<and> tables tab (m_C2DB s') = tables tab (m_C2DB f) \<and> core_ok api tab (m_C2DB s')"
    using core.compare_spec [OF f u, of p] unfolding DHDB_ComparePassword_def by (auto dest!: forward_Ok)
  show "core_ok api tab (m_C2DB (DHDB_DeleteAccount api u f)) \<and> tables tab (m_C2DB (DHDB_DeleteAccount api u f)) =
      \<lparr>LOGIN = filter (\<lambda>(i, p, k). i \<noteq> u) (LOGIN (tables tab (m_C2DB f))),
       FRIEND = filter (\<lambda>(a, b, f). a \<noteq> u \<and> b \<noteq> u) (FRIEND (tables tab (m_C2DB f)))\<rparr>"
    using core.remove_spec [OF f u] by (simp add: DHDB_DeleteAccount_def)
  assume p: "plain p"
  obtain r d k where "CreateNewAccount api u p (m_C2DB f) = Ok (r, d)" "core_ok api tab d"
      "tables tab d = (if r then add_login u p k (tables tab (m_C2DB f)) else tables tab (m_C2DB f))"
    using core.create_spec [OF f u p] by blast
  then show "\<exists>r s' k. DHDB_CreateNewAccount api u p f = Ok (r, s') \<and> core_ok api tab (m_C2DB s')
      \<and> tables tab (m_C2DB s') = (if r then add_login u p k (tables tab (m_C2DB f)) else tables tab (m_C2DB f))"
    unfolding DHDB_CreateNewAccount_def
    by (intro exI [of _ r] exI [of _ "f\<lparr>m_C2DB := d\<rparr>"] exI [of _ k]) (simp add: forward_Ok)
qed

end
