(* ===== verification/DH_DBProps.thy ===== *)
theory DH_DBProps
  imports DH_DBFacade
begin

text \<open>
  Properties of the account and friend operations of \<open>DHDBCore\<close>, for every database server that behaves as
  SQL says on their statements (\<open>sql_behaves\<close>), each with a run on the small server of \<open>DH_DBDemo\<close>.
\<close>

section \<open>Accounts\<close>


lemma plain_names: "plain ''ann''" "plain ''bob''" "plain ''pw''"
  by (simp_all add: plain_def sq_def)




definition demo_tables :: db_tables where
  "demo_tables = \<lparr>LOGIN = [(''ann'', ''pw'', ''1''), (''bob'', ''pw'', ''2'')],
     FRIEND = [(''ann'', ''bob'', ''1''), (''bob'', ''ann'', ''1''),
               (''bob'', ''cid'', ''2''), (''cid'', ''bob'', ''3'')]\<rparr>"

section \<open>The friendship table\<close>




















lemma demo_tables_ok: "friends_ok demo_tables"
  by (auto simp: friends_ok_def demo_tables_def)


section \<open>A failing statement\<close>

text \<open>When the second update of an acceptance fails, the call reports failure and takes back a row that
  was there before it: the acceptor has lost the request (or the friend), while the other side keeps its row.\<close>

theorem failed_acceptance_loses_request:
  assumes sql: "sql_behaves api tab" and on: "Is_Connect d" and plain: "plain u" "plain v" and ne: "u \<noteq> v"
    and ok: "friends_ok (tables tab d)" and known: "knows u v (tables tab d)"
    and first: "\<And>db. fst (mysql_query api (q_accept_friend u v) db) = False"
    and second: "\<And>db. fst (mysql_query api (q_accept_friend v u) db) = True"
  shows "\<exists>d'. FriendAccept api u v True d = Ok (False, d') \<and> \<not> knows u v (tables tab d')
    \<and> knows v u (tables tab d') \<and> \<not> friends_ok (tables tab d')"
proof -
  obtain d' where d': "FriendAccept api u v True d = Ok (False, d')" "\<not> knows u v (tables tab d')"
      "knows v u (tables tab d') \<longleftrightarrow> knows v u (tables tab d)"
    using FriendAccept_half_lost [OF sql on plain ne known first second] by blast
  moreover have "knows v u (tables tab d)"
    by (rule friends_ok_mutual(1) [OF ok known])
  ultimately show ?thesis
    using friends_ok_mutual(1) by blast
qed

text \<open>The small server, refusing one update.\<close>

definition failing_mysql :: "mini_db mysql" where
  "failing_mysql = mini_mysql\<lparr>mysql_query :=
     (\<lambda>q db. if q = q_accept_friend ''ann'' ''bob'' then (True, db) else mini_query q db)\<rparr>"

lemma failing_selects:
  "selects mini_mysql mini_tables q n f \<Longrightarrow> q \<noteq> q_accept_friend ''ann'' ''bob'' \<Longrightarrow>
     selects failing_mysql mini_tables q n f"
  by (simp add: selects_def failing_mysql_def mini_mysql_def)

lemma failing_deletes:
  "deletes mini_mysql mini_tables q f \<Longrightarrow> q \<noteq> q_accept_friend ''ann'' ''bob'' \<Longrightarrow>
     deletes failing_mysql mini_tables q f"
  by (simp add: deletes_def failing_mysql_def mini_mysql_def)

lemma failing_changes:
  "changes mini_mysql mini_tables q f \<Longrightarrow> changes failing_mysql mini_tables q f"
  by (auto simp: changes_def failing_mysql_def mini_mysql_def)

lemma no_update:
  "q_ids \<noteq> q_accept_friend a b" "q_password u \<noteq> q_accept_friend a b" "q_identifier u \<noteq> q_accept_friend a b"
  "q_delete_account u \<noteq> q_accept_friend a b" "q_friends u \<noteq> q_accept_friend a b"
  "q_remove_user u \<noteq> q_accept_friend a b" "q_remove_from_friends u \<noteq> q_accept_friend a b"
  "q_find_friend u v \<noteq> q_accept_friend a b" "q_remove_friend u v \<noteq> q_accept_friend a b"
  by (simp_all add: q_ids_def q_password_def q_identifier_def q_delete_account_def q_friends_def
      q_remove_user_def q_remove_from_friends_def q_find_friend_def q_remove_friend_def q_accept_friend_def
      SELECTSTRING_def DELETESTRING_def UPDATESTRING_def)

lemma failing_behaves: "sql_behaves failing_mysql mini_tables"
proof -
  have "sql_login failing_mysql mini_tables"
    using mini_login unfolding sql_login_def
    by (simp add: failing_selects failing_deletes no_update) (blast intro: failing_changes)
  moreover have "sql_friend failing_mysql mini_tables"
    using mini_friend unfolding sql_friend_def
    by (simp add: failing_selects failing_deletes failing_changes no_update)
  ultimately show ?thesis
    by (simp add: sql_behaves_def)
qed

theorem failed_acceptance_loses_request_witness:
  "\<exists>d'. FriendAccept failing_mysql ''bob'' ''ann'' True (mini_core demo_tables) = Ok (False, d')
     \<and> \<not> friends_ok (tables mini_tables d')"
proof -
  have ne: "q_accept_friend ''bob'' ''ann'' \<noteq> q_accept_friend ''ann'' ''bob''"
    by (simp add: q_accept_friend_def quoted_def UPDATESTRING_def)
  have "fst (mini_query (q_accept_friend ''bob'' ''ann'') db) = False" for db
    unfolding query_texts mini_query_two [OF plain_names(2,1) heads_free(8) middles_free(1,4)]
    by (simp add: mini_two_def heads_distinct change_def)
  then have "fst (mysql_query failing_mysql (q_accept_friend ''bob'' ''ann'') db) = False" for db
    by (simp add: failing_mysql_def ne)
  moreover have "fst (mysql_query failing_mysql (q_accept_friend ''ann'' ''bob'') db) = True" for db
    by (simp add: failing_mysql_def)
  moreover have "knows ''bob'' ''ann'' (tables mini_tables (mini_core demo_tables))"
    by (simp add: knows_def demo_tables_def)
  moreover have "friends_ok (tables mini_tables (mini_core demo_tables))"
    by (simp add: demo_tables_ok)
  ultimately show ?thesis
    using failed_acceptance_loses_request [OF failing_behaves mini_core_facts(1) plain_names(2,1)] by fastforce
qed

end
