(* ===== verification/DH_Launcher.thy ===== *)
theory DH_Launcher
  imports DH_NetWork
begin

text \<open>
  The game launcher: the login window (\<open>LoginLauncher\<close>), the account dialog (\<open>AccountCreate\<close>) and the
  friend window (\<open>GamePlayLauncher\<close>). They talk to the login server through a \<open>DHNetWorkAPI\<close>. The
  bytes of a message are made and read by FlatBuffers, which is a parameter (\<open>flat\<close>); of the Qt
  widgets the texts, the visibility and the geometry the code computes are modelled.
\<close>

section \<open>Packets\<close>

definition LOGIN_ID_FAIL :: nat where "LOGIN_ID_FAIL = 0"
definition LOGIN_PASSWORD_FAIL :: nat where "LOGIN_PASSWORD_FAIL = 2"
definition LOGIN_SUCCESS :: nat where "LOGIN_SUCCESS = 4"
definition LOGIN_ALREADY_FAIL :: nat where "LOGIN_ALREADY_FAIL = 8"
definition USER_OFFLINE :: nat where "USER_OFFLINE = 0"
definition USER_ONLINE :: nat where "USER_ONLINE = 2"
definition USER_IN_GAME :: nat where "USER_IN_GAME = 4"
definition C2S_LOGIN_SAFE_REQ :: u16 where "C2S_LOGIN_SAFE_REQ = 5001"
definition C2S_ADD_FRIEND :: u16 where "C2S_ADD_FRIEND = 5002"
definition C2S_ACCPET_FRIEND :: u16 where "C2S_ACCPET_FRIEND = 5003"
definition C2S_CREATE_USER_REQ :: u16 where "C2S_CREATE_USER_REQ = 5005"
definition C2S_PLAY_STATE :: u16 where "C2S_PLAY_STATE = 5006"
definition S2C_CURRENT_USER_STATE :: u16 where "S2C_CURRENT_USER_STATE = 5501"
definition S2C_LOGIN_SAFE_RES :: u16 where "S2C_LOGIN_SAFE_RES = 5502"
definition S2C_CREATE_USER_RES :: u16 where "S2C_CREATE_USER_RES = 5504"

datatype launcher_msg =
    LoginReqData string string        \<comment> \<open>ID, password\<close>
  | CreateUser string string          \<comment> \<open>ID, password\<close>
  | AddFriend string string           \<comment> \<open>own ID, friend ID\<close>
  | AcceptFriend string string bool   \<comment> \<open>own ID, friend ID, accepted\<close>
  | PlayState string bool             \<comment> \<open>own ID, playing\<close>

record flat =
  fb_bytes :: "launcher_msg \<Rightarrow> byte list"          \<comment> \<open>the finished buffer of a builder\<close>
  fb_login :: "byte list \<Rightarrow> nat \<times> u32"             \<comment> \<open>result and key of a \<open>LoginResData\<close>\<close>
  fb_friends :: "byte list \<Rightarrow> (string \<times> nat) list"  \<comment> \<open>the friends of a \<open>RealTimeData\<close>\<close>
  fb_requests :: "byte list \<Rightarrow> string list"          \<comment> \<open>the requests of a \<open>RealTimeData\<close>\<close>

text \<open>
  Filling a packet structure: the size \<open>memcpy_s\<close> is given for the destination is the size of the
  message itself.
\<close>

definition fill_packet :: "u16 \<Rightarrow> byte list \<Rightarrow> byte list \<Rightarrow> byte list res" where
  "fill_packet t bytes blk =
     (let n = length bytes;
          blk = set_Packet_Size (word_of_nat n) (set_Packet_Type t blk)
      in memcpy_s blk PACKET_HEADER_SIZE n bytes n)"

definition send_msg :: "os \<Rightarrow> flat \<Rightarrow> u16 \<Rightarrow> launcher_msg \<Rightarrow> byte list \<Rightarrow> api_ptr \<Rightarrow> (byte list \<times> api_ptr) res" where
  "send_msg env fl t msg blk a =
     bindE (fill_packet t (fb_bytes fl msg) blk) (\<lambda>blk.
     bindE (API_Send env (Some blk) SEND_TYPE_BROADCAST INVALID_SOCKET a) (\<lambda>(_, a). Ok (blk, a)))"

section \<open>LoginLauncher\<close>

datatype login_text = Txt_Empty | Txt_Too_Long | Txt_Unknown_ID | Txt_Wrong_Password | Txt_Already

record login_window =
  lw_Send_Packet :: "byte list"
  lw_User_Key :: u32
  lw_label :: login_text
  lw_hidden :: bool
  lw_user :: "string option"     \<comment> \<open>the user the friend window was opened for\<close>

text \<open>One answer of the server: the new state, and whether the friend window opens.\<close>

definition login_answer :: "nat \<times> u32 \<Rightarrow> string \<Rightarrow> login_window \<Rightarrow> login_window" where
  "login_answer res User_ID w =
     (if fst res = LOGIN_SUCCESS
      then w\<lparr>lw_User_Key := snd res, lw_hidden := True, lw_user := Some User_ID\<rparr>
      else if fst res = LOGIN_ID_FAIL then w\<lparr>lw_label := Txt_Unknown_ID\<rparr>
      else if fst res = LOGIN_PASSWORD_FAIL then w\<lparr>lw_label := Txt_Wrong_Password\<rparr>
      else if fst res = LOGIN_ALREADY_FAIL then w\<lparr>lw_label := Txt_Already\<rparr>
      else w)"

text \<open>
  The loop over the messages of one \<open>Recv\<close>: at the first login answer it releases that packet, clears
  the vector and returns; \<open>None\<close> means no message was one and the window goes on waiting.
\<close>

fun login_scan ::
    "flat \<Rightarrow> string \<Rightarrow> (sock \<times> ptr) list \<Rightarrow> heap \<Rightarrow> login_window \<Rightarrow> (heap \<times> login_window) option res" where
  "login_scan fl User_ID [] h w = Ok None"
| "login_scan fl User_ID ((k, q) # ms) h w =
     bindE (heap_packet q h) (\<lambda>blk.
     bindE (get_Packet_Type blk) (\<lambda>t.
       if t = S2C_LOGIN_SAFE_RES
       then bindE (heap_free q h) (\<lambda>h.
              Ok (Some (h, login_answer (fb_login fl (packet_buffer blk)) User_ID w)))
       else login_scan fl User_ID ms h w))"

text \<open>
  The wait, over the results of the successive calls of \<open>Recv\<close> that returned messages: the vector is
  not cleared between them, so that messages seen before are looked at again.
\<close>

fun login_wait ::
    "flat \<Rightarrow> string \<Rightarrow> (sock \<times> ptr) list \<Rightarrow> ((sock \<times> ptr) list \<times> heap) list \<Rightarrow> login_window \<Rightarrow>
       (heap \<times> login_window) option res" where
  "login_wait fl User_ID vec [] w = Ok None"
| "login_wait fl User_ID vec ((new, h) # rest_calls) w =
     bindE (login_scan fl User_ID (vec @ new) h w) (\<lambda>r.
       case r of Some hw \<Rightarrow> Ok (Some hw) | None \<Rightarrow> login_wait fl User_ID (vec @ new) rest_calls w)"

text \<open>What the button does before it waits: whether a request was sent.\<close>

definition login_request ::
    "os \<Rightarrow> flat \<Rightarrow> string \<Rightarrow> string \<Rightarrow> login_window \<Rightarrow> api_ptr \<Rightarrow> (bool \<times> login_window \<times> api_ptr) res" where
  "login_request env fl User_ID Password w a =
     (if 20 < length Password \<or> 20 < length User_ID then Ok (False, w\<lparr>lw_label := Txt_Too_Long\<rparr>, a)
      else bindE (send_msg env fl C2S_LOGIN_SAFE_REQ (LoginReqData User_ID Password) (lw_Send_Packet w) a)
             (\<lambda>(blk, a). Ok (True, w\<lparr>lw_Send_Packet := blk\<rparr>, a)))"

section \<open>AccountCreate\<close>

datatype account_text = Acc_Empty | Acc_Too_Long | Acc_No_ID | Acc_No_Password | Acc_Duplicate

record account_window =
  aw_comment :: account_text
  aw_hidden :: bool

definition aw_ClearText :: "account_window \<Rightarrow> account_window" where
  "aw_ClearText w = w\<lparr>aw_comment := Acc_Empty\<rparr>"

definition account_request ::
    "os \<Rightarrow> flat \<Rightarrow> string \<Rightarrow> string \<Rightarrow> account_window \<Rightarrow> api_ptr \<Rightarrow> (bool \<times> account_window \<times> api_ptr) res" where
  "account_request env fl User_ID Password w a =
     (if 20 < length Password \<or> 20 < length User_ID then Ok (False, w\<lparr>aw_comment := Acc_Too_Long\<rparr>, a)
      else if User_ID = [] then Ok (False, w\<lparr>aw_comment := Acc_No_ID\<rparr>, a)
      else if Password = [] then Ok (False, w\<lparr>aw_comment := Acc_No_Password\<rparr>, a)
      else bindE (send_msg env fl C2S_CREATE_USER_REQ (CreateUser User_ID Password) C2S_Packet_ctor a)
             (\<lambda>(_, a). Ok (True, w, a)))"

fun account_scan ::
    "(sock \<times> ptr) list \<Rightarrow> heap \<Rightarrow> account_window \<Rightarrow> (heap \<times> account_window) option res" where
  "account_scan [] h w = Ok None"
| "account_scan ((k, q) # ms) h w =
     bindE (heap_packet q h) (\<lambda>blk.
     bindE (get_Packet_Type blk) (\<lambda>t.
       if t = S2C_CREATE_USER_RES
       then (case packet_buffer blk of
               [] \<Rightarrow> Fault Over_Read
             | b # _ \<Rightarrow> bindE (heap_free q h) (\<lambda>h.
                 Ok (Some (h, if b \<noteq> 0 then (aw_ClearText w)\<lparr>aw_hidden := True\<rparr>
                              else w\<lparr>aw_comment := Acc_Duplicate\<rparr>))))
       else account_scan ms h w))"

text \<open>The wait; here too the vector keeps the messages that were looked at before.\<close>

fun account_wait ::
    "(sock \<times> ptr) list \<Rightarrow> ((sock \<times> ptr) list \<times> heap) list \<Rightarrow> account_window \<Rightarrow>
       (heap \<times> account_window) option res" where
  "account_wait vec [] w = Ok None"
| "account_wait vec ((new, h) # rest_calls) w =
     bindE (account_scan (vec @ new) h w) (\<lambda>r.
       case r of Some hw \<Rightarrow> Ok (Some hw) | None \<Rightarrow> account_wait (vec @ new) rest_calls w)"

definition CancleButtonClicked :: "account_window \<Rightarrow> account_window" where
  "CancleButtonClicked w = (aw_ClearText w)\<lparr>aw_hidden := True\<rparr>"

section \<open>The slots of the two windows\<close>

text \<open>
  A slot as a whole: the request, then the wait over what the successive calls of \<open>Recv\<close> return. \<open>None\<close> in the
  last component means that no answer was among them: the slot is still waiting.
\<close>

definition LoginLauncher_ButtonClicked ::
    "os \<Rightarrow> flat \<Rightarrow> string \<Rightarrow> string \<Rightarrow> ((sock \<times> ptr) list \<times> heap) list \<Rightarrow> login_window \<Rightarrow> api_ptr \<Rightarrow>
       (bool \<times> login_window \<times> api_ptr \<times> (heap \<times> login_window) option) res" where
  "LoginLauncher_ButtonClicked env fl User_ID Password recvs w a =
     bindE (login_request env fl User_ID Password w a) (\<lambda>(sent, w, a).
       if sent then bindE (login_wait fl User_ID [] recvs w) (\<lambda>r. Ok (sent, w, a, r))
       else Ok (sent, w, a, None))"

definition EnterEvent where
  "EnterEvent = LoginLauncher_ButtonClicked"

definition AccountCreate_ButtonClicked ::
    "os \<Rightarrow> flat \<Rightarrow> string \<Rightarrow> string \<Rightarrow> ((sock \<times> ptr) list \<times> heap) list \<Rightarrow> account_window \<Rightarrow> api_ptr \<Rightarrow>
       (bool \<times> account_window \<times> api_ptr \<times> (heap \<times> account_window) option) res" where
  "AccountCreate_ButtonClicked env fl User_ID Password recvs w a =
     bindE (account_request env fl User_ID Password w a) (\<lambda>(sent, w, a).
       if sent then bindE (account_wait [] recvs w) (\<lambda>r. Ok (sent, w, a, r))
       else Ok (sent, w, a, None))"

definition LoginLauncher_ClearText :: "login_window \<Rightarrow> login_window" where
  "LoginLauncher_ClearText w = w\<lparr>lw_label := Txt_Empty\<rparr>"

text \<open>The account window runs while the login window is hidden.\<close>

definition CreateAccountButtonClicked ::
    "(account_window \<Rightarrow> account_window) \<Rightarrow> login_window \<times> account_window \<Rightarrow> login_window \<times> account_window" where
  "CreateAccountButtonClicked exec x =
     (case x of (w, aw) \<Rightarrow>
        let w = (LoginLauncher_ClearText w)\<lparr>lw_hidden := True\<rparr>;
            aw = exec aw
        in (w\<lparr>lw_hidden := False\<rparr>, aw))"

text \<open>
  The constructor of the login window: a new handle, made a client by the first call of \<open>Connect\<close>, and then
  asked again until it reports a connection. Between two calls the threads of the client run; \<open>fs\<close> is what
  they do to the handle.
\<close>

fun connect_wait :: "os \<Rightarrow> u16 \<Rightarrow> string \<Rightarrow> (api_ptr \<Rightarrow> api_ptr) list \<Rightarrow> api_ptr \<Rightarrow> (bool \<times> api_ptr) res" where
  "connect_wait env Port IP [] a = Ok (False, a)"
| "connect_wait env Port IP (f # fs) a =
     bindE (API_Connect env Port IP a) (\<lambda>(r, a).
       if r \<noteq> 0 then Ok (True, a) else connect_wait env Port IP fs (f a))"

definition LoginLauncher_ctor ::
    "os \<Rightarrow> u16 \<Rightarrow> string \<Rightarrow> u16 \<Rightarrow> sys \<Rightarrow> (api_ptr \<Rightarrow> api_ptr) list \<Rightarrow> (bool \<times> api_ptr) res" where
  "LoginLauncher_ctor env Port IP users y fs =
     (let (_, a) = API_Initialize DHNet DHDEBUG_NONE users y Api_Null in connect_wait env Port IP fs a)"

section \<open>GamePlayLauncher\<close>

datatype friend_group = In_Game | Online | Offline

datatype request_text = Req_None | Req_Already_Friend | Req_Answer_First | Req_Too_Long | Req_No_ID | Req_Sent

text \<open>
  The three rows for friend requests have a text and may be hidden; a group of the tree is the list of
  its rows.
\<close>

record friend_window =
  m_User_Name :: string
  m_Is_Playing :: bool
  m_Process :: bool
  m_Recv_Friend :: "string set"
  m_Recv_Friend_Request :: "string set"
  Friend_Request_List :: "string list"
  Current_Friend_Request_Count :: int
  item_hidden :: bool
  row_text :: "string list"
  row_hidden :: "bool list"
  WidgetRoot_List :: "friend_group \<Rightarrow> string list"
  Current_Visible_State :: bool
  Is_Visible_Start :: bool
  request_result :: request_text
  result_visible :: bool
  Friend_List_height :: int
  Friend_List_Start_y :: int
  ui_geometry_height :: int
  ui_geometry_y :: int

definition GamePlayLauncher_ctor :: friend_window where
  "GamePlayLauncher_ctor =
     \<lparr>m_User_Name = [], m_Is_Playing = False, m_Process = False, m_Recv_Friend = {},
      m_Recv_Friend_Request = {}, Friend_Request_List = replicate 3 [], Current_Friend_Request_Count = 0,
      item_hidden = True, row_text = replicate 3 [], row_hidden = replicate 3 True,
      WidgetRoot_List = (\<lambda>_. []), Current_Visible_State = False, Is_Visible_Start = False,
      request_result = Req_None, result_visible = False, Friend_List_height = 531,
      Friend_List_Start_y = 190, ui_geometry_height = 531, ui_geometry_y = 190\<rparr>"

definition SetUser :: "string \<Rightarrow> friend_window \<Rightarrow> friend_window" where
  "SetUser User_Name w = w\<lparr>m_User_Name := User_Name\<rparr>"

text \<open>\<open>v[i]\<close> of a vector, read and written; an index outside is outside the block.\<close>

definition vec_get :: "'a list \<Rightarrow> nat \<Rightarrow> 'a res" where
  "vec_get v i = (if i < length v then Ok (v ! i) else Fault Over_Read)"

definition vec_set :: "'a list \<Rightarrow> nat \<Rightarrow> 'a \<Rightarrow> 'a list res" where
  "vec_set v i x = (if i < length v then Ok (v[i := x]) else Fault Buffer_Overflow)"

text \<open>\<open>_Friend_Request_Item->child(i)\<close>: a null pointer outside the three rows.\<close>

definition set_row_hidden :: "int \<Rightarrow> bool \<Rightarrow> friend_window \<Rightarrow> friend_window res" where
  "set_row_hidden i b w =
     (if i < 0 \<or> int (length (row_hidden w)) \<le> i then Fault Null_Deref
      else Ok (w\<lparr>row_hidden := (row_hidden w)[nat i := b]\<rparr>))"

definition set_row_text :: "int \<Rightarrow> string \<Rightarrow> friend_window \<Rightarrow> friend_window res" where
  "set_row_text i t w =
     (if i < 0 \<or> int (length (row_text w)) \<le> i then Fault Null_Deref
      else Ok (w\<lparr>row_text := (row_text w)[nat i := t]\<rparr>))"

subsection \<open>Requests\<close>

text \<open>The rows from the index on move up by one; the last row shown is hidden.\<close>

primrec sort_loop :: "nat \<Rightarrow> nat \<Rightarrow> friend_window \<Rightarrow> friend_window res" where
  "sort_loop 0 i w = Ok w"
| "sort_loop (Suc n) i w =
     bindE (vec_get (Friend_Request_List w) (i + 1)) (\<lambda>x.
     bindE (vec_set (Friend_Request_List w) i x) (\<lambda>v.
     bindE (set_row_text (int i) x (w\<lparr>Friend_Request_List := v\<rparr>)) (sort_loop n (i + 1))))"

definition SortFriendRequest :: "nat \<Rightarrow> friend_window \<Rightarrow> friend_window res" where
  "SortFriendRequest index w =
     bindE (sort_loop (2 - index) index w) (\<lambda>w.
       let w = w\<lparr>Current_Friend_Request_Count := Current_Friend_Request_Count w - 1\<rparr>
       in set_row_hidden (Current_Friend_Request_Count w) True w)"

text \<open>The six buttons: the request of row \<open>i\<close> is answered, and the rows move up.\<close>

definition PushFriendRequestAnswer ::
    "os \<Rightarrow> flat \<Rightarrow> bool \<Rightarrow> nat \<Rightarrow> friend_window \<Rightarrow> api_ptr \<Rightarrow> (friend_window \<times> api_ptr) res" where
  "PushFriendRequestAnswer env fl accept i w a =
     bindE (vec_get (Friend_Request_List w) i) (\<lambda>Current_Friend.
     bindE (send_msg env fl C2S_ACCPET_FRIEND (AcceptFriend (m_User_Name w) Current_Friend accept)
              C2S_Packet_ctor a) (\<lambda>(_, a).
     bindE (SortFriendRequest i w) (\<lambda>w. Ok (w, a))))"

definition PushAcceptFriendRequestButton1 where
  "PushAcceptFriendRequestButton1 env fl = PushFriendRequestAnswer env fl True 0"
definition PushAcceptFriendRequestButton2 where
  "PushAcceptFriendRequestButton2 env fl = PushFriendRequestAnswer env fl True 1"
definition PushAcceptFriendRequestButton3 where
  "PushAcceptFriendRequestButton3 env fl = PushFriendRequestAnswer env fl True 2"
definition PushCancelFriendRequestButton1 where
  "PushCancelFriendRequestButton1 env fl = PushFriendRequestAnswer env fl False 0"
definition PushCancelFriendRequestButton2 where
  "PushCancelFriendRequestButton2 env fl = PushFriendRequestAnswer env fl False 1"
definition PushCancelFriendRequestButton3 where
  "PushCancelFriendRequestButton3 env fl = PushFriendRequestAnswer env fl False 2"

subsection \<open>The result line\<close>

definition VisibleUI :: "friend_window \<Rightarrow> friend_window" where
  "VisibleUI w =
     (let Drop_Down_Size = 30 + 5;
          w = w\<lparr>Friend_List_height := Friend_List_height w - Drop_Down_Size,
                Friend_List_Start_y := Friend_List_Start_y w + Drop_Down_Size, result_visible := True\<rparr>
      in w\<lparr>ui_geometry_height := Friend_List_height w, ui_geometry_y := Friend_List_Start_y w\<rparr>)"

definition HideUI :: "friend_window \<Rightarrow> friend_window" where
  "HideUI w =
     (let Up_Size = 30 + 5;
          w = w\<lparr>Friend_List_height := Friend_List_height w + Up_Size,
                Friend_List_Start_y := Friend_List_Start_y w - Up_Size, result_visible := False\<rparr>
      in w\<lparr>ui_geometry_height := Friend_List_height w, ui_geometry_y := Friend_List_Start_y w\<rparr>)"

definition SetVisibleRequestResult :: "bool \<Rightarrow> friend_window \<Rightarrow> friend_window" where
  "SetVisibleRequestResult Visible w =
     (if Visible \<and> Current_Visible_State w = Visible then w\<lparr>Is_Visible_Start := False\<rparr>
      else (if Visible then VisibleUI w else HideUI w)\<lparr>Current_Visible_State := Visible\<rparr>)"

definition PushFriendRequestButton ::
    "os \<Rightarrow> flat \<Rightarrow> string \<Rightarrow> friend_window \<Rightarrow> api_ptr \<Rightarrow> (friend_window \<times> api_ptr) res" where
  "PushFriendRequestButton env fl Friend_ID w a =
     (if Friend_ID \<in> m_Recv_Friend w
      then Ok (SetVisibleRequestResult True (w\<lparr>request_result := Req_Already_Friend\<rparr>), a)
      else if Friend_ID \<in> m_Recv_Friend_Request w
      then Ok (SetVisibleRequestResult True (w\<lparr>request_result := Req_Answer_First\<rparr>), a)
      else if 20 < length Friend_ID
      then Ok (SetVisibleRequestResult True (w\<lparr>request_result := Req_Too_Long\<rparr>), a)
      else if Friend_ID = []
      then Ok (SetVisibleRequestResult True (w\<lparr>request_result := Req_No_ID\<rparr>), a)
      else bindE (send_msg env fl C2S_ADD_FRIEND (AddFriend (m_User_Name w) Friend_ID) C2S_Packet_ctor a)
             (\<lambda>(_, a). Ok (SetVisibleRequestResult True (w\<lparr>request_result := Req_Sent\<rparr>), a)))"

subsection \<open>The friend tree\<close>

text \<open>
  A friend already in a group is not added twice; \<open>sort\<close> is what \<open>sortChildren\<close> makes of the rows.
\<close>

definition addTreeChild ::
    "(string list \<Rightarrow> string list) \<Rightarrow> friend_group \<Rightarrow> string \<Rightarrow> string \<Rightarrow> friend_window \<Rightarrow> friend_window" where
  "addTreeChild srt Parent Name description w =
     (let Column_Msg = Name @ [CHR 0x0A] @ description;
          rows = WidgetRoot_List w Parent;
          rows = (if Column_Msg \<in> set rows then rows else rows @ [Column_Msg])
      in w\<lparr>WidgetRoot_List := (WidgetRoot_List w)(Parent := srt rows)\<rparr>)"

text \<open>The first row of a group is removed as often as the group had rows.\<close>

primrec remove_first :: "nat \<Rightarrow> string list \<Rightarrow> string list" where
  "remove_first 0 rows = rows"
| "remove_first (Suc n) rows = remove_first n (tl rows)"

definition RemoveTreeChildAll :: "friend_window \<Rightarrow> friend_window" where
  "RemoveTreeChildAll w =
     w\<lparr>WidgetRoot_List := (\<lambda>g. remove_first (length (WidgetRoot_List w g)) (WidgetRoot_List w g))\<rparr>"

text \<open>The Korean words of the three groups, in the bytes of the source file (code page 949).\<close>

definition group_text :: "friend_group \<Rightarrow> string" where
  "group_text g =
     (case g of
        In_Game \<Rightarrow> [CHR 0xB0, CHR 0xD4, CHR 0xC0, CHR 0xD3, CHR 0xC1, CHR 0xDF]
      | Online \<Rightarrow> [CHR 0xBF, CHR 0xC2, CHR 0xB6, CHR 0xF3, CHR 0xC0, CHR 0xCE]
      | Offline \<Rightarrow> [CHR 0xBF, CHR 0xC0, CHR 0xC7, CHR 0xC1, CHR 0xB6, CHR 0xF3, CHR 0xC0, CHR 0xCE])"

primrec show_friends ::
    "(string list \<Rightarrow> string list) \<Rightarrow> (string \<times> nat) list \<Rightarrow> friend_window \<Rightarrow> friend_window" where
  "show_friends srt [] w = w"
| "show_friends srt (f # fs) w =
     (let w = w\<lparr>m_Recv_Friend := insert (fst f) (m_Recv_Friend w)\<rparr>
      in show_friends srt fs
           (if snd f = USER_OFFLINE then addTreeChild srt Offline (fst f) (group_text Offline) w
            else if snd f = USER_ONLINE then addTreeChild srt Online (fst f) (group_text Online) w
            else if snd f = USER_IN_GAME then addTreeChild srt In_Game (fst f) (group_text In_Game) w
            else w))"

text \<open>
  The loop over the received requests, from index \<open>i\<close> on: it writes every request up to the fifth into
  the list, which has three places.
\<close>

primrec show_requests :: "string list \<Rightarrow> nat \<Rightarrow> friend_window \<Rightarrow> friend_window res" where
  "show_requests [] i w = Ok w"
| "show_requests (r # rs) i w =
     (let w = w\<lparr>m_Recv_Friend_Request := insert r (m_Recv_Friend_Request w)\<rparr>
      in if 4 < i then show_requests rs (Suc i) w
         else
           bindE (vec_set (Friend_Request_List w) i r) (\<lambda>v.
           bindE (set_row_hidden (int i) False (w\<lparr>Friend_Request_List := v\<rparr>)) (\<lambda>w.
           bindE (set_row_text (int i) r w) (\<lambda>w.
             show_requests rs (Suc i)
               (w\<lparr>Current_Friend_Request_Count := Current_Friend_Request_Count w + 1\<rparr>)))))"

text \<open>The three rows are emptied and hidden, one after the other.\<close>

primrec clear_requests :: "nat \<Rightarrow> nat \<Rightarrow> friend_window \<Rightarrow> friend_window res" where
  "clear_requests 0 i w = Ok w"
| "clear_requests (Suc n) i w =
     (let w = w\<lparr>Current_Friend_Request_Count := 0\<rparr>
      in bindE (vec_set (Friend_Request_List w) i []) (\<lambda>v.
         bindE (set_row_hidden (int i) True (w\<lparr>Friend_Request_List := v\<rparr>)) (clear_requests n (Suc i))))"

definition user_state ::
    "(string list \<Rightarrow> string list) \<Rightarrow> (string \<times> nat) list \<Rightarrow> string list \<Rightarrow> friend_window \<Rightarrow> friend_window res" where
  "user_state srt friends requests w =
     (let w = RemoveTreeChildAll (w\<lparr>m_Recv_Friend := {}, m_Recv_Friend_Request := {}\<rparr>);
          w = show_friends srt friends w
      in if requests = [] then Ok (w\<lparr>item_hidden := True\<rparr>)
         else bindE (clear_requests 3 0 (w\<lparr>item_hidden := False\<rparr>)) (show_requests requests 0))"

subsection \<open>RecvServerPacket\<close>

text \<open>The messages of one \<open>Recv\<close>: each is released.\<close>

fun user_messages ::
    "flat \<Rightarrow> (string list \<Rightarrow> string list) \<Rightarrow> (sock \<times> ptr) list \<Rightarrow> heap \<Rightarrow> friend_window \<Rightarrow>
       (heap \<times> friend_window) res" where
  "user_messages fl srt [] h w = Ok (h, w)"
| "user_messages fl srt ((k, q) # ms) h w =
     bindE (heap_packet q h) (\<lambda>blk.
     bindE (get_Packet_Type blk) (\<lambda>t.
     bindE (if t = S2C_CURRENT_USER_STATE
            then user_state srt (fb_friends fl (packet_buffer blk)) (fb_requests fl (packet_buffer blk)) w
            else Ok w) (\<lambda>w.
     bindE (heap_free q h) (\<lambda>h. user_messages fl srt ms h w))))"

text \<open>The game process: whether the wait for it reported that it is over (or failed).\<close>

definition check_process ::
    "os \<Rightarrow> flat \<Rightarrow> bool \<Rightarrow> friend_window \<Rightarrow> api_ptr \<Rightarrow> (friend_window \<times> api_ptr) res" where
  "check_process env fl over w a =
     (if m_Process w \<and> over
      then bindE (if m_Is_Playing w
                  then bindE (send_msg env fl C2S_PLAY_STATE (PlayState (m_User_Name w) False) C2S_Packet_ctor a)
                         (\<lambda>(_, a). Ok a)
                  else Ok a) (\<lambda>a. Ok (w\<lparr>m_Is_Playing := False\<rparr>, a))
      else Ok (w, a))"

text \<open>The result line goes away after three seconds; times are in 100 ns.\<close>

definition check_visible :: "int \<Rightarrow> int \<times> friend_window \<Rightarrow> int \<times> friend_window" where
  "check_visible now p =
     (case p of (prev, w) \<Rightarrow>
        if Current_Visible_State w
        then let (prev, w) = (if Is_Visible_Start w then (prev, w) else (now, w\<lparr>Is_Visible_Start := True\<rparr>))
             in if 3 * ticks_per_second < now - prev then (now, SetVisibleRequestResult False w)
                else (prev, w)
        else (prev, w))"

definition PushGameStartButton ::
    "os \<Rightarrow> flat \<Rightarrow> friend_window \<Rightarrow> api_ptr \<Rightarrow> (friend_window \<times> api_ptr) res" where
  "PushGameStartButton env fl w a =
     (let w = w\<lparr>m_Process := True\<rparr>
      in if m_Is_Playing w then Ok (w, a)
         else bindE (send_msg env fl C2S_PLAY_STATE (PlayState (m_User_Name w) True) C2S_Packet_ctor a)
                (\<lambda>(_, a). Ok (w\<lparr>m_Is_Playing := True\<rparr>, a)))"

subsection \<open>The content buttons\<close>

definition Focus_Icon_x :: int where "Focus_Icon_x = 29"
definition Non_Focus_Icon_x :: int where "Non_Focus_Icon_x = 9"
definition Icon_Interval :: int where "Icon_Interval = 5"
definition Content_x :: int where "Content_x = 900"

text \<open>\<open>_Start_Icon_X\<close> for \<open>n\<close> buttons, and the left edge and width of each when button \<open>i\<close> has the focus.\<close>

definition Start_Icon_X :: "nat \<Rightarrow> int" where
  "Start_Icon_X n = Content_x - ((Icon_Interval + Non_Focus_Icon_x) * (int n - 1)) - Focus_Icon_x"

primrec content_loop :: "nat \<Rightarrow> nat \<Rightarrow> nat \<Rightarrow> int \<Rightarrow> (int \<times> int) list" where
  "content_loop i j 0 Start_Offset = []"
| "content_loop i j (Suc n) Start_Offset =
     (if j = i
      then (Start_Offset, Focus_Icon_x) # content_loop i (Suc j) n (Start_Offset + Icon_Interval + Focus_Icon_x)
      else (Start_Offset, Non_Focus_Icon_x)
             # content_loop i (Suc j) n (Start_Offset + Icon_Interval + Non_Focus_Icon_x))"

definition PushContentButton :: "nat \<Rightarrow> nat \<Rightarrow> (int \<times> int) list" where
  "PushContentButton n i = content_loop i 0 n (Start_Icon_X n)"

text \<open>The layout the constructor makes, with the focus on the first button.\<close>

definition content_ctor :: "nat \<Rightarrow> (int \<times> int) list" where
  "content_ctor n = map (\<lambda>i. if i = 0 then (Start_Icon_X n, Focus_Icon_x)
     else (Start_Icon_X n + Focus_Icon_x + Icon_Interval + (Icon_Interval + Non_Focus_Icon_x) * (int i - 1),
           Non_Focus_Icon_x)) [0..<n]"

end
