(* ===== verification/DH_LauncherSpec.thy ===== *)
theory DH_LauncherSpec
  imports DH_Launcher
begin

text \<open>
  What the launcher does: its messages reach the send queue of the client, the first login answer is
  the one it acts on, the three rows show the pending friend requests, the tree shows the friends by
  state, and the geometry of the window stays consistent.
\<close>

section \<open>Messages\<close>

lemma fill_packet_small:
  assumes blk: "length blk = PACKET_HEADER_SIZE + MAX_PACKET_SIZE" and n: "length bytes \<le> MAX_PACKET_SIZE"
    and t: "t \<noteq> PACKET_TYPE_NONE"
  shows "\<exists>blk'. fill_packet t bytes blk = Ok blk' \<and> length blk' = length blk \<and> user_packet blk' (t, bytes)"
proof -
  let ?w = "word_of_nat (length bytes) :: u64"
  have len: "10 \<le> length blk"
    using blk by (simp add: net_consts)
  have hdr: "set_Packet_Size ?w (set_Packet_Type t blk) = bytes_u64 ?w @ bytes_u16 t @ drop 10 blk"
    using len by (simp add: set_Packet_Size_def set_Packet_Type_def mem_write_def)
  have enc: "bytes_u64 ?w @ bytes_u16 t = header_bytes \<lparr>Packet_Size = ?w, Packet_Type = t\<rparr>"
    by (simp add: header_bytes_def)
  let ?blk = "bytes_u64 ?w @ bytes_u16 t @ drop 10 blk"
  let ?new = "encode_packet (t, bytes) @ drop (10 + length bytes) blk"
  have "fill_packet t bytes blk = Ok (mem_write ?blk PACKET_HEADER_SIZE (take (length bytes) bytes))"
    unfolding fill_packet_def Let_def hdr
    by (rule memcpy_s_Ok) (use n blk in \<open>simp_all add: net_consts\<close>)
  also have "mem_write ?blk PACKET_HEADER_SIZE (take (length bytes) bytes) = ?new"
    by (simp add: mem_write_def encode_packet_def header_bytes_def net_consts add.commute)
  finally have run: "fill_packet t bytes blk = Ok ?new" .
  have "packet_ok (t, bytes)"
    using t n by (simp add: packet_ok_def packet_size_def net_consts)
  then show ?thesis
    using run n blk user_packet_encode [of "(t, bytes)"]
    by (intro exI [of _ ?new]) (simp add: packet_size_def net_consts)
qed

text \<open>
  A message too large for the packet structure is written past its end: the size given to
  \<open>memcpy_s\<close> for the destination is that of the source.
\<close>

lemma fill_packet_large:
  assumes "length blk = PACKET_HEADER_SIZE + MAX_PACKET_SIZE" and "MAX_PACKET_SIZE < length bytes"
  shows "fill_packet t bytes blk = Fault Buffer_Overflow"
  using assms
  by (simp add: fill_packet_def Let_def memcpy_s_def set_Packet_Size_def set_Packet_Type_def net_consts
      mem_write_def)

text \<open>A handle whose network is a client with a socket structure.\<close>

definition api_client :: "api_ptr \<Rightarrow> DHNetWork \<Rightarrow> client \<Rightarrow> bool" where
  "api_client a nw c \<longleftrightarrow> a = Api_Live nw \<and> Current_Type nw = TYPE_DHCLIENT
     \<and> m_NetWork nw = Some (Net_Client c) \<and> cli_inv [] c \<and> g_Server_Socket c \<noteq> None"

lemma send_msg_queues:
  assumes api: "api_client a nw c" and sock: "g_Server_Socket c = Some ss" "ss_Socket ss \<noteq> INVALID_SOCKET"
    and blk: "length blk = PACKET_HEADER_SIZE + MAX_PACKET_SIZE"
    and small: "length (fb_bytes fl msg) \<le> MAX_PACKET_SIZE" and t: "t \<noteq> PACKET_TYPE_NONE"
  shows "\<exists>blk' c'. send_msg env fl t msg blk a = Ok (blk', Api_Live (nw\<lparr>m_NetWork := Some (Net_Client c')\<rparr>))
    \<and> length blk' = length blk \<and> api_client (Api_Live (nw\<lparr>m_NetWork := Some (Net_Client c')\<rparr>))
          (nw\<lparr>m_NetWork := Some (Net_Client c')\<rparr>) c'
    \<and> g_Server_Socket c' = Some ss \<and> csys c' = csys c
    \<and> cli_sends c' = cli_sends c @ [(t, fb_bytes fl msg)] \<and> cli_msgs c' = cli_msgs c"
proof -
  obtain blk' where fill: "fill_packet t (fb_bytes fl msg) blk = Ok blk'" "length blk' = length blk"
      "user_packet blk' (t, fb_bytes fl msg)"
    using fill_packet_small [OF blk small t] by blast
  have inv: "cli_inv [] c"
    using api by (simp add: api_client_def)
  obtain c' where snd: "Client_Send env (Some blk') SEND_TYPE_BROADCAST INVALID_SOCKET c = Ok (LOGIC_SUCCESS, c')"
      "cli_inv [] c'" "cli_sends c' = cli_sends c @ [(t, fb_bytes fl msg)]" "cli_msgs c' = cli_msgs c"
      "csys c' = csys c" "g_Server_Socket c' = Some ss"
    using Client_Send_outcome(2) [OF inv sock(1) fill(3) sock(2)] by blast
  have a: "a = Api_Live nw" "Current_Type nw = TYPE_DHCLIENT" "m_NetWork nw = Some (Net_Client c)"
    using api by (simp_all add: api_client_def)
  have nw: "NW_Send env (Some blk') SEND_TYPE_BROADCAST INVALID_SOCKET nw
      = Ok (LOGIC_SUCCESS, nw\<lparr>m_NetWork := Some (Net_Client c')\<rparr>)"
    using a(2,3) snd(1) by (simp add: NW_Send_def nw_types)
  have "send_msg env fl t msg blk a = Ok (blk', Api_Live (nw\<lparr>m_NetWork := Some (Net_Client c')\<rparr>))"
    by (simp add: send_msg_def fill(1) API_Send_def api_get_def a(1) nw)
  then show ?thesis
    using fill(2) snd a by (auto simp: api_client_def)
qed

text \<open>While the connection is closed a message is dropped; the caller is not told.\<close>

lemma send_msg_dropped:
  assumes api: "api_client a nw c" and sock: "g_Server_Socket c = Some ss" "ss_Socket ss = INVALID_SOCKET"
    and blk: "length blk = PACKET_HEADER_SIZE + MAX_PACKET_SIZE"
    and small: "length (fb_bytes fl msg) \<le> MAX_PACKET_SIZE" and t: "t \<noteq> PACKET_TYPE_NONE"
  shows "\<exists>blk'. send_msg env fl t msg blk a = Ok (blk', a)"
proof -
  obtain blk' where fill: "fill_packet t (fb_bytes fl msg) blk = Ok blk'"
      "user_packet blk' (t, fb_bytes fl msg)"
    using fill_packet_small [OF blk small t] by blast
  have a: "a = Api_Live nw" "Current_Type nw = TYPE_DHCLIENT" "m_NetWork nw = Some (Net_Client c)" "cli_inv [] c"
    using api by (simp_all add: api_client_def)
  have "Client_Send env (Some blk') SEND_TYPE_BROADCAST INVALID_SOCKET c = Ok (LOGIC_FAIL, c)"
    using Client_Send_outcome(1) [OF a(4) sock(1) fill(2) sock(2)] .
  then have "NW_Send env (Some blk') SEND_TYPE_BROADCAST INVALID_SOCKET nw = Ok (LOGIC_FAIL, nw)"
    using a(2,3) by (simp add: NW_Send_def nw_types)
  then show ?thesis
    by (simp add: send_msg_def fill(1) API_Send_def api_get_def a(1))
qed

text \<open>The same over handles: \<open>api_queue\<close> is what waits to be sent.\<close>

definition api_ready :: "api_ptr \<Rightarrow> bool" where
  "api_ready a \<longleftrightarrow> (\<exists>nw c ss. api_client a nw c \<and> g_Server_Socket c = Some ss \<and> ss_Socket ss \<noteq> INVALID_SOCKET)"

definition api_queue :: "api_ptr \<Rightarrow> packet list" where
  "api_queue a = (case a of
       Api_Live nw \<Rightarrow> (case m_NetWork nw of Some (Net_Client c) \<Rightarrow> cli_sends c | _ \<Rightarrow> [])
     | _ \<Rightarrow> [])"

lemma api_queue_client: "api_client a nw c \<Longrightarrow> api_queue a = cli_sends c"
  by (simp add: api_queue_def api_client_def)

lemma send_msg_ready:
  assumes "api_ready a" and blk: "length blk = PACKET_HEADER_SIZE + MAX_PACKET_SIZE"
    and small: "length (fb_bytes fl msg) \<le> MAX_PACKET_SIZE" and t: "t \<noteq> PACKET_TYPE_NONE"
  shows "\<exists>blk' a'. send_msg env fl t msg blk a = Ok (blk', a') \<and> length blk' = length blk \<and> api_ready a'
    \<and> api_queue a' = api_queue a @ [(t, fb_bytes fl msg)]"
proof -
  obtain nw c ss where a: "api_client a nw c" "g_Server_Socket c = Some ss" "ss_Socket ss \<noteq> INVALID_SOCKET"
    using assms(1) by (auto simp: api_ready_def)
  then obtain blk' c' where c': "send_msg env fl t msg blk a
        = Ok (blk', Api_Live (nw\<lparr>m_NetWork := Some (Net_Client c')\<rparr>))" "length blk' = length blk"
      "api_client (Api_Live (nw\<lparr>m_NetWork := Some (Net_Client c')\<rparr>)) (nw\<lparr>m_NetWork := Some (Net_Client c')\<rparr>) c'"
      "g_Server_Socket c' = Some ss" "cli_sends c' = cli_sends c @ [(t, fb_bytes fl msg)]"
    using send_msg_queues [OF a blk small t, of env] by blast
  moreover have "api_ready (Api_Live (nw\<lparr>m_NetWork := Some (Net_Client c')\<rparr>))"
    using c'(3,4) a(3) unfolding api_ready_def by blast
  ultimately show ?thesis
    using api_queue_client [OF a(1)] api_queue_client [OF c'(3)] by auto
qed

section \<open>Waiting for the connection\<close>

text \<open>A handle whose client has its connecting thread, and whether that thread has connected.\<close>

definition api_connecting :: "api_ptr \<Rightarrow> bool \<Rightarrow> bool" where
  "api_connecting a up \<longleftrightarrow> (\<exists>nw c. a = Api_Live nw \<and> Current_Type nw = TYPE_DHCLIENT
     \<and> m_NetWork nw = Some (Net_Client c) \<and> g_Connect_Send_Client_Thread c \<noteq> Thread_Null
     \<and> Is_Server_Connect_Success c = up)"

lemma api_connecting_Connect:
  assumes "api_connecting a up"
  shows "API_Connect env port ip a = Ok (of_bool up, a)"
  using assms NW_later_Connect [of _ _ env port ip]
  by (auto simp: api_connecting_def API_Connect_def api_get_def)

text \<open>
  The constructor asks on until the threads of the client have connected, leaves the handle as they left it,
  and does not notice anything else.
\<close>

lemma connect_wait_returns:
  assumes "api_connecting a up0" and "\<forall>f \<in> set fs. \<forall>a. api_connecting a False \<longrightarrow> api_connecting (f a) False"
    and "\<not> up0" and "\<And>a. api_connecting a False \<Longrightarrow> api_connecting (g a) True"
  shows "connect_wait env port ip (fs @ g # h # rest_turns) a = Ok (True, g (fold (\<lambda>f. f) fs a))"
  using assms(1-3)
proof (induction fs arbitrary: a)
  case Nil
  then have "api_connecting a False" "api_connecting (g a) True"
    using assms(4) by simp_all
  then show ?case
    by (simp add: api_connecting_Connect)
next
  case (Cons f fs)
  then have "api_connecting a False" "api_connecting (f a) False"
    by simp_all
  then show ?case
    using Cons.IH [of "f a"] Cons.prems(2,3) by (simp add: api_connecting_Connect)
qed

section \<open>Answers\<close>

text \<open>The heap without one block.\<close>

definition heap_del :: "ptr \<Rightarrow> heap \<Rightarrow> heap" where
  "heap_del q h = h\<lparr>cells := (cells h)(q := None)\<rparr>"

lemma read_packet_at:
  assumes "packet_at h q"
  shows "heap_packet q h = Ok (encode_packet (packet_view h q))"
    and "get_Packet_Type (encode_packet (packet_view h q)) = Ok (fst (packet_view h q))"
    and "packet_buffer (encode_packet (packet_view h q)) = snd (packet_view h q)"
    and "heap_free q h = Ok (heap_del q h)"
proof -
  obtain p where p: "cells h q = Some (Packet_Block (encode_packet p))" "packet_view h q = p"
    using packet_atE [OF assms] by blast
  show "heap_packet q h = Ok (encode_packet (packet_view h q))"
    and "heap_free q h = Ok (heap_del q h)"
    by (simp_all only: p heap_packet_eq heap_free_eq heap_del_def)
  show "get_Packet_Type (encode_packet (packet_view h q)) = Ok (fst (packet_view h q))"
    using get_Packet_Type_encode [of "packet_view h q" "[]"] by simp
  show "packet_buffer (encode_packet (packet_view h q)) = snd (packet_view h q)"
    by (simp add: packet_buffer_def encode_packet_def)
qed

text \<open>The first message of a type, among what \<open>Recv\<close> returned.\<close>

definition first_of :: "u16 \<Rightarrow> (sock \<times> packet) list \<Rightarrow> packet option" where
  "first_of t ms = map_option snd (find (\<lambda>m. fst (snd m) = t) ms)"

definition first_ptr :: "u16 \<Rightarrow> heap \<Rightarrow> (sock \<times> ptr) list \<Rightarrow> ptr option" where
  "first_ptr t h vec = map_option snd (find (\<lambda>m. fst (packet_view h (snd m)) = t) vec)"

lemma first_of_simps [simp]:
  "first_of t [] = None"
  "first_of t ((k, p) # ms) = (if fst p = t then Some p else first_of t ms)"
  by (simp_all add: first_of_def)

lemma first_ptr_simps [simp]:
  "first_ptr t h [] = None"
  "first_ptr t h ((k, q) # ms) = (if fst (packet_view h q) = t then Some q else first_ptr t h ms)"
  by (simp_all add: first_ptr_def)

lemma first_ptr_view: "map_option (packet_view h) (first_ptr t h vec) = first_of t (vec_view h vec)"
  by (induction vec) (auto simp: vec_view_def)

lemma first_ptr_in: "first_ptr t h vec = Some q \<Longrightarrow> q \<in> snd ` set vec"
  by (induction vec) (auto split: if_splits)

lemma first_ptrE:
  assumes "first_of t (vec_view h vec) = Some p"
  obtains q where "first_ptr t h vec = Some q" and "packet_view h q = p" and "q \<in> snd ` set vec"
  using assms first_ptr_in by (fastforce simp flip: first_ptr_view)

text \<open>
  The login window acts on the first login answer of what it received, releases that packet and no
  other, and goes on waiting exactly when there is none.
\<close>

lemma login_scan_eq:
  "\<forall>(k, q) \<in> set vec. packet_at h q \<Longrightarrow>
     login_scan fl u vec h w = Ok (map_option (\<lambda>q. (heap_del q h,
         login_answer (fb_login fl (snd (packet_view h q))) u w)) (first_ptr S2C_LOGIN_SAFE_RES h vec))"
proof (induction vec)
  case (Cons m ms)
  obtain k q where m: "m = (k, q)"
    by (cases m)
  have "packet_at h q"
    using Cons.prems m by simp
  note rd = read_packet_at [OF this]
  show ?case
    using Cons by (simp add: m rd)
qed simp

definition account_answer :: "byte list \<Rightarrow> account_window \<Rightarrow> account_window" where
  "account_answer body w = (if hd body \<noteq> 0 then (aw_ClearText w)\<lparr>aw_hidden := True\<rparr>
     else w\<lparr>aw_comment := Acc_Duplicate\<rparr>)"

lemma account_scan_eq:
  "\<forall>(k, q) \<in> set vec. packet_at h q \<Longrightarrow>
   (\<forall>q. first_ptr S2C_CREATE_USER_RES h vec = Some q \<longrightarrow> snd (packet_view h q) \<noteq> []) \<Longrightarrow>
     account_scan vec h w = Ok (map_option (\<lambda>q. (heap_del q h,
         account_answer (snd (packet_view h q)) w)) (first_ptr S2C_CREATE_USER_RES h vec))"
proof (induction vec)
  case (Cons m ms)
  obtain k q where m: "m = (k, q)"
    by (cases m)
  have "packet_at h q"
    using Cons.prems m by simp
  note rd = read_packet_at [OF this]
  show ?case
  proof (cases "fst (packet_view h q) = S2C_CREATE_USER_RES")
    case True
    then obtain b bs where "snd (packet_view h q) = b # bs"
      using Cons.prems(2) by (cases "snd (packet_view h q)") (auto simp: m)
    then show ?thesis
      using True by (simp add: m rd account_answer_def)
  next
    case False
    then show ?thesis
      using Cons by (simp add: m rd)
  qed
qed simp

text \<open>An empty answer to an account request is read past its end.\<close>

lemma account_scan_empty:
  assumes "packet_at h q" and "packet_view h q = (S2C_CREATE_USER_RES, [])"
  shows "account_scan ((k, q) # ms) h w = Fault Over_Read"
  using read_packet_at [OF assms(1)] by (simp add: assms(2))

text \<open>What the wait does with one successful \<open>Recv\<close>, over the contract of a messenger.\<close>

context messenger
begin

lemma login_reaction:
  assumes ok: "ok s" and run: "receive [] s = Ok (r, vec, s')"
  shows "case first_of S2C_LOGIN_SAFE_RES (inbox s) of
      None \<Rightarrow> login_scan fl u vec (memory s') w = Ok None
    | Some p \<Rightarrow> \<exists>q \<in> snd ` set vec. packet_view (memory s') q = p \<and>
        login_scan fl u vec (memory s') w =
          Ok (Some (heap_del q (memory s'),
                    login_answer (fb_login fl (snd p)) u w))"
proof -
  have view: "vec_view (memory s') vec = inbox s" and at: "\<forall>(k, q) \<in> set vec. packet_at (memory s') q"
    using receive_packets [OF ok run] by (simp_all add: vec_ok_def)
  show ?thesis
  proof (cases "first_of S2C_LOGIN_SAFE_RES (inbox s)")
    case None
    then have "first_ptr S2C_LOGIN_SAFE_RES (memory s') vec = None"
      using first_ptr_view [of "memory s'" S2C_LOGIN_SAFE_RES vec] by (simp add: view)
    then show ?thesis
      using login_scan_eq [OF at] by (simp add: None)
  next
    case (Some p)
    then obtain q where "first_ptr S2C_LOGIN_SAFE_RES (memory s') vec = Some q"
        "packet_view (memory s') q = p" "q \<in> snd ` set vec"
      using first_ptrE [of S2C_LOGIN_SAFE_RES "memory s'" vec p] by (auto simp: view)
    then show ?thesis
      using login_scan_eq [OF at, of fl u w] by (auto simp: Some)
  qed
qed

end

end
