(* ===== verification/DH_FriendSpec.thy ===== *)
theory DH_FriendSpec
  imports DH_LauncherSpec
begin

text \<open>
  The friend window: the rows of the pending requests, the tree of friends, the result line and the
  content buttons.
\<close>

section \<open>The rows of the requests\<close>

text \<open>
  \<open>Current_Friend_Request_Count\<close> rows are visible, from the top, and show the first entries of
  \<open>Friend_Request_List\<close>.
\<close>

definition requests_ok :: "friend_window \<Rightarrow> bool" where
  "requests_ok w \<longleftrightarrow> length (Friend_Request_List w) = 3 \<and> length (row_text w) = 3
     \<and> 0 \<le> Current_Friend_Request_Count w \<and> Current_Friend_Request_Count w \<le> 3
     \<and> row_hidden w = map (\<lambda>i. Current_Friend_Request_Count w \<le> int i) [0..<3]
     \<and> (\<forall>i < 3. int i < Current_Friend_Request_Count w \<longrightarrow> row_text w ! i = Friend_Request_List w ! i)"

definition visible_rows :: "friend_window \<Rightarrow> string list" where
  "visible_rows w = map fst (filter (\<lambda>r. \<not> snd r) (zip (row_text w) (row_hidden w)))"

definition remove_nth :: "nat \<Rightarrow> 'a list \<Rightarrow> 'a list" where
  "remove_nth i xs = take i xs @ drop (Suc i) xs"

lemma length3E:
  assumes "length xs = 3"
  obtains a b c where "xs = [a, b, c]"
  using assms by (auto simp: numeral_3_eq_3 length_Suc_conv)

lemma upt_3: "[0..<3] = [0, 1, 2 :: nat]"
  by (simp add: upt_rec)

lemma all_less_3: "(\<forall>i < 3. P i) \<longleftrightarrow> P 0 \<and> P 1 \<and> P (2 :: nat)"
  by (auto simp: numeral_3_eq_3 numeral_2_eq_2 less_Suc_eq)

lemma requests_okE:
  assumes "requests_ok w"
  obtains a b c ta tb tc n where "Friend_Request_List w = [a, b, c]" and "row_text w = [ta, tb, tc]"
    and "n \<le> 3" and "Current_Friend_Request_Count w = int n"
    and "row_hidden w = [n \<le> 0, n \<le> 1, n \<le> 2]"
    and "0 < n \<longrightarrow> ta = a" and "1 < n \<longrightarrow> tb = b" and "2 < n \<longrightarrow> tc = c"
proof -
  obtain a b c where l: "Friend_Request_List w = [a, b, c]"
    using assms length3E by (metis requests_ok_def)
  obtain ta tb tc where t: "row_text w = [ta, tb, tc]"
    using assms length3E by (metis requests_ok_def)
  define n where "n = nat (Current_Friend_Request_Count w)"
  have n: "Current_Friend_Request_Count w = int n" "n \<le> 3"
    using assms by (auto simp: requests_ok_def n_def)
  have h: "row_hidden w = [n \<le> 0, n \<le> 1, n \<le> 2]"
    using assms by (simp add: requests_ok_def upt_3 n(1))
  have "0 < n \<longrightarrow> ta = a" "1 < n \<longrightarrow> tb = b" "2 < n \<longrightarrow> tc = c"
    using assms by (simp_all add: requests_ok_def all_less_3 n(1) l t)
  then show thesis
    using that l t n h by blast
qed

lemma requests_okI:
  assumes "Friend_Request_List w = [a, b, c]" and "row_text w = [ta, tb, tc]"
    and "n \<le> 3" and "Current_Friend_Request_Count w = int n"
    and "row_hidden w = [n \<le> 0, n \<le> 1, n \<le> 2]"
    and "0 < n \<longrightarrow> ta = a" and "1 < n \<longrightarrow> tb = b" and "2 < n \<longrightarrow> tc = c"
  shows "requests_ok w"
  using assms by (simp add: requests_ok_def upt_3 all_less_3)

lemma requests_ok_ctor: "requests_ok GamePlayLauncher_ctor"
  by (rule requests_okI [where n = 0]) (simp_all add: GamePlayLauncher_ctor_def numeral_3_eq_3)

text \<open>What the user sees are the first entries of the list.\<close>

lemma visible_rows_eq:
  assumes "requests_ok w"
  shows "visible_rows w = take (nat (Current_Friend_Request_Count w)) (Friend_Request_List w)"
proof -
  obtain a b c ta tb tc n where w: "Friend_Request_List w = [a, b, c]" "row_text w = [ta, tb, tc]"
      "n \<le> 3" "Current_Friend_Request_Count w = int n" "row_hidden w = [n \<le> 0, n \<le> 1, n \<le> 2]"
      "0 < n \<longrightarrow> ta = a" "1 < n \<longrightarrow> tb = b" "2 < n \<longrightarrow> tc = c"
    using requests_okE [OF assms] .
  consider "n = 0" | "n = 1" | "n = 2" | "n = 3"
    using w(3) by linarith
  then show ?thesis
    by cases (use w in \<open>simp_all add: visible_rows_def\<close>)
qed

text \<open>Answering the request of a visible row takes exactly that row away.\<close>

lemma SortFriendRequest_visible:
  assumes ok: "requests_ok w" and i: "int i < Current_Friend_Request_Count w"
  shows "\<exists>w'. SortFriendRequest i w = Ok w' \<and> requests_ok w'
    \<and> visible_rows w' = remove_nth i (visible_rows w)
    \<and> Current_Friend_Request_Count w' = Current_Friend_Request_Count w - 1
    \<and> w' = w\<lparr>Friend_Request_List := Friend_Request_List w', row_text := row_text w',
             row_hidden := row_hidden w', Current_Friend_Request_Count := Current_Friend_Request_Count w'\<rparr>"
proof -
  obtain a b c ta tb tc n where w: "Friend_Request_List w = [a, b, c]" "row_text w = [ta, tb, tc]"
      "n \<le> 3" "Current_Friend_Request_Count w = int n" "row_hidden w = [n \<le> 0, n \<le> 1, n \<le> 2]"
      "0 < n \<longrightarrow> ta = a" "1 < n \<longrightarrow> tb = b" "2 < n \<longrightarrow> tc = c"
    using requests_okE [OF ok] .
  have cases: "n = 1 \<and> i = 0 \<or> n = 2 \<and> i = 0 \<or> n = 2 \<and> i = 1 \<or> n = 3 \<and> i = 0 \<or> n = 3 \<and> i = 1 \<or> n = 3 \<and> i = 2"
    using i w(3,4) by auto
  show ?thesis
    using cases w
    by (elim disjE conjE)
      (simp_all add: SortFriendRequest_def Let_def numeral_2_eq_2 vec_get_def vec_set_def set_row_text_def
        set_row_hidden_def requests_ok_def visible_rows_def remove_nth_def upt_3 all_less_3 numeral_3_eq_3
        upt_rec)
qed

text \<open>With no row left the row above the first one is taken: a null pointer.\<close>

lemma SortFriendRequest_none:
  assumes "requests_ok w" and "Current_Friend_Request_Count w = 0" and "i < 3"
  shows "SortFriendRequest i w = Fault Null_Deref"
proof -
  obtain a b c ta tb tc and n :: nat where w: "Friend_Request_List w = [a, b, c]" "row_text w = [ta, tb, tc]"
      "row_hidden w = [n \<le> 0, n \<le> 1, n \<le> 2]"
    by (rule requests_okE [OF assms(1)]) blast
  have "i = 0 \<or> i = 1 \<or> i = 2"
    using assms(3) by auto
  then show ?thesis
    using w assms(2)
    by (elim disjE) (simp_all add: SortFriendRequest_def Let_def numeral_2_eq_2 vec_get_def vec_set_def
        set_row_text_def set_row_hidden_def)
qed

section \<open>The tree of friends\<close>

definition group_state :: "friend_group \<Rightarrow> nat" where
  "group_state g = (case g of In_Game \<Rightarrow> USER_IN_GAME | Online \<Rightarrow> USER_ONLINE | Offline \<Rightarrow> USER_OFFLINE)"

definition friend_row :: "friend_group \<Rightarrow> string \<Rightarrow> string" where
  "friend_row g name = name @ [CHR 0x0A] @ group_text g"

definition rows_of :: "friend_group \<Rightarrow> (string \<times> nat) list \<Rightarrow> string set" where
  "rows_of g fs = (\<lambda>f. friend_row g (fst f)) ` {f \<in> set fs. snd f = group_state g}"

lemma remove_first_all: "remove_first (length xs) xs = []"
  by (induction xs) auto

lemma RemoveTreeChildAll_eq: "RemoveTreeChildAll w = w\<lparr>WidgetRoot_List := (\<lambda>g. [])\<rparr>"
  by (simp add: RemoveTreeChildAll_def remove_first_all)

lemma user_states: "USER_OFFLINE \<noteq> USER_ONLINE" "USER_OFFLINE \<noteq> USER_IN_GAME" "USER_ONLINE \<noteq> USER_IN_GAME"
  by (simp_all add: USER_OFFLINE_def USER_ONLINE_def USER_IN_GAME_def)

lemma rows_of_Cons:
  "rows_of g (f # fs) = (if snd f = group_state g then {friend_row g (fst f)} else {}) \<union> rows_of g fs"
  by (auto simp: rows_of_def)

definition sorts :: "(string list \<Rightarrow> string list) \<Rightarrow> bool" where
  "sorts srt \<longleftrightarrow> (\<forall>xs. mset (srt xs) = mset xs)"

lemma sortsD: "sorts srt \<Longrightarrow> set (srt xs) = set xs" "sorts srt \<Longrightarrow> distinct (srt xs) = distinct xs"
  by (metis sorts_def set_mset_mset, metis sorts_def mset_eq_imp_distinct_iff)

lemma addTreeChild_eq:
  "addTreeChild srt g name (group_text g) w =
     w\<lparr>WidgetRoot_List := (WidgetRoot_List w)(g := srt (
         if friend_row g name \<in> set (WidgetRoot_List w g) then WidgetRoot_List w g
         else WidgetRoot_List w g @ [friend_row g name]))\<rparr>"
  by (simp add: addTreeChild_def friend_row_def Let_def)

text \<open>One friend goes into the group of its state; an unknown state shows it nowhere.\<close>

lemma show_friends_step:
  "show_friends srt (f # fs) w = show_friends srt fs
     (let w = w\<lparr>m_Recv_Friend := insert (fst f) (m_Recv_Friend w)\<rparr>
      in case filter (\<lambda>g. snd f = group_state g) [Offline, Online, In_Game] of
           [] \<Rightarrow> w | g # _ \<Rightarrow> addTreeChild srt g (fst f) (group_text g) w)"
  by (simp add: Let_def group_state_def)

lemma show_friends_eq:
  assumes srt: "sorts srt"
  shows "\<exists>T. show_friends srt fs w = w\<lparr>m_Recv_Friend := m_Recv_Friend w \<union> fst ` set fs, WidgetRoot_List := T\<rparr>
    \<and> (\<forall>g. set (T g) = set (WidgetRoot_List w g) \<union> rows_of g fs
         \<and> (distinct (WidgetRoot_List w g) \<longrightarrow> distinct (T g)))"
proof (induction fs arbitrary: w)
  case Nil
  then show ?case
    by (intro exI [of _ "WidgetRoot_List w"]) (simp add: rows_of_def)
next
  case (Cons f fs)
  let ?w = "w\<lparr>m_Recv_Friend := insert (fst f) (m_Recv_Friend w)\<rparr>"
  show ?case
  proof (cases "\<exists>g. snd f = group_state g")
    case False
    then have "show_friends srt (f # fs) w = show_friends srt fs ?w"
      by (simp add: show_friends_step Let_def del: show_friends.simps)
    moreover have "rows_of g (f # fs) = rows_of g fs" for g
      using False by (simp add: rows_of_Cons)
    ultimately show ?thesis
      using Cons.IH [of ?w] by simp
  next
    case True
    then obtain g where g: "snd f = group_state g"
      by blast
    have only: "snd f = group_state g' \<longleftrightarrow> g' = g" for g'
      using g user_states by (cases g; cases g') (auto simp: group_state_def)
    have pick: "filter (\<lambda>g. snd f = group_state g) [Offline, Online, In_Game] = [g]"
      by (cases g) (simp_all add: only)
    let ?v = "addTreeChild srt g (fst f) (group_text g) ?w"
    have run: "show_friends srt (f # fs) w = show_friends srt fs ?v"
      by (simp only: show_friends_step pick Let_def list.case)
    obtain T where T: "show_friends srt fs ?v
        = ?v\<lparr>m_Recv_Friend := m_Recv_Friend ?v \<union> fst ` set fs, WidgetRoot_List := T\<rparr>"
      "\<And>g. set (T g) = set (WidgetRoot_List ?v g) \<union> rows_of g fs"
      "\<And>g. distinct (WidgetRoot_List ?v g) \<Longrightarrow> distinct (T g)"
      using Cons.IH [of ?v] by blast
    have tree: "set (WidgetRoot_List ?v g') = set (WidgetRoot_List w g')
        \<union> (if snd f = group_state g' then {friend_row g' (fst f)} else {})" for g'
      by (auto simp: addTreeChild_eq sortsD [OF srt] only)
    have dist: "distinct (WidgetRoot_List w g') \<Longrightarrow> distinct (WidgetRoot_List ?v g')" for g'
      by (auto simp: addTreeChild_eq sortsD [OF srt])
    have sets: "set (T g') = set (WidgetRoot_List w g') \<union> rows_of g' (f # fs)" for g'
      unfolding T(2) tree rows_of_Cons by blast
    have "show_friends srt (f # fs) w
        = w\<lparr>m_Recv_Friend := m_Recv_Friend w \<union> fst ` set (f # fs), WidgetRoot_List := T\<rparr>"
      unfolding run T(1) by (simp add: addTreeChild_eq)
    then show ?thesis
      using T(3) dist sets by blast
  qed
qed

section \<open>The state of the user\<close>

lemma clear_requests_eq:
  assumes "requests_ok w"
  shows "clear_requests 3 0 w = Ok (w\<lparr>Current_Friend_Request_Count := 0,
           Friend_Request_List := [[], [], []], row_hidden := [True, True, True]\<rparr>)"
proof -
  obtain a b c and n :: nat where w: "Friend_Request_List w = [a, b, c]"
      "row_hidden w = [n \<le> 0, n \<le> 1, n \<le> 2]"
    by (rule requests_okE [OF assms]) blast
  then show ?thesis
    by (simp add: numeral_3_eq_3 Let_def vec_set_def set_row_hidden_def)
qed

text \<open>Up to three requests fill the rows from the top.\<close>

lemma show_requests_few:
  assumes w: "Friend_Request_List w = [[], [], []]" "row_hidden w = [True, True, True]"
      "Current_Friend_Request_Count w = 0" "row_text w = [ta, tb, tc]"
    and few: "length rq \<le> 3"
  shows "show_requests rq 0 w = Ok (w\<lparr>m_Recv_Friend_Request := m_Recv_Friend_Request w \<union> set rq,
        Friend_Request_List := take 3 (rq @ [[], [], []]), row_text := rq @ drop (length rq) [ta, tb, tc],
        row_hidden := [length rq \<le> 0, length rq \<le> 1, length rq \<le> 2],
        Current_Friend_Request_Count := int (length rq)\<rparr>)"
proof -
  consider "rq = []" | x where "rq = [x]" | x y where "rq = [x, y]" | x y z where "rq = [x, y, z]"
  proof (cases rq rule: list.exhaust [case_names Nil Cons])
    case (Cons x xs)
    then show thesis
      using that few by (cases xs; cases "tl xs") auto
  qed
  then show ?thesis
    by cases (cases w, use w in \<open>simp add: Let_def vec_set_def set_row_hidden_def set_row_text_def
      numeral_3_eq_3 numeral_2_eq_2 insert_commute\<close>)+
qed

text \<open>
  A fourth request is written past the end of the list: the test \<open>i > 4\<close> lets five through, the list
  has three places.
\<close>

lemma show_requests_many:
  assumes w: "length (Friend_Request_List w) = 3" "length (row_hidden w) = 3" "length (row_text w) = 3"
    and many: "3 < length rq"
  shows "show_requests rq 0 w = Fault Buffer_Overflow"
proof -
  obtain x y z u rest where rq: "rq = x # y # z # u # rest"
    using many by (auto simp: numeral_3_eq_3 Suc_less_eq2 length_Suc_conv less_Suc_eq_le Suc_le_length_iff
        neq_Nil_conv)
  obtain a b c ta tb tc ha hb hc where "Friend_Request_List w = [a, b, c]" "row_text w = [ta, tb, tc]"
      "row_hidden w = [ha, hb, hc]"
    using w length3E by metis
  then show ?thesis
    by (simp add: rq Let_def vec_set_def set_row_hidden_def set_row_text_def numeral_3_eq_3)
qed

text \<open>The tree and the two sets are built anew.\<close>

lemma update_friends:
  assumes "sorts srt"
  shows "\<exists>T. show_friends srt friends (RemoveTreeChildAll (w\<lparr>m_Recv_Friend := {}, m_Recv_Friend_Request := {}\<rparr>))
      = w\<lparr>m_Recv_Friend_Request := {}, m_Recv_Friend := fst ` set friends, WidgetRoot_List := T\<rparr>
    \<and> (\<forall>g. distinct (T g) \<and> set (T g) = rows_of g friends)"
  using show_friends_eq [OF assms, of friends "w\<lparr>m_Recv_Friend := {}, m_Recv_Friend_Request := {},
      WidgetRoot_List := (\<lambda>g. [])\<rparr>"]
  by (auto simp: RemoveTreeChildAll_eq)

text \<open>What the result line consists of.\<close>

definition result_line :: "friend_window \<Rightarrow> bool \<times> bool \<times> bool \<times> int \<times> int \<times> int \<times> int" where
  "result_line w = (Current_Visible_State w, Is_Visible_Start w, result_visible w, Friend_List_height w,
     Friend_List_Start_y w, ui_geometry_height w, ui_geometry_y w)"

lemma user_state_correct:
  assumes ok: "requests_ok w" and srt: "sorts srt" and few: "length requests \<le> 3"
  shows "\<exists>w'. user_state srt friends requests w = Ok w' \<and> requests_ok w'
    \<and> m_Recv_Friend w' = fst ` set friends \<and> m_Recv_Friend_Request w' = set requests
    \<and> (\<forall>g. distinct (WidgetRoot_List w' g) \<and> set (WidgetRoot_List w' g) = rows_of g friends)
    \<and> item_hidden w' = (requests = [])
    \<and> visible_rows w' = (if requests = [] then visible_rows w else requests)
    \<and> m_User_Name w' = m_User_Name w \<and> m_Is_Playing w' = m_Is_Playing w
    \<and> m_Process w' = m_Process w \<and> result_line w' = result_line w"
proof -
  obtain T where T: "show_friends srt friends
        (RemoveTreeChildAll (w\<lparr>m_Recv_Friend := {}, m_Recv_Friend_Request := {}\<rparr>))
      = w\<lparr>m_Recv_Friend_Request := {}, m_Recv_Friend := fst ` set friends, WidgetRoot_List := T\<rparr>"
    "\<And>g. set (T g) = rows_of g friends" "\<And>g. distinct (T g)"
    using update_friends [OF srt] by blast
  let ?v = "\<lambda>b. w\<lparr>m_Recv_Friend_Request := {}, m_Recv_Friend := fst ` set friends, WidgetRoot_List := T,
    item_hidden := b\<rparr>"
  have okv: "requests_ok (?v b)" for b :: bool
    using ok by (simp add: requests_ok_def)
  show ?thesis
  proof (cases "requests = []")
    case True
    have "visible_rows (?v True) = visible_rows w"
      by (simp add: visible_rows_def)
    then show ?thesis
      using True T okv [of True] by (simp add: user_state_def Let_def result_line_def)
  next
    case False
    let ?u = "(?v False)\<lparr>Current_Friend_Request_Count := 0, Friend_Request_List := [[], [], []],
      row_hidden := [True, True, True]\<rparr>"
    obtain ta tb tc where "row_text w = [ta, tb, tc]"
      using ok length3E [of "row_text w"] by (auto simp: requests_ok_def)
    then have run: "show_requests requests 0 ?u = Ok (?u\<lparr>m_Recv_Friend_Request :=
          m_Recv_Friend_Request ?u \<union> set requests, Friend_Request_List := take 3 (requests @ [[], [], []]),
          row_text := requests @ drop (length requests) [ta, tb, tc],
          row_hidden := [length requests \<le> 0, length requests \<le> 1, length requests \<le> 2],
          Current_Friend_Request_Count := int (length requests)\<rparr>)"
      using show_requests_few [of ?u ta tb tc requests] few by simp
    let ?x = "?u\<lparr>m_Recv_Friend_Request := m_Recv_Friend_Request ?u \<union> set requests,
        Friend_Request_List := take 3 (requests @ [[], [], []]),
        row_text := requests @ drop (length requests) [ta, tb, tc],
        row_hidden := [length requests \<le> 0, length requests \<le> 1, length requests \<le> 2],
        Current_Friend_Request_Count := int (length requests)\<rparr>"
    have go: "user_state srt friends requests w = Ok ?x"
      using False clear_requests_eq [OF okv [of False]] run(1) by (simp add: user_state_def T(1) Let_def)
    have okx: "requests_ok ?x"
      using few by (auto simp: requests_ok_def upt_3 nth_append)
    have "visible_rows ?x = requests"
      using visible_rows_eq [OF okx] few by simp
    then show ?thesis
      using okx False T go by (simp add: result_line_def)
  qed
qed

lemma user_state_many:
  assumes ok: "requests_ok w" and srt: "sorts srt" and many: "3 < length requests"
  shows "user_state srt friends requests w = Fault Buffer_Overflow"
proof -
  obtain T where T: "show_friends srt friends
        (RemoveTreeChildAll (w\<lparr>m_Recv_Friend := {}, m_Recv_Friend_Request := {}\<rparr>))
      = w\<lparr>m_Recv_Friend_Request := {}, m_Recv_Friend := fst ` set friends, WidgetRoot_List := T\<rparr>"
    using update_friends [OF srt] by blast
  let ?v = "w\<lparr>m_Recv_Friend_Request := {}, m_Recv_Friend := fst ` set friends, WidgetRoot_List := T,
    item_hidden := False\<rparr>"
  have okv: "requests_ok ?v"
    using ok by (simp add: requests_ok_def)
  have "show_requests requests 0 (?v\<lparr>Current_Friend_Request_Count := 0, Friend_Request_List := [[], [], []],
      row_hidden := [True, True, True]\<rparr>) = Fault Buffer_Overflow"
    using ok many by (intro show_requests_many) (simp_all add: requests_ok_def)
  then show ?thesis
    using many clear_requests_eq [OF okv] by (auto simp: user_state_def T Let_def)
qed

section \<open>The messages of one Recv\<close>

text \<open>The bodies of the user states among the messages; the last one is what the window shows.\<close>

definition states_in :: "(sock \<times> packet) list \<Rightarrow> byte list list" where
  "states_in ms = map (\<lambda>m. snd (snd m)) (filter (\<lambda>m. fst (snd m) = S2C_CURRENT_USER_STATE) ms)"

primrec state_updates ::
    "flat \<Rightarrow> (string list \<Rightarrow> string list) \<Rightarrow> byte list list \<Rightarrow> friend_window \<Rightarrow> friend_window res" where
  "state_updates fl srt [] w = Ok w"
| "state_updates fl srt (b # bs) w =
     bindE (user_state srt (fb_friends fl b) (fb_requests fl b) w) (state_updates fl srt bs)"

definition heap_clear :: "ptr list \<Rightarrow> heap \<Rightarrow> heap" where
  "heap_clear qs h = fold heap_del qs h"

lemma heap_clear_simps [simp]: "heap_clear [] h = h" "heap_clear (q # qs) h = heap_clear qs (heap_del q h)"
  by (simp_all add: heap_clear_def)

lemma cells_heap_clear: "cells (heap_clear qs h) x = (if x \<in> set qs then None else cells h x)"
  by (induction qs arbitrary: h) (auto simp: heap_del_def)

lemma packet_at_del:
  assumes "q \<noteq> x"
  shows "packet_at (heap_del x h) q = packet_at h q" and "packet_view (heap_del x h) q = packet_view h q"
  using assms by (simp_all add: packet_at_def packet_view_def heap_del_def)

lemma user_messages_eq:
  "\<forall>(k, q) \<in> set vec. packet_at h q \<Longrightarrow> distinct (map snd vec) \<Longrightarrow>
     user_messages fl srt vec h w
       = bindE (state_updates fl srt (states_in (vec_view h vec)) w) (\<lambda>w. Ok (heap_clear (map snd vec) h, w))"
proof (induction vec arbitrary: h w)
  case Nil
  then show ?case
    by (simp add: states_in_def vec_view_def)
next
  case (Cons m ms)
  obtain k q where m: "m = (k, q)"
    by (cases m)
  have q: "packet_at h q"
    using Cons.prems m by simp
  note rd = read_packet_at [OF q]
  have other: "(k', q') \<in> set ms \<Longrightarrow> q' \<noteq> q" for k' q'
    using Cons.prems(2) m by force
  have at: "\<forall>(k, q') \<in> set ms. packet_at (heap_del q h) q'"
    using Cons.prems(1) other m by (auto simp: packet_at_del)
  have view: "vec_view (heap_del q h) ms = vec_view h ms"
    using other by (auto simp: vec_view_def packet_at_del)
  have IH: "user_messages fl srt ms (heap_del q h) w
      = bindE (state_updates fl srt (states_in (vec_view h ms)) w)
          (\<lambda>w. Ok (heap_clear (map snd ms) (heap_del q h), w))" for w
    using Cons.IH [OF at, of w] Cons.prems(2) by (simp add: view m)
  have head: "states_in (vec_view h (m # ms)) = (if fst (packet_view h q) = S2C_CURRENT_USER_STATE
      then [snd (packet_view h q)] else []) @ states_in (vec_view h ms)"
    by (simp add: states_in_def vec_view_def m)
  show ?case
    unfolding head
    by (cases "user_state srt (fb_friends fl (snd (packet_view h q))) (fb_requests fl (snd (packet_view h q))) w")
      (simp_all add: m rd IH)
qed

lemma state_updates_correct:
  assumes srt: "sorts srt"
  shows "requests_ok w \<Longrightarrow> \<forall>b \<in> set bs. length (fb_requests fl b) \<le> 3 \<Longrightarrow>
    \<exists>w'. state_updates fl srt bs w = Ok w' \<and> requests_ok w' \<and> result_line w' = result_line w
      \<and> (bs \<noteq> [] \<longrightarrow> m_Recv_Friend w' = fst ` set (fb_friends fl (last bs))
           \<and> m_Recv_Friend_Request w' = set (fb_requests fl (last bs))
           \<and> (\<forall>g. distinct (WidgetRoot_List w' g) \<and> set (WidgetRoot_List w' g) = rows_of g (fb_friends fl (last bs)))
           \<and> item_hidden w' = (fb_requests fl (last bs) = [])
           \<and> (fb_requests fl (last bs) \<noteq> [] \<longrightarrow> visible_rows w' = fb_requests fl (last bs)))"
proof (induction bs arbitrary: w)
  case (Cons b bs)
  obtain v where v: "user_state srt (fb_friends fl b) (fb_requests fl b) w = Ok v" "requests_ok v"
      "m_Recv_Friend v = fst ` set (fb_friends fl b)" "m_Recv_Friend_Request v = set (fb_requests fl b)"
      "\<forall>g. distinct (WidgetRoot_List v g) \<and> set (WidgetRoot_List v g) = rows_of g (fb_friends fl b)"
      "item_hidden v = (fb_requests fl b = [])"
      "visible_rows v = (if fb_requests fl b = [] then visible_rows w else fb_requests fl b)"
      "result_line v = result_line w"
    using user_state_correct [OF Cons.prems(1) srt, of "fb_requests fl b" "fb_friends fl b"] Cons.prems(2)
    by auto
  obtain w' where "state_updates fl srt bs v = Ok w'" "requests_ok w'" "result_line w' = result_line v"
      "bs \<noteq> [] \<longrightarrow> m_Recv_Friend w' = fst ` set (fb_friends fl (last bs))
           \<and> m_Recv_Friend_Request w' = set (fb_requests fl (last bs))
           \<and> (\<forall>g. distinct (WidgetRoot_List w' g) \<and> set (WidgetRoot_List w' g) = rows_of g (fb_friends fl (last bs)))
           \<and> item_hidden w' = (fb_requests fl (last bs) = [])
           \<and> (fb_requests fl (last bs) \<noteq> [] \<longrightarrow> visible_rows w' = fb_requests fl (last bs))"
    using Cons.IH [OF v(2)] Cons.prems(2) by auto
  then show ?case
    using v by (cases "bs = []") auto
qed simp

end
