(* ===== verification/DH_WindowSpec.thy ===== *)
theory DH_WindowSpec
  imports DH_FriendSpec
begin

text \<open>
  The rest of the friend window: the line that shows the result of a friend request and goes away by
  itself, the content buttons, the game process, and the window as a whole as a step relation.
\<close>

section \<open>The result line\<close>

text \<open>
  The list of friends makes room of 35 pixels for the line: while the line is visible it starts at 225
  and not at 190, and always ends at 721.
\<close>

definition geometry_ok :: "friend_window \<Rightarrow> bool" where
  "geometry_ok w \<longleftrightarrow> result_visible w = Current_Visible_State w
     \<and> Friend_List_Start_y w = (if Current_Visible_State w then 225 else 190)
     \<and> Friend_List_Start_y w + Friend_List_height w = 721
     \<and> ui_geometry_y w = Friend_List_Start_y w \<and> ui_geometry_height w = Friend_List_height w"

lemma geometry_ok_result_line:
  "result_line w' = result_line w \<Longrightarrow> geometry_ok w' = geometry_ok w"
  by (simp add: result_line_def geometry_ok_def)

lemma geometry_ok_ctor: "geometry_ok GamePlayLauncher_ctor"
  by (simp add: geometry_ok_def GamePlayLauncher_ctor_def)

lemma geometry_ok_show: "geometry_ok w \<Longrightarrow> geometry_ok (SetVisibleRequestResult True w)"
  by (auto simp: geometry_ok_def SetVisibleRequestResult_def VisibleUI_def Let_def)

text \<open>Hiding twice would move the list up twice; it is asked for only while the line is visible.\<close>

lemma geometry_ok_hide:
  "geometry_ok w \<Longrightarrow> Current_Visible_State w \<Longrightarrow> geometry_ok (SetVisibleRequestResult False w)"
  by (auto simp: geometry_ok_def SetVisibleRequestResult_def HideUI_def Let_def)

lemma SetVisible_requests:
  "requests_ok (SetVisibleRequestResult b w) = requests_ok w"
  "visible_rows (SetVisibleRequestResult b w) = visible_rows w"
  "m_Is_Playing (SetVisibleRequestResult b w) = m_Is_Playing w"
  "m_Process (SetVisibleRequestResult b w) = m_Process w"
  "m_User_Name (SetVisibleRequestResult b w) = m_User_Name w"
  "Current_Visible_State (SetVisibleRequestResult b w) = b"
  by (auto simp: SetVisibleRequestResult_def VisibleUI_def HideUI_def Let_def requests_ok_def visible_rows_def)

lemma check_visible_requests:
  assumes "check_visible now (prev, w) = (prev', w')"
  shows "requests_ok w' = requests_ok w" and "visible_rows w' = visible_rows w"
    and "m_Is_Playing w' = m_Is_Playing w" and "m_Process w' = m_Process w"
    and "geometry_ok w \<Longrightarrow> geometry_ok w'"
proof -
  have upd: "requests_ok (w\<lparr>Is_Visible_Start := b\<rparr>) = requests_ok w"
    "visible_rows (w\<lparr>Is_Visible_Start := b\<rparr>) = visible_rows w"
    "geometry_ok (w\<lparr>Is_Visible_Start := b\<rparr>) = geometry_ok w" for b
    by (simp_all add: requests_ok_def visible_rows_def geometry_ok_def)
  show "requests_ok w' = requests_ok w" and "visible_rows w' = visible_rows w"
    and "m_Is_Playing w' = m_Is_Playing w" and "m_Process w' = m_Process w"
    using assms by (auto simp: check_visible_def Let_def SetVisible_requests upd split: if_splits)
  show "geometry_ok w \<Longrightarrow> geometry_ok w'"
    using assms by (auto simp: check_visible_def Let_def upd intro!: geometry_ok_hide split: if_splits)
qed

text \<open>
  A line shown for the first time: the clock starts at the first check after that, every check within
  three seconds leaves the line, and the first one after them takes it away.
\<close>

lemma result_line_stays:
  assumes vis: "Current_Visible_State w" and start: "\<not> Is_Visible_Start w"
  shows "(\<forall>t \<in> set ts. t - t0 \<le> 3 * ticks_per_second) \<Longrightarrow>
    fold check_visible (t0 # ts) (prev, w) = (t0, w\<lparr>Is_Visible_Start := True\<rparr>)"
proof (induction ts rule: rev_induct)
  case Nil
  then show ?case
    using vis start by (simp add: check_visible_def Let_def ticks_per_second_def)
next
  case (snoc t ts)
  then have IH: "fold check_visible (t0 # ts) (prev, w) = (t0, w\<lparr>Is_Visible_Start := True\<rparr>)"
    by simp
  have "fold check_visible (t0 # ts @ [t]) (prev, w) = check_visible t (fold check_visible (t0 # ts) (prev, w))"
    by simp
  also have "\<dots> = (t0, w\<lparr>Is_Visible_Start := True\<rparr>)"
    unfolding IH using vis snoc.prems by (simp add: check_visible_def)
  finally show ?case .
qed

lemma result_line_goes:
  assumes "Current_Visible_State w" and "Is_Visible_Start w" and "3 * ticks_per_second < t - t0"
  shows "check_visible t (t0, w) = (t, SetVisibleRequestResult False w)"
  using assms by (simp add: check_visible_def)

text \<open>
  Taking the line away leaves \<open>_Is_Visible_Start\<close> set. The clock of the next line therefore still
  runs from the time the last one went away: shown more than three seconds later, the new line is
  taken away at the very next check.
\<close>

lemma SetVisible_start:
  "Is_Visible_Start (SetVisibleRequestResult False w) = Is_Visible_Start w"
  "\<not> Current_Visible_State w \<Longrightarrow> Is_Visible_Start (SetVisibleRequestResult True w) = Is_Visible_Start w"
  by (simp_all add: SetVisibleRequestResult_def HideUI_def VisibleUI_def Let_def)

lemma second_line_lost:
  assumes vis: "Current_Visible_State w" and start: "Is_Visible_Start w"
    and over: "3 * ticks_per_second < t - t0" and late: "3 * ticks_per_second < t' - t"
  shows "\<exists>w1. check_visible t (t0, w) = (t, w1)
    \<and> (let w2 = SetVisibleRequestResult True w1
       in Current_Visible_State w2 \<and> check_visible t' (t, w2) = (t', SetVisibleRequestResult False w2))"
proof -
  let ?w1 = "SetVisibleRequestResult False w"
  let ?w2 = "SetVisibleRequestResult True ?w1"
  have "Is_Visible_Start ?w2" "Current_Visible_State ?w2"
    using start by (simp_all add: SetVisible_start SetVisible_requests)
  then show ?thesis
    using result_line_goes [OF vis start over] result_line_goes [OF _ _ late, of ?w2] by (simp add: Let_def)
qed

section \<open>The content buttons\<close>

text \<open>
  Button \<open>i\<close> has the focus. Every button starts one interval after the end of the one before, and the
  last one ends at \<open>Content_x\<close> whichever button has the focus.
\<close>

lemma length_content_loop [simp]: "length (content_loop i j n x) = n"
  by (induction n arbitrary: j x) auto

definition icon_x :: "nat \<Rightarrow> nat \<Rightarrow> int" where
  "icon_x i j = (if j = i then Focus_Icon_x else Non_Focus_Icon_x)"

text \<open>The left edges are the sums of the widths and intervals before.\<close>

lemma content_loop_nth:
  "m < n \<Longrightarrow> content_loop i j n x ! m
     = (x + (\<Sum>l\<leftarrow>[j..<j + m]. icon_x i l + Icon_Interval), icon_x i (j + m))"
proof (induction n arbitrary: j x m)
  case (Suc n)
  show ?case
  proof (cases m)
    case 0
    then show ?thesis
      by (simp add: icon_x_def)
  next
    case (Suc m')
    have step: "content_loop i j (Suc n) x ! m = content_loop i (Suc j) n (x + icon_x i j + Icon_Interval) ! m'"
      by (simp add: Suc icon_x_def algebra_simps)
    have upt: "[j..<j + m] = j # [Suc j..<Suc j + m']"
      using Suc by (simp add: upt_conv_Cons)
    show ?thesis
      unfolding step upt using Suc.IH [of m' "Suc j"] Suc.prems Suc by simp
  qed
qed simp

lemma PushContentButton_next:
  assumes "Suc j < n"
  shows "fst (PushContentButton n i ! Suc j)
    = fst (PushContentButton n i ! j) + snd (PushContentButton n i ! j) + Icon_Interval"
  using assms by (simp add: PushContentButton_def content_loop_nth)

lemma icons_sum:
  "i < n \<Longrightarrow> (\<Sum>l\<leftarrow>[0..<n]. icon_x i l + Icon_Interval)
     = int n * (Non_Focus_Icon_x + Icon_Interval) + (Focus_Icon_x - Non_Focus_Icon_x)"
proof -
  have "(\<Sum>l\<leftarrow>[0..<n]. icon_x i l + Icon_Interval)
      = int n * (Non_Focus_Icon_x + Icon_Interval) + (if i < n then Focus_Icon_x - Non_Focus_Icon_x else 0)"
    by (induction n) (auto simp: icon_x_def algebra_simps less_Suc_eq)
  then show "i < n \<Longrightarrow> ?thesis"
    by simp
qed

lemma PushContentButton_end:
  assumes i: "i < n"
  shows "fst (PushContentButton n i ! (n - 1)) + snd (PushContentButton n i ! (n - 1)) = Content_x"
proof -
  obtain m where n: "n = Suc m"
    using i by (cases n) auto
  have "fst (PushContentButton n i ! m) + snd (PushContentButton n i ! m)
      = Start_Icon_X n + (\<Sum>l\<leftarrow>[0..<n]. icon_x i l + Icon_Interval) - Icon_Interval"
    by (simp add: n PushContentButton_def content_loop_nth del: content_loop.simps)
  also have "\<dots> = Content_x"
    unfolding icons_sum [OF i]
    by (simp add: n Start_Icon_X_def algebra_simps)
  finally show ?thesis
    by (simp add: n)
qed

text \<open>The constructor makes the layout that the first button makes.\<close>

lemma content_ctor_eq: "content_ctor n = PushContentButton n 0"
proof (rule nth_equalityI)
  fix m
  assume m: "m < length (content_ctor n)"
  have "(\<Sum>l\<leftarrow>[0..<Suc k]. icon_x 0 l + Icon_Interval)
      = Focus_Icon_x + Icon_Interval + (Icon_Interval + Non_Focus_Icon_x) * int k" for k
    by (induction k) (simp_all add: icon_x_def algebra_simps)
  then show "content_ctor n ! m = PushContentButton n 0 ! m"
    using m by (cases m) (simp_all add: content_ctor_def PushContentButton_def content_loop_nth icon_x_def
        del: upt_Suc)
qed (simp add: content_ctor_def PushContentButton_def)

section \<open>The window as a whole\<close>

definition flat_small :: "flat \<Rightarrow> bool" where
  "flat_small fl \<longleftrightarrow> (\<forall>msg. length (fb_bytes fl msg) \<le> MAX_PACKET_SIZE)"

lemma flat_smallD: "flat_small fl \<Longrightarrow> length (fb_bytes fl msg) \<le> MAX_PACKET_SIZE"
  by (simp add: flat_small_def)

lemma launcher_types:
  "C2S_LOGIN_SAFE_REQ \<noteq> PACKET_TYPE_NONE" "C2S_ADD_FRIEND \<noteq> PACKET_TYPE_NONE"
  "C2S_ACCPET_FRIEND \<noteq> PACKET_TYPE_NONE" "C2S_CREATE_USER_REQ \<noteq> PACKET_TYPE_NONE"
  "C2S_PLAY_STATE \<noteq> PACKET_TYPE_NONE"
  by (simp_all add: C2S_LOGIN_SAFE_REQ_def C2S_ADD_FRIEND_def C2S_ACCPET_FRIEND_def
      C2S_CREATE_USER_REQ_def C2S_PLAY_STATE_def PACKET_TYPE_NONE_def)

text \<open>The message every launcher operation sends, from a fresh packet of its own.\<close>

lemma send_fresh:
  assumes "api_ready a" and "flat_small fl" and "t \<noteq> PACKET_TYPE_NONE"
  shows "\<exists>blk a'. send_msg env fl t msg C2S_Packet_ctor a = Ok (blk, a') \<and> api_ready a'
    \<and> api_queue a' = api_queue a @ [(t, fb_bytes fl msg)]"
  using send_msg_ready [OF assms(1) length_C2S_Packet flat_smallD [OF assms(2)] assms(3)] by blast

text \<open>Answering a visible request tells the server and takes the row away.\<close>

lemma PushFriendRequestAnswer_visible:
  assumes ok: "requests_ok w" and i: "int i < Current_Friend_Request_Count w"
    and api: "api_ready a" and fl: "flat_small fl"
  shows "\<exists>w' a'. PushFriendRequestAnswer env fl accept i w a = Ok (w', a') \<and> requests_ok w' \<and> api_ready a'
    \<and> visible_rows w' = remove_nth i (visible_rows w)
    \<and> api_queue a' = api_queue a @ [(C2S_ACCPET_FRIEND,
         fb_bytes fl (AcceptFriend (m_User_Name w) (visible_rows w ! i) accept))]
    \<and> result_line w' = result_line w \<and> m_Is_Playing w' = m_Is_Playing w \<and> m_Process w' = m_Process w"
proof -
  obtain w' where w': "SortFriendRequest i w = Ok w'" "requests_ok w'"
      "visible_rows w' = remove_nth i (visible_rows w)"
      "w' = w\<lparr>Friend_Request_List := Friend_Request_List w', row_text := row_text w',
             row_hidden := row_hidden w', Current_Friend_Request_Count := Current_Friend_Request_Count w'\<rparr>"
    using SortFriendRequest_visible [OF ok i] by blast
  have keep: "result_line w' = result_line w" "m_Is_Playing w' = m_Is_Playing w" "m_Process w' = m_Process w"
    by (subst w'(4), simp add: result_line_def)+
  have "i < 3" "length (Friend_Request_List w) = 3"
    using ok i by (auto simp: requests_ok_def)
  then have get: "vec_get (Friend_Request_List w) i = Ok (visible_rows w ! i)"
    using i by (simp add: vec_get_def visible_rows_eq [OF ok])
  obtain blk a' where "send_msg env fl C2S_ACCPET_FRIEND
        (AcceptFriend (m_User_Name w) (visible_rows w ! i) accept) C2S_Packet_ctor a = Ok (blk, a')"
      "api_ready a'" "api_queue a' = api_queue a @ [(C2S_ACCPET_FRIEND,
         fb_bytes fl (AcceptFriend (m_User_Name w) (visible_rows w ! i) accept))]"
    using send_fresh [OF api fl launcher_types(3)] by blast
  then show ?thesis
    using w'(1-3) keep by (simp add: PushFriendRequestAnswer_def get)
qed

lemma PushFriendRequestButton_outcome:
  assumes api: "api_ready a" and fl: "flat_small fl"
  shows "\<exists>w' a'. PushFriendRequestButton env fl ID w a = Ok (w', a') \<and> api_ready a'
    \<and> w' = SetVisibleRequestResult True (w\<lparr>request_result := request_result w'\<rparr>)
    \<and> api_queue a' = api_queue a @ (if request_result w' = Req_Sent
         then [(C2S_ADD_FRIEND, fb_bytes fl (AddFriend (m_User_Name w) ID))] else [])
    \<and> (request_result w' = Req_Sent \<longleftrightarrow> ID \<notin> m_Recv_Friend w \<and> ID \<notin> m_Recv_Friend_Request w
         \<and> ID \<noteq> [] \<and> length ID \<le> 20)"
proof -
  have res: "request_result (SetVisibleRequestResult True w) = request_result w" for w
    by (simp add: SetVisibleRequestResult_def VisibleUI_def Let_def)
  obtain blk a' where snd: "send_msg env fl C2S_ADD_FRIEND (AddFriend (m_User_Name w) ID) C2S_Packet_ctor a
        = Ok (blk, a')" "api_ready a'"
      "api_queue a' = api_queue a @ [(C2S_ADD_FRIEND, fb_bytes fl (AddFriend (m_User_Name w) ID))]"
    using send_fresh [OF api fl launcher_types(2)] by blast
  show ?thesis
    using api snd by (auto simp: PushFriendRequestButton_def res)
qed

text \<open>
  One game: the start of the game and its end are each told to the server once, however often the
  button is pressed and the process is looked at.
\<close>

lemma PushGameStartButton_outcome:
  assumes api: "api_ready a" and fl: "flat_small fl"
  shows "\<exists>a'. PushGameStartButton env fl w a = Ok (w\<lparr>m_Process := True, m_Is_Playing := True\<rparr>, a') \<and> api_ready a'
    \<and> api_queue a' = api_queue a @ (if m_Is_Playing w then []
         else [(C2S_PLAY_STATE, fb_bytes fl (PlayState (m_User_Name w) True))])"
proof (cases "m_Is_Playing w")
  case True
  then have "w\<lparr>m_Process := True, m_Is_Playing := True\<rparr> = w\<lparr>m_Process := True\<rparr>"
    by (cases w) simp
  then show ?thesis
    using True api by (simp add: PushGameStartButton_def)
next
  case False
  then show ?thesis
    using send_fresh [OF api fl launcher_types(5), of env "PlayState (m_User_Name w) True"]
    by (auto simp: PushGameStartButton_def)
qed

lemma check_process_outcome:
  assumes api: "api_ready a" and fl: "flat_small fl"
  shows "\<exists>a'. check_process env fl over w a
      = Ok (if m_Process w \<and> over then w\<lparr>m_Is_Playing := False\<rparr> else w, a') \<and> api_ready a'
    \<and> api_queue a' = api_queue a @ (if m_Process w \<and> over \<and> m_Is_Playing w
         then [(C2S_PLAY_STATE, fb_bytes fl (PlayState (m_User_Name w) False))] else [])"
proof (cases "m_Process w \<and> over \<and> m_Is_Playing w")
  case True
  then show ?thesis
    using send_fresh [OF api fl launcher_types(5), of env "PlayState (m_User_Name w) False"]
    by (auto simp: check_process_def)
next
  case False
  then show ?thesis
    using api by (auto simp: check_process_def)
qed

text \<open>
  What can happen to the window: a state of the user arrives, the result line and the process are
  looked at, the user starts the game, asks for a friend, or answers a request whose row is visible.
\<close>

inductive win_step :: "os \<Rightarrow> flat \<Rightarrow> (string list \<Rightarrow> string list) \<Rightarrow> int \<times> friend_window \<times> api_ptr \<Rightarrow>
    int \<times> friend_window \<times> api_ptr \<Rightarrow> bool"
  for env fl srt where
  ws_state: "user_state srt friends requests w = Ok w' \<Longrightarrow> win_step env fl srt (p, w, a) (p, w', a)"
| ws_line: "check_visible now (p, w) = (p', w') \<Longrightarrow> win_step env fl srt (p, w, a) (p', w', a)"
| ws_process: "check_process env fl over w a = Ok (w', a') \<Longrightarrow> win_step env fl srt (p, w, a) (p, w', a')"
| ws_start: "PushGameStartButton env fl w a = Ok (w', a') \<Longrightarrow> win_step env fl srt (p, w, a) (p, w', a')"
| ws_request: "PushFriendRequestButton env fl ID w a = Ok (w', a') \<Longrightarrow> win_step env fl srt (p, w, a) (p, w', a')"
| ws_answer: "int i < Current_Friend_Request_Count w \<Longrightarrow>
    PushFriendRequestAnswer env fl accept i w a = Ok (w', a') \<Longrightarrow> win_step env fl srt (p, w, a) (p, w', a')"

definition window_ok :: "friend_window \<Rightarrow> bool" where
  "window_ok w \<longleftrightarrow> requests_ok w \<and> geometry_ok w \<and> (m_Is_Playing w \<longrightarrow> m_Process w)"

lemma window_ok_ctor: "window_ok GamePlayLauncher_ctor"
  by (simp add: window_ok_def requests_ok_ctor geometry_ok_ctor) (simp add: GamePlayLauncher_ctor_def)

lemma window_step_ok:
  assumes step: "win_step env fl srt x y" and srt: "sorts srt" and fl: "flat_small fl"
  shows "window_ok (fst (snd x)) \<and> api_ready (snd (snd x)) \<Longrightarrow> window_ok (fst (snd y)) \<and> api_ready (snd (snd y))"
  using step
proof (induction rule: win_step.induct)
  case (ws_state friends requests w w' p a)
  then have "requests_ok w" "length requests \<le> 3"
    using user_state_many [OF _ srt, of w requests friends] by (auto simp: window_ok_def not_less [symmetric])
  then show ?case
    using user_state_correct [OF _ srt, of w requests friends] ws_state geometry_ok_result_line [of w' w]
    by (auto simp: window_ok_def)
next
  case (ws_line now p w p' w' a)
  then show ?case
    using check_visible_requests [OF ws_line.hyps] by (simp add: window_ok_def)
next
  case (ws_process over w a w' a' p)
  then show ?case
    using check_process_outcome [OF _ fl, of a env over w]
    by (auto simp: window_ok_def requests_ok_def geometry_ok_def)
next
  case (ws_start w a w' a' p)
  then show ?case
    using PushGameStartButton_outcome [OF _ fl, of a env w]
    by (auto simp: window_ok_def requests_ok_def geometry_ok_def)
next
  case (ws_request ID w a w' a' p)
  then have ready: "api_ready a'" and w': "w' = SetVisibleRequestResult True (w\<lparr>request_result := request_result w'\<rparr>)"
    using PushFriendRequestButton_outcome [OF _ fl, of a env ID w] by auto
  have "window_ok (w\<lparr>request_result := request_result w'\<rparr>)"
    using ws_request by (simp add: window_ok_def requests_ok_def geometry_ok_def)
  then have "window_ok (SetVisibleRequestResult True (w\<lparr>request_result := request_result w'\<rparr>))"
    by (simp add: window_ok_def SetVisible_requests geometry_ok_show)
  then show ?case
    using ready w' by simp
next
  case (ws_answer i w accept a w' a' p)
  then show ?case
    using PushFriendRequestAnswer_visible [OF _ _ _ fl, of w i a env accept] geometry_ok_result_line [of w' w]
    by (auto simp: window_ok_def)
qed

end
