(* ===== verification/DH_RecvLoop.thy ===== *)
theory DH_RecvLoop
  imports DH_WindowSpec
begin

text \<open>
  One turn of \<open>RecvServerPacket\<close>, the thread of the friend window: the game process, the result line, then all
  messages the handle has, whose packets the thread releases.
\<close>

section \<open>The turn\<close>

text \<open>The memory behind a handle, after the application released blocks of it.\<close>

definition api_set_memory :: "heap \<Rightarrow> api_ptr \<Rightarrow> api_ptr" where
  "api_set_memory h a =
     (case a of
        Api_Live nw \<Rightarrow>
          (case m_NetWork nw of
             Some (Net_Server s) \<Rightarrow> Api_Live (nw\<lparr>m_NetWork := Some (Net_Server (s\<lparr>sheap := h\<rparr>))\<rparr>)
           | Some (Net_Client c) \<Rightarrow> Api_Live (nw\<lparr>m_NetWork := Some (Net_Client (c\<lparr>cheap := h\<rparr>))\<rparr>)
           | None \<Rightarrow> a)
      | _ \<Rightarrow> a)"

definition RecvServerPacket_turn ::
    "os \<Rightarrow> flat \<Rightarrow> (string list \<Rightarrow> string list) \<Rightarrow> int \<Rightarrow> bool \<Rightarrow> int \<times> friend_window \<times> api_ptr \<Rightarrow>
       (int \<times> friend_window \<times> api_ptr) res" where
  "RecvServerPacket_turn env fl srt now over x =
     (case x of (prev, w, a) \<Rightarrow>
        bindE (check_process env fl over w a) (\<lambda>(w, a).
          let (prev, w) = check_visible now (prev, w)
          in bindE (API_Recv [] a) (\<lambda>(r, vec, a).
               if r = LOGIC_FAIL then Ok (prev, w, a)
               else bindE (user_messages fl srt vec (api_memory a) w)
                      (\<lambda>(h, w). Ok (prev, w, api_set_memory h a)))))"

section \<open>The packets the application owns\<close>

text \<open>What \<open>Recv\<close> of a client hands over is not in its send queue.\<close>

lemma Client_Recv_private:
  assumes inv: "cli_inv held c" and run: "Client_Recv [] c = Ok (r, vec, c')"
  shows "snd ` set vec \<inter> set (c_Send_Data_Queue c) = {}"
    and "c' = c\<lparr>cheap := cheap c', c_Recv_Data_Queue := []\<rparr>"
proof -
  have qs: "queues_ok (cheap c) (c_Recv_Data_Queue c) (c_Send_Data_Queue c)"
    using inv by (simp add: cli_inv_iff cli_queues_view)
  have "map snd vec = concat (map (msg_packet (cheap c)) (c_Recv_Data_Queue c))
      \<and> c' = c\<lparr>cheap := cheap c', c_Recv_Data_Queue := []\<rparr>"
  proof (cases "c_Recv_Data_Queue c = []")
    case True
    then show ?thesis
      using run by (auto simp: Client_Recv_def)
  next
    case False
    obtain new h where "client_drain (c_Recv_Data_Queue c) [] (cheap c) = Ok ([] @ new, h)"
        "map snd new = concat (map (msg_packet (cheap c)) (c_Recv_Data_Queue c))"
      using client_drain_view [OF qs, of "[]"] by blast
    with False run show ?thesis
      by (auto simp: Client_Recv_def)
  qed
  then have vec: "map snd vec = concat (map (msg_packet (cheap c)) (c_Recv_Data_Queue c))"
      "c' = c\<lparr>cheap := cheap c', c_Recv_Data_Queue := []\<rparr>"
    by blast+
  have "snd ` set vec = (\<Union>m \<in> set (c_Recv_Data_Queue c). set (msg_packet (cheap c) m))"
    using arg_cong [OF vec(1), of set] by simp
  then show "snd ` set vec \<inter> set (c_Send_Data_Queue c) = {}"
    using qs by (auto simp: queues_ok_def heap_refs_def)
  show "c' = c\<lparr>cheap := cheap c', c_Recv_Data_Queue := []\<rparr>"
    by (rule vec(2))
qed

lemma cli_inv_release:
  assumes inv: "cli_inv held c" and rq: "c_Recv_Data_Queue c = []" and q: "q \<notin> set (c_Send_Data_Queue c)"
    and at: "cells (cheap c) q \<noteq> None"
  shows "cli_inv held (c\<lparr>cheap := heap_del q (cheap c)\<rparr>)"
    and "cli_sends (c\<lparr>cheap := heap_del q (cheap c)\<rparr>) = cli_sends c"
proof -
  have qs: "queues_ok (cheap c) [] (c_Send_Data_Queue c)"
    using inv rq by (simp add: cli_inv_iff cli_queues_view)
  obtain b where b: "cells (cheap c) q = Some b"
    using at by blast
  have "q \<notin> set (heap_refs (cheap c) [] (c_Send_Data_Queue c))"
    using q by (simp add: heap_refs_def)
  from queues_release [OF qs this b] obtain h' where h': "heap_free q (cheap c) = Ok h'"
      "queues_ok h' [] (c_Send_Data_Queue c)" "send_view h' (c_Send_Data_Queue c) = send_view (cheap c) (c_Send_Data_Queue c)"
    by blast
  then have [simp]: "h' = heap_del q (cheap c)"
    using b by (simp add: heap_free_def heap_del_def)
  have "srv_owns held (cview (c\<lparr>cheap := heap_del q (cheap c)\<rparr>)) = srv_owns held (cview c)"
    by (rule srv_owns_cong) simp_all
  moreover have "srv_queues_ok (cview (c\<lparr>cheap := heap_del q (cheap c)\<rparr>))"
    unfolding cli_queues_view using h'(2) rq by simp
  ultimately show "cli_inv held (c\<lparr>cheap := heap_del q (cheap c)\<rparr>)"
    using inv unfolding cli_inv_iff by blast
  show "cli_sends (c\<lparr>cheap := heap_del q (cheap c)\<rparr>) = cli_sends c"
    using h'(3) by (simp add: cli_sends_def)
qed

lemma cli_inv_clear:
  "cli_inv held c \<Longrightarrow> c_Recv_Data_Queue c = [] \<Longrightarrow> set qs \<inter> set (c_Send_Data_Queue c) = {} \<Longrightarrow> distinct qs \<Longrightarrow>
     (\<forall>q \<in> set qs. cells (cheap c) q \<noteq> None) \<Longrightarrow>
     cli_inv held (c\<lparr>cheap := heap_clear qs (cheap c)\<rparr>)
       \<and> cli_sends (c\<lparr>cheap := heap_clear qs (cheap c)\<rparr>) = cli_sends c"
proof (induction qs arbitrary: c)
  case Nil
  then show ?case by simp
next
  case (Cons q qs)
  have q: "q \<notin> set (c_Send_Data_Queue c)" "cells (cheap c) q \<noteq> None"
    using Cons.prems(3,5) by auto
  let ?c = "c\<lparr>cheap := heap_del q (cheap c)\<rparr>"
  note del = cli_inv_release [OF Cons.prems(1,2) q]
  have "\<forall>x \<in> set qs. cells (cheap ?c) x \<noteq> None"
    using Cons.prems(4,5) by (auto simp: heap_del_def)
  then have "cli_inv held (?c\<lparr>cheap := heap_clear qs (cheap ?c)\<rparr>)
      \<and> cli_sends (?c\<lparr>cheap := heap_clear qs (cheap ?c)\<rparr>) = cli_sends ?c"
    using Cons.prems(2-4) by (intro Cons.IH [OF del(1)]) auto
  then show ?case
    using del(2) by simp
qed

section \<open>What one Recv and the release leave behind\<close>

lemma packet_at_cell: "packet_at h q \<Longrightarrow> cells h q \<noteq> None"
  by (auto simp: packet_at_def split: option.splits)

lemma api_recv_release:
  assumes ready: "api_ready a" and run: "API_Recv [] a = Ok (r, vec, a')"
  shows "api_ready a'" and "api_queue a' = api_queue a"
    and "api_ready (api_set_memory (heap_clear (map snd vec) (api_memory a')) a')"
    and "api_queue (api_set_memory (heap_clear (map snd vec) (api_memory a')) a') = api_queue a"
    and "api_inbox (api_set_memory (heap_clear (map snd vec) (api_memory a')) a') = []"
    and "vec_ok (api_memory a') vec" and "vec_view (api_memory a') vec = api_inbox a"
    and "r = LOGIC_FAIL \<longleftrightarrow> api_inbox a = []" and "api_inbox a' = []"
proof -
  obtain nw c ss where a: "a = Api_Live nw" "Current_Type nw = TYPE_DHCLIENT" "m_NetWork nw = Some (Net_Client c)"
      "cli_inv [] c" "g_Server_Socket c = Some ss" "ss_Socket ss \<noteq> INVALID_SOCKET"
    using ready by (auto simp: api_ready_def api_client_def)
  obtain c' where c': "Client_Recv [] c = Ok (r, vec, c')"
      and a': "a' = Api_Live (nw\<lparr>m_NetWork := Some (Net_Client c')\<rparr>)"
    using run a(1-3) by (auto simp: API_Recv_def api_get_def NW_Recv_def nw_types bindE_eq_Ok_iff)
  note priv = Client_Recv_private [OF a(4) c']
  obtain *: "cli_inv [] c'" "vec_view (cheap c') vec = cli_msgs c" "cli_msgs c' = []" "cli_sends c' = cli_sends c"
      "r = LOGIC_FAIL \<longleftrightarrow> cli_msgs c = []" "vec_ok (cheap c') vec"
    using Client_Recv_outcome [OF a(4), of "[]"] c' by auto
  have rest: "g_Server_Socket c' = Some ss" "c_Recv_Data_Queue c' = []" "c_Send_Data_Queue c' = c_Send_Data_Queue c"
    using a(5) by (subst priv(2), simp)+
  let ?c = "c'\<lparr>cheap := heap_clear (map snd vec) (cheap c')\<rparr>"
  have free: "cli_inv [] ?c \<and> cli_sends ?c = cli_sends c'"
    using *(6) priv(1) rest(2,3) by (intro cli_inv_clear [OF *(1)]) (auto simp: vec_ok_def dest!: packet_at_cell)
  have m: "api_memory a' = cheap c'"
    by (simp add: a' api_memory_def nw_memory_def)
  have s: "api_set_memory (heap_clear (map snd vec) (api_memory a')) a'
      = Api_Live (nw\<lparr>m_NetWork := Some (Net_Client ?c)\<rparr>)"
    by (simp add: m) (simp add: api_set_memory_def a')
  show "api_ready a'" "api_queue a' = api_queue a"
    using * rest a by (auto simp: api_ready_def api_client_def a' api_queue_def)
  show "api_ready (api_set_memory (heap_clear (map snd vec) (api_memory a')) a')"
    unfolding s using free rest(1) a(2,6) by (auto simp: api_ready_def api_client_def)
  show "api_queue (api_set_memory (heap_clear (map snd vec) (api_memory a')) a') = api_queue a"
    unfolding s using free *(4) a by (simp add: api_queue_def)
  show "api_inbox (api_set_memory (heap_clear (map snd vec) (api_memory a')) a') = []"
    unfolding s using rest(2) by (simp add: api_inbox_def nw_inbox_def cli_msgs_def recv_view_def)
  show "vec_ok (api_memory a') vec"
    unfolding m by (rule *(6))
  show "vec_view (api_memory a') vec = api_inbox a"
    unfolding m using *(2) a(1,3) by (simp add: api_inbox_def nw_inbox_def)
  show "r = LOGIC_FAIL \<longleftrightarrow> api_inbox a = []" "api_inbox a' = []"
    using *(3,5) a(1,3) by (simp_all add: api_inbox_def nw_inbox_def a')
qed

lemma send_msg_inbox:
  assumes "api_ready a" and fl: "flat_small fl" and t: "t \<noteq> PACKET_TYPE_NONE"
    and run: "send_msg env fl t msg C2S_Packet_ctor a = Ok (blk, a')"
  shows "api_inbox a' = api_inbox a"
proof -
  obtain nw c ss where a: "api_client a nw c" "g_Server_Socket c = Some ss" "ss_Socket ss \<noteq> INVALID_SOCKET"
    using assms(1) by (auto simp: api_ready_def)
  then show ?thesis
    using send_msg_queues [OF a length_C2S_Packet flat_smallD [OF fl] t, of env msg] run
    by (auto simp: api_client_def api_inbox_def nw_inbox_def)
qed

lemma check_process_inbox:
  assumes "api_ready a" and "flat_small fl" and "check_process env fl over w a = Ok (w', a')"
  shows "api_inbox a' = api_inbox a"
  using assms send_msg_inbox [OF assms(1,2) launcher_types(5)]
  by (auto simp: check_process_def bindE_eq_Ok_iff split: if_splits)

text \<open>The window shows the state in a message: each friend once, in the group of its state, and the requests.\<close>

definition shows_state :: "flat \<Rightarrow> byte list \<Rightarrow> friend_window \<Rightarrow> bool" where
  "shows_state fl b w \<longleftrightarrow>
     m_Recv_Friend w = fst ` set (fb_friends fl b) \<and> m_Recv_Friend_Request w = set (fb_requests fl b)
     \<and> (\<forall>g. distinct (WidgetRoot_List w g) \<and> set (WidgetRoot_List w g) = rows_of g (fb_friends fl b))
     \<and> item_hidden w = (fb_requests fl b = [])
     \<and> (fb_requests fl b \<noteq> [] \<longrightarrow> visible_rows w = fb_requests fl b)"

lemma state_updates_shows:
  assumes "sorts srt" and "requests_ok w" and "\<forall>b \<in> set bs. length (fb_requests fl b) \<le> 3"
  shows "\<exists>w'. state_updates fl srt bs w = Ok w' \<and> requests_ok w' \<and> result_line w' = result_line w
    \<and> (bs \<noteq> [] \<longrightarrow> shows_state fl (last bs) w')"
  unfolding shows_state_def by (rule state_updates_correct [OF assms])

lemma state_updates_process:
  assumes srt: "sorts srt"
  shows "requests_ok w \<Longrightarrow> \<forall>b \<in> set bs. length (fb_requests fl b) \<le> 3 \<Longrightarrow> state_updates fl srt bs w = Ok w' \<Longrightarrow>
    m_Is_Playing w' = m_Is_Playing w \<and> m_Process w' = m_Process w"
proof (induction bs arbitrary: w)
  case Nil
  then show ?case by simp
next
  case (Cons b bs)
  obtain w1 where w1: "user_state srt (fb_friends fl b) (fb_requests fl b) w = Ok w1" "requests_ok w1"
      "m_Is_Playing w1 = m_Is_Playing w" "m_Process w1 = m_Process w"
    using user_state_correct [OF Cons.prems(1) srt, of "fb_requests fl b" "fb_friends fl b"] Cons.prems(2) by auto
  then show ?case
    using Cons.IH [OF w1(2)] Cons.prems(2,3) by simp
qed

text \<open>
  A turn never faults while no state has more than three requests. It shows the last state it received, tells
  the server about the end of a game, and leaves no message and no packet behind.
\<close>

lemma RecvServerPacket_turn_outcome:
  assumes srt: "sorts srt" and fl: "flat_small fl" and ok: "window_ok w" and ready: "api_ready a"
    and few: "\<forall>b \<in> set (states_in (api_inbox a)). length (fb_requests fl b) \<le> 3"
  shows "\<exists>p' w' a'. RecvServerPacket_turn env fl srt now over (p, w, a) = Ok (p', w', a')
    \<and> window_ok w' \<and> api_ready a' \<and> api_inbox a' = []
    \<and> api_queue a' = api_queue a @ (if m_Process w \<and> over \<and> m_Is_Playing w
         then [(C2S_PLAY_STATE, fb_bytes fl (PlayState (m_User_Name w) False))] else [])
    \<and> (states_in (api_inbox a) \<noteq> [] \<longrightarrow> shows_state fl (last (states_in (api_inbox a))) w')"
proof -
  let ?w1 = "if m_Process w \<and> over then w\<lparr>m_Is_Playing := False\<rparr> else w"
  obtain a1 where a1: "check_process env fl over w a = Ok (?w1, a1)" "api_ready a1"
      "api_queue a1 = api_queue a @ (if m_Process w \<and> over \<and> m_Is_Playing w
         then [(C2S_PLAY_STATE, fb_bytes fl (PlayState (m_User_Name w) False))] else [])"
    using check_process_outcome [OF ready fl, of env over w] by blast
  have box: "api_inbox a1 = api_inbox a"
    by (rule check_process_inbox [OF ready fl a1(1)])
  have w1: "window_ok ?w1"
    using window_step_ok [OF ws_process [OF a1(1)] srt fl] ok ready by simp
  obtain p' w2 where w2: "check_visible now (p, ?w1) = (p', w2)"
    by (cases "check_visible now (p, ?w1)")
  have ok2: "window_ok w2"
    using window_step_ok [OF ws_line [OF w2] srt fl] w1 a1(2) by simp
  then have req2: "requests_ok w2" and geo2: "geometry_ok w2"
    by (simp_all add: window_ok_def)
  have "api_live a1"
    using a1(2) by (auto simp: api_ready_def api_client_def api_live_def nw_live_def)
  then obtain r vec a2 where recv: "API_Recv [] a1 = Ok (r, vec, a2)"
    using api_inbox.receive_all [of a1 "[]"] by auto
  note rel = api_recv_release [OF a1(2) recv]
  show ?thesis
  proof (cases "r = LOGIC_FAIL")
    case True
    then have "api_inbox a = []"
      using rel(8) box by simp
    then have none: "states_in (api_inbox a) = []"
      by (simp add: states_in_def)
    have "RecvServerPacket_turn env fl srt now over (p, w, a) = Ok (p', w2, a2)"
      using a1(1) w2 recv True by (simp add: RecvServerPacket_turn_def)
    then show ?thesis
      using ok2 rel(1,2,9) a1(3) by (simp add: none)
  next
    case False
    obtain w3 where w3: "state_updates fl srt (states_in (api_inbox a)) w2 = Ok w3" "requests_ok w3"
        "result_line w3 = result_line w2"
        "states_in (api_inbox a) \<noteq> [] \<longrightarrow> shows_state fl (last (states_in (api_inbox a))) w3"
      using state_updates_shows [OF srt req2 few] by blast
    have "user_messages fl srt vec (api_memory a2) w2 = Ok (heap_clear (map snd vec) (api_memory a2), w3)"
      using user_messages_eq [of vec "api_memory a2" fl srt w2] rel(6,7) w3(1) box by (simp add: vec_ok_def)
    then have turn: "RecvServerPacket_turn env fl srt now over (p, w, a)
        = Ok (p', w3, api_set_memory (heap_clear (map snd vec) (api_memory a2)) a2)"
      using a1(1) w2 recv False by (simp add: RecvServerPacket_turn_def)
    have "geometry_ok w3"
      using geo2 geometry_ok_result_line [OF w3(3)] by blast
    moreover have "m_Is_Playing w3 \<longrightarrow> m_Process w3"
      using state_updates_process [OF srt req2 few w3(1)] ok2 by (simp add: window_ok_def)
    ultimately have "window_ok w3"
      using w3(2) by (simp add: window_ok_def)
    then show ?thesis
      using turn rel(3-5) a1(3) w3(4) by auto
  qed
qed

end
