(* ===== verification/DH_LauncherProps.thy ===== *)
theory DH_LauncherProps
  imports DH_RecvLoop DH_ClientDemo "HOL-Library.Char_ord" "HOL-Library.List_Lexorder"
begin

text \<open>
  Properties of the login window and the friend window of the launcher, each with a concrete instance.
\<close>

section \<open>The windows as a whole\<close>


text \<open>Messages of one byte, and states of the user with as many requests as the body has bytes.\<close>

definition demo_flat :: flat where
  "demo_flat = \<lparr>fb_bytes = (\<lambda>msg. [1]), fb_login = (\<lambda>b. (length b, 5)),
     fb_friends = (\<lambda>b. [(''bob'', USER_ONLINE)]), fb_requests = (\<lambda>b. map (\<lambda>i. ''cid'') b)\<rparr>"

lemma demo_flat_small: "flat_small demo_flat"
  by (simp add: flat_small_def demo_flat_def net_consts)

lemma demo_sorts: "sorts (sort :: string list \<Rightarrow> string list)"
  by (simp add: sorts_def)

lemma demo_api_ready: "api_ready (Api_Live demo_network)"
  using demo_client_inv
  by (auto simp: api_ready_def api_client_def demo_sock_def INVALID_SOCKET_def intro!: exI [of _ demo_network])


section \<open>Messages from the server\<close>










text \<open>C40. A state with a fourth pending request is written past the end of the list of three: the test in the
  loop lets five through.\<close>

theorem fourth_request_overflows:
  assumes "requests_ok w" and "sorts srt" and "3 < length requests"
  shows "user_state srt friends requests w = Fault Buffer_Overflow"
  using user_state_many [OF assms] .

theorem fourth_request_overflows_witness:
  "user_state sort [] [''ann'', ''bob'', ''cid'', ''dan''] GamePlayLauncher_ctor = Fault Buffer_Overflow"
  using fourth_request_overflows [OF requests_ok_ctor demo_sorts, of "[''ann'', ''bob'', ''cid'', ''dan'']" "[]"] by simp

text \<open>C34. While the login window waits, one \<open>Recv\<close> without a login answer leaves it waiting; otherwise it acts
  on the first login answer in the order of arrival, releases the packet of that answer and leaves every
  other packet allocated, whatever else was received.\<close>

theorem login_acts_on_first_answer:
  assumes live: "api_live a" and run: "API_Recv [] a = Ok (r, vec, a')"
  shows "case first_of S2C_LOGIN_SAFE_RES (api_inbox a) of
      None \<Rightarrow> login_wait fl u [] [(vec, api_memory a')] w = Ok None
    | Some p \<Rightarrow> \<exists>h. login_wait fl u [] [(vec, api_memory a')] w = Ok (Some (h, login_answer (fb_login fl (snd p)) u w))
        \<and> (\<exists>q \<in> snd ` set vec. packet_view (api_memory a') q = p
             \<and> (\<forall>x. cells h x = (if x = q then None else cells (api_memory a') x)))"
proof (cases "first_of S2C_LOGIN_SAFE_RES (api_inbox a)")
  case None
  then show ?thesis
    using api_inbox.login_reaction [OF live run, of fl u w] by simp
next
  case (Some p)
  then obtain q where q: "q \<in> snd ` set vec" "packet_view (api_memory a') q = p"
      "login_scan fl u vec (api_memory a') w
         = Ok (Some (heap_del q (api_memory a'), login_answer (fb_login fl (snd p)) u w))"
    using api_inbox.login_reaction [OF live run, of fl u w] by auto
  then show ?thesis
    by (auto simp: Some heap_del_def intro!: exI [of _ "heap_del q (api_memory a')"] bexI [OF _ q(1)])
qed

definition demo_answer :: packet where
  "demo_answer = (S2C_LOGIN_SAFE_RES, [0, 0, 0, 0])"

lemma demo_answer_ok: "packet_ok demo_answer"
  by (simp add: demo_answer_def packet_ok_def packet_size_def net_consts S2C_LOGIN_SAFE_RES_def)

definition demo_login :: login_window where
  "demo_login = \<lparr>lw_Send_Packet = C2S_Packet_ctor, lw_User_Key = 0, lw_label = Txt_Empty, lw_hidden = False,
     lw_user = None\<rparr>"

theorem login_acts_on_first_answer_witness:
  "\<exists>r vec a' h. API_Recv [] (demo_handle demo_answer) = Ok (r, vec, a')
     \<and> login_wait demo_flat ''ann'' [] [(vec, api_memory a')] demo_login
         = Ok (Some (h, demo_login\<lparr>lw_User_Key := 5, lw_hidden := True, lw_user := Some ''ann''\<rparr>))"
proof -
  have live: "api_live (demo_handle demo_answer)" and inbox: "api_inbox (demo_handle demo_answer) = [(7, demo_answer)]"
    using demo_handle_facts [OF demo_answer_ok] by blast+
  obtain r vec a' where run: "API_Recv [] (demo_handle demo_answer) = Ok (r, vec, a')"
    using api_inbox.receive_all [OF live, of "[]"] by auto
  have "first_of S2C_LOGIN_SAFE_RES (api_inbox (demo_handle demo_answer)) = Some demo_answer"
    unfolding inbox by (simp add: demo_answer_def)
  with login_acts_on_first_answer [OF live run, of demo_flat "''ann''" demo_login] run show ?thesis
    by (auto simp: login_answer_def demo_flat_def demo_answer_def LOGIN_SUCCESS_def)
qed

section \<open>The buttons and the result line\<close>

text \<open>Answering one of the visible requests queues exactly one message for the server, with the name shown
  in that row, and takes exactly that row away; the rows below move up.\<close>

theorem answer_takes_row:
  assumes ok: "requests_ok w" and i: "int i < Current_Friend_Request_Count w"
    and api: "api_ready a" and fl: "flat_small fl"
  shows "\<exists>w' a'. PushFriendRequestAnswer env fl accept i w a = Ok (w', a') \<and> requests_ok w' \<and> api_ready a'
    \<and> visible_rows w' = remove_nth i (visible_rows w)
    \<and> api_queue a' = api_queue a @ [(C2S_ACCPET_FRIEND,
         fb_bytes fl (AcceptFriend (m_User_Name w) (visible_rows w ! i) accept))]"
  using PushFriendRequestAnswer_visible [OF ok i api fl, of env accept] by blast

definition demo_window :: friend_window where
  "demo_window = GamePlayLauncher_ctor\<lparr>Friend_Request_List := [''bob'', ''cid'', []], row_text := [''bob'', ''cid'', []],
     row_hidden := [False, False, True], Current_Friend_Request_Count := 2\<rparr>"

lemma demo_window_ok: "requests_ok demo_window"
  by (rule requests_okI [where n = 2]) (simp_all add: demo_window_def)

theorem answer_takes_row_witness:
  "\<exists>w' a'. PushFriendRequestAnswer os_fine demo_flat True 0 demo_window (Api_Live demo_network) = Ok (w', a')
     \<and> visible_rows w' = [''cid''] \<and> length (api_queue a') = 1"
proof -
  have "visible_rows demo_window = [''bob'', ''cid'']"
    by (simp add: visible_rows_def demo_window_def)
  moreover have "api_queue (Api_Live demo_network) = []"
    by (simp add: api_queue_def demo_client_msgs)
  ultimately show ?thesis
    using answer_takes_row [OF demo_window_ok _ demo_api_ready demo_flat_small, of 0 os_fine True]
    by (auto simp: demo_window_def remove_nth_def)
qed

text \<open>The line with the result of a friend request stays for three seconds after the first look at it and goes
  away at the first look after them. But the mark that its clock runs is left set: a line that is shown more
  than three seconds after the last one went away is taken away at the very next look.\<close>

theorem result_line_lifetime:
  assumes vis: "Current_Visible_State w" "\<not> Is_Visible_Start w"
    and within: "\<forall>t \<in> set ts. t - t0 \<le> 3 * ticks_per_second" and over: "3 * ticks_per_second < t1 - t0"
    and late: "3 * ticks_per_second < t2 - t1"
  shows "\<exists>w0 w1. fold check_visible (t0 # ts) (p, w) = (t0, w0) \<and> Current_Visible_State w0
    \<and> check_visible t1 (t0, w0) = (t1, w1) \<and> \<not> Current_Visible_State w1
    \<and> (\<exists>w2. check_visible t2 (t1, SetVisibleRequestResult True w1) = (t2, w2) \<and> \<not> Current_Visible_State w2)"
proof -
  let ?w = "w\<lparr>Is_Visible_Start := True\<rparr>"
  have stays: "fold check_visible (t0 # ts) (p, w) = (t0, ?w)"
    by (rule result_line_stays [OF vis within])
  have w: "Current_Visible_State ?w" "Is_Visible_Start ?w"
    using vis by simp_all
  obtain w1 where w1: "check_visible t1 (t0, ?w) = (t1, w1)"
      "check_visible t2 (t1, SetVisibleRequestResult True w1)
         = (t2, SetVisibleRequestResult False (SetVisibleRequestResult True w1))"
    using second_line_lost [OF w over late] by (auto simp: Let_def)
  have "w1 = SetVisibleRequestResult False ?w"
    using result_line_goes [OF w over] w1(1) by simp
  then show ?thesis
    using stays w(1) w1 by (auto simp: SetVisible_requests(6))
qed

theorem result_line_lifetime_witness:
  "\<exists>w0 w1. fold check_visible [0, 1000] (5, SetVisibleRequestResult True GamePlayLauncher_ctor) = (0, w0)
     \<and> Current_Visible_State w0 \<and> check_visible 40000000 (0, w0) = (40000000, w1) \<and> \<not> Current_Visible_State w1
     \<and> (\<exists>w2. check_visible 90000000 (40000000, SetVisibleRequestResult True w1) = (90000000, w2) \<and> \<not> Current_Visible_State w2)"
proof -
  let ?w = "SetVisibleRequestResult True GamePlayLauncher_ctor"
  have "Current_Visible_State ?w" "\<not> Is_Visible_Start ?w"
    by (simp_all add: SetVisibleRequestResult_def VisibleUI_def GamePlayLauncher_ctor_def)
  from result_line_lifetime [OF this, of "[1000]" 0 40000000 90000000 5] show ?thesis
    by (simp add: ticks_per_second_def)
qed

end
