(* ===== verification/DH_ServerInbox.thy ===== *)
theory DH_ServerInbox
  imports DH_ServerSystem
begin

text \<open>
  What the steps of the server do to the messages the application will get: a handler only appends messages
  of the socket it works for, each no longer than the processing buffer, and \<open>Recv\<close> takes all. So no message
  in the queue is ever longer than \<open>MAX_PACKET_SIZE\<close>.
\<close>

definition inbox_grows :: "sock \<Rightarrow> server \<Rightarrow> server \<Rightarrow> bool" where
  "inbox_grows k s s' \<longleftrightarrow>
     (\<exists>ps. srv_msgs s' = srv_msgs s @ map (Pair k) ps \<and> list_all (fits_buffer MAX_PACKET_SIZE) ps)"

definition inbox_fits :: "server \<Rightarrow> bool" where
  "inbox_fits s \<longleftrightarrow> (\<forall>m \<in> set (srv_msgs s). fits_buffer MAX_PACKET_SIZE (snd m))"

lemma inbox_same: "srv_msgs s' = srv_msgs s \<Longrightarrow> inbox_grows k s s'"
  unfolding inbox_grows_def by (intro exI [of _ "[]"]) simp

lemma inbox_fits_grows: "inbox_fits s \<Longrightarrow> inbox_grows k s s' \<Longrightarrow> inbox_fits s'"
  by (fastforce simp: inbox_fits_def inbox_grows_def list_all_iff)

text \<open>Sockets, overlapped structures and the system are not in the queue.\<close>

lemma inbox_io: "same_but_io s s' \<Longrightarrow> inbox_grows k s s'"
  by (rule inbox_same) (simp add: srv_queues_io)

lemma inbox_sock: "same_but_sock s s' \<Longrightarrow> inbox_grows k s s'"
  by (rule inbox_same) (simp add: srv_queues_sock)

lemma inbox_complete: "inbox_grows k (complete_io x data s) s' \<Longrightarrow> inbox_grows k s s'"
  using srv_queues_io(2) [OF complete_io_same [of s x data]] by (simp add: inbox_grows_def)

lemma WorkThread_entry_inbox:
  assumes env: "os_pending env" and inv: "sys_inv s" and e: "entry_ok s e x"
    and data: "length data \<le> OVERLAPPED_BUFIZE"
    and run: "WorkThread_entry env e (complete_io x data s) = Ok (stop, s')"
  shows "inbox_grows (m_Socket (ov_at s x)) s s'"
proof (rule inbox_complete)
  let ?t = "complete_io x data s" and ?io = "m_IOType (ov_at s x)" and ?k = "m_Socket (ov_at s x)"
  let ?n = "dwNumberOfBytesTransferred e"
  have e': "lpOverlapped e = Some x" and x: "x \<in> set (in_flight (ssys s))" and n: "unat ?n \<le> OVERLAPPED_BUFIZE"
    and key: "lpCompletionKey e = (if ?io = IOType_Accept then None else map_of (g_Socket_Struct_Pool s) ?k)"
    using e by (simp_all add: entry_ok_def)
  have at: "m_IOType (ov_at ?t x) = ?io" "m_Socket (ov_at ?t x) = ?k"
    by (simp_all add: complete_io_at)
  have inv_t: "srv_inv [x] ?t"
    by (rule complete_io_sys_inv [OF inv x data])
  obtain p where p: "map_of (g_Socket_Struct_Pool s) ?k = Some p"
    using inv x by (auto simp: sys_inv_def known_flights_def)
  consider (accept) "?io = IOType_Accept" | (disconnect) "?io = IOType_Disconnect"
    | (data) "?io \<noteq> IOType_Accept" "?io \<noteq> IOType_Disconnect"
    by blast
  then show "inbox_grows ?k ?t s'"
  proof cases
    case accept
    then have "IOFunction_Accept env x ?t = Ok s'"
      using run e' at by (auto simp: WorkThread_entry_def bindE_eq_Ok_iff)
    moreover have "is_token ?k (ov_at s x)"
      using accept by (simp add: is_token_def)
    then have "?k \<notin> connected ?t"
      using token_free(1) [OF inv x] by simp
    ultimately show ?thesis
      using IOFunction_Accept_inv(2) [OF inv_t _ at(2)] by (intro inbox_same) (auto simp: accepted_def)
  next
    case disconnect
    then obtain s1 ss where d: "IOFunction_Disconnect env x ?t = Ok s1"
        "s' = sock_upd p (ss\<lparr>Is_Available := True\<rparr>) s1"
      using run e' at key p by (auto simp: WorkThread_entry_def bindE_eq_Ok_iff)
    have "same_but_sock s1 s'"
      by (simp add: d(2) same_but_sock_def sock_upd_def)
    then show ?thesis
      using IOFunction_Disconnect_inv(4) [OF env inv_t at(2) d(1)] srv_queues_io(2) srv_queues_sock(2)
      by (intro inbox_same) metis
  next
    case d: data
    obtain ss where ss: "socket_mem ?t p = Some ss" "ss_Socket ss = ?k"
      using maps_ok_poolE [OF _ p] inv same_but_ioD(11) [OF complete_io_same [of s x data]]
      by (metis sys_inv_def srv_inv_def)
    then have branch: "(if ?n = 0 then kick env ?k x ?t
               else if \<not> Is_Available ss then Ok (ov_reset env x ?t)
               else if ?io = IOType_Recv then IOFunction_Recv env ?n x p ?t
               else if ?io = IOType_Send then Ok (IOFunction_Send env ?n x ?t)
               else Ok (ov_reset env x ?t)) = Ok s'"
      using run e' at key p d
      by (cases ?io) (auto simp: WorkThread_entry_def sock_at_def bindE_eq_Ok_iff split: if_splits)
    have gone: "inbox_grows ?k ?t s'" if "kick env ?k x ?t = Ok s'"
      using kick_inv(3) [OF inv_t that] by (rule inbox_sock)
    have recv: "inbox_grows ?k ?t s'" if "IOFunction_Recv env ?n x p ?t = Ok s'"
      using IOFunction_Recv_inv(3) [OF inv_t ss at(2) n that] by (simp add: inbox_grows_def)
    have reset: "inbox_grows ?k ?t (ov_reset env x ?t)"
      by (rule inbox_io) simp
    have sent: "inbox_grows ?k ?t (IOFunction_Send env ?n x ?t)"
      using send_counted_inv(4) [OF inv_t, of ?n] srv_queues_io(2) [OF same_but_io_prims(2)]
      by (intro inbox_same) (simp add: IOFunction_Send_def send_counted_def)
    from branch gone recv reset sent show ?thesis
      by (auto split: if_splits)
  qed
qed

text \<open>Every step keeps the bound.\<close>

lemma srv_step_inbox:
  assumes env: "os_pending env" and step: "srv_step env s s'" and inv: "sys_inv s" and fits: "inbox_fits s"
  shows "inbox_fits s'"
  using step
proof cases
  case (completion e x data stop)
  then show ?thesis
    using WorkThread_entry_inbox [OF env inv] inbox_fits_grows [OF fits] by blast
next
  case (send_one k q es)
  have "srv_inv [] s"
    using inv by (simp add: sys_inv_def)
  from send_packet_effect [OF this send_one(1), of env] send_one(2) have "srv_msgs s' = srv_msgs s"
    by auto
  then show ?thesis
    using fits by (simp add: inbox_fits_def)
next
  case (app_send blk p t k r)
  have "srv_inv [] s"
    using inv by (simp add: sys_inv_def)
  from Send_queues [OF this app_send(1), of env t k] app_send(2) have "srv_msgs s' = srv_msgs s"
    by (auto simp: queued_def)
  then show ?thesis
    using fits by (simp add: inbox_fits_def)
next
  case (app_recv vec r vec')
  have "srv_inv [] s"
    using inv by (simp add: sys_inv_def)
  from Recv_outcome [OF this, of vec] app_recv have "srv_msgs s' = []"
    by auto
  then show ?thesis
    by (simp add: inbox_fits_def)
next
  case (app_disconnect k r)
  then have drop: "drop_client env k s = Ok s'"
    by (auto simp: Disconnect_drop bindE_eq_Ok_iff)
  have "maps_ok s" "avail_but {k} s" "srv_owns [] s"
    using inv avail_but_mono [of "{}" s "{k}"] by (simp_all add: sys_inv_def srv_inv_def)
  from drop_client_effect(6) [OF this drop] have "inbox_grows k s s'"
    by (rule inbox_sock)
  then show ?thesis
    using fits inbox_fits_grows by blast
next
  case (clock now)
  then show ?thesis
    using fits by (simp add: inbox_fits_def srv_msgs_def time_tick_def)
qed

text \<open>So it holds in every state a server can reach.\<close>

lemma srv_reach_inbox:
  assumes "os_fresh env" and "os_pending env" and "unat users + 10 < 2 ^ 16" and "srv_reach env users s"
  shows "inbox_fits s"
  using assms(4)
proof induction
  case (accept_done s now port w s')
  have "Recv_Data_Queue s' = []"
    by (rule Accept_establishes(6) [OF assms(1) accept_done(1) assms(3) accept_done(2)])
  then show ?case
    by (simp add: inbox_fits_def srv_msgs_def recv_view_def)
next
  case (step s s')
  then show ?case
    using srv_step_inbox [OF assms(2)] srv_reach_inv [OF assms(1-3)] by blast
qed

end
