(* ===== verification/DH_TestServer.thy ===== *)
theory DH_TestServer
  imports DH_EndToEnd DH_ServerInbox
begin

text \<open>
  The test server (\<open>TestServer/main.cpp\<close>): it accepts, and whenever messages came in it copies each into one
  buffer and broadcasts its own message once. First the text packets that the test server and the dummy client
  both send, then the program, then what one turn of its loop does to the queues and to the memory.
\<close>

section \<open>Text packets\<close>

definition char_bytes :: "string \<Rightarrow> byte list" where
  "char_bytes msg = map of_char msg"

text \<open>
  \<open>strcpy_s\<close> into an array of \<open>n\<close> characters at offset \<open>off\<close> of a block: everything up to the terminator, which
  has to fit as well.
\<close>

definition strcpy_s :: "byte list \<Rightarrow> nat \<Rightarrow> nat \<Rightarrow> byte list \<Rightarrow> byte list res" where
  "strcpy_s dst off n src =
     (let str = takeWhile (\<lambda>b. b \<noteq> 0) src
      in if n \<le> length str then Fault Invalid_Param
         else if length dst < off + Suc (length str) then Fault Buffer_Overflow
         else Ok (mem_write dst off (str @ [0])))"

text \<open>The three assignments that make a message of type 1 out of a text, on a fresh packet.\<close>

definition text_packet :: "string \<Rightarrow> byte list \<Rightarrow> byte list res" where
  "text_packet msg blk =
     bindE (strcpy_s blk PACKET_HEADER_SIZE MAX_PACKET_SIZE (char_bytes msg)) (\<lambda>blk.
       Ok (set_Packet_Size (word_of_nat (length msg + 1)) (set_Packet_Type 1 blk)))"

lemma length_char_bytes [simp]: "length (char_bytes msg) = length msg"
  by (simp add: char_bytes_def)

lemma text_packet_user:
  assumes blk: "length blk = PACKET_HEADER_SIZE + MAX_PACKET_SIZE"
    and short: "length msg < MAX_PACKET_SIZE" and nul: "0 \<notin> set (char_bytes msg)"
  shows "\<exists>blk'. text_packet msg blk = Ok blk' \<and> length blk' = length blk
    \<and> user_packet blk' (1, char_bytes msg @ [0])"
proof -
  let ?bs = "char_bytes msg" and ?w = "word_of_nat (length msg + 1) :: u64"
  let ?new = "encode_packet (1, ?bs @ [0]) @ drop (11 + length msg) blk"
  have str: "takeWhile (\<lambda>b. b \<noteq> 0) ?bs = ?bs"
    using nul by (auto simp: takeWhile_eq_all_conv)
  have "strcpy_s blk PACKET_HEADER_SIZE MAX_PACKET_SIZE ?bs = Ok (mem_write blk PACKET_HEADER_SIZE (?bs @ [0]))"
    using blk short by (simp add: strcpy_s_def str Let_def)
  moreover have "set_Packet_Size ?w (set_Packet_Type 1 (mem_write blk PACKET_HEADER_SIZE (?bs @ [0]))) = ?new"
    using blk short
    by (simp add: set_Packet_Size_def set_Packet_Type_def mem_write_def encode_packet_def header_bytes_def
        net_consts add.commute)
  ultimately have run: "text_packet msg blk = Ok ?new"
    by (simp add: text_packet_def)
  have "packet_ok (1, ?bs @ [0])"
    using short by (simp add: packet_ok_def packet_size_def net_consts)
  then show ?thesis
    using run blk short user_packet_encode [of "(1, ?bs @ [0])"]
    by (intro exI [of _ ?new]) (simp add: packet_size_def net_consts)
qed

section \<open>The program\<close>

definition Test_Server_Msg :: string where
  "Test_Server_Msg = ''[Server Effective Data]''"

record test_server =
  ts_Msg_Vec :: "(sock \<times> ptr) list"
  ts_Msg_Buff :: "byte list"
  ts_Server_Msg :: "byte list"
  ts_NetWork :: api_ptr

text \<open>
  Everything before the loop. The result of \<open>Accept\<close> is not looked at; \<open>raw\<close> is the memory of the buffer,
  which is not initialised.
\<close>

definition TestServer_start ::
    "os \<Rightarrow> int \<Rightarrow> u16 \<Rightarrow> byte list \<Rightarrow> sys \<Rightarrow> test_server res option" where
  "TestServer_start env now users raw y =
     (case text_packet Test_Server_Msg S2C_Packet_ctor of
        Inl e \<Rightarrow> Some (Fault e)
      | Inr msg \<Rightarrow>
          let a = snd (API_Initialize DHNet DHDEBUG_SIMPLE users y Api_Null)
          in map_option (\<lambda>r. bindE r (\<lambda>(_, a).
                 Ok \<lparr>ts_Msg_Vec = [], ts_Msg_Buff = raw, ts_Server_Msg = msg, ts_NetWork = a\<rparr>))
               (API_Accept env now 729 1000 5 a))"

text \<open>The loop over the received messages: a message of type 1 is copied to the start of the buffer.\<close>

primrec TestServer_scan :: "heap \<Rightarrow> (sock \<times> ptr) list \<Rightarrow> byte list \<Rightarrow> byte list res" where
  "TestServer_scan h [] Msg_Buff = Ok Msg_Buff"
| "TestServer_scan h (Msg_Packet # ms) Msg_Buff =
     bindE (heap_packet (snd Msg_Packet) h) (\<lambda>blk.
     bindE (get_Packet_Type blk) (\<lambda>t.
       if t = 1
       then bindE (get_Packet_Size blk) (\<lambda>sz.
            bindE (memcpy_s Msg_Buff 0 MAX_PACKET_SIZE (packet_buffer blk) (unat sz)) (\<lambda>Msg_Buff.
              TestServer_scan h ms Msg_Buff))
       else TestServer_scan h ms Msg_Buff))"

text \<open>One turn of the endless loop. The packets of the messages are not released.\<close>

definition TestServer_turn :: "os \<Rightarrow> test_server \<Rightarrow> test_server res" where
  "TestServer_turn env t =
     bindE (API_Recv (ts_Msg_Vec t) (ts_NetWork t)) (\<lambda>(r, vec, a).
       if r \<noteq> LOGIC_FAIL
       then bindE (TestServer_scan (api_memory a) vec (ts_Msg_Buff t)) (\<lambda>buff.
            bindE (API_Send env (Some (ts_Server_Msg t)) SEND_TYPE_BROADCAST INVALID_SOCKET a) (\<lambda>(_, a).
              Ok (t\<lparr>ts_Msg_Vec := [], ts_Msg_Buff := buff, ts_NetWork := a\<rparr>)))
       else Ok (t\<lparr>ts_Msg_Vec := vec, ts_NetWork := a\<rparr>))"

section \<open>Packets nobody owns\<close>

text \<open>
  The packets that live in the memory of the server and are in neither queue: once the application forgot the
  address of such a packet, nothing releases it.
\<close>

definition orphans :: "heap \<Rightarrow> ptr list \<Rightarrow> ptr list \<Rightarrow> ptr set" where
  "orphans h rq sq = {q. packet_at h q \<and> q \<notin> set (heap_refs h rq sq)}"

definition leaked :: "server \<Rightarrow> ptr set" where
  "leaked s = orphans (sheap s) (Recv_Data_Queue s) (map snd (Send_Data_Queue s))"

lemma msg_not_packet: "msg_at h m \<Longrightarrow> \<not> packet_at h m"
  by (auto simp: msg_at_def packet_at_def)

lemma orphans_push_send:
  assumes qs: "queues_ok h rq sq" and alloc: "heap_alloc (Packet_Block b) h = (q, h1)"
  shows "orphans h1 rq (sq @ [q]) = orphans h rq sq"
proof -
  note al = queues_alloc [OF qs alloc]
  have ok: "heap_ok h"
    using qs by (simp add: queues_ok_def)
  have cells: "cells h1 = (cells h)(q \<mapsto> Packet_Block b)" and new: "cells h q = None"
    using hp.alloc_lookup [OF ok alloc] hp.alloc_fresh [OF ok alloc] by simp_all
  have "set (heap_refs h1 rq (sq @ [q])) = insert q (set (heap_refs h rq sq))"
    using al(4) by (auto simp: heap_refs_def)
  moreover have "(packet_at h1 x \<and> x \<noteq> q) = packet_at h x" for x
    using new by (auto simp: packet_at_def cells)
  ultimately show ?thesis
    by (auto simp: orphans_def)
qed

lemma orphans_drop_recv:
  assumes qs: "queues_ok h rq sq"
  defines "ps \<equiv> concat (map (msg_packet h) rq)"
  shows "orphans h [] sq = orphans h rq sq \<union> set ps" and "orphans h rq sq \<inter> set ps = {}"
proof -
  have pkt: "packet_at h q" if q: "q \<in> set ps" for q
  proof -
    obtain m where m: "m \<in> set rq" "q \<in> set (msg_packet h m)"
      using q by (auto simp: ps_def)
    then have "msg_at h m"
      using qs by (simp add: queues_ok_def)
    then show ?thesis
      using m(2) by (auto simp: msg_at_def msg_packet_def)
  qed
  have notpkt: "\<not> packet_at h m" if "m \<in> set rq" for m
    using qs that msg_not_packet by (simp add: queues_ok_def)
  have refs: "set (heap_refs h rq sq) = set rq \<union> set ps \<union> set sq"
    by (auto simp: heap_refs_def ps_def)
  have dist: "set ps \<inter> set sq = {}"
    using qs by (auto simp: queues_ok_def heap_refs_def ps_def)
  have sq: "set (heap_refs h [] sq) = set sq"
    by (simp add: heap_refs_def)
  show "orphans h [] sq = orphans h rq sq \<union> set ps"
    unfolding orphans_def refs sq using pkt notpkt dist by blast
  show "orphans h rq sq \<inter> set ps = {}"
    unfolding orphans_def refs by blast
qed

lemma srv_inv_queues:
  "srv_inv held s \<Longrightarrow> queues_ok (sheap s) (Recv_Data_Queue s) (map snd (Send_Data_Queue s))"
  by (simp add: srv_inv_def srv_queues_ok_def)

text \<open>A broadcast makes one packet for each receiver and queues all of them.\<close>

lemma broadcast_loop_leaked:
  assumes "user_packet blk p"
  defines "tot \<equiv> packet_total (word_of_nat (length (snd p)))"
  shows "srv_inv held s \<Longrightarrow> fst ` set es \<subseteq> connected s \<Longrightarrow>
    broadcast_loop blk tot es n s = Ok (n', s') \<Longrightarrow> leaked s' = leaked s"
proof (induction es arbitrary: n s)
  case Nil
  then show ?case by simp
next
  case (Cons e es)
  obtain q h where alloc: "heap_alloc (Packet_Block (encode_packet p)) (sheap s) = (q, h)"
    by force
  let ?s1 = "s\<lparr>sheap := h, Send_Data_Queue := Send_Data_Queue s @ [(fst e, q)]\<rparr>"
  have "packet_ok p"
    using assms(1) by (simp add: user_packet_def)
  note push = queued_push [OF Cons.prems(1) alloc this, of "fst e"]
  have "srv_inv held ?s1" "fst ` set es \<subseteq> connected ?s1"
    using push Cons.prems(2) by (auto simp: queued_def connected_def)
  moreover have "\<exists>y. map_of (g_Connected_Client s) (fst e) = Some y"
    using Cons.prems(2) by (simp add: connected_def)
  then have "broadcast_loop blk tot es (n + 1) ?s1 = Ok (n', s')"
    using Cons.prems(3) copy_packet_Ok(4) [OF assms(1)] alloc by (auto simp: tot_def)
  ultimately have "leaked s' = leaked ?s1"
    by (rule Cons.IH)
  also have "\<dots> = leaked s"
    using orphans_push_send [OF srv_inv_queues [OF Cons.prems(1)] alloc] by (simp add: leaked_def)
  finally show ?case .
qed

lemma Send_broadcast_leaked:
  assumes "srv_inv held s" and "user_packet blk p"
    and "Send env (Some blk) SEND_TYPE_BROADCAST k s = Ok (r, s')"
  shows "leaked s' = leaked s"
  using broadcast_loop_leaked [OF assms(2,1), of "g_Connected_Client s" 0 r s'] assms(3) copy_packet_Ok [OF assms(2)]
  by (simp add: Send_def BroadCastMessage_def connected_keys)

text \<open>\<open>Recv\<close> hands over the packets of the receive queue, each once.\<close>

lemma Recv_leaked:
  assumes inv: "srv_inv held s" and run: "Recv vec s = Ok (r, vec @ new, s')"
  shows "leaked s' = leaked s \<union> snd ` set new" and "leaked s \<inter> snd ` set new = {}"
    and "s' = s\<lparr>Recv_Data_Queue := []\<rparr>"
proof -
  note qs = srv_inv_queues [OF inv]
  have "map snd new = concat (map (msg_packet (sheap s)) (Recv_Data_Queue s)) \<and> s' = s\<lparr>Recv_Data_Queue := []\<rparr>"
  proof (cases "Recv_Data_Queue s = []")
    case True
    then show ?thesis
      using run by (cases s) (auto simp: Recv_def)
  next
    case False
    with recv_drain_view [OF qs, of vec] run show ?thesis
      by (auto simp: Recv_def)
  qed
  then have new: "map snd new = concat (map (msg_packet (sheap s)) (Recv_Data_Queue s))"
    and s': "s' = s\<lparr>Recv_Data_Queue := []\<rparr>"
    by blast+
  have set: "set (concat (map (msg_packet (sheap s)) (Recv_Data_Queue s))) = snd ` set new"
    using arg_cong [OF new, of set] by simp
  show "leaked s' = leaked s \<union> snd ` set new" and "leaked s \<inter> snd ` set new = {}"
    using orphans_drop_recv [OF qs] by (simp_all only: leaked_def s' set) simp_all
  show "s' = s\<lparr>Recv_Data_Queue := []\<rparr>"
    by (rule s')
qed

section \<open>One turn\<close>

text \<open>A handle that holds a server.\<close>

definition api_server :: "api_ptr \<Rightarrow> DHNetWork \<Rightarrow> server \<Rightarrow> bool" where
  "api_server a nw s \<longleftrightarrow> a = Api_Live nw \<and> Current_Type nw = TYPE_DHSERVER
     \<and> m_NetWork nw = Some (Net_Server s) \<and> srv_inv [] s"

text \<open>The state of the test server before a turn, over the server \<open>s\<close>.\<close>

definition test_server_at :: "test_server \<Rightarrow> server \<Rightarrow> bool" where
  "test_server_at t s \<longleftrightarrow> (\<exists>nw. api_server (ts_NetWork t) nw s) \<and> ts_Msg_Vec t = []
     \<and> length (ts_Msg_Buff t) = MAX_PACKET_SIZE
     \<and> user_packet (ts_Server_Msg t) (1, char_bytes Test_Server_Msg @ [0])"

lemma Test_Server_Msg_fits: "length Test_Server_Msg < MAX_PACKET_SIZE" "0 \<notin> set (char_bytes Test_Server_Msg)"
  by (simp_all add: Test_Server_Msg_def char_bytes_def net_consts)

text \<open>The last message of type 1 ends up at the start of the buffer; the loop faults on no packet that fits.\<close>

lemma TestServer_scan_Ok:
  assumes "\<forall>(k, q) \<in> set vec. packet_at h q"
    and "\<forall>m \<in> set (vec_view h vec). length (snd (snd m)) \<le> MAX_PACKET_SIZE"
    and "length buff = MAX_PACKET_SIZE"
  shows "\<exists>buff'. TestServer_scan h vec buff = Ok buff' \<and> length buff' = MAX_PACKET_SIZE"
  using assms
proof (induction vec arbitrary: buff)
  case Nil
  then show ?case by simp
next
  case (Cons m vec)
  obtain k q where m: "m = (k, q)"
    by (cases m)
  have "packet_at h q"
    using Cons.prems(1) by (simp add: m)
  then obtain p where p: "packet_ok p" "cells h q = Some (Packet_Block (encode_packet p))" "packet_view h q = p"
    by (rule packet_atE)
  have small: "length (snd p) \<le> MAX_PACKET_SIZE"
    using Cons.prems(2) by (simp add: vec_view_def m p(3))
  have read: "heap_packet q h = Ok (encode_packet p)" "get_Packet_Type (encode_packet p) = Ok (fst p)"
      "get_Packet_Size (encode_packet p) = Ok (word_of_nat (length (snd p)))"
      "packet_buffer (encode_packet p) = snd p"
    using copy_packet_Ok [OF user_packet_encode [OF p(1), of "[]"]] p(2)
    by (simp_all add: heap_packet_eq packet_buffer_def encode_packet_def)
  have n: "unat (word_of_nat (length (snd p)) :: u64) = length (snd p)"
    using small by (simp add: unat_of_nat64 net_consts)
  have copy: "memcpy_s buff 0 MAX_PACKET_SIZE (snd p) (length (snd p)) = Ok (mem_write buff 0 (snd p))"
    using small Cons.prems(3) by (simp add: memcpy_s_def)
  have len: "length (mem_write buff 0 (snd p)) = MAX_PACKET_SIZE"
    using small Cons.prems(3) by (simp add: mem_write_0)
  have rest: "\<exists>buff'. TestServer_scan h vec b = Ok buff' \<and> length buff' = MAX_PACKET_SIZE"
    if "length b = MAX_PACKET_SIZE" for b
    using Cons.prems(1,2) that by (intro Cons.IH) (auto simp: vec_view_def)
  show ?case
    using rest [OF len] rest [OF Cons.prems(3)] by (simp add: m read n copy)
qed

lemma api_Recv_server:
  assumes "api_server a nw s" and "Recv vec s = Ok (r, vec', s')"
  shows "API_Recv vec a = Ok (r, vec', Api_Live (nw\<lparr>m_NetWork := Some (Net_Server s')\<rparr>))"
  using assms by (simp add: api_server_def API_Recv_def api_get_def NW_Recv_def nw_types)

lemma api_Send_server:
  assumes "api_server a nw s" and "Send env pkt t k s = Ok (r, s')"
  shows "API_Send env pkt t k a = Ok (r, Api_Live (nw\<lparr>m_NetWork := Some (Net_Server s')\<rparr>))"
  using assms by (simp add: api_server_def API_Send_def api_get_def NW_Send_def nw_types)

text \<open>A turn over an empty queue changes nothing.\<close>

lemma TestServer_turn_idle:
  assumes at: "test_server_at t s" and none: "srv_msgs s = []"
  shows "TestServer_turn env t = Ok t"
proof -
  obtain nw where api: "api_server (ts_NetWork t) nw s"
    using at by (auto simp: test_server_at_def)
  then have a: "ts_NetWork t = Api_Live nw" "m_NetWork nw = Some (Net_Server s)"
    by (simp_all add: api_server_def)
  have "Recv_Data_Queue s = []"
    using none by (simp add: srv_msgs_def recv_view_def)
  then have "Recv [] s = Ok (LOGIC_FAIL, [], s)"
    by (simp add: Recv_def)
  from api_Recv_server [OF api this]
  have "API_Recv [] (ts_NetWork t) = Ok (LOGIC_FAIL, [], ts_NetWork t)"
    using a by (cases nw) simp
  then show ?thesis
    using at by (cases t) (simp add: TestServer_turn_def test_server_at_def)
qed

text \<open>
  A turn over received messages: the queue is emptied, one message is queued for every connected client, the
  test server can go on, and exactly the received packets are lost.
\<close>

lemma TestServer_turn_busy:
  assumes at: "test_server_at t s" and some: "srv_msgs s \<noteq> []"
    and small: "\<forall>m \<in> set (srv_msgs s). length (snd (snd m)) \<le> MAX_PACKET_SIZE"
  shows "\<exists>t' s' ps. TestServer_turn env t = Ok t' \<and> test_server_at t' s' \<and> srv_msgs s' = []
    \<and> srv_sends s' = srv_sends s
         @ map (\<lambda>e. (fst e, 1, char_bytes Test_Server_Msg @ [0])) (g_Connected_Client s)
    \<and> ssys s' = ssys s \<and> same_but_send (s\<lparr>Recv_Data_Queue := []\<rparr>) s'
    \<and> (\<exists>s1. srv_step env s s1 \<and> srv_step env s1 s')
    \<and> distinct ps \<and> length ps = length (srv_msgs s) \<and> leaked s \<inter> set ps = {} \<and> leaked s' = leaked s \<union> set ps"
proof -
  let ?p = "(1, char_bytes Test_Server_Msg @ [0]) :: packet"
  obtain nw where api: "api_server (ts_NetWork t) nw s"
    using at by (auto simp: test_server_at_def)
  then have inv: "srv_inv [] s"
    by (simp add: api_server_def)
  have blk: "user_packet (ts_Server_Msg t) ?p"
    using at by (simp add: test_server_at_def)
  from Recv_outcome [OF inv, of "[]"] some obtain r new s1 where
    s1: "Recv [] s = Ok (r, [] @ new, s1)" "srv_inv [] s1" "vec_view (sheap s1) new = srv_msgs s" "srv_msgs s1 = []"
      "srv_sends s1 = srv_sends s" "r \<noteq> LOGIC_FAIL" "vec_ok (sheap s1) new"
    by auto
  note lk = Recv_leaked [OF inv s1(1)]
  let ?nw = "nw\<lparr>m_NetWork := Some (Net_Server s1)\<rparr>"
  have api1: "api_server (Api_Live ?nw) ?nw s1"
    using api s1(2) by (simp add: api_server_def)
  have "\<forall>(k, q) \<in> set new. packet_at (sheap s1) q"
    using s1(7) by (simp add: vec_ok_def)
  then obtain buff where buff: "TestServer_scan (sheap s1) new (ts_Msg_Buff t) = Ok buff" "length buff = MAX_PACKET_SIZE"
    using TestServer_scan_Ok [of new "sheap s1" "ts_Msg_Buff t"] small at by (auto simp: s1(3) test_server_at_def)
  from Send_broadcast [OF s1(2) blk, of env INVALID_SOCKET] obtain s2 where
    s2: "Send env (Some (ts_Server_Msg t)) SEND_TYPE_BROADCAST INVALID_SOCKET s1
          = Ok (int (length (g_Connected_Client s1)), s2)"
      "queued [] (map (\<lambda>e. (fst e, ?p)) (g_Connected_Client s1)) s1 s2"
    by blast
  let ?t = "t\<lparr>ts_Msg_Vec := [], ts_Msg_Buff := buff, ts_NetWork := Api_Live (?nw\<lparr>m_NetWork := Some (Net_Server s2)\<rparr>)\<rparr>"
  have "TestServer_turn env t = Ok ?t"
    using at api_Recv_server [OF api s1(1)] s1(6) buff(1) api_Send_server [OF api1 s2(1)]
    by (simp add: TestServer_turn_def test_server_at_def api_memory_def nw_memory_def)
  moreover have "api_server (ts_NetWork ?t) (?nw\<lparr>m_NetWork := Some (Net_Server s2)\<rparr>) s2"
    using api s2(2) by (simp add: api_server_def queued_def)
  then have "test_server_at ?t s2"
    using blk buff(2) by (auto simp: test_server_at_def)
  moreover have "leaked s2 = leaked s \<union> set (map snd new)"
    using Send_broadcast_leaked [OF s1(2) blk s2(1)] lk(1) by simp
  moreover have "distinct (map snd new)" "length (map snd new) = length (srv_msgs s)" "leaked s \<inter> set (map snd new) = {}"
    using s1(3,7) lk(2) by (auto simp: vec_ok_def vec_view_def dest: arg_cong [of _ _ length])
  moreover have "\<exists>s1. srv_step env s s1 \<and> srv_step env s1 s2"
    using srv_step.app_recv [OF s1(1)] srv_step.app_send [OF blk s2(1)] by blast
  ultimately show ?thesis
    using s2(2) s1(4,5) lk(3)
    by (intro exI [of _ ?t] exI [of _ s2] exI [of _ "map snd new"]) (simp add: queued_def)
qed

text \<open>
  A turn is made of steps of the server. In a reachable state every message fits into the buffer, so that a
  turn never faults, and the state after it is reachable again.
\<close>

lemma inbox_fits_small: "inbox_fits s \<Longrightarrow> \<forall>m \<in> set (srv_msgs s). length (snd (snd m)) \<le> MAX_PACKET_SIZE"
  by (auto simp: inbox_fits_def fits_buffer_def packet_size_def)

lemma TestServer_turn_reach:
  assumes env: "os_fresh env" "os_pending env" and users: "unat users + 10 < 2 ^ 16"
    and at: "test_server_at t s" and reach: "srv_reach env users s"
  shows "\<exists>t' s'. TestServer_turn env t = Ok t' \<and> test_server_at t' s' \<and> srv_reach env users s'"
proof (cases "srv_msgs s = []")
  case True
  with TestServer_turn_idle [OF at] at reach show ?thesis by blast
next
  case False
  have "inbox_fits s"
    by (rule srv_reach_inbox [OF env users reach])
  from TestServer_turn_busy [OF at False inbox_fits_small [OF this], of env] reach show ?thesis
    by (blast intro: srv_reach.step)
qed

section \<open>The whole run\<close>

text \<open>
  The loop of \<open>main\<close> and everything its server does meanwhile: completions, the send thread, the clock.
\<close>

inductive ts_step :: "os \<Rightarrow> test_server \<Rightarrow> test_server \<Rightarrow> bool" for env where
  turn: "TestServer_turn env t = Ok t' \<Longrightarrow> ts_step env t t'"
| server: "api_server (ts_NetWork t) nw s \<Longrightarrow> srv_step env s s' \<Longrightarrow>
      ts_step env t (t\<lparr>ts_NetWork := Api_Live (nw\<lparr>m_NetWork := Some (Net_Server s')\<rparr>)\<rparr>)"

inductive_cases ts_stepE: "ts_step env t t'"

definition ts_good :: "os \<Rightarrow> test_server \<Rightarrow> bool" where
  "ts_good env t \<longleftrightarrow> (\<exists>s. test_server_at t s \<and> srv_reach env 1000 s)"

lemma api_server_unique: "api_server a nw s \<Longrightarrow> api_server a nw' s' \<Longrightarrow> nw' = nw \<and> s' = s"
  by (auto simp: api_server_def)

lemma users_1000: "unat (1000 :: u16) + 10 < 2 ^ 16"
  by simp

lemma ts_step_good:
  assumes env: "os_fresh env" "os_pending env" and step: "ts_step env t t'" and good: "ts_good env t"
  shows "ts_good env t'"
proof -
  obtain s where at: "test_server_at t s" and reach: "srv_reach env 1000 s"
    using good by (auto simp: ts_good_def)
  from step show ?thesis
  proof cases
    case turn
    with TestServer_turn_reach [OF env users_1000 at reach] show ?thesis
      by (auto simp: ts_good_def)
  next
    case (server nw s1 s')
    have "s1 = s"
      using at server(2) api_server_unique by (auto simp: test_server_at_def)
    then have reach': "srv_reach env 1000 s'"
      using server(3) reach by (auto intro: srv_reach.step)
    then have "srv_inv [] s'"
      using srv_reach_inv [OF env users_1000] by (simp add: sys_inv_def)
    then have "test_server_at t' s'"
      using at server(1,2) by (simp add: test_server_at_def api_server_def)
    with reach' show ?thesis
      by (auto simp: ts_good_def)
  qed
qed

text \<open>The start, on a system that grants what \<open>Accept\<close> asks for.\<close>

lemma NetWorkBase_ctor_release:
  assumes "\<not> debug_build env"
  shows "\<exists>y'. NetWorkBase_ctor env y = Ok y' \<and> in_flight y' = in_flight y \<and> length (calls y') = length (calls y) + 4"
  using assms by (simp add: NetWorkBase_ctor_def Let_def split_def assertE_def sys_call_def)

lemma TestServer_start_good:
  assumes env: "os_fresh env" "os_pending env" "accept_granted env B" and rel: "\<not> debug_build env"
    and room: "length (calls y) + 3044 \<le> B" and idle: "in_flight y = []" and raw: "length raw = MAX_PACKET_SIZE"
  shows "\<exists>t. TestServer_start env now users raw y = Some (Ok t) \<and> ts_good env t"
proof -
  obtain msg where msg: "text_packet Test_Server_Msg S2C_Packet_ctor = Ok msg"
      "user_packet msg (1, char_bytes Test_Server_Msg @ [0])"
    using text_packet_user [OF length_S2C_Packet Test_Server_Msg_fits] by blast
  obtain y' where y': "NetWorkBase_ctor env y = Ok y'" "in_flight y' = []" "length (calls y') = length (calls y) + 4"
    using NetWorkBase_ctor_release [OF rel, of y] idle by auto
  let ?s0 = "SetDebug DHDEBUG_SIMPLE (DHServer_init env users y')"
  have fresh: "fresh_server ?s0"
    by (rule fresh_server_init [OF y'(2)])
  have "length (calls (ssys ?s0)) + unat (5 :: u16) + 3 * (unat (1000 :: u16) + 10) + 5 \<le> B"
    using room y'(3) by (simp add: SetDebug_def DHServer_init_def)
  from Accept_granted [OF fresh env(3) this users_1000] obtain s where
    acc: "Accept env now 729 1000 5 ?s0 = Some (Ok (LOGIC_SUCCESS, s))"
    by blast
  have reach: "srv_reach env 1000 s"
    by (rule srv_reach.accept_done [OF fresh acc])
  then have inv: "srv_inv [] s"
    using srv_reach_inv [OF env(1,2) users_1000] by (simp add: sys_inv_def)
  let ?nw = "(DHNetWork_ctor users y)\<lparr>nw_Debug_Option := DHDEBUG_SIMPLE, Current_Type := TYPE_DHSERVER,
    m_NetWork := Some (Net_Server s)\<rparr>"
  let ?t = "\<lparr>ts_Msg_Vec = [], ts_Msg_Buff = raw, ts_Server_Msg = msg, ts_NetWork = Api_Live ?nw\<rparr>"
  have "TestServer_start env now users raw y = Some (Ok ?t)"
    using acc y'(1)
    by (simp add: TestServer_start_def msg(1) API_Initialize_def NW_Initialize_def API_Accept_def api_get_def
        NW_Accept_def DHNetWork_ctor_def DHServer_ctor_def nw_types)
  moreover have "test_server_at ?t s"
    using inv raw msg(2) by (simp add: test_server_at_def api_server_def)
  ultimately show ?thesis
    using reach by (auto simp: ts_good_def)
qed

lemma ts_run_good:
  assumes env: "os_fresh env" "os_pending env" and run: "(ts_step env)\<^sup>*\<^sup>* t0 t" and good: "ts_good env t0"
  shows "ts_good env t"
  using run good by (induction rule: rtranclp_induct) (auto intro: ts_step_good [OF env])

lemma ts_good_turn:
  assumes env: "os_fresh env" "os_pending env" and good: "ts_good env t"
  shows "\<exists>t'. TestServer_turn env t = Ok t' \<and> ts_good env t'"
  using good TestServer_turn_reach [OF env users_1000] by (auto simp: ts_good_def)

end
