(* ===== verification/DH_TestEcho.thy ===== *)
theory DH_TestEcho
  imports DH_TestServer
begin

text \<open>
  A message of a client, through the test server, back to the same client: the sending theorems of client and
  server, the two stream receivers and the turn of the test server, composed.
\<close>

section \<open>The receiving server, with what it does not touch\<close>

definition srv_listening :: "os \<Rightarrow> nat \<Rightarrow> ptr \<Rightarrow> sock \<Rightarrow> server \<Rightarrow> server \<Rightarrow> bool" where
  "srv_listening env x p k s0 s \<longleftrightarrow> srv_ready env x p k s \<and> inbox_fits s \<and> connected s = connected s0
     \<and> srv_sends s = srv_sends s0 \<and> g_Is_Exit s = g_Is_Exit s0"

interpretation srv_quiet: stream_receiver "srv_on_bytes env x p" "srv_listening env x p k s0" "srv_pend x"
  "msgs_of k"
  for env x p k s0
proof unfold_locales
  fix s c ps r
  assume on: "srv_listening env x p k s0 s" and c: "chunk_ok c" "length (srv_pend x s) + length c \<le> MAX_PACKET_SIZE"
    "spec_parse (srv_pend x s @ c) = (ps, r, Need_More)"
  have "srv_ready env x p k s"
    using on by (simp add: srv_listening_def)
  from srv_recv_step [OF this c] obtain s' where s': "srv_on_bytes env x p s c = Ok s'"
    "srv_ready env x p k s'" "srv_pend x s' = r" "srv_msgs s' = srv_msgs s @ map (Pair k) ps"
    "connected s' = connected s" "srv_sends s' = srv_sends s" "g_Is_Exit s' = g_Is_Exit s"
    by blast
  have "length (srv_pend x s @ c) \<le> MAX_PACKET_SIZE"
    using c(2) by simp
  then have "list_all (fits_buffer MAX_PACKET_SIZE) ps"
    using spec_parse_ok [OF c(3)] fits_buffer_mono by blast
  then have "inbox_grows k s s'"
    using s'(4) by (auto simp: inbox_grows_def)
  then have "inbox_fits s'"
    using on inbox_fits_grows by (auto simp: srv_listening_def)
  moreover have "map snd (filter (\<lambda>m. fst m = k) (map (Pair k) ps)) = ps"
    by (induction ps) auto
  ultimately show "\<exists>s'. srv_on_bytes env x p s c = Ok s' \<and> srv_listening env x p k s0 s' \<and> srv_pend x s' = r
      \<and> msgs_of k s' = msgs_of k s @ ps"
    using s' on by (auto simp: srv_listening_def msgs_of_def)
qed

section \<open>The client after it sent\<close>

lemma client_ready_sending:
  assumes ready: "client_ready env x j c" and send: "client_sending k c c'" and inv: "cli_inv [] c'"
    and sock: "g_Server_Socket c' = g_Server_Socket c"
  shows "client_ready env x j c'" and "client_pend x c' = client_pend x c"
    and "client_msgs_of i c' = client_msgs_of i c"
proof -
  have "flight_kept (cview c) (cview c')" and msgs: "cli_msgs c' = cli_msgs c"
    using send by (simp_all add: client_sending_def cli_flights_def)
  moreover have "x \<in> set (in_flight (csys c))"
    using ready by (simp add: client_ready_def)
  ultimately have x: "x \<in> set (in_flight (csys c'))" and at: "ov_at (cview c') x = ov_at (cview c) x"
    by (auto simp: flight_kept_def)
  from at have at': "cli_at c' x = cli_at c x"
    by simp
  show "client_ready env x j c'"
    using ready inv x at' sock by (simp add: client_ready_def)
  show "client_pend x c' = client_pend x c"
    using at by (simp add: client_pend_def srv_pend_def)
  show "client_msgs_of i c' = client_msgs_of i c"
    by (simp add: client_msgs_of_def msgs)
qed

lemma SendFunction_ready:
  assumes ready: "client_ready env x j c" and env: "send_accepted env"
  shows "\<exists>c'. SendFunction env c = Ok c' \<and> client_ready env x j c' \<and> client_pend x c' = client_pend x c
    \<and> client_msgs_of i c' = client_msgs_of i c \<and> cli_sends c' = []
    \<and> sent_buffers j (csys c') = sent_buffers j (csys c) @ cut_packets (cli_sends c)"
proof -
  obtain ss where inv: "cli_inv [] c" and sock: "g_Server_Socket c = Some ss" "ss_Socket ss = j" "j \<noteq> INVALID_SOCKET"
    using ready by (auto simp: client_ready_def)
  from client_send_queue_effect [OF inv sock, of env] obtain c' gone n where
    c': "SendFunction env c = Ok c'" "cli_inv [] c'" "client_sending j c c'" "cli_sends c = gone @ cli_sends c'"
      "\<forall>i. sent_buffers i (csys c') = sent_buffers i (csys c) @ (if i = j then take n (cut_packets gone) else [])"
      "g_Server_Socket c' = Some ss \<and> cli_sends c' = [] \<and> length (cut_packets gone) \<le> n
       \<or> client_closed c' \<and> gone \<noteq> [] \<and> \<not> send_accepted env"
    unfolding SendFunction_def by blast
  have done_: "g_Server_Socket c' = g_Server_Socket c" "cli_sends c' = []" "length (cut_packets gone) \<le> n"
    using c'(6) env sock(1) by auto
  with c' client_ready_sending [OF ready c'(3,2) done_(1)] show ?thesis
    by auto
qed

section \<open>The round trip\<close>

abbreviation server_text :: packet where
  "server_text \<equiv> (1, char_bytes Test_Server_Msg @ [0])"

lemma server_text_ok: "stream_packet server_text"
  by (simp add: stream_packet_def packet_ok_def packet_size_def Test_Server_Msg_def char_bytes_def
      max_stream_packet_def net_consts)

text \<open>One turn and one round of the send thread, as seen by one connected client.\<close>

lemma turn_sends:
  assumes at: "test_server_at t s" and some: "srv_msgs s \<noteq> []" and fits: "inbox_fits s"
    and k: "k \<in> connected s" and idle: "srv_sends s = []" and run: "\<not> g_Is_Exit s" and env: "send_accepted env"
  shows "\<exists>t' s' s''. TestServer_turn env t = Ok t' \<and> test_server_at t' s' \<and> SendThread env s' = Ok (Some s'')
    \<and> sent_buffers k (ssys s'') = sent_buffers k (ssys s) @ cut_packets [server_text]"
proof -
  from TestServer_turn_busy [OF at some inbox_fits_small [OF fits], of env] obtain t' s' where
    t': "TestServer_turn env t = Ok t'" "test_server_at t' s'"
      "srv_sends s' = srv_sends s @ map (\<lambda>e. (fst e, server_text)) (g_Connected_Client s)"
      "ssys s' = ssys s" "same_but_send (s\<lparr>Recv_Data_Queue := []\<rparr>) s'"
    by blast
  have inv: "srv_inv [] s" "srv_inv [] s'"
    using at t'(2) by (auto simp: test_server_at_def api_server_def)
  have conn: "connected s' = connected s" and exit: "\<not> g_Is_Exit s'"
    using same_but_sendD [OF t'(5)] run by (simp_all add: connected_def)
  from send_queue_effect [OF inv(2) env] obtain s'' where
    s'': "send_queue env (Send_Data_Queue s') s' = Ok s''"
      "sent_buffers k (ssys s'') = sent_buffers k (ssys s') @ bytes_for k s'"
    by blast
  have dist: "distinct (map fst (g_Connected_Client s))"
    using inv(1) by (simp add: srv_inv_def maps_ok_def hm_distinct_def)
  have "k \<in> fst ` set (g_Connected_Client s)"
    using connected_keys k by simp
  then have "sends_for k s' = [server_text]"
    using filter_clients [OF dist, of k server_text] by (simp add: sends_for_def t'(3) idle)
  then have "bytes_for k s' = cut_packets [server_text]"
    using bytes_for_cut [of k s'] k conn by simp
  with t'(1,2,4) s'' exit show ?thesis
    by (intro exI [of _ t'] exI [of _ s'] exI [of _ s'']) (simp add: SendThread_def)
qed

lemma echo_back:
  assumes client: "client_ready env x j c" "client_pend x c = []" "send_accepted env" "sent_buffers j (csys c) = []"
    and sends: "cli_sends c \<noteq> []" "list_all stream_packet (cli_sends c)"
    and server: "srv_ready env' y p k s" "srv_pend y s = []" "send_accepted env'"
      "k \<in> connected s" "inbox_fits s" "srv_sends s = []" "\<not> g_Is_Exit s"
  shows "\<exists>c1. SendFunction env c = Ok c1 \<and> cli_sends c1 = []
    \<and> (\<forall>got. wire (sent_buffers j (csys c1)) got \<longrightarrow>
        (\<exists>s1. feed (srv_on_bytes env' y p) s got = Ok s1 \<and> msgs_of k s1 = msgs_of k s @ cli_sends c
          \<and> (\<forall>t. test_server_at t s1 \<longrightarrow>
              (\<exists>t2 s2 s3. TestServer_turn env' t = Ok t2 \<and> test_server_at t2 s2 \<and> SendThread env' s2 = Ok (Some s3)
                \<and> (\<forall>out back. sent_buffers k (ssys s3) = sent_buffers k (ssys s1) @ out \<and> wire out back \<longrightarrow>
                    (\<exists>c2. feed (client_on_bytes env x) c1 back = Ok c2
                      \<and> client_msgs_of j c2 = client_msgs_of j c @ [server_text]))))))"
proof -
  from SendFunction_ready [OF client(1,3), of j] client(2,4) obtain c1 where
    c1: "SendFunction env c = Ok c1" "client_ready env x j c1" "client_pend x c1 = []"
      "client_msgs_of j c1 = client_msgs_of j c" "cli_sends c1 = []"
      "sent_buffers j (csys c1) = cut_packets (cli_sends c)"
    by auto
  have on: "srv_listening env' y p k s s"
    using server by (simp add: srv_listening_def)
  have there: "\<exists>s1. feed (srv_on_bytes env' y p) s got = Ok s1 \<and> srv_listening env' y p k s s1
      \<and> msgs_of k s1 = msgs_of k s @ cli_sends c"
    if "wire (sent_buffers j (csys c1)) got" for got
    using that sends(2) srv_quiet.feed_all [OF on server(2), of got "cli_sends c"]
    by (simp add: c1(6) wire_cut) (auto simp: wire_def)
  have ret: "\<exists>c2. feed (client_on_bytes env x) c1 got = Ok c2 \<and> client_msgs_of j c2 = client_msgs_of j c @ [server_text]"
    if "wire (cut_packets [server_text]) got" for got
    using that server_text_ok cli_stream.feed_all [OF c1(2,3), of got "[server_text]"]
    by (simp add: wire_cut c1(4)) (auto simp: wire_def)
  have turn: "\<exists>t2 s2 s3. TestServer_turn env' t = Ok t2 \<and> test_server_at t2 s2 \<and> SendThread env' s2 = Ok (Some s3)
      \<and> sent_buffers k (ssys s3) = sent_buffers k (ssys s1) @ cut_packets [server_text]"
    if on1: "srv_listening env' y p k s s1" and ms: "msgs_of k s1 = msgs_of k s @ cli_sends c"
      and at: "test_server_at t s1" for s1 t
  proof -
    have "srv_msgs s1 \<noteq> []"
      using ms sends(1) by (auto simp: msgs_of_def)
    with turn_sends [OF at this _ _ _ _ server(3), of k] on1 server show ?thesis
      by (simp add: srv_listening_def)
  qed
  show ?thesis
    using c1(1,5) there ret turn by (intro exI [of _ c1]) (fastforce)
qed

end
