(* ===== verification/DH_ClientFrame.thy ===== *)
theory DH_ClientFrame
  imports DH_ClientSystem
begin

text \<open>
  What a client does on its own, by its connecting thread and its worker, as a part of the steps of
  \<open>cli_step\<close>; and what it leaves to the application: the address, the flag that ends the client and the
  thread object.
\<close>

section \<open>What only the application changes\<close>

definition cli_life :: "client \<Rightarrow> u16 \<times> string \<times> thread_ptr \<times> bool" where
  "cli_life c = (c_PORT c, c_IP c, g_Connect_Send_Client_Thread c, c_Is_Exit c)"

named_theorems life

lemma life_prims [simp]:
  "cli_life (cli_upd x f c) = cli_life c" "cli_life (cli_reset env x c) = cli_life c"
  "cli_life (cli_do env k c) = cli_life c" "cli_life (snd (cli_call env k c)) = cli_life c"
  "cli_life (snd (cli_async env k x c)) = cli_life c" "cli_life (set_server_socket j c) = cli_life c"
  "cli_life (c\<lparr>cheap := h\<rparr>) = cli_life c" "cli_life (c\<lparr>c_Recv_Data_Queue := q\<rparr>) = cli_life c"
  "cli_life (c\<lparr>c_Send_Data_Queue := q\<rparr>) = cli_life c" "cli_life (c\<lparr>Is_Server_Connect_Success := b\<rparr>) = cli_life c"
  "cli_life (c\<lparr>csys := y\<rparr>) = cli_life c" "cli_life (c\<lparr>c_Debug_Option := d\<rparr>) = cli_life c"
  "cli_life (c\<lparr>c_Available_Overlapped := p\<rparr>) = cli_life c"
  by (simp_all add: cli_life_def cli_upd_def cli_reset_def cli_do_def cli_call_def cli_async_def set_server_socket_def
      split_def Let_def)

lemma life_call [life]: "cli_call env k c = (r, c') \<Longrightarrow> cli_life c' = cli_life c"
  using life_prims(4) [of env k c] by simp

lemma life_async [life]: "cli_async env k x c = (r, c') \<Longrightarrow> cli_life c' = cli_life c"
  using life_prims(5) [of env k x c] by simp

lemma life_get [life]: "cli_get env c = Ok (x, c') \<Longrightarrow> cli_life c' = cli_life c"
  by (auto simp: cli_get_def bindE_eq_Ok_iff)

lemma life_close [life]: "Safe_CloseSocket env c = Ok c' \<Longrightarrow> cli_life c' = cli_life c"
  by (auto simp: Safe_CloseSocket_def bindE_eq_Ok_iff Let_def)

lemma life_close_reset [life]: "close_and_reset env x c = Ok c' \<Longrightarrow> cli_life c' = cli_life c"
  by (auto simp: close_and_reset_def bindE_eq_Ok_iff dest: life)

lemma life_reserve [life]: "Client_Reserve_WSAReceive env k po c = Ok (ok, c') \<Longrightarrow> cli_life c' = cli_life c"
  by (auto simp: Client_Reserve_WSAReceive_def bindE_eq_Ok_iff Let_def case_prod_beta split: option.splits if_splits
      dest!: life)

lemma life_rearm [life]: "client_rearm env x c = Ok c' \<Longrightarrow> cli_life c' = cli_life c"
  by (auto simp: client_rearm_def bindE_eq_Ok_iff split: if_splits dest!: life)

lemma life_backup [life]: "Client_BackUp_Overlapped env x c = Ok (ok, c') \<Longrightarrow> cli_life c' = cli_life c"
  by (auto simp: Client_BackUp_Overlapped_def bindE_eq_Ok_iff Let_def split: if_splits)

lemma life_push [life]: "Client_Push_RecvData env q x n c = Ok (b, c') \<Longrightarrow> cli_life c' = cli_life c"
  by (auto simp: Client_Push_RecvData_def bindE_eq_Ok_iff Let_def case_prod_beta split: if_splits dest!: life)

lemma life_body [life]: "client_body env x c = Some (Ok (b, c')) \<Longrightarrow> cli_life c' = cli_life c"
  by (auto simp: client_body_def bindE_eq_Ok_iff Let_def case_prod_beta split: if_splits dest!: life)

lemma life_loop [life]: "client_loop env x c = Ok (b, c') \<Longrightarrow> cli_life c' = cli_life c"
proof (induction env x c rule: client_loop.induct)
  case (1 env x c)
  show ?case
  proof (cases "client_body env x c")
    case None
    with 1(2) show ?thesis
      by (simp add: client_loop.simps [of env x c])
  next
    case (Some r)
    with 1(2) obtain go c1 where r: "r = Ok (go, c1)"
      by (cases r) (auto simp: client_loop.simps [of env x c])
    have rest: "(if go then client_loop env x c1 else Ok (False, c1)) = Ok (b, c')"
      using 1(2) Some r by (simp add: client_loop.simps [of env x c])
    have "cli_life c1 = cli_life c"
      using life_body Some r by blast
    with rest 1(1) [OF Some r refl] show ?thesis
      by (cases go) auto
  qed
qed

lemma life_recv [life]: "Client_IOFunction_Recv env n x c = Ok c' \<Longrightarrow> cli_life c' = cli_life c"
  by (auto simp: Client_IOFunction_Recv_def bindE_eq_Ok_iff Let_def split: if_splits dest!: life)

lemma life_entry [life]: "Client_WorkThread_entry env e c = Ok (b, c') \<Longrightarrow> cli_life c' = cli_life c"
  by (auto simp: Client_WorkThread_entry_def Client_IOFunction_Send_def bindE_eq_Ok_iff Let_def case_prod_beta
      split: option.splits if_splits IOType.splits dest!: life)

lemma life_failed [life]: "Client_WorkThread_failed env c = Ok c' \<Longrightarrow> cli_life c' = cli_life c"
  by (auto simp: Client_WorkThread_failed_def bindE_eq_Ok_iff dest!: life)

lemma life_fragment [life]: "client_send_fragment env blk tot off c = Ok (b, n, c') \<Longrightarrow> cli_life c' = cli_life c"
  by (auto simp: client_send_fragment_def bindE_eq_Ok_iff Let_def case_prod_beta split: if_splits dest!: life)

lemma life_fragments [life]: "client_send_fragments env blk tot off c = Ok c' \<Longrightarrow> cli_life c' = cli_life c"
proof (induction env blk tot off c rule: client_send_fragments.induct)
  case (1 env blk tot off c)
  show ?case
  proof (cases "tot \<le> 0")
    case True
    with 1(2) show ?thesis
      by (simp add: client_send_fragments.simps [of env blk tot])
  next
    case False
    with 1(2) obtain go n c1 where r: "client_send_fragment env blk tot off c = Ok (go, n, c1)"
      by (auto simp: client_send_fragments.simps [of env blk tot off c] split: sum.splits)
    have rest: "(if go then client_send_fragments env blk n (Suc off) c1 else Ok c1) = Ok c'"
      using 1(2) False r by (simp add: client_send_fragments.simps [of env blk tot])
    have "cli_life c1 = cli_life c"
      by (rule life_fragment [OF r])
    with rest 1(1) [OF False r refl refl] show ?thesis
      by (cases go) auto
  qed
qed

lemma life_packet [life]: "client_send_packet env q c = Ok c' \<Longrightarrow> cli_life c' = cli_life c"
  by (auto simp: client_send_packet_def bindE_eq_Ok_iff dest!: life)

lemma life_queue [life]: "client_send_queue env qs c = Ok c' \<Longrightarrow> cli_life c' = cli_life c"
proof (induction qs arbitrary: c)
  case (Cons q qs)
  then show ?case
    by (fastforce simp: bindE_eq_Ok_iff split: if_splits dest!: life_packet)
qed simp

lemma life_send [life]: "SendFunction env c = Ok c' \<Longrightarrow> cli_life c' = cli_life c"
  by (auto simp: SendFunction_def dest: life)

lemma life_socket [life]: "connect_socket env c = Ok (b, c') \<Longrightarrow> cli_life c' = cli_life c"
  by (auto simp: connect_socket_def bindE_eq_Ok_iff Let_def case_prod_beta split: if_splits)

lemma life_try [life]: "connect_try env c = Ok (b, c') \<Longrightarrow> cli_life c' = cli_life c"
  by (auto simp: connect_try_def bindE_eq_Ok_iff Let_def case_prod_beta split: if_splits dest!: life)

lemma life_register [life]: "connect_register env c = Ok (b, c') \<Longrightarrow> cli_life c' = cli_life c"
  by (auto simp: connect_register_def bindE_eq_Ok_iff Let_def case_prod_beta split: if_splits dest!: life)

lemma life_connecting [life]: "ConnectSendThread_step env pc c = Ok (pc', c') \<Longrightarrow> cli_life c' = cli_life c"
  by (cases pc) (auto simp: ConnectSendThread_step_def bindE_eq_Ok_iff split: if_splits dest!: life)

lemma life_complete [simp]: "cli_life (cli_complete x data c) = cli_life c"
  by (simp add: cli_complete_def)

text \<open>\<open>Send\<close> and \<open>Recv\<close> leave them alone as well.\<close>

lemma life_Send [life]: "Client_Send env pkt t k c = Ok (r, c') \<Longrightarrow> cli_life c' = cli_life c"
  by (auto simp: Client_Send_def bindE_eq_Ok_iff Let_def case_prod_beta split: if_splits option.splits)

lemma life_Recv [life]: "Client_Recv vec c = Ok (r, vec', c') \<Longrightarrow> cli_life c' = cli_life c"
  by (auto simp: Client_Recv_def bindE_eq_Ok_iff split: if_splits)

section \<open>A client on its own\<close>

text \<open>What the client of a network does by itself: its connecting thread and its worker.\<close>

inductive cli_own :: "os \<Rightarrow> connect_pc \<times> client \<Rightarrow> connect_pc \<times> client \<Rightarrow> bool" for env where
  own_connecting: "g_Connect_Send_Client_Thread c = Thread_Live \<Longrightarrow>
      ConnectSendThread_step env pc c = Ok (pc', c') \<Longrightarrow> cli_own env (pc, c) (pc', c')"
| own_completion: "client_entry c e x \<Longrightarrow> length data \<le> OVERLAPPED_BUFIZE \<Longrightarrow>
      Client_WorkThread_entry env e (cli_complete x data c) = Ok (stop, c') \<Longrightarrow> cli_own env (pc, c) (pc, c')"
| own_failed: "Client_WorkThread_failed env c = Ok c' \<Longrightarrow> cli_own env (pc, c) (pc, c')"

inductive_cases cli_ownE: "cli_own env (pc, c) (pc', c')"

lemma cli_own_step: "cli_own env (pc, c) (pc', c') \<Longrightarrow> cli_step env (pc, c) (pc', c')"
  by (erule cli_ownE) (auto intro: cli_step.intros)

lemma cli_own_life: "cli_own env (pc, c) (pc', c') \<Longrightarrow> cli_life c' = cli_life c"
  by (erule cli_ownE) (auto dest!: life)

section \<open>A client nobody accepts\<close>

text \<open>
  While every connection is refused, a client that is not to end never counts as connected, whatever its thread
  and its worker do: it has nothing in flight.
\<close>

definition never_connected :: "connect_pc \<Rightarrow> client \<Rightarrow> bool" where
  "never_connected pc c \<longleftrightarrow> pc \<in> {At_Top, At_Connect, At_End} \<and> \<not> Is_Server_Connect_Success c
     \<and> in_flight (csys c) = [] \<and> \<not> c_Is_Exit c"

lemma close_never:
  assumes "Safe_CloseSocket env c = Ok c'"
  shows "\<not> Is_Server_Connect_Success c'" and "in_flight (csys c') = in_flight (csys c)"
    and "c_Is_Exit c' = c_Is_Exit c"
  using assms by (auto simp: Safe_CloseSocket_def bindE_eq_Ok_iff Let_def set_server_socket_def cli_do_def
      cli_call_def sys_call_def)

lemma connect_socket_never:
  assumes "connect_socket env c = Ok (b, c')"
  shows "Is_Server_Connect_Success c' = Is_Server_Connect_Success c" and "in_flight (csys c') = in_flight (csys c)"
    and "c_Is_Exit c' = c_Is_Exit c"
  using assms by (auto simp: connect_socket_def bindE_eq_Ok_iff Let_def set_server_socket_def cli_call_def
      sys_call_def split: if_splits)

lemma connect_try_never:
  assumes "refusing env" and "connect_try env c = Ok (b, c')"
  shows "b" and "Is_Server_Connect_Success c' = Is_Server_Connect_Success c"
    and "in_flight (csys c') = in_flight (csys c)" and "c_Is_Exit c' = c_Is_Exit c"
  using assms by (auto simp: connect_try_def bindE_eq_Ok_iff Let_def case_prod_beta cli_call_def sys_call_def
      refusing_def split: if_splits)

lemma cli_own_never:
  assumes ref: "refusing env" and step: "cli_own env (pc, c) (pc', c')" and never: "never_connected pc c"
  shows "never_connected pc' c'"
  using step
proof (cases rule: cli_ownE [consumes 1, case_names connecting completion failed])
  case connecting
  from never consider "pc = At_Top" | "pc = At_Connect" | "pc = At_End"
    by (auto simp: never_connected_def)
  then show ?thesis
    using connecting(2) never connect_try_never [OF ref] connect_socket_never
    by cases (auto simp: ConnectSendThread_step_def never_connected_def bindE_eq_Ok_iff split: if_splits)
next
  case (completion e x data stop)
  then show ?thesis
    using never by (simp add: never_connected_def client_entry_def)
next
  case failed
  then show ?thesis
    using never close_never by (auto simp: Client_WorkThread_failed_def never_connected_def bindE_eq_Ok_iff)
qed

end
