(* ===== verification/DH_DummyClient.thy ===== *)
theory DH_DummyClient
  imports DH_TestServer DH_ClientFrame
begin

text \<open>
  The dummy client (\<open>DummyClient.cpp\<close>): five threads, each with a network of its own, that run one of the
  test cases until the key Q stops them. A thread is a record with its control point; the object itself is a
  record with the control point of the loop over the keys, which also waits for the threads. The times are
  readings of the clock, the random numbers and the keys are arguments, and so is the state of the system a
  new network object starts from.
\<close>

section \<open>State\<close>

definition CONNECT_IP :: string where "CONNECT_IP = ''127.0.0.1''"
definition CONNECT_PORT :: u16 where "CONNECT_PORT = 729"
definition MAX_TEST_THREAD :: nat where "MAX_TEST_THREAD = 5"

datatype TestCaseNumber = NonSet_TestCase | Case1 | Case2 | Case3

definition Test_Send_Msg :: string where "Test_Send_Msg = ''[Client] BoundlessSend''"
definition Test_Send_End_Msg :: string where "Test_Send_End_Msg = ''[Client] Send_And_End''"

datatype test_function =
    BoundlessSendFunction | BoundlessEndFunction | SendEndFunction | SendVariousPacketFunction

text \<open>
  Where a thread is: about to start, waiting for its connection, at the head of its loop, between the sending
  and the deletion of its network, or finished.
\<close>

datatype thread_point = Th_Start | Th_Wait | Th_Loop | Th_Delete | Th_Done

text \<open>
  The local variables of a thread, and where the connecting thread of its network is. \<open>None\<close> is \<open>nullptr\<close>.
\<close>

record dummy_thread =
  th_Function :: test_function
  th_Point :: thread_point
  my_NetWork :: "api_ptr option"
  th_Connecting :: connect_pc
  th_Msg_Vec :: "(sock \<times> ptr) list"
  Random_Range_String :: string
  th_Start_Time :: int

record dummy_totals =
  Total_Time :: int
  Total_Count :: u32
  Total_Time_1 :: int
  Total_Time_2 :: int
  Total_Count_1 :: u32
  Total_Count_2 :: u32

definition no_totals :: dummy_totals where
  "no_totals = \<lparr>Total_Time = 0, Total_Count = 0, Total_Time_1 = 0, Total_Time_2 = 0,
                Total_Count_1 = 0, Total_Count_2 = 0\<rparr>"

text \<open>What goes to the log: numbers of threads, times and counts.\<close>

datatype dummy_log =
    Log_Case1 nat int u32
  | Log_Case2 nat nat int u32 nat int u32

datatype main_point = Check_Q | Joining nat | Check_1 | Check_2 | Check_3

record dummy_client =
  Current_TestCase :: TestCaseNumber
  End_Flag :: bool
  Thread_List :: "dummy_thread list"
  dc_Totals :: dummy_totals
  dc_Logger :: "dummy_log list"
  dc_Point :: main_point

definition DummyClient_ctor :: dummy_client where
  "DummyClient_ctor =
     \<lparr>Current_TestCase = NonSet_TestCase, End_Flag = False, Thread_List = [], dc_Totals = no_totals,
      dc_Logger = [], dc_Point = Check_Q\<rparr>"

section \<open>The threads\<close>

text \<open>\<open>new DHNetWorkAPI\<close> and its \<open>Initialize\<close>.\<close>

definition new_network :: "sys \<Rightarrow> api_ptr" where
  "new_network y = snd (API_Initialize DHNet DHDEBUG_DETAIL 0 y Api_Null)"

definition th_network :: "dummy_thread \<Rightarrow> api_ptr res" where
  "th_network th = (case my_NetWork th of None \<Rightarrow> Fault Null_Deref | Some a \<Rightarrow> Ok a)"

text \<open>The declarations at the start of a function; two of them make their network at once.\<close>

definition thread_begin :: "int \<Rightarrow> sys \<Rightarrow> dummy_thread \<Rightarrow> dummy_thread" where
  "thread_begin now y th =
     (let th = th\<lparr>my_NetWork := None, th_Msg_Vec := [], Random_Range_String := [], th_Start_Time := now\<rparr>
      in if th_Function th = BoundlessSendFunction \<or> th_Function th = SendVariousPacketFunction
         then th\<lparr>my_NetWork := Some (new_network y), th_Connecting := At_Top, th_Point := Th_Wait\<rparr>
         else th\<lparr>th_Point := Th_Loop\<rparr>)"

text \<open>One evaluation of \<open>while (!Connect(...)) {}\<close>.\<close>

definition thread_wait :: "os \<Rightarrow> dummy_thread \<Rightarrow> dummy_thread res" where
  "thread_wait env th =
     bindE (th_network th) (\<lambda>a.
     bindE (API_Connect env CONNECT_PORT CONNECT_IP a) (\<lambda>(r, a).
       Ok (th\<lparr>my_NetWork := Some a, th_Point := (if r = 0 then Th_Wait else Th_Loop)\<rparr>)))"

definition BoundlessSend_turn ::
    "os \<Rightarrow> int \<Rightarrow> int \<Rightarrow> dummy_thread \<Rightarrow> dummy_totals \<Rightarrow> (dummy_thread \<times> dummy_totals) res" where
  "BoundlessSend_turn env start stop th tot =
     bindE (text_packet Test_Send_Msg C2S_Packet_ctor) (\<lambda>msg.
     bindE (th_network th) (\<lambda>a.
     bindE (API_Recv (th_Msg_Vec th) a) (\<lambda>(_, vec, a).
     bindE (API_Send env (Some msg) SEND_TYPE_BROADCAST INVALID_SOCKET a) (\<lambda>(_, a).
       Ok (th\<lparr>my_NetWork := Some a, th_Msg_Vec := vec, th_Start_Time := start\<rparr>,
           tot\<lparr>Total_Count_1 := Total_Count_1 tot + 1, Total_Time_1 := Total_Time_1 tot + (stop - start)\<rparr>)))))"

text \<open>The two that connect in their loop make a network when they have none.\<close>

definition with_network :: "int \<Rightarrow> sys \<Rightarrow> dummy_thread \<Rightarrow> dummy_thread" where
  "with_network start y th =
     (if my_NetWork th = None
      then th\<lparr>th_Start_Time := start, my_NetWork := Some (new_network y), th_Connecting := At_Top\<rparr>
      else th)"

definition BoundlessEnd_turn ::
    "os \<Rightarrow> int \<Rightarrow> int \<Rightarrow> sys \<Rightarrow> dummy_thread \<Rightarrow> dummy_totals \<Rightarrow> (dummy_thread \<times> dummy_totals) res" where
  "BoundlessEnd_turn env start stop y th tot =
     (let th = with_network start y th
      in bindE (th_network th) (\<lambda>a.
         bindE (API_Connect env CONNECT_PORT CONNECT_IP a) (\<lambda>(r, a).
           if r = 0 then Ok (th\<lparr>my_NetWork := Some a\<rparr>, tot)
           else bindE (DHNetWorkAPI_dtor env a) (\<lambda>_.
                  Ok (th\<lparr>my_NetWork := None\<rparr>,
                      tot\<lparr>Total_Count_2 := Total_Count_2 tot + 1,
                          Total_Time_2 := Total_Time_2 tot + (stop - th_Start_Time th)\<rparr>)))))"

definition SendEnd_turn :: "os \<Rightarrow> int \<Rightarrow> sys \<Rightarrow> dummy_thread \<Rightarrow> dummy_thread res" where
  "SendEnd_turn env start y th =
     bindE (text_packet Test_Send_End_Msg C2S_Packet_ctor) (\<lambda>msg.
     let th = with_network start y th
     in bindE (th_network th) (\<lambda>a.
        bindE (API_Connect env CONNECT_PORT CONNECT_IP a) (\<lambda>(r, a).
          if r = 0 then Ok (th\<lparr>my_NetWork := Some a\<rparr>)
          else bindE (API_Send env (Some msg) SEND_TYPE_BROADCAST INVALID_SOCKET a) (\<lambda>(_, a).
                 Ok (th\<lparr>my_NetWork := Some a, th_Point := Th_Delete\<rparr>)))))"

definition SendEnd_delete ::
    "os \<Rightarrow> int \<Rightarrow> dummy_thread \<Rightarrow> dummy_totals \<Rightarrow> (dummy_thread \<times> dummy_totals) res" where
  "SendEnd_delete env stop th tot =
     bindE (th_network th) (\<lambda>a.
     bindE (DHNetWorkAPI_dtor env a) (\<lambda>_.
       Ok (th\<lparr>my_NetWork := None, th_Point := Th_Loop\<rparr>,
           tot\<lparr>Total_Count := Total_Count tot + 1,
               Total_Time := Total_Time tot + (stop - th_Start_Time th)\<rparr>)))"

text \<open>\<open>resize(n, 'A')\<close>.\<close>

definition resize_text :: "nat \<Rightarrow> string \<Rightarrow> string" where
  "resize_text n s = take n s @ replicate (n - length s) (CHR ''A'')"

definition SendVarious_turn ::
    "os \<Rightarrow> int \<Rightarrow> int \<Rightarrow> nat \<Rightarrow> dummy_thread \<Rightarrow> dummy_totals \<Rightarrow> (dummy_thread \<times> dummy_totals) res" where
  "SendVarious_turn env start stop rnd th tot =
     (let s = resize_text (rnd mod 2200) (Random_Range_String th)
      in bindE (text_packet s C2S_Packet_ctor) (\<lambda>msg.
         bindE (th_network th) (\<lambda>a.
         bindE (API_Send env (Some msg) SEND_TYPE_BROADCAST INVALID_SOCKET a) (\<lambda>(_, a).
         bindE (API_Recv (th_Msg_Vec th) a) (\<lambda>(_, vec, a).
           Ok (th\<lparr>my_NetWork := Some a, th_Msg_Vec := vec, Random_Range_String := s, th_Start_Time := start\<rparr>,
               tot\<lparr>Total_Count_1 := Total_Count_1 tot + 1,
                   Total_Time_1 := Total_Time_1 tot + (stop - start)\<rparr>))))))"

text \<open>After the loop: a network that is left is ended, and its handle is not deleted.\<close>

definition thread_finish :: "os \<Rightarrow> dummy_thread \<Rightarrow> dummy_thread res" where
  "thread_finish env th =
     bindE (case my_NetWork th of None \<Rightarrow> Ok () | Some a \<Rightarrow> bindE (API_End env a) (\<lambda>_. Ok ()))
       (\<lambda>_. Ok (th\<lparr>my_NetWork := None, th_Point := Th_Done\<rparr>))"

definition thread_turn ::
    "os \<Rightarrow> int \<Rightarrow> int \<Rightarrow> nat \<Rightarrow> sys \<Rightarrow> dummy_thread \<Rightarrow> dummy_totals \<Rightarrow> (dummy_thread \<times> dummy_totals) res" where
  "thread_turn env start stop rnd y th tot =
     (case th_Function th of
        BoundlessSendFunction \<Rightarrow> BoundlessSend_turn env start stop th tot
      | BoundlessEndFunction \<Rightarrow> BoundlessEnd_turn env start stop y th tot
      | SendEndFunction \<Rightarrow> bindE (SendEnd_turn env start y th) (\<lambda>th. Ok (th, tot))
      | SendVariousPacketFunction \<Rightarrow> SendVarious_turn env start stop rnd th tot)"

definition thread_step ::
    "os \<Rightarrow> int \<Rightarrow> int \<Rightarrow> nat \<Rightarrow> sys \<Rightarrow> bool \<Rightarrow> dummy_thread \<Rightarrow> dummy_totals \<Rightarrow> (dummy_thread \<times> dummy_totals) res" where
  "thread_step env start stop rnd y ending th tot =
     (case th_Point th of
        Th_Start \<Rightarrow> Ok (thread_begin start y th, tot)
      | Th_Wait \<Rightarrow> bindE (thread_wait env th) (\<lambda>th. Ok (th, tot))
      | Th_Loop \<Rightarrow> if ending then bindE (thread_finish env th) (\<lambda>th. Ok (th, tot))
                  else thread_turn env start stop rnd y th tot
      | Th_Delete \<Rightarrow> SendEnd_delete env stop th tot
      | Th_Done \<Rightarrow> Ok (th, tot))"

section \<open>The test cases\<close>

definition new_thread :: "test_function \<Rightarrow> dummy_thread" where
  "new_thread f = \<lparr>th_Function = f, th_Point = Th_Start, my_NetWork = None, th_Connecting = At_Top,
                   th_Msg_Vec = [], Random_Range_String = [], th_Start_Time = 0\<rparr>"

definition StartCase1 :: "dummy_client \<Rightarrow> dummy_client" where
  "StartCase1 d =
     (if End_Flag d then d
      else if length (Thread_List d) \<noteq> 0 then d
      else d\<lparr>Current_TestCase := Case1,
             Thread_List := Thread_List d @ replicate MAX_TEST_THREAD (new_thread SendEndFunction)\<rparr>)"

definition StartCase2 :: "dummy_client \<Rightarrow> dummy_client" where
  "StartCase2 d =
     (if End_Flag d then d
      else if length (Thread_List d) \<noteq> 0 then d
      else d\<lparr>Current_TestCase := Case2,
             Thread_List := Thread_List d
               @ replicate (MAX_TEST_THREAD div 5) (new_thread BoundlessEndFunction)
               @ replicate (MAX_TEST_THREAD - MAX_TEST_THREAD div 5) (new_thread BoundlessSendFunction)\<rparr>)"

definition StartCase3 :: "dummy_client \<Rightarrow> dummy_client" where
  "StartCase3 d =
     (if End_Flag d then d
      else if length (Thread_List d) \<noteq> 0 then d
      else d\<lparr>Current_TestCase := Case3,
             Thread_List := Thread_List d @ replicate MAX_TEST_THREAD (new_thread SendVariousPacketFunction)\<rparr>)"

text \<open>\<open>StopAllThread\<close> up to the first \<open>join\<close>, and from the last one on.\<close>

definition StopAllThread_begin :: "dummy_client \<Rightarrow> dummy_client" where
  "StopAllThread_begin d =
     (if length (Thread_List d) = 0 then d\<lparr>End_Flag := False, dc_Point := Check_1\<rparr>
      else d\<lparr>End_Flag := True, dc_Point := Joining 0\<rparr>)"

definition case_result :: "TestCaseNumber \<Rightarrow> dummy_totals \<Rightarrow> dummy_log list" where
  "case_result n tot =
     (case n of
        Case1 \<Rightarrow> [Log_Case1 MAX_TEST_THREAD (Total_Time tot) (Total_Count tot)]
      | Case2 \<Rightarrow> [Log_Case2 MAX_TEST_THREAD (MAX_TEST_THREAD div 2) (Total_Time_1 tot) (Total_Count_1 tot)
                    (MAX_TEST_THREAD div 2) (Total_Time_2 tot) (Total_Count_2 tot)]
      | _ \<Rightarrow> [])"

definition StopAllThread_end :: "dummy_client \<Rightarrow> dummy_client" where
  "StopAllThread_end d =
     d\<lparr>Thread_List := [], dc_Logger := dc_Logger d @ case_result (Current_TestCase d) (dc_Totals d),
       dc_Totals := no_totals, Current_TestCase := NonSet_TestCase, End_Flag := False, dc_Point := Check_1\<rparr>"

text \<open>
  One step of the loop over the keys; \<open>down\<close> is what \<open>Key_Down\<close> answers. In \<open>join\<close> it waits until the
  thread is finished, and \<open>None\<close> says that it cannot go on.
\<close>

definition KeyInput_step :: "bool \<Rightarrow> dummy_client \<Rightarrow> dummy_client option" where
  "KeyInput_step down d =
     (case dc_Point d of
        Check_Q \<Rightarrow> Some (if down then StopAllThread_begin d else d\<lparr>dc_Point := Check_1\<rparr>)
      | Joining i \<Rightarrow>
          if i < length (Thread_List d)
          then if th_Point (Thread_List d ! i) = Th_Done then Some (d\<lparr>dc_Point := Joining (Suc i)\<rparr>) else None
          else Some (StopAllThread_end d)
      | Check_1 \<Rightarrow> Some ((if down then StartCase1 d else d)\<lparr>dc_Point := Check_2\<rparr>)
      | Check_2 \<Rightarrow> Some ((if down then StartCase2 d else d)\<lparr>dc_Point := Check_3\<rparr>)
      | Check_3 \<Rightarrow> Some ((if down then StartCase3 d else d)\<lparr>dc_Point := Check_Q\<rparr>))"

section \<open>The whole program\<close>

text \<open>The client a thread works with.\<close>

definition th_client :: "dummy_thread \<Rightarrow> DHNetWork \<Rightarrow> client \<Rightarrow> bool" where
  "th_client th nw c \<longleftrightarrow> my_NetWork th = Some (Api_Live nw) \<and> Current_Type nw = TYPE_DHCLIENT
     \<and> m_NetWork nw = Some (Net_Client c)"

definition set_client :: "DHNetWork \<Rightarrow> connect_pc \<Rightarrow> client \<Rightarrow> dummy_thread \<Rightarrow> dummy_thread" where
  "set_client nw pc c th =
     th\<lparr>my_NetWork := Some (Api_Live (nw\<lparr>m_NetWork := Some (Net_Client c)\<rparr>)), th_Connecting := pc\<rparr>"

text \<open>
  A step of the program itself, by the loop over the keys or by a thread that is not finished, and a step of
  the network below it.
\<close>

inductive dummy_act :: "os \<Rightarrow> dummy_client \<Rightarrow> dummy_client \<Rightarrow> bool" for env where
  act_main: "KeyInput_step down d = Some d' \<Longrightarrow> dummy_act env d d'"
| act_thread: "i < length (Thread_List d) \<Longrightarrow> th_Point (Thread_List d ! i) \<noteq> Th_Done \<Longrightarrow> in_flight y = [] \<Longrightarrow>
      thread_step env start stop rnd y (End_Flag d) (Thread_List d ! i) (dc_Totals d) = Ok (th', tot') \<Longrightarrow>
      dummy_act env d (d\<lparr>Thread_List := (Thread_List d)[i := th'], dc_Totals := tot'\<rparr>)"

inductive dummy_net :: "os \<Rightarrow> dummy_client \<Rightarrow> dummy_client \<Rightarrow> bool" for env where
  net_client: "i < length (Thread_List d) \<Longrightarrow> th_client (Thread_List d ! i) nw c \<Longrightarrow>
      cli_own env (th_Connecting (Thread_List d ! i), c) (pc', c') \<Longrightarrow>
      dummy_net env d (d\<lparr>Thread_List := (Thread_List d)[i := set_client nw pc' c' (Thread_List d ! i)]\<rparr>)"

inductive_cases dummy_actE: "dummy_act env d d'"
inductive_cases dummy_netE: "dummy_net env d d'"

definition dummy_step :: "os \<Rightarrow> dummy_client \<Rightarrow> dummy_client \<Rightarrow> bool" where
  "dummy_step env d d' \<longleftrightarrow> dummy_act env d d' \<or> dummy_net env d d'"

inductive dummy_reach :: "os \<Rightarrow> dummy_client \<Rightarrow> bool" for env where
  dummy_started: "dummy_reach env DummyClient_ctor"
| dummy_next: "dummy_reach env d \<Longrightarrow> dummy_step env d d' \<Longrightarrow> dummy_reach env d'"

end
