(* ===== verification/DH_DummySpec.thy ===== *)
theory DH_DummySpec
  imports DH_DummyClient
begin

text \<open>
  What the dummy client keeps. Each thread's network is either unused, or a client in a reachable state, so that
  everything shown of reachable clients applies to it; therefore no step of a thread faults. The threads are
  those of the current test case; and the flag that ends them is only set while the keys are not read.
\<close>

section \<open>The networks of the threads\<close>

definition client_usable :: "os \<Rightarrow> connect_pc \<Rightarrow> client \<Rightarrow> bool" where
  "client_usable env pc c \<longleftrightarrow> cli_reach env (pc, c) \<and> g_Connect_Send_Client_Thread c = Thread_Live \<and> \<not> c_Is_Exit c
     \<and> c_PORT c = CONNECT_PORT \<and> c_IP c = CONNECT_IP"

definition unused :: "DHNetWork \<Rightarrow> bool" where
  "unused nw \<longleftrightarrow> Current_Type nw = TYPE_NONSET \<and> m_NetWork nw = None \<and> in_flight (nw_sys nw) = []"

text \<open>A handle whose client, if it has one, is good.\<close>

definition handle_client :: "os \<Rightarrow> connect_pc \<Rightarrow> api_ptr \<Rightarrow> client \<Rightarrow> bool" where
  "handle_client env pc a c \<longleftrightarrow> (\<exists>nw. a = Api_Live nw \<and> Current_Type nw = TYPE_DHCLIENT
     \<and> m_NetWork nw = Some (Net_Client c)) \<and> client_usable env pc c"

definition handle_good :: "os \<Rightarrow> connect_pc \<Rightarrow> api_ptr \<Rightarrow> bool" where
  "handle_good env pc a \<longleftrightarrow> (\<exists>nw. a = Api_Live nw \<and> unused nw \<and> pc = At_Top) \<or> (\<exists>c. handle_client env pc a c)"

lemma client_usable_life:
  "client_usable env pc c \<Longrightarrow> cli_reach env (pc', c') \<Longrightarrow> cli_life c' = cli_life c \<Longrightarrow> client_usable env pc' c'"
  by (auto simp: client_usable_def cli_life_def)

lemma client_usable_valid:
  assumes "client_usable env pc c"
  shows "cli_inv [] c" and "\<exists>ss. g_Server_Socket c = Some ss"
  using cli_reach_inv [of env pc c] assms by (auto simp: client_usable_def cli_valid_def)

lemma client_usable_own: "client_usable env pc c \<Longrightarrow> cli_own env (pc, c) (pc', c') \<Longrightarrow> client_usable env pc' c'"
  using client_usable_life cli_own_life cli_own_step cli_reach.cli_next by (metis client_usable_def)

text \<open>The first \<open>Connect\<close>, on a release build.\<close>

lemma DHClient_ctor_release:
  assumes "\<not> debug_build env"
  shows "\<exists>c. DHClient_ctor env y = Ok c"
  using NetWorkBase_ctor_release [OF assms, of y] assms
  by (auto simp: DHClient_ctor_def Let_def split_def assertE_def)

lemma new_network_unused: "in_flight y = [] \<Longrightarrow> \<exists>nw. new_network y = Api_Live nw \<and> unused nw"
  by (simp add: new_network_def API_Initialize_def NW_Initialize_def DHNetWork_ctor_def unused_def)

lemma API_Connect_first:
  assumes rel: "\<not> debug_build env" and nw: "unused nw"
  shows "\<exists>a c. API_Connect env CONNECT_PORT CONNECT_IP (Api_Live nw) = Ok (0, a) \<and> handle_client env At_Top a c
    \<and> never_connected At_Top c"
proof -
  obtain c0 where c0: "DHClient_ctor env (nw_sys nw) = Ok c0"
    using DHClient_ctor_release [OF rel] by blast
  have y: "in_flight (nw_sys nw) = []"
    using nw by (simp add: unused_def)
  note ctor = DHClient_ctor_inv [OF y c0]
  let ?c1 = "Client_SetDebug (nw_Debug_Option nw) c0"
  let ?c = "(cli_do env (Sys_ThreadStart ''ConnectSendThread'') (?c1\<lparr>c_PORT := CONNECT_PORT, c_IP := CONNECT_IP\<rparr>))
      \<lparr>g_Connect_Send_Client_Thread := Thread_Live\<rparr>"
  have con: "Client_Connect env CONNECT_PORT CONNECT_IP ?c1 = (0, ?c)"
    using ctor(4) by (simp add: Client_Connect_def Client_SetDebug_def Let_def)
  have "cli_reach env (At_Top, ?c1)"
    using cli_reach.created [OF y c0] cli_step.app_debug cli_reach.cli_next by blast
  then have "cli_reach env (At_Top, ?c)"
    using cli_step.app_connect [OF con] cli_reach.cli_next by blast
  then have "client_usable env At_Top ?c"
    using ctor(8) by (simp add: client_usable_def Client_SetDebug_def cli_do_def cli_call_def sys_call_def)
  moreover have "never_connected At_Top ?c"
    using ctor(2,8,9) by (simp add: never_connected_def Client_SetDebug_def cli_do_def cli_call_def sys_call_def)
  moreover have "API_Connect env CONNECT_PORT CONNECT_IP (Api_Live nw)
      = Ok (0, Api_Live (nw\<lparr>Current_Type := TYPE_DHCLIENT, m_NetWork := Some (Net_Client ?c)\<rparr>))"
    using nw c0 con by (simp add: API_Connect_def api_get_def NW_Connect_def unused_def nw_types)
  ultimately show ?thesis
    by (auto simp: handle_client_def)
qed

text \<open>Every later call on a good client.\<close>

lemma API_Connect_later:
  assumes "handle_client env pc a c"
  shows "API_Connect env CONNECT_PORT CONNECT_IP a = Ok (of_bool (Is_Server_Connect_Success c), a)"
  using assms NW_later_Connect
  by (auto simp: handle_client_def client_usable_def API_Connect_def api_get_def)

lemma API_Recv_client:
  assumes a: "handle_client env pc a c"
  shows "\<exists>r new a' c'. API_Recv vec a = Ok (r, vec @ new, a') \<and> handle_client env pc a' c'
    \<and> vec_view (cheap c') new = cli_msgs c \<and> cli_msgs c' = [] \<and> cli_sends c' = cli_sends c
    \<and> g_Server_Socket c' = g_Server_Socket c \<and> vec_ok (cheap c') new"
proof -
  obtain nw where nw: "a = Api_Live nw" "Current_Type nw = TYPE_DHCLIENT" "m_NetWork nw = Some (Net_Client c)"
    and good: "client_usable env pc c"
    using a by (auto simp: handle_client_def)
  from Client_Recv_outcome [OF client_usable_valid(1) [OF good], of vec] obtain r new c' where
    c': "Client_Recv vec c = Ok (r, vec @ new, c')" "vec_view (cheap c') new = cli_msgs c" "cli_msgs c' = []"
      "cli_sends c' = cli_sends c" "c' = c\<lparr>cheap := cheap c', c_Recv_Data_Queue := []\<rparr>" "vec_ok (cheap c') new"
    by auto
  have sock: "g_Server_Socket c' = g_Server_Socket c"
    by (subst c'(5)) simp
  have "cli_reach env (pc, c')"
    using good cli_step.cli_app_recv [OF c'(1)] cli_reach.cli_next by (auto simp: client_usable_def)
  then have "client_usable env pc c'"
    by (rule client_usable_life [OF good _ life_Recv [OF c'(1)]])
  then have "handle_client env pc (Api_Live (nw\<lparr>m_NetWork := Some (Net_Client c')\<rparr>)) c'"
    using nw by (simp add: handle_client_def)
  moreover have "API_Recv vec a = Ok (r, vec @ new, Api_Live (nw\<lparr>m_NetWork := Some (Net_Client c')\<rparr>))"
    using nw c'(1) by (simp add: API_Recv_def api_get_def NW_Recv_def nw_types)
  ultimately show ?thesis
    using c'(2-4,6) sock by blast
qed

lemma API_Send_client:
  assumes a: "handle_client env pc a c" and blk: "user_packet blk p"
  shows "\<exists>r a' c'. API_Send env (Some blk) t k a = Ok (r, a') \<and> handle_client env pc a' c'
    \<and> cli_msgs c' = cli_msgs c \<and> csys c' = csys c \<and> g_Server_Socket c' = g_Server_Socket c
    \<and> cli_sends c' = cli_sends c @ (if server_socket c = Ok INVALID_SOCKET then [] else [p])"
proof -
  obtain nw where nw: "a = Api_Live nw" "Current_Type nw = TYPE_DHCLIENT" "m_NetWork nw = Some (Net_Client c)"
    and good: "client_usable env pc c"
    using a by (auto simp: handle_client_def)
  obtain ss where ss: "g_Server_Socket c = Some ss"
    using client_usable_valid(2) [OF good] by blast
  note out = Client_Send_outcome [OF client_usable_valid(1) [OF good] ss blk, of env t k]
  have "\<exists>r c'. Client_Send env (Some blk) t k c = Ok (r, c') \<and> cli_msgs c' = cli_msgs c \<and> csys c' = csys c
      \<and> g_Server_Socket c' = g_Server_Socket c
      \<and> cli_sends c' = cli_sends c @ (if server_socket c = Ok INVALID_SOCKET then [] else [p])"
    using out ss by (cases "ss_Socket ss = INVALID_SOCKET") (auto simp: server_socket_def)
  then obtain r c' where c': "Client_Send env (Some blk) t k c = Ok (r, c')" "cli_msgs c' = cli_msgs c"
      "csys c' = csys c" "g_Server_Socket c' = g_Server_Socket c"
      "cli_sends c' = cli_sends c @ (if server_socket c = Ok INVALID_SOCKET then [] else [p])"
    by blast
  have "cli_reach env (pc, c')"
    using good cli_step.cli_app_send [OF blk c'(1)] cli_reach.cli_next by (auto simp: client_usable_def)
  then have "client_usable env pc c'"
    by (rule client_usable_life [OF good _ life_Send [OF c'(1)]])
  then have "handle_client env pc (Api_Live (nw\<lparr>m_NetWork := Some (Net_Client c')\<rparr>)) c'"
    using nw by (simp add: handle_client_def)
  moreover have "API_Send env (Some blk) t k a = Ok (r, Api_Live (nw\<lparr>m_NetWork := Some (Net_Client c')\<rparr>))"
    using nw c'(1) by (simp add: API_Send_def api_get_def NW_Send_def nw_types)
  ultimately show ?thesis
    using c'(2-5) by blast
qed

lemma API_End_client:
  assumes a: "handle_client env pc a c"
  shows "API_End env a = Ok (1, Api_Deleted)" and "DHNetWorkAPI_dtor env a = Ok Api_Deleted"
proof -
  obtain nw where nw: "a = Api_Live nw" "m_NetWork nw = Some (Net_Client c)" and good: "client_usable env pc c"
    using a by (auto simp: handle_client_def)
  obtain ss where ss: "g_Server_Socket c = Some ss"
    using client_usable_valid(2) [OF good] by blast
  have "g_Connect_Send_Client_Thread c = Thread_Live"
    using good by (simp add: client_usable_def)
  from Client_End_effect [OF client_usable_valid(1) [OF good] ss this, of env] obtain c' where
    "Client_End env c = Ok (1, c')" "DHClient_dtor env c' = Ok c'"
    by blast
  then show "API_End env a = Ok (1, Api_Deleted)"
    using nw by (simp add: API_End_def api_get_def NW_End_def DHNetWork_dtor_def)
  then show "DHNetWorkAPI_dtor env a = Ok Api_Deleted"
    by (simp add: DHNetWorkAPI_dtor_def)
qed

section \<open>One thread\<close>

definition sender :: "test_function \<Rightarrow> bool" where
  "sender f \<longleftrightarrow> f = BoundlessSendFunction \<or> f = SendVariousPacketFunction"

text \<open>
  Where a thread can be and what it has there. Only a sender waits, on a new network or on a client; at the head
  of its loop it has a client, while the others have one or none.
\<close>

definition thread_good :: "os \<Rightarrow> dummy_thread \<Rightarrow> bool" where
  "thread_good env th \<longleftrightarrow>
     (case th_Point th of
        Th_Start \<Rightarrow> my_NetWork th = None
      | Th_Wait \<Rightarrow> sender (th_Function th)
          \<and> (\<exists>a. my_NetWork th = Some a \<and> handle_good env (th_Connecting th) a)
      | Th_Loop \<Rightarrow> (\<exists>a c. my_NetWork th = Some a \<and> handle_client env (th_Connecting th) a c)
          \<or> my_NetWork th = None \<and> \<not> sender (th_Function th)
      | Th_Delete \<Rightarrow> \<not> sender (th_Function th)
          \<and> (\<exists>a c. my_NetWork th = Some a \<and> handle_client env (th_Connecting th) a c)
      | Th_Done \<Rightarrow> my_NetWork th = None)"

lemma new_thread_good: "thread_good env (new_thread f)"
  by (simp add: thread_good_def new_thread_def)

lemma thread_begin_good:
  assumes "in_flight y = []"
  shows "thread_good env (thread_begin now y th)"
  using new_network_unused [OF assms]
  by (auto simp: thread_begin_def thread_good_def Let_def sender_def handle_good_def)

lemma API_Connect_good:
  assumes rel: "\<not> debug_build env" and a: "handle_good env pc a"
  shows "\<exists>r a' c. API_Connect env CONNECT_PORT CONNECT_IP a = Ok (r, a') \<and> handle_client env pc a' c
    \<and> (r \<noteq> 0 \<longrightarrow> handle_client env pc a c)"
proof -
  consider nw where "a = Api_Live nw" "unused nw" "pc = At_Top" | c where "handle_client env pc a c"
    using a by (auto simp: handle_good_def)
  then show ?thesis
  proof cases
    case 1
    with API_Connect_first [OF rel] show ?thesis by blast
  next
    case 2
    with API_Connect_later show ?thesis by blast
  qed
qed

lemma thread_wait_good:
  assumes rel: "\<not> debug_build env" and good: "thread_good env th" and at: "th_Point th = Th_Wait"
  shows "\<exists>th'. thread_wait env th = Ok th' \<and> thread_good env th' \<and> th_Function th' = th_Function th"
proof -
  obtain a where a: "my_NetWork th = Some a" "handle_good env (th_Connecting th) a" and f: "sender (th_Function th)"
    using good at by (auto simp: thread_good_def)
  obtain r a' c where c: "API_Connect env CONNECT_PORT CONNECT_IP a = Ok (r, a')"
      "handle_client env (th_Connecting th) a' c"
    using API_Connect_good [OF rel a(2)] by blast
  then show ?thesis
    using a(1) f by (auto simp: thread_wait_def th_network_def thread_good_def handle_good_def)
qed

lemma test_texts:
  "length Test_Send_Msg < MAX_PACKET_SIZE" "0 \<notin> set (char_bytes Test_Send_Msg)"
  "length Test_Send_End_Msg < MAX_PACKET_SIZE" "0 \<notin> set (char_bytes Test_Send_End_Msg)"
  by (simp_all add: Test_Send_Msg_def Test_Send_End_Msg_def char_bytes_def net_consts)

lemma char_bytes_A: "char_bytes (replicate n CHR ''A'') = replicate n 65"
  by (simp add: char_bytes_def)

lemma resize_As: "resize_text n (replicate m (CHR ''A'')) = replicate n (CHR ''A'')"
  by (cases "n \<le> m") (simp_all add: resize_text_def min_def flip: replicate_add)

definition text_of :: "string \<Rightarrow> packet" where
  "text_of msg = (1, char_bytes msg @ [0])"

lemma text_packet_C2S:
  "length msg < MAX_PACKET_SIZE \<Longrightarrow> 0 \<notin> set (char_bytes msg) \<Longrightarrow>
     \<exists>blk. text_packet msg C2S_Packet_ctor = Ok blk \<and> user_packet blk (text_of msg)"
  using text_packet_user [OF length_C2S_Packet] by (fastforce simp: text_of_def)

text \<open>What a \<open>Send\<close> of \<open>p\<close> adds to the queue of a client: nothing while it has no socket.\<close>

definition queued_by :: "client \<Rightarrow> packet \<Rightarrow> packet list" where
  "queued_by c p = (if server_socket c = Ok INVALID_SOCKET then [] else [p])"

lemma server_socket_same: "g_Server_Socket c' = g_Server_Socket c \<Longrightarrow> server_socket c' = server_socket c"
  by (simp add: server_socket_def)

lemma BoundlessSend_turn_effect:
  assumes a: "my_NetWork th = Some a" "handle_client env (th_Connecting th) a c"
  shows "\<exists>a' c' new. BoundlessSend_turn env start stop th tot
      = Ok (th\<lparr>my_NetWork := Some a', th_Msg_Vec := th_Msg_Vec th @ new, th_Start_Time := start\<rparr>,
            tot\<lparr>Total_Count_1 := Total_Count_1 tot + 1, Total_Time_1 := Total_Time_1 tot + (stop - start)\<rparr>)
    \<and> handle_client env (th_Connecting th) a' c' \<and> length new = length (cli_msgs c) \<and> cli_msgs c' = []
    \<and> cli_sends c' = cli_sends c @ queued_by c (text_of Test_Send_Msg)"
proof -
  obtain msg where msg: "text_packet Test_Send_Msg C2S_Packet_ctor = Ok msg" "user_packet msg (text_of Test_Send_Msg)"
    using text_packet_C2S [OF test_texts(1,2)] by blast
  from API_Recv_client [OF a(2), of "th_Msg_Vec th"] obtain r new a1 c1 where
    c1: "API_Recv (th_Msg_Vec th) a = Ok (r, th_Msg_Vec th @ new, a1)" "handle_client env (th_Connecting th) a1 c1"
      "vec_view (cheap c1) new = cli_msgs c" "cli_msgs c1 = []" "cli_sends c1 = cli_sends c"
      "g_Server_Socket c1 = g_Server_Socket c"
    by blast
  from API_Send_client [OF c1(2) msg(2), of SEND_TYPE_BROADCAST INVALID_SOCKET] obtain r' a2 c2 where
    c2: "API_Send env (Some msg) SEND_TYPE_BROADCAST INVALID_SOCKET a1 = Ok (r', a2)"
      "handle_client env (th_Connecting th) a2 c2" "cli_msgs c2 = cli_msgs c1"
      "cli_sends c2 = cli_sends c1 @ queued_by c1 (text_of Test_Send_Msg)"
    by (auto simp: queued_by_def)
  have "length new = length (cli_msgs c)"
    using arg_cong [OF c1(3), of length] by (simp add: vec_view_def)
  moreover have "queued_by c1 = queued_by c"
    using server_socket_same [OF c1(6)] by (simp add: queued_by_def fun_eq_iff)
  ultimately show ?thesis
    using a(1) c1 c2 msg(1)
    by (intro exI [of _ a2] exI [of _ c2] exI [of _ new]) (simp add: BoundlessSend_turn_def th_network_def)
qed

lemma SendVarious_turn_effect:
  assumes a: "my_NetWork th = Some a" "handle_client env (th_Connecting th) a c"
    and text_so_far: "Random_Range_String th = replicate m (CHR ''A'')"
  shows "\<exists>a' c' new. SendVarious_turn env start stop rnd th tot
      = Ok (th\<lparr>my_NetWork := Some a', th_Msg_Vec := th_Msg_Vec th @ new,
               Random_Range_String := replicate (rnd mod 2200) (CHR ''A''), th_Start_Time := start\<rparr>,
            tot\<lparr>Total_Count_1 := Total_Count_1 tot + 1, Total_Time_1 := Total_Time_1 tot + (stop - start)\<rparr>)
    \<and> handle_client env (th_Connecting th) a' c' \<and> length new = length (cli_msgs c) \<and> cli_msgs c' = []
    \<and> cli_sends c' = cli_sends c @ queued_by c (1, replicate (rnd mod 2200) 65 @ [0])"
proof -
  let ?s = "replicate (rnd mod 2200) (CHR ''A'')"
  have s: "resize_text (rnd mod 2200) (Random_Range_String th) = ?s"
    by (simp add: text_so_far resize_As)
  have "rnd mod 2200 < 2200"
    by simp
  then have "length ?s < MAX_PACKET_SIZE"
    by (simp only: length_replicate net_consts)
  moreover have "0 \<notin> set (char_bytes ?s)"
    by (simp add: char_bytes_A)
  ultimately obtain msg where msg: "text_packet ?s C2S_Packet_ctor = Ok msg"
      "user_packet msg (1, replicate (rnd mod 2200) 65 @ [0])"
    using text_packet_C2S [of ?s] by (auto simp: text_of_def char_bytes_A)
  from API_Send_client [OF a(2) msg(2), of SEND_TYPE_BROADCAST INVALID_SOCKET] obtain r a1 c1 where
    c1: "API_Send env (Some msg) SEND_TYPE_BROADCAST INVALID_SOCKET a = Ok (r, a1)"
      "handle_client env (th_Connecting th) a1 c1" "cli_msgs c1 = cli_msgs c"
      "cli_sends c1 = cli_sends c @ queued_by c (1, replicate (rnd mod 2200) 65 @ [0])"
    by (auto simp: queued_by_def)
  from API_Recv_client [OF c1(2), of "th_Msg_Vec th"] obtain r' new a2 c2 where
    c2: "API_Recv (th_Msg_Vec th) a1 = Ok (r', th_Msg_Vec th @ new, a2)" "handle_client env (th_Connecting th) a2 c2"
      "vec_view (cheap c2) new = cli_msgs c1" "cli_msgs c2 = []" "cli_sends c2 = cli_sends c1"
    by blast
  have "length new = length (cli_msgs c)"
    using arg_cong [OF c2(3), of length] c1(3) by (simp add: vec_view_def)
  then show ?thesis
    using a(1) c1 c2 msg(1) s
    by (intro exI [of _ a2] exI [of _ c2] exI [of _ new]) (simp add: SendVarious_turn_def th_network_def Let_def)
qed

text \<open>The other two connect in the loop: a new network, or the one that is still connecting.\<close>

lemma loop_network:
  assumes rel: "\<not> debug_build env" and good: "thread_good env th" and at: "th_Point th = Th_Loop"
    and f: "\<not> sender (th_Function th)" and y: "in_flight y = []" and th1: "th1 = with_network start y th"
  shows "\<exists>a r a' c. my_NetWork th1 = Some a \<and> API_Connect env CONNECT_PORT CONNECT_IP a = Ok (r, a')
    \<and> handle_client env (th_Connecting th1) a' c \<and> th_Function th1 = th_Function th \<and> th_Point th1 = Th_Loop"
proof -
  have "\<exists>a. my_NetWork th1 = Some a \<and> handle_good env (th_Connecting th1) a"
    using good at new_network_unused [OF y] by (auto simp: thread_good_def th1 with_network_def handle_good_def)
  then obtain a where a: "my_NetWork th1 = Some a" "handle_good env (th_Connecting th1) a"
    by blast
  have "th_Function th1 = th_Function th" "th_Point th1 = Th_Loop"
    using at by (simp_all add: th1 with_network_def)
  with API_Connect_good [OF rel a(2)] a(1) show ?thesis by blast
qed

lemma BoundlessEnd_turn_good:
  assumes rel: "\<not> debug_build env" and good: "thread_good env th" and at: "th_Point th = Th_Loop"
    and f: "\<not> sender (th_Function th)" and y: "in_flight y = []"
  shows "\<exists>th' tot'. BoundlessEnd_turn env start stop y th tot = Ok (th', tot') \<and> thread_good env th'
    \<and> th_Function th' = th_Function th"
proof -
  let ?th = "with_network start y th"
  obtain a r a' c where c: "my_NetWork ?th = Some a" "API_Connect env CONNECT_PORT CONNECT_IP a = Ok (r, a')"
      "handle_client env (th_Connecting ?th) a' c" "th_Function ?th = th_Function th" "th_Point ?th = Th_Loop"
    using loop_network [OF assms refl, of start] by blast
  have net: "th_network ?th = Ok a"
    using c(1) by (simp add: th_network_def)
  show ?thesis
    using c(3-5) f API_End_client(2) [OF c(3)]
    by (cases "r = 0") (auto simp: BoundlessEnd_turn_def Let_def net c(2) thread_good_def)
qed

lemma SendEnd_turn_good:
  assumes rel: "\<not> debug_build env" and good: "thread_good env th" and at: "th_Point th = Th_Loop"
    and f: "\<not> sender (th_Function th)" and y: "in_flight y = []"
  shows "\<exists>th'. SendEnd_turn env start y th = Ok th' \<and> thread_good env th' \<and> th_Function th' = th_Function th"
proof -
  let ?th = "with_network start y th"
  obtain a r a' c where c: "my_NetWork ?th = Some a" "API_Connect env CONNECT_PORT CONNECT_IP a = Ok (r, a')"
      "handle_client env (th_Connecting ?th) a' c" "th_Function ?th = th_Function th" "th_Point ?th = Th_Loop"
    using loop_network [OF assms refl, of start] by blast
  have net: "th_network ?th = Ok a"
    using c(1) by (simp add: th_network_def)
  obtain msg where msg: "text_packet Test_Send_End_Msg C2S_Packet_ctor = Ok msg" "user_packet msg (text_of Test_Send_End_Msg)"
    using text_packet_C2S [OF test_texts(3,4)] by blast
  from API_Send_client [OF c(3) msg(2), of SEND_TYPE_BROADCAST INVALID_SOCKET] obtain r' a2 c2 where
    c2: "API_Send env (Some msg) SEND_TYPE_BROADCAST INVALID_SOCKET a' = Ok (r', a2)"
      "handle_client env (th_Connecting ?th) a2 c2"
    by blast
  show ?thesis
    using c(3-5) f c2
    by (cases "r = 0") (auto simp: SendEnd_turn_def Let_def net c(2) msg(1) thread_good_def)
qed

lemma thread_finish_good:
  assumes "thread_good env th" and "th_Point th = Th_Loop"
  shows "thread_finish env th = Ok (th\<lparr>my_NetWork := None, th_Point := Th_Done\<rparr>)"
  using assms API_End_client(1) by (fastforce simp: thread_finish_def thread_good_def)

lemma SendEnd_delete_good:
  assumes "thread_good env th" and "th_Point th = Th_Delete"
  shows "SendEnd_delete env stop th tot = Ok (th\<lparr>my_NetWork := None, th_Point := Th_Loop\<rparr>,
      tot\<lparr>Total_Count := Total_Count tot + 1, Total_Time := Total_Time tot + (stop - th_Start_Time th)\<rparr>)"
  using assms API_End_client(2) by (fastforce simp: SendEnd_delete_def thread_good_def th_network_def)

text \<open>The text of the fourth function consists of the letter it is filled with.\<close>

definition text_good :: "dummy_thread \<Rightarrow> bool" where
  "text_good th \<longleftrightarrow> (\<exists>m. Random_Range_String th = replicate m (CHR ''A''))"

lemma thread_turn_good:
  assumes rel: "\<not> debug_build env" and good: "thread_good env th" and str: "text_good th"
    and at: "th_Point th = Th_Loop" and y: "in_flight y = []"
  shows "\<exists>th' tot'. thread_turn env start stop rnd y th tot = Ok (th', tot') \<and> thread_good env th'
    \<and> th_Function th' = th_Function th \<and> text_good th'"
proof (cases "sender (th_Function th)")
  case True
  then obtain a c where a: "my_NetWork th = Some a" "handle_client env (th_Connecting th) a c"
    using good at by (auto simp: thread_good_def)
  obtain m where m: "Random_Range_String th = replicate m (CHR ''A'')"
    using str by (auto simp: text_good_def)
  have text_new: "text_good (th\<lparr>my_NetWork := n, th_Msg_Vec := v, Random_Range_String := replicate k (CHR ''A''),
      th_Start_Time := t\<rparr>)" for n v k t
    by (auto simp: text_good_def)
  from BoundlessSend_turn_effect [OF a, of start stop tot] SendVarious_turn_effect [OF a m, of start stop rnd tot]
    True at str text_new show ?thesis
    by (auto simp: thread_turn_def sender_def thread_good_def text_good_def)
next
  case False
  have same: "text_good th'" if "Random_Range_String th' = Random_Range_String th" for th'
    using that str by (simp add: text_good_def)
  consider (e) "th_Function th = BoundlessEndFunction" | (s) "th_Function th = SendEndFunction"
    using False by (cases "th_Function th") (auto simp: sender_def)
  then show ?thesis
  proof cases
    case e
    from BoundlessEnd_turn_good [OF rel good at False y, of start stop tot] obtain th' tot' where
      "BoundlessEnd_turn env start stop y th tot = Ok (th', tot')" "thread_good env th'" "th_Function th' = th_Function th"
      by blast
    moreover from this(1) have "Random_Range_String th' = Random_Range_String th"
      by (auto simp: BoundlessEnd_turn_def with_network_def bindE_eq_Ok_iff Let_def split: if_splits)
    ultimately show ?thesis
      using e same by (simp add: thread_turn_def)
  next
    case s
    from SendEnd_turn_good [OF rel good at False y, of start] obtain th' where
      "SendEnd_turn env start y th = Ok th'" "thread_good env th'" "th_Function th' = th_Function th"
      by blast
    moreover from this(1) have "Random_Range_String th' = Random_Range_String th"
      by (auto simp: SendEnd_turn_def with_network_def bindE_eq_Ok_iff Let_def split: if_splits)
    ultimately show ?thesis
      using s same by (simp add: thread_turn_def)
  qed
qed

lemma thread_begin_frame:
  "th_Function (thread_begin now y th) = th_Function th" "text_good (thread_begin now y th)"
  by (auto simp: thread_begin_def Let_def text_good_def intro: exI [of _ 0])

lemma thread_wait_frame:
  "thread_wait env th = Ok th' \<Longrightarrow> th_Point th' \<in> {Th_Wait, Th_Loop} \<and> Random_Range_String th' = Random_Range_String th"
  by (auto simp: thread_wait_def bindE_eq_Ok_iff split: if_splits)

text \<open>No step of a thread faults, and the thread is good after it.\<close>

lemma thread_step_good:
  assumes rel: "\<not> debug_build env" and good: "thread_good env th" and str: "text_good th" and y: "in_flight y = []"
  shows "\<exists>th' tot'. thread_step env start stop rnd y ending th tot = Ok (th', tot') \<and> thread_good env th'
    \<and> th_Function th' = th_Function th \<and> text_good th'"
proof (cases "th_Point th")
  case Th_Start
  then show ?thesis
    using thread_begin_good [OF y] thread_begin_frame by (simp add: thread_step_def)
next
  case Th_Wait
  from thread_wait_good [OF rel good this] obtain th' where
    th': "thread_wait env th = Ok th'" "thread_good env th'" "th_Function th' = th_Function th"
    by blast
  then show ?thesis
    using Th_Wait str thread_wait_frame [OF th'(1)] by (simp add: thread_step_def text_good_def)
next
  case Th_Loop
  show ?thesis
  proof (cases ending)
    case True
    then show ?thesis
      using thread_finish_good [OF good Th_Loop] Th_Loop str
      by (simp add: thread_step_def thread_good_def text_good_def)
  next
    case False
    then show ?thesis
      using thread_turn_good [OF rel good str Th_Loop y, of start stop rnd tot] Th_Loop by (simp add: thread_step_def)
  qed
next
  case Th_Delete
  then show ?thesis
    using SendEnd_delete_good [OF good Th_Delete, of stop tot] good str
    by (auto simp: thread_step_def thread_good_def text_good_def)
next
  case Th_Done
  then show ?thesis
    using good str by (simp add: thread_step_def)
qed

text \<open>Nor does a step of the network below it matter.\<close>

lemma set_client_good:
  assumes good: "thread_good env th" and c: "th_client th nw c"
    and own: "cli_own env (th_Connecting th, c) (pc', c')"
  shows "thread_good env (set_client nw pc' c' th)"
proof -
  have a: "my_NetWork th = Some (Api_Live nw)" "Current_Type nw = TYPE_DHCLIENT" "m_NetWork nw = Some (Net_Client c)"
    using c by (simp_all add: th_client_def)
  have "handle_client env (th_Connecting th) (Api_Live nw) c"
    using good a by (auto simp: thread_good_def handle_good_def handle_client_def unused_def
        split: thread_point.splits)
  then have "client_usable env pc' c'"
    using client_usable_own [OF _ own] by (simp add: handle_client_def)
  then have "handle_client env pc' (Api_Live (nw\<lparr>m_NetWork := Some (Net_Client c')\<rparr>)) c'"
    using a by (simp add: handle_client_def)
  then show ?thesis
    using good a(1) by (auto simp: thread_good_def set_client_def handle_good_def split: thread_point.splits)
qed

end
