(* ===== verification/DH_DummyRun.thy ===== *)
theory DH_DummyRun
  imports DH_DummySpec
begin

text \<open>
  The dummy client as a whole: the invariant of its reachable states, when the key Q ends a test case, and when
  it never does.
\<close>

section \<open>The invariant\<close>

definition case_functions :: "TestCaseNumber \<Rightarrow> test_function list" where
  "case_functions n =
     (case n of
        NonSet_TestCase \<Rightarrow> []
      | Case1 \<Rightarrow> replicate 5 SendEndFunction
      | Case2 \<Rightarrow> BoundlessEndFunction # replicate 4 BoundlessSendFunction
      | Case3 \<Rightarrow> replicate 5 SendVariousPacketFunction)"

definition point_good :: "dummy_client \<Rightarrow> bool" where
  "point_good d \<longleftrightarrow>
     (case dc_Point d of
        Joining i \<Rightarrow> End_Flag d \<and> Thread_List d \<noteq> [] \<and> i \<le> length (Thread_List d)
          \<and> (\<forall>j < i. th_Point (Thread_List d ! j) = Th_Done)
      | _ \<Rightarrow> \<not> End_Flag d \<and> (\<forall>th \<in> set (Thread_List d). th_Point th \<noteq> Th_Done))"

definition dummy_good :: "os \<Rightarrow> dummy_client \<Rightarrow> bool" where
  "dummy_good env d \<longleftrightarrow> (\<forall>th \<in> set (Thread_List d). thread_good env th \<and> text_good th)
     \<and> map th_Function (Thread_List d) = case_functions (Current_TestCase d)
     \<and> point_good d \<and> (Thread_List d = [] \<longrightarrow> dc_Totals d = no_totals)"

lemma case_functions_Nil: "case_functions n = [] \<longleftrightarrow> n = NonSet_TestCase"
  by (cases n) (simp_all add: case_functions_def)

lemma dummy_good_ctor: "dummy_good env DummyClient_ctor"
  by (simp add: dummy_good_def DummyClient_ctor_def case_functions_def point_good_def)

lemma new_thread_text: "text_good (new_thread f)"
  by (auto simp: text_good_def new_thread_def intro: exI [of _ 0])

text \<open>A thread that is not to end does not finish.\<close>

lemma thread_step_runs:
  assumes "thread_step env start stop rnd y False th tot = Ok (th', tot')" and "th_Point th \<noteq> Th_Done"
  shows "th_Point th' \<noteq> Th_Done"
  using assms
  by (cases "th_Point th"; cases "th_Function th")
    (auto simp: thread_step_def thread_begin_def thread_wait_def thread_turn_def BoundlessSend_turn_def
      BoundlessEnd_turn_def SendEnd_turn_def SendEnd_delete_def SendVarious_turn_def with_network_def Let_def
      bindE_eq_Ok_iff split: if_splits)

text \<open>Starting a case: with the flag down and no threads, otherwise nothing happens.\<close>

lemma start_case_eq:
  "StartCase1 d = (if End_Flag d \<or> Thread_List d \<noteq> [] then d
     else d\<lparr>Current_TestCase := Case1, Thread_List := map new_thread (case_functions Case1)\<rparr>)"
  "StartCase2 d = (if End_Flag d \<or> Thread_List d \<noteq> [] then d
     else d\<lparr>Current_TestCase := Case2, Thread_List := map new_thread (case_functions Case2)\<rparr>)"
  "StartCase3 d = (if End_Flag d \<or> Thread_List d \<noteq> [] then d
     else d\<lparr>Current_TestCase := Case3, Thread_List := map new_thread (case_functions Case3)\<rparr>)"
  by (simp_all add: StartCase1_def StartCase2_def StartCase3_def case_functions_def MAX_TEST_THREAD_def map_replicate)

lemma start_new_good:
  assumes "dummy_good env d" and "\<not> End_Flag d" and "Thread_List d = []" and "n \<noteq> NonSet_TestCase"
    and p: "p \<in> {Check_1, Check_2, Check_3, Check_Q}"
  shows "dummy_good env (d\<lparr>Current_TestCase := n, Thread_List := map new_thread (case_functions n), dc_Point := p\<rparr>)"
proof -
  let ?d = "d\<lparr>Current_TestCase := n, Thread_List := map new_thread (case_functions n), dc_Point := p\<rparr>"
  have "map th_Function (map new_thread fs) = fs" for fs
    by (simp add: comp_def new_thread_def)
  moreover have "thread_good env th \<and> text_good th \<and> th_Point th \<noteq> Th_Done" if "th \<in> set (map new_thread fs)" for th fs
    using that new_thread_good new_thread_text by (auto simp: new_thread_def)
  moreover have "map new_thread (case_functions n) \<noteq> []"
    using assms(4) case_functions_Nil by simp
  moreover have "point_good ?d"
    using p assms(2) by (auto simp: point_good_def new_thread_def)
  ultimately show ?thesis
    unfolding dummy_good_def by simp
qed

lemma start_case_good:
  assumes good: "dummy_good env d" and flag: "\<not> End_Flag d" and p: "p \<in> {Check_1, Check_2, Check_3, Check_Q}"
  shows "dummy_good env (d\<lparr>dc_Point := p\<rparr>)"
    and "dummy_good env ((StartCase1 d)\<lparr>dc_Point := p\<rparr>)" and "dummy_good env ((StartCase2 d)\<lparr>dc_Point := p\<rparr>)"
    and "dummy_good env ((StartCase3 d)\<lparr>dc_Point := p\<rparr>)"
proof -
  have "point_good (d\<lparr>dc_Point := p\<rparr>)"
    using good flag p by (auto simp: dummy_good_def point_good_def split: main_point.splits)
  then show stay: "dummy_good env (d\<lparr>dc_Point := p\<rparr>)"
    using good by (simp add: dummy_good_def)
  note new = start_new_good [OF good flag _ _ p]
  show "dummy_good env ((StartCase1 d)\<lparr>dc_Point := p\<rparr>)" "dummy_good env ((StartCase2 d)\<lparr>dc_Point := p\<rparr>)"
    "dummy_good env ((StartCase3 d)\<lparr>dc_Point := p\<rparr>)"
    using stay new [of Case1] new [of Case2] new [of Case3] flag by (simp_all add: start_case_eq)
qed

lemma KeyInput_step_good:
  assumes good: "dummy_good env d" and step: "KeyInput_step down d = Some d'"
  shows "dummy_good env d'"
proof (cases "dc_Point d")
  case Check_Q
  with assms show ?thesis
    by (auto simp: KeyInput_step_def StopAllThread_begin_def dummy_good_def point_good_def split: if_splits)
next
  case (Joining i)
  with assms show ?thesis
    by (auto simp: KeyInput_step_def StopAllThread_end_def dummy_good_def point_good_def case_functions_def less_Suc_eq
        split: if_splits)
next
  case Check_1
  then have "\<not> End_Flag d"
    using good by (simp add: dummy_good_def point_good_def)
  with start_case_good [OF good this, of Check_2] step Check_1 show ?thesis
    by (auto simp: KeyInput_step_def split: if_splits)
next
  case Check_2
  then have "\<not> End_Flag d"
    using good by (simp add: dummy_good_def point_good_def)
  with start_case_good [OF good this, of Check_3] step Check_2 show ?thesis
    by (auto simp: KeyInput_step_def split: if_splits)
next
  case Check_3
  then have "\<not> End_Flag d"
    using good by (simp add: dummy_good_def point_good_def)
  with start_case_good [OF good this, of Check_Q] step Check_3 show ?thesis
    by (auto simp: KeyInput_step_def split: if_splits)
qed

text \<open>Replacing one thread by what it became.\<close>

lemma dummy_good_update:
  assumes good: "dummy_good env d" and i: "i < length (Thread_List d)"
    and th': "thread_good env th'" "text_good th'" "th_Function th' = th_Function (Thread_List d ! i)"
    and pt: "th_Point (Thread_List d ! i) = Th_Done \<longrightarrow> th_Point th' = Th_Done"
      "\<not> End_Flag d \<longrightarrow> th_Point th' \<noteq> Th_Done"
  shows "dummy_good env (d\<lparr>Thread_List := (Thread_List d)[i := th'], dc_Totals := tot'\<rparr>)"
proof -
  let ?ts = "(Thread_List d)[i := th']"
  have all: "\<forall>th \<in> set ?ts. thread_good env th \<and> text_good th"
    using good th' by (auto simp: dummy_good_def dest!: set_update_subset_insert [THEN subsetD])
  have "map th_Function ?ts = (map th_Function (Thread_List d))[i := th_Function (Thread_List d ! i)]"
    by (simp add: map_update th'(3))
  also have "\<dots> = map th_Function (Thread_List d)"
    using i by (metis list_update_id map_update)
  finally have fs: "map th_Function ?ts = case_functions (Current_TestCase d)"
    using good by (simp add: dummy_good_def)
  have pg: "point_good d"
    using good by (simp add: dummy_good_def)
  have "point_good (d\<lparr>Thread_List := ?ts, dc_Totals := tot'\<rparr>)"
  proof (cases "dc_Point d")
    case (Joining j)
    with pg pt(1) i show ?thesis
      by (auto simp: point_good_def nth_list_update)
  qed (use pg pt(2) in \<open>auto simp: point_good_def dest!: set_update_subset_insert [THEN subsetD]\<close>)
  moreover have "?ts \<noteq> []"
    using i by auto
  ultimately show ?thesis
    using all fs by (simp add: dummy_good_def)
qed

lemma dummy_step_good:
  assumes rel: "\<not> debug_build env" and good: "dummy_good env d" and step: "dummy_step env d d'"
  shows "dummy_good env d'"
proof -
  have ts: "thread_good env (Thread_List d ! i) \<and> text_good (Thread_List d ! i)" if "i < length (Thread_List d)" for i
    using good that by (simp add: dummy_good_def)
  from step [unfolded dummy_step_def] show ?thesis
  proof
    assume "dummy_act env d d'"
    then show ?thesis
    proof (cases rule: dummy_actE [consumes 1, case_names main thread])
      case (main down)
      with KeyInput_step_good [OF good] show ?thesis by blast
    next
      case (thread i y start stop rnd th' tot')
      have th': "thread_good env th'" "th_Function th' = th_Function (Thread_List d ! i)" "text_good th'"
        using thread_step_good [OF rel _ _ thread(4)] ts [OF thread(2)] thread(5)
        by (metis (no_types, lifting) prod.inject sum.inject(2))+
      have "\<not> End_Flag d \<longrightarrow> th_Point th' \<noteq> Th_Done"
        using thread_step_runs thread(3,5) by auto
      with dummy_good_update [OF good thread(2) th'(1,3,2)] thread(1,3) show ?thesis by simp
    qed
  next
    assume "dummy_net env d d'"
    then show ?thesis
    proof (cases rule: dummy_netE [consumes 1, case_names net])
      case (net i nw c pc' c')
      let ?th' = "set_client nw pc' c' (Thread_List d ! i)"
      have th: "thread_good env (Thread_List d ! i)" "text_good (Thread_List d ! i)"
        using ts [OF net(2)] by simp_all
      have th': "thread_good env ?th'" "text_good ?th'" "th_Function ?th' = th_Function (Thread_List d ! i)"
        "th_Point ?th' = th_Point (Thread_List d ! i)"
        using set_client_good [OF th(1) net(3,4)] th(2) by (simp_all add: set_client_def text_good_def)
      have "\<not> End_Flag d \<longrightarrow> th_Point ?th' \<noteq> Th_Done"
        using good net(2) th'(4) by (auto simp: dummy_good_def point_good_def split: main_point.splits)
      with dummy_good_update [OF good net(2) th'(1-3), of "dc_Totals d"] th'(4) net(1) show ?thesis by simp
    qed
  qed
qed

lemma dummy_reach_good: "\<not> debug_build env \<Longrightarrow> dummy_reach env d \<Longrightarrow> dummy_good env d"
  by (rotate_tac, induction rule: dummy_reach.induct) (auto intro: dummy_good_ctor dummy_step_good)

section \<open>When stopping ends\<close>

text \<open>
  A thread that waits, or is about to, for its first connection; and how many steps of its own another one
  still takes once it is to end.
\<close>

definition waits :: "dummy_thread \<Rightarrow> bool" where
  "waits th \<longleftrightarrow> th_Point th = Th_Wait \<or> th_Point th = Th_Start \<and> sender (th_Function th)"

definition steps_left :: "dummy_thread \<Rightarrow> nat" where
  "steps_left th = (case th_Point th of Th_Done \<Rightarrow> 0 | Th_Loop \<Rightarrow> 1 | _ \<Rightarrow> 2)"

definition stopping :: "dummy_client \<Rightarrow> bool" where
  "stopping d \<longleftrightarrow> (\<exists>i. dc_Point d = Joining i) \<and> (\<forall>th \<in> set (Thread_List d). \<not> waits th)"

definition stop_work :: "dummy_client \<Rightarrow> nat" where
  "stop_work d = (case dc_Point d of
       Joining i \<Rightarrow> Suc (sum_list (map steps_left (Thread_List d)) + (length (Thread_List d) - i))
     | _ \<Rightarrow> 0)"

text \<open>The state after the case \<open>n\<close> was stopped: its result is logged, and everything is as at the start.\<close>

definition case_stopped :: "TestCaseNumber \<Rightarrow> dummy_log list \<Rightarrow> dummy_client \<Rightarrow> bool" where
  "case_stopped n log d \<longleftrightarrow> dc_Point d = Check_1 \<and> Thread_List d = [] \<and> Current_TestCase d = NonSet_TestCase
     \<and> \<not> End_Flag d \<and> dc_Totals d = no_totals \<and> (\<exists>tot. dc_Logger d = log @ case_result n tot)"

lemma ending_step:
  assumes good: "thread_good env th" and w: "\<not> waits th" and pt: "th_Point th \<noteq> Th_Done"
    and step: "thread_step env start stop rnd y True th tot = Ok (th', tot')"
  shows "\<not> waits th'" and "steps_left th' < steps_left th"
proof -
  have "\<not> waits th' \<and> steps_left th' < steps_left th"
  proof (cases "th_Point th")
    case Th_Start
    then show ?thesis
      using w step by (auto simp: thread_step_def waits_def thread_begin_def Let_def sender_def steps_left_def)
  next
    case Th_Loop
    then show ?thesis
      using step thread_finish_good [OF good Th_Loop] by (auto simp: thread_step_def waits_def steps_left_def)
  next
    case Th_Delete
    then show ?thesis
      using step SendEnd_delete_good [OF good Th_Delete] by (auto simp: thread_step_def waits_def steps_left_def)
  qed (use w pt in \<open>simp_all add: waits_def\<close>)
  then show "\<not> waits th'" and "steps_left th' < steps_left th"
    by simp_all
qed

lemma sum_update_less:
  "i < length xs \<Longrightarrow> f x < f (xs ! i) \<Longrightarrow> sum_list (map f (xs[i := x])) < (sum_list (map f xs) :: nat)"
proof (induction xs arbitrary: i)
  case (Cons y ys)
  then show ?case by (cases i) auto
qed simp

lemma sum_update_same:
  "i < length xs \<Longrightarrow> f x = f (xs ! i) \<Longrightarrow> sum_list (map f (xs[i := x])) = (sum_list (map f xs) :: nat)"
proof (induction xs arbitrary: i)
  case (Cons y ys)
  then show ?case by (cases i) auto
qed simp

text \<open>There is always a step to make, and each one brings the end nearer.\<close>

lemma stopping_act:
  assumes good: "dummy_good env d" and st: "stopping d" and step: "dummy_act env d d'"
  shows "case_stopped (Current_TestCase d) (dc_Logger d) d'
    \<or> stopping d' \<and> stop_work d' < stop_work d \<and> Current_TestCase d' = Current_TestCase d \<and> dc_Logger d' = dc_Logger d"
proof -
  obtain i where i: "dc_Point d = Joining i"
    using st by (auto simp: stopping_def)
  have pg: "End_Flag d" "i \<le> length (Thread_List d)"
    using good i by (simp_all add: dummy_good_def point_good_def)
  show ?thesis
    using step
  proof (cases rule: dummy_actE [consumes 1, case_names main thread])
    case (main down)
    show ?thesis
    proof (cases "i < length (Thread_List d)")
      case True
      with main i have "d' = d\<lparr>dc_Point := Joining (Suc i)\<rparr>"
        by (auto simp: KeyInput_step_def split: if_splits)
      moreover have "length (Thread_List d) - Suc i < length (Thread_List d) - i"
        using True by simp
      ultimately show ?thesis
        using i st by (auto simp: stopping_def stop_work_def)
    next
      case False
      with main i have "d' = StopAllThread_end d"
        by (simp add: KeyInput_step_def)
      then show ?thesis
        by (auto simp: case_stopped_def StopAllThread_end_def)
    qed
  next
    case (thread j y start stop rnd th' tot')
    have th: "thread_good env (Thread_List d ! j)" "\<not> waits (Thread_List d ! j)"
      using good st thread(2) by (simp_all add: dummy_good_def stopping_def)
    note e = ending_step [OF th thread(3)]
    have th': "\<not> waits th'" "steps_left th' < steps_left (Thread_List d ! j)"
      using e thread(5) pg(1) by simp_all
    have "\<forall>t \<in> set ((Thread_List d)[j := th']). \<not> waits t"
      using st th'(1) by (auto simp: stopping_def dest!: set_update_subset_insert [THEN subsetD])
    then have "stopping d'"
      using i by (simp add: stopping_def thread(1))
    moreover have "stop_work d' < stop_work d"
      using sum_update_less [of j "Thread_List d" steps_left th', OF thread(2) th'(2)] i
      by (simp add: stop_work_def thread(1))
    ultimately show ?thesis
      by (simp add: thread(1))
  qed
qed

lemma stopping_net:
  assumes st: "stopping d" and step: "dummy_net env d d'"
  shows "stopping d' \<and> stop_work d' = stop_work d \<and> Current_TestCase d' = Current_TestCase d \<and> dc_Logger d' = dc_Logger d"
  using step
proof (cases rule: dummy_netE [consumes 1, case_names net])
  case (net j nw c pc' c')
  let ?th' = "set_client nw pc' c' (Thread_List d ! j)"
  have same: "steps_left ?th' = steps_left (Thread_List d ! j)" "waits ?th' = waits (Thread_List d ! j)"
    by (simp_all add: set_client_def steps_left_def waits_def)
  have "\<forall>t \<in> set ((Thread_List d)[j := ?th']). \<not> waits t"
    using st same(2) net(2) by (auto simp: stopping_def dest!: set_update_subset_insert [THEN subsetD])
  then show ?thesis
    using st sum_update_same [of j "Thread_List d" steps_left ?th', OF net(2) same(1)]
    by (auto simp: stopping_def stop_work_def net(1))
qed

lemma stopping_enabled:
  assumes rel: "\<not> debug_build env" and good: "dummy_good env d" and i: "dc_Point d = Joining i"
  shows "\<exists>d'. dummy_act env d d'"
proof (cases "i < length (Thread_List d) \<and> th_Point (Thread_List d ! i) \<noteq> Th_Done")
  case True
  then have "thread_good env (Thread_List d ! i)" "text_good (Thread_List d ! i)"
    using good by (simp_all add: dummy_good_def)
  from thread_step_good [OF rel this, of empty_sys 0 0 0 "End_Flag d" "dc_Totals d"] obtain th' tot' where
    "thread_step env 0 0 0 empty_sys (End_Flag d) (Thread_List d ! i) (dc_Totals d) = Ok (th', tot')"
    by (auto simp: empty_sys_def)
  from act_thread [OF _ _ _ this] True show ?thesis
    by (auto simp: empty_sys_def)
next
  case False
  then have "\<exists>d'. KeyInput_step False d = Some d'"
    using i by (auto simp: KeyInput_step_def)
  then show ?thesis
    by (auto intro: act_main)
qed

lemma stopping_ends:
  assumes rel: "\<not> debug_build env"
  shows "dummy_good env d \<Longrightarrow> stopping d \<Longrightarrow>
    \<exists>d'. (dummy_act env)\<^sup>*\<^sup>* d d' \<and> case_stopped (Current_TestCase d) (dc_Logger d) d'"
proof (induction "stop_work d" arbitrary: d rule: less_induct)
  case less
  obtain i where i: "dc_Point d = Joining i"
    using less.prems(2) by (auto simp: stopping_def)
  obtain d1 where d1: "dummy_act env d d1"
    using stopping_enabled [OF rel less.prems(1) i] by blast
  from stopping_act [OF less.prems d1] show ?case
  proof (elim disjE conjE)
    assume "case_stopped (Current_TestCase d) (dc_Logger d) d1"
    then show ?case
      using d1 by blast
  next
    assume rest: "stopping d1" "stop_work d1 < stop_work d" "Current_TestCase d1 = Current_TestCase d"
      "dc_Logger d1 = dc_Logger d"
    have "dummy_good env d1"
      using dummy_step_good [OF rel less.prems(1)] d1 by (simp add: dummy_step_def)
    from less.hyps [OF rest(2) this rest(1)] show ?case
      using d1 rest(3,4) by (auto intro: converse_rtranclp_into_rtranclp)
  qed
qed

text \<open>
  So the test case is stopped in every run in which the program keeps making steps of its own, whatever the
  network does in between.
\<close>

lemma stopping_run:
  assumes rel: "\<not> debug_build env" and run: "\<forall>n. dummy_step env (f n) (f (Suc n))"
    and busy: "\<forall>n. \<exists>m\<ge>n. dummy_act env (f m) (f (Suc m))"
  shows "dummy_good env (f k) \<Longrightarrow> stopping (f k) \<Longrightarrow>
    \<exists>n. case_stopped (Current_TestCase (f k)) (dc_Logger (f k)) (f n)"
proof (induction "stop_work (f k)" arbitrary: k rule: less_induct)
  case less
  let ?goal = "\<exists>n. case_stopped (Current_TestCase (f k)) (dc_Logger (f k)) (f n)"
  let ?on = "\<lambda>m. dummy_good env (f m) \<and> stopping (f m) \<and> stop_work (f m) \<le> stop_work (f k)
    \<and> Current_TestCase (f m) = Current_TestCase (f k) \<and> dc_Logger (f m) = dc_Logger (f k)"
  have still: "?goal \<or> ?on (k + i)" for i
  proof (induction i)
    case 0
    show ?case
      using less.prems by simp
  next
    case (Suc i)
    show ?case
    proof (cases ?goal)
      case False
      with Suc have on: "?on (k + i)"
        by blast
      have step: "dummy_step env (f (k + i)) (f (Suc (k + i)))"
        using run by blast
      have "dummy_good env (f (Suc (k + i)))"
        using dummy_step_good [OF rel _ step] on by blast
      moreover have "stopping (f (Suc (k + i))) \<and> stop_work (f (Suc (k + i))) \<le> stop_work (f (k + i))
          \<and> Current_TestCase (f (Suc (k + i))) = Current_TestCase (f (k + i))
          \<and> dc_Logger (f (Suc (k + i))) = dc_Logger (f (k + i))"
        using step False on stopping_act [of env "f (k + i)"] stopping_net [of "f (k + i)" env]
        unfolding dummy_step_def by (metis less_imp_le order_refl)
      ultimately show ?thesis
        using on by auto
    qed blast
  qed
  show ?case
  proof (rule ccontr)
    assume no: "\<not> ?goal"
    obtain m where m: "m \<ge> k" "dummy_act env (f m) (f (Suc m))"
      using busy by blast
    then have on: "?on m"
      using still [of "m - k"] no by simp
    from stopping_act [OF _ _ m(2)] on no have after: "stopping (f (Suc m))" "stop_work (f (Suc m)) < stop_work (f k)"
        "Current_TestCase (f (Suc m)) = Current_TestCase (f k)" "dc_Logger (f (Suc m)) = dc_Logger (f k)"
      by auto
    have "dummy_good env (f (Suc m))"
      using dummy_step_good [OF rel] on run by blast
    from less.hyps [OF after(2) this after(1)] no after(3,4) show False
      by simp
  qed
qed

text \<open>In the first case no thread waits.\<close>

lemma Case1_stopping:
  assumes good: "dummy_good env d" and n: "Current_TestCase d = Case1" and i: "dc_Point d = Joining i"
  shows "stopping d"
proof -
  have "map th_Function (Thread_List d) = replicate 5 SendEndFunction"
    using good n by (simp add: dummy_good_def case_functions_def)
  then have f: "th_Function th = SendEndFunction" if "th \<in> set (Thread_List d)" for th
    using that by (metis image_eqI in_set_replicate list.set_map)
  have "\<not> waits th" if th: "th \<in> set (Thread_List d)" for th
  proof -
    have "thread_good env th"
      using good th by (simp add: dummy_good_def)
    then show ?thesis
      using f [OF th] by (auto simp: waits_def thread_good_def sender_def)
  qed
  then show ?thesis
    using i by (simp add: stopping_def)
qed

end
