(* ===== verification/DH_DummyHang.thy ===== *)
theory DH_DummyHang
  imports DH_DummyRun
begin

text \<open>
  When the key Q never ends a test case: two of the functions wait for their first connection in a loop that does
  not look at the flag. While the server refuses, they stay there, and \<open>StopAllThread\<close> waits for them.
\<close>

section \<open>A thread that waits for its first connection\<close>

definition unserved :: "os \<Rightarrow> dummy_thread \<Rightarrow> bool" where
  "unserved env th \<longleftrightarrow> th_Point th = Th_Start
     \<or> th_Point th = Th_Wait \<and> (\<exists>a. my_NetWork th = Some a
          \<and> ((\<exists>nw. a = Api_Live nw \<and> unused nw \<and> th_Connecting th = At_Top)
             \<or> (\<exists>c. handle_client env (th_Connecting th) a c \<and> never_connected (th_Connecting th) c)))"

lemma unserved_wait:
  assumes rel: "\<not> debug_build env" and un: "unserved env th" and at: "th_Point th = Th_Wait"
    and step: "thread_wait env th = Ok th'"
  shows "unserved env th'"
proof -
  obtain a where a: "my_NetWork th = Some a" and
    cases: "(\<exists>nw. a = Api_Live nw \<and> unused nw \<and> th_Connecting th = At_Top)
      \<or> (\<exists>c. handle_client env (th_Connecting th) a c \<and> never_connected (th_Connecting th) c)"
    using un at by (auto simp: unserved_def)
  have "\<exists>a' c. API_Connect env CONNECT_PORT CONNECT_IP a = Ok (0, a')
      \<and> handle_client env (th_Connecting th) a' c \<and> never_connected (th_Connecting th) c"
    using cases
  proof
    assume "\<exists>nw. a = Api_Live nw \<and> unused nw \<and> th_Connecting th = At_Top"
    then show ?thesis
      using API_Connect_first [OF rel] by fastforce
  next
    assume "\<exists>c. handle_client env (th_Connecting th) a c \<and> never_connected (th_Connecting th) c"
    then obtain c where c: "handle_client env (th_Connecting th) a c" "never_connected (th_Connecting th) c"
      by blast
    then have "API_Connect env CONNECT_PORT CONNECT_IP a = Ok (0, a)"
      using API_Connect_later [OF c(1)] by (simp add: never_connected_def)
    with c show ?thesis by blast
  qed
  then show ?thesis
    using step a by (auto simp: thread_wait_def th_network_def unserved_def)
qed

lemma unserved_step:
  assumes rel: "\<not> debug_build env" and un: "unserved env th" and f: "sender (th_Function th)" and y: "in_flight y = []"
    and step: "thread_step env start stop rnd y ending th tot = Ok (th', tot')"
  shows "unserved env th'"
proof (cases "th_Point th = Th_Start")
  case True
  with step f new_network_unused [OF y] show ?thesis
    by (auto simp: thread_step_def thread_begin_def Let_def sender_def unserved_def)
next
  case False
  then have at: "th_Point th = Th_Wait"
    using un by (simp add: unserved_def)
  with step show ?thesis
    using unserved_wait [OF rel un at] by (auto simp: thread_step_def bindE_eq_Ok_iff)
qed

lemma unserved_net:
  assumes ref: "refusing env" and un: "unserved env th" and c: "th_client th nw c"
    and own: "cli_own env (th_Connecting th, c) (pc', c')"
  shows "unserved env (set_client nw pc' c' th)"
proof (cases "th_Point th = Th_Start")
  case True
  then show ?thesis
    by (simp add: unserved_def set_client_def)
next
  case False
  have a: "my_NetWork th = Some (Api_Live nw)" "Current_Type nw = TYPE_DHCLIENT" "m_NetWork nw = Some (Net_Client c)"
    using c by (simp_all add: th_client_def)
  have at: "th_Point th = Th_Wait"
    and h: "handle_client env (th_Connecting th) (Api_Live nw) c" "never_connected (th_Connecting th) c"
    using un False a by (auto simp: unserved_def unused_def handle_client_def)
  have "client_usable env pc' c'"
    using h(1) client_usable_own [OF _ own] by (simp add: handle_client_def)
  then have "handle_client env pc' (Api_Live (nw\<lparr>m_NetWork := Some (Net_Client c')\<rparr>)) c'"
    using a by (simp add: handle_client_def)
  with cli_own_never [OF ref own h(2)] at show ?thesis
    by (auto simp: unserved_def set_client_def)
qed

section \<open>All of them\<close>

definition senders_unserved :: "os \<Rightarrow> dummy_client \<Rightarrow> bool" where
  "senders_unserved env d \<longleftrightarrow> (\<forall>th \<in> set (Thread_List d). sender (th_Function th) \<longrightarrow> unserved env th)"

lemma senders_unserved_update:
  assumes "senders_unserved env d" and "sender (th_Function th') \<longrightarrow> unserved env th'"
  shows "senders_unserved env (d\<lparr>Thread_List := (Thread_List d)[i := th'], dc_Totals := tot\<rparr>)"
  using assms by (auto simp: senders_unserved_def dest!: set_update_subset_insert [THEN subsetD])

lemma KeyInput_step_unserved:
  assumes "senders_unserved env d" and "KeyInput_step down d = Some d'"
  shows "senders_unserved env d'"
  using assms
  by (cases "dc_Point d")
    (auto simp: KeyInput_step_def StopAllThread_begin_def StopAllThread_end_def start_case_eq senders_unserved_def
      unserved_def new_thread_def split: if_splits)

lemma dummy_step_unserved:
  assumes rel: "\<not> debug_build env" and ref: "refusing env" and good: "dummy_good env d"
    and un: "senders_unserved env d" and step: "dummy_step env d d'"
  shows "senders_unserved env d'"
  using step [unfolded dummy_step_def]
proof
  assume "dummy_act env d d'"
  then show ?thesis
  proof (cases rule: dummy_actE [consumes 1, case_names main thread])
    case (main down)
    with KeyInput_step_unserved [OF un] show ?thesis by blast
  next
    case (thread i y start stop rnd th' tot')
    have th: "thread_good env (Thread_List d ! i)" "text_good (Thread_List d ! i)"
      using good thread(2) by (simp_all add: dummy_good_def)
    have f: "th_Function th' = th_Function (Thread_List d ! i)"
      using thread_step_good [OF rel th thread(4)] thread(5)
      by (metis (no_types, lifting) prod.inject sum.inject(2))
    have "sender (th_Function th') \<longrightarrow> unserved env th'"
      using un thread(2) f unserved_step [OF rel _ _ thread(4,5)] by (simp add: senders_unserved_def)
    with senders_unserved_update [OF un] show ?thesis
      by (simp add: thread(1))
  qed
next
  assume "dummy_net env d d'"
  then show ?thesis
  proof (cases rule: dummy_netE [consumes 1, case_names net])
    case (net i nw c pc' c')
    let ?th' = "set_client nw pc' c' (Thread_List d ! i)"
    have "sender (th_Function ?th') \<longrightarrow> unserved env ?th'"
      using un net(2) unserved_net [OF ref _ net(3,4)] by (simp add: senders_unserved_def set_client_def)
    with senders_unserved_update [OF un this, where i = i and tot = "dc_Totals d"] show ?thesis
      by (simp add: net(1))
  qed
qed

lemma dummy_reach_unserved:
  assumes "\<not> debug_build env" and "refusing env" and "dummy_reach env d"
  shows "senders_unserved env d"
  using assms(3)
proof induction
  case dummy_started
  show ?case
    by (simp add: senders_unserved_def DummyClient_ctor_def)
next
  case (dummy_next d d')
  then show ?case
    using dummy_step_unserved [OF assms(1,2) dummy_reach_good] assms(1) by blast
qed

section \<open>The join that does not return\<close>

definition hanging :: "os \<Rightarrow> TestCaseNumber \<Rightarrow> dummy_client \<Rightarrow> bool" where
  "hanging env n d \<longleftrightarrow> dummy_good env d \<and> senders_unserved env d \<and> Current_TestCase d = n \<and> n \<in> {Case2, Case3}
     \<and> (\<exists>i. dc_Point d = Joining i)"

lemma unserved_waits: "sender (th_Function th) \<Longrightarrow> unserved env th \<Longrightarrow> waits th"
  by (auto simp: unserved_def waits_def)

lemma hanging_waits:
  assumes "hanging env n d"
  shows "\<exists>j < length (Thread_List d). waits (Thread_List d ! j)"
proof -
  have fs: "map th_Function (Thread_List d) = case_functions n" and n: "n \<in> {Case2, Case3}"
    using assms by (auto simp: hanging_def dummy_good_def)
  have "\<exists>f \<in> set (case_functions n). sender f"
    using n by (auto simp: case_functions_def sender_def)
  then have "\<exists>th \<in> set (Thread_List d). sender (th_Function th)"
    using arg_cong [OF fs, of set] by (metis image_iff list.set_map)
  then obtain th where "th \<in> set (Thread_List d)" "waits th"
    using assms unserved_waits by (auto simp: hanging_def senders_unserved_def)
  then show ?thesis
    by (metis in_set_conv_nth)
qed

lemma hanging_main:
  assumes hang: "hanging env n d" and step: "KeyInput_step down d = Some d'"
  shows "Current_TestCase d' = n \<and> dc_Logger d' = dc_Logger d \<and> (\<exists>i. dc_Point d' = Joining i)"
proof -
  obtain i where i: "dc_Point d = Joining i"
    using hang by (auto simp: hanging_def)
  then have "\<forall>j < i. th_Point (Thread_List d ! j) = Th_Done"
    using hang by (simp add: hanging_def dummy_good_def point_good_def)
  with hanging_waits [OF hang] have "i < length (Thread_List d)"
    by (auto simp: waits_def) (metis linorder_not_less order_less_le_trans thread_point.distinct)+
  then show ?thesis
    using step i hang by (auto simp: KeyInput_step_def hanging_def split: if_splits)
qed

lemma hanging_step:
  assumes rel: "\<not> debug_build env" and ref: "refusing env" and hang: "hanging env n d" and step: "dummy_step env d d'"
  shows "hanging env n d'" and "dc_Logger d' = dc_Logger d"
proof -
  have good: "dummy_good env d" "senders_unserved env d"
    using hang by (simp_all add: hanging_def)
  have next_good: "dummy_good env d'" "senders_unserved env d'"
    using dummy_step_good [OF rel good(1) step] dummy_step_unserved [OF rel ref good step] .
  have "Current_TestCase d' = n \<and> dc_Logger d' = dc_Logger d \<and> (\<exists>i. dc_Point d' = Joining i)"
    using step hanging_main [OF hang] hang
    by (auto simp: dummy_step_def hanging_def elim!: dummy_actE dummy_netE)
  then show "hanging env n d'" and "dc_Logger d' = dc_Logger d"
    using next_good hang by (simp_all add: hanging_def)
qed

lemma hanging_run:
  assumes rel: "\<not> debug_build env" and ref: "refusing env" and hang: "hanging env n d"
    and run: "(dummy_step env)\<^sup>*\<^sup>* d d'"
  shows "hanging env n d' \<and> dc_Logger d' = dc_Logger d"
  using run hang by (induction rule: rtranclp_induct) (auto dest: hanging_step [OF rel ref])

end
