(* ===== verification/DH_TestProps.thy ===== *)
theory DH_TestProps
  imports DH_TestEcho DH_DummyHang DH_ClientProps
begin

text \<open>
  Properties of the two test programs over the library, each with a concrete instance: the server that answers
  every message, and the dummy client with its test cases.
\<close>

section \<open>The round trip\<close>




section \<open>The test server\<close>








section \<open>The dummy client\<close>

text \<open>C13. In every reachable state of the dummy client its threads are those of the test case it says it runs; each
  thread has nothing, an unused network or a client in a reachable state with the address of the test server,
  as fits the place it is at, and none of its steps faults; the flag that ends the threads is up exactly while
  the keys are not read but the threads are joined, the joined ones are finished, and no thread finishes
  otherwise; and with no thread the totals are zero.\<close>

theorem dummy_invariant:
  assumes rel: "\<not> debug_build env" and reach: "dummy_reach env d"
  shows "map th_Function (Thread_List d) = case_functions (Current_TestCase d)
    \<and> (\<forall>th \<in> set (Thread_List d). thread_good env th \<and> (\<forall>start stop rnd y. in_flight y = [] \<longrightarrow>
          (\<exists>r. thread_step env start stop rnd y (End_Flag d) th (dc_Totals d) = Ok r)))
    \<and> (End_Flag d \<longleftrightarrow> (\<exists>i. dc_Point d = Joining i))
    \<and> (\<forall>i. dc_Point d = Joining i \<longrightarrow> i \<le> length (Thread_List d)
         \<and> (\<forall>j < i. th_Point (Thread_List d ! j) = Th_Done))
    \<and> (\<not> End_Flag d \<longrightarrow> (\<forall>th \<in> set (Thread_List d). th_Point th \<noteq> Th_Done))
    \<and> (Thread_List d = [] \<longrightarrow> Current_TestCase d = NonSet_TestCase \<and> dc_Totals d = no_totals)"
proof -
  have good: "dummy_good env d"
    by (rule dummy_reach_good [OF rel reach])
  then have pg: "point_good d" and fs: "map th_Function (Thread_List d) = case_functions (Current_TestCase d)"
    and ts: "\<forall>th \<in> set (Thread_List d). thread_good env th \<and> text_good th"
    and tot: "Thread_List d = [] \<longrightarrow> dc_Totals d = no_totals"
    by (simp_all add: dummy_good_def)
  have "thread_good env th \<and> (\<forall>start stop rnd y. in_flight y = [] \<longrightarrow>
      (\<exists>r. thread_step env start stop rnd y (End_Flag d) th (dc_Totals d) = Ok r))"
    if th: "th \<in> set (Thread_List d)" for th
  proof (intro conjI allI impI)
    show good_th: "thread_good env th"
      using ts th by blast
    have "text_good th"
      using ts th by blast
    then show "\<exists>r. thread_step env start stop rnd y (End_Flag d) th (dc_Totals d) = Ok r"
      if y: "in_flight y = []" for start stop rnd y
      using thread_step_good [OF rel good_th _ y] by blast
  qed
  moreover have "Thread_List d = [] \<longrightarrow> Current_TestCase d = NonSet_TestCase \<and> dc_Totals d = no_totals"
    using fs tot case_functions_Nil [of "Current_TestCase d"] by auto
  moreover have "End_Flag d \<longleftrightarrow> (\<exists>i. dc_Point d = Joining i)"
    using pg by (auto simp: point_good_def split: main_point.splits)
  moreover have "\<forall>i. dc_Point d = Joining i \<longrightarrow> i \<le> length (Thread_List d)
      \<and> (\<forall>j < i. th_Point (Thread_List d ! j) = Th_Done)"
    using pg by (auto simp: point_good_def)
  moreover have "\<not> End_Flag d \<longrightarrow> (\<forall>th \<in> set (Thread_List d). th_Point th \<noteq> Th_Done)"
    using pg by (auto simp: point_good_def split: main_point.splits)
  ultimately show ?thesis
    using fs by (intro conjI ballI) simp_all
qed

lemma dummy_reach_main: "dummy_reach env d \<Longrightarrow> KeyInput_step down d = Some d' \<Longrightarrow> dummy_reach env d'"
  using act_main dummy_reach.dummy_next dummy_step_def by metis

text \<open>The keys 2 and Q, each pressed when it is looked at.\<close>

definition demo_dummy :: "dummy_client" where
  "demo_dummy = (StopAllThread_begin ((StartCase2 (DummyClient_ctor\<lparr>dc_Point := Check_2\<rparr>))\<lparr>dc_Point := Check_Q\<rparr>))"

lemma demo_dummy_reach: "dummy_reach env demo_dummy"
proof -
  let ?d1 = "DummyClient_ctor\<lparr>dc_Point := Check_1\<rparr>" and ?d2 = "DummyClient_ctor\<lparr>dc_Point := Check_2\<rparr>"
  let ?d3 = "(StartCase2 ?d2)\<lparr>dc_Point := Check_3\<rparr>" and ?d4 = "(StartCase2 ?d2)\<lparr>dc_Point := Check_Q\<rparr>"
  have 1: "dummy_reach env ?d1"
    by (rule dummy_reach_main [OF dummy_reach.dummy_started, of False]) (simp add: KeyInput_step_def DummyClient_ctor_def)
  have 2: "dummy_reach env ?d2"
    by (rule dummy_reach_main [OF 1, of False]) (simp add: KeyInput_step_def DummyClient_ctor_def)
  have 3: "dummy_reach env ?d3"
    by (rule dummy_reach_main [OF 2, of True]) (simp add: KeyInput_step_def)
  have 4: "dummy_reach env ?d4"
    by (rule dummy_reach_main [OF 3, of False]) (simp add: KeyInput_step_def)
  show ?thesis
    by (rule dummy_reach_main [OF 4, of True]) (simp add: KeyInput_step_def demo_dummy_def)
qed

lemma demo_dummy_facts:
  "dc_Point demo_dummy = Joining 0" "Current_TestCase demo_dummy = Case2" "dc_Logger demo_dummy = []"
  "Thread_List demo_dummy = map new_thread (case_functions Case2)" "End_Flag demo_dummy"
  by (simp_all add: demo_dummy_def StopAllThread_begin_def start_case_eq DummyClient_ctor_def case_functions_def)

theorem dummy_invariant_witness:
  "length (Thread_List demo_dummy) = 5 \<and> (\<exists>i. dc_Point demo_dummy = Joining i)
     \<and> (\<exists>r. thread_step os_fine 0 0 0 empty_sys True (Thread_List demo_dummy ! 4) no_totals = Ok r)"
proof -
  have "dc_Totals demo_dummy = no_totals" "in_flight empty_sys = []" "\<not> debug_build os_fine"
    by (simp_all add: demo_dummy_def StopAllThread_begin_def start_case_eq DummyClient_ctor_def empty_sys_def os_fine_def)
  moreover have "length (Thread_List demo_dummy) = 5"
    by (simp add: demo_dummy_facts case_functions_def)
  moreover from this have "Thread_List demo_dummy ! 4 \<in> set (Thread_List demo_dummy)"
    by simp
  ultimately show ?thesis
    using dummy_invariant [OF _ demo_dummy_reach, of os_fine] demo_dummy_facts(5) by auto
qed

text \<open>C15. The key Q ends a test case: once no thread waits for its first connection any more, and in the first case
  whatever the threads do, there is always a step of the program to make; and every run in which it keeps making
  steps comes to the state in which the result of the case is in the log, the threads are gone, the totals are
  zero and the keys are read again.\<close>

theorem dummy_stop_ends:
  assumes rel: "\<not> debug_build env" and reach: "dummy_reach env d" and i: "dc_Point d = Joining i"
    and free: "Current_TestCase d = Case1 \<or> (\<forall>th \<in> set (Thread_List d). \<not> waits th)"
  shows "(\<exists>d'. dummy_act env d d')
    \<and> (\<exists>d'. (dummy_act env)\<^sup>*\<^sup>* d d' \<and> case_stopped (Current_TestCase d) (dc_Logger d) d')
    \<and> (\<forall>f. f 0 = d \<and> (\<forall>n. dummy_step env (f n) (f (Suc n))) \<and> (\<forall>n. \<exists>m\<ge>n. dummy_act env (f m) (f (Suc m)))
         \<longrightarrow> (\<exists>n. case_stopped (Current_TestCase d) (dc_Logger d) (f n)))"
proof -
  have good: "dummy_good env d"
    by (rule dummy_reach_good [OF rel reach])
  have st: "stopping d"
    using free i Case1_stopping [OF good _ i] by (auto simp: stopping_def)
  have run: "\<exists>n. case_stopped (Current_TestCase d) (dc_Logger d) (f n)"
    if "f 0 = d" "\<forall>n. dummy_step env (f n) (f (Suc n))" "\<forall>n. \<exists>m\<ge>n. dummy_act env (f m) (f (Suc m))" for f
    using stopping_run [OF rel that(2,3), of 0] good st that(1) by simp
  show ?thesis
    using stopping_enabled [OF rel good i] stopping_ends [OF rel good st] run by blast
qed

text \<open>The keys 1 and Q.\<close>

definition demo_dummy1 :: "dummy_client" where
  "demo_dummy1 = StopAllThread_begin ((StartCase1 (DummyClient_ctor\<lparr>dc_Point := Check_1\<rparr>))\<lparr>dc_Point := Check_Q\<rparr>)"

lemma demo_dummy1_reach: "dummy_reach env demo_dummy1"
proof -
  let ?d1 = "DummyClient_ctor\<lparr>dc_Point := Check_1\<rparr>"
  have 1: "dummy_reach env ?d1"
    by (rule dummy_reach_main [OF dummy_reach.dummy_started, of False]) (simp add: KeyInput_step_def DummyClient_ctor_def)
  have 2: "dummy_reach env ((StartCase1 ?d1)\<lparr>dc_Point := Check_2\<rparr>)"
    by (rule dummy_reach_main [OF 1, of True]) (simp add: KeyInput_step_def)
  have 3: "dummy_reach env ((StartCase1 ?d1)\<lparr>dc_Point := Check_3\<rparr>)"
    by (rule dummy_reach_main [OF 2, of False]) (simp add: KeyInput_step_def)
  have 4: "dummy_reach env ((StartCase1 ?d1)\<lparr>dc_Point := Check_Q\<rparr>)"
    by (rule dummy_reach_main [OF 3, of False]) (simp add: KeyInput_step_def)
  show ?thesis
    by (rule dummy_reach_main [OF 4, of True]) (simp add: KeyInput_step_def demo_dummy1_def)
qed

theorem dummy_stop_ends_witness:
  "\<exists>d'. (dummy_act os_fine)\<^sup>*\<^sup>* demo_dummy1 d' \<and> case_stopped Case1 [] d'"
proof -
  have "dc_Point demo_dummy1 = Joining 0" "Current_TestCase demo_dummy1 = Case1" "dc_Logger demo_dummy1 = []"
    "\<not> debug_build os_fine"
    by (simp_all add: demo_dummy1_def StopAllThread_begin_def start_case_eq DummyClient_ctor_def case_functions_def
        os_fine_def)
  with dummy_stop_ends [OF _ demo_dummy1_reach, of os_fine] show ?thesis
    by auto
qed

text \<open>C38. The key Q that never ends a test case: in the second and the third case a thread waits for its first
  connection in a loop that does not look at the flag. While the server refuses, whatever the program and its
  networks do, the main thread stays in its join, the flag stays up, nothing is logged, and the program keeps
  running.\<close>

theorem dummy_stop_hangs:
  assumes rel: "\<not> debug_build env" and ref: "refusing env" and reach: "dummy_reach env d"
    and n: "Current_TestCase d = Case2 \<or> Current_TestCase d = Case3" and i: "dc_Point d = Joining i"
    and run: "(dummy_step env)\<^sup>*\<^sup>* d d'"
  shows "End_Flag d' \<and> (\<exists>j < length (Thread_List d'). (\<exists>i \<le> j. dc_Point d' = Joining i)
        \<and> waits (Thread_List d' ! j))
    \<and> Current_TestCase d' = Current_TestCase d \<and> dc_Logger d' = dc_Logger d \<and> (\<exists>d''. dummy_act env d' d'')"
proof -
  have good: "dummy_good env d"
    by (rule dummy_reach_good [OF rel reach])
  have "hanging env (Current_TestCase d) d"
    using good dummy_reach_unserved [OF rel ref reach] n i by (auto simp: hanging_def)
  from hanging_run [OF rel ref this run] have hang: "hanging env (Current_TestCase d) d'"
    and log: "dc_Logger d' = dc_Logger d"
    by simp_all
  obtain i' where i': "dc_Point d' = Joining i'"
    using hang by (auto simp: hanging_def)
  have good': "dummy_good env d'"
    using hang by (simp add: hanging_def)
  then have pg: "End_Flag d'" "\<forall>j < i'. th_Point (Thread_List d' ! j) = Th_Done"
    using i' by (simp_all add: dummy_good_def point_good_def)
  obtain j where j: "j < length (Thread_List d')" "waits (Thread_List d' ! j)"
    using hanging_waits [OF hang] by blast
  then have "i' \<le> j"
    using pg(2) by (auto simp: waits_def simp flip: not_less)
  with j i' pg(1) log hang stopping_enabled [OF rel good' i'] show ?thesis
    by (auto simp: hanging_def)
qed

theorem dummy_stop_hangs_witness:
  "\<exists>d'. (dummy_step os_refusing)\<^sup>*\<^sup>* demo_dummy d' \<and> d' \<noteq> demo_dummy \<and> End_Flag d' \<and> Current_TestCase d' = Case2
     \<and> (\<exists>th \<in> set (Thread_List d'). waits th)"
proof -
  have env: "\<not> debug_build os_refusing" "refusing os_refusing"
    by (simp_all add: refusing_def os_refusing_def os_fine_def)
  have i: "4 < length (Thread_List demo_dummy)" and th: "Thread_List demo_dummy ! 4 = new_thread BoundlessSendFunction"
    by (simp_all add: demo_dummy_facts case_functions_def)
  let ?th = "thread_begin 0 empty_sys (new_thread BoundlessSendFunction)"
  have "thread_step os_refusing 0 0 0 empty_sys (End_Flag demo_dummy) (Thread_List demo_dummy ! 4) (dc_Totals demo_dummy)
      = Ok (?th, dc_Totals demo_dummy)"
    unfolding th by (simp add: thread_step_def new_thread_def)
  from act_thread [OF i _ _ this] have
    "dummy_step os_refusing demo_dummy (demo_dummy\<lparr>Thread_List := (Thread_List demo_dummy)[4 := ?th],
       dc_Totals := dc_Totals demo_dummy\<rparr>)" (is "dummy_step _ _ ?d")
    by (simp add: dummy_step_def th new_thread_def empty_sys_def)
  then have run: "(dummy_step os_refusing)\<^sup>*\<^sup>* demo_dummy ?d"
    by blast
  have "th_Point ?th \<noteq> th_Point (Thread_List demo_dummy ! 4)"
    unfolding th by (simp add: thread_begin_def Let_def new_thread_def)
  then have "Thread_List ?d \<noteq> Thread_List demo_dummy"
    using i by (metis (no_types, lifting) dummy_client.select_convs(3) dummy_client.surjective
        dummy_client.update_convs(3,4) nth_list_update_eq)
  moreover have "Current_TestCase demo_dummy = Case2 \<or> Current_TestCase demo_dummy = Case3"
    by (simp add: demo_dummy_facts)
  note dummy_stop_hangs [OF env demo_dummy_reach this demo_dummy_facts(1) run]
  ultimately show ?thesis
    using run demo_dummy_facts(2) by (metis nth_mem)
qed

end
