(* ===== verification/DH_WindowLayout.thy ===== *)
theory DH_WindowLayout
  imports DH_WindowSpec
begin

text \<open>
  What the constructor of the friend window builds besides its members: the groups of the friend tree, the rows
  and buttons of the friend requests, the icons of the friends and the pictures behind the content buttons. The
  states of \<open>DH_Launcher\<close> take these for granted; here they are built the way the code does, and shown to be what
  those states assume.
\<close>

section \<open>Groups and colours\<close>

datatype ColColorType = Ingame_Green | Online_Blue | Offline_Gray

fun text_color :: "ColColorType \<Rightarrow> int \<times> int \<times> int" where
  "text_color Ingame_Green = (217, 244, 187)"
| "text_color Online_Blue = (109, 207, 246)"
| "text_color Offline_Gray = (112, 112, 113)"

text \<open>An item of the tree: its texts, its colour, whether it is hidden and the texts of its children with theirs.\<close>

record tree_item =
  it_text :: string
  it_description :: string
  it_color :: "int \<times> int \<times> int"
  it_hidden :: bool
  it_children :: "(string \<times> bool) list"

datatype request_slot =
    Slot_Accept1 | Slot_Accept2 | Slot_Accept3 | Slot_Cancel1 | Slot_Cancel2 | Slot_Cancel3

text \<open>Pointers to items are their places in the tree, which only grows.\<close>

record friend_tree =
  tree_items :: "tree_item list"
  tree_roots :: "(string \<times> nat) list"
  tree_request :: "nat option"
  AddFriend_Button :: "(nat \<times> request_slot) list"

definition empty_tree :: friend_tree where
  "empty_tree = \<lparr>tree_items = [], tree_roots = [], tree_request = None, AddFriend_Button = []\<rparr>"

text \<open>\<open>insert\<close> of a map keeps the value of a key that is there already.\<close>

definition map_insert :: "('k \<times> 'v) list \<Rightarrow> 'k \<Rightarrow> 'v \<Rightarrow> ('k \<times> 'v) list" where
  "map_insert m k v = (if map_of m k = None then m @ [(k, v)] else m)"

definition addTreeRoot :: "string \<Rightarrow> string \<Rightarrow> ColColorType \<Rightarrow> friend_tree \<Rightarrow> friend_tree" where
  "addTreeRoot Name description Color_Type t =
     t\<lparr>tree_items := tree_items t @ [\<lparr>it_text = Name, it_description = description, it_color = text_color Color_Type,
         it_hidden = False, it_children = []\<rparr>],
       tree_roots := map_insert (tree_roots t) Name (length (tree_items t))\<rparr>"

definition request_buttons :: "nat \<Rightarrow> request_slot \<times> request_slot" where
  "request_buttons i = (if i = 0 then (Slot_Accept1, Slot_Cancel1)
     else if i = 1 then (Slot_Accept2, Slot_Cancel2) else (Slot_Accept3, Slot_Cancel3))"

primrec request_rows :: "nat \<Rightarrow> nat \<Rightarrow> friend_tree \<Rightarrow> friend_tree" where
  "request_rows 0 i t = t"
| "request_rows (Suc n) i t =
     (case tree_request t of
        None \<Rightarrow> t
      | Some k \<Rightarrow>
          let it = tree_items t ! k;
              b = map_insert (AddFriend_Button t) (i * 2) (fst (request_buttons i));
              b = map_insert b (i * 2 + 1) (snd (request_buttons i))
          in request_rows n (Suc i)
               (t\<lparr>tree_items := (tree_items t)[k := it\<lparr>it_children := it_children it @ [([], True)]\<rparr>],
                  AddFriend_Button := b\<rparr>))"

definition addFriendRequest :: "string \<Rightarrow> ColColorType \<Rightarrow> friend_tree \<Rightarrow> friend_tree" where
  "addFriendRequest Name Color_Type t =
     request_rows 3 0
       (t\<lparr>tree_request := Some (length (tree_items t)),
          tree_items := tree_items t @ [\<lparr>it_text = Name, it_description = [], it_color = text_color Color_Type,
            it_hidden = True, it_children = []\<rparr>]\<rparr>)"

text \<open>The Korean words for a friend request, in the bytes of the source file.\<close>

definition request_word :: string where
  "request_word = [CHR 0xC4, CHR 0xA3, CHR 0xB1, CHR 0xB8, CHR 0xBF, CHR 0xE4, CHR 0xC3, CHR 0xBB]"

definition friend_tree_ctor :: friend_tree where
  "friend_tree_ctor =
     addFriendRequest request_word Offline_Gray
       (addTreeRoot (group_text Offline) [] Offline_Gray
         (addTreeRoot (group_text Online) [] Online_Blue
           (addTreeRoot (group_text In_Game) [] Ingame_Green empty_tree)))"

section \<open>Icons and pictures\<close>

definition USER_ICON_TYPE_1 :: int where "USER_ICON_TYPE_1 = 0"
definition USER_ICON_TYPE_2 :: int where "USER_ICON_TYPE_2 = 1"

definition Icon_Type_Name :: "(int \<times> string) list" where
  "Icon_Type_Name = map_insert (map_insert [] USER_ICON_TYPE_1 ''Profile_icon1'') USER_ICON_TYPE_2 ''Profile_icon2''"

text \<open>The names of the icons, each with a file of its own.\<close>

definition Icon_List :: "string list" where
  "Icon_List = [''Profile_icon1_off'', ''Profile_icon1_on'', ''Profile_icon2_off'', ''Profile_icon2_on'',
     ''Profile_icon3_off'', ''Profile_icon3_on'', ''Content_Focus'', ''Content_Non_Focus'', ''Friend_Cancle'',
     ''Friend_OK'']"

definition BackGround_List :: "string list" where
  "BackGround_List = [''Main_Content1'', ''Main_Content2'', ''Main_Content3'']"

text \<open>The icon of a new row; a type that has no name gives the empty one.\<close>

definition child_icon :: "string \<Rightarrow> int \<Rightarrow> string" where
  "child_icon Parent_Name Icon_Type =
     (let Icon_Name = (case map_of Icon_Type_Name Icon_Type of None \<Rightarrow> [] | Some s \<Rightarrow> s)
      in if Parent_Name = group_text Offline then Icon_Name @ ''_off'' else Icon_Name @ ''_on'')"

text \<open>How the rows of a user state are shown: the icon type and the colour for each group.\<close>

fun group_style :: "friend_group \<Rightarrow> int \<times> ColColorType" where
  "group_style Offline = (USER_ICON_TYPE_1, Offline_Gray)"
| "group_style Online = (USER_ICON_TYPE_2, Online_Blue)"
| "group_style In_Game = (USER_ICON_TYPE_1, Ingame_Green)"

definition content_image :: "nat \<Rightarrow> string" where
  "content_image j = (if j = 0 then ''Main_Content1'' else if j = 1 then ''Main_Content2''
     else if j = 2 then ''Main_Content3'' else [])"

section \<open>What the constructor guarantees\<close>

lemma friend_tree_ctor_eq:
  "friend_tree_ctor = \<lparr>tree_items =
      [\<lparr>it_text = group_text In_Game, it_description = [], it_color = (217, 244, 187), it_hidden = False, it_children = []\<rparr>,
       \<lparr>it_text = group_text Online, it_description = [], it_color = (109, 207, 246), it_hidden = False, it_children = []\<rparr>,
       \<lparr>it_text = group_text Offline, it_description = [], it_color = (112, 112, 113), it_hidden = False, it_children = []\<rparr>,
       \<lparr>it_text = request_word, it_description = [], it_color = (112, 112, 113), it_hidden = True,
         it_children = replicate 3 ([], True)\<rparr>],
     tree_roots = [(group_text In_Game, 0), (group_text Online, 1), (group_text Offline, 2)],
     tree_request = Some 3,
     AddFriend_Button = [(0, Slot_Accept1), (1, Slot_Cancel1), (2, Slot_Accept2), (3, Slot_Cancel2),
       (4, Slot_Accept3), (5, Slot_Cancel3)]\<rparr>"
  by (simp add: friend_tree_ctor_def addFriendRequest_def addTreeRoot_def empty_tree_def map_insert_def
      request_buttons_def group_text_def numeral_3_eq_3)

text \<open>Every group has its item, with no rows, so that no look-up of a group gives a null pointer.\<close>

lemma group_item:
  "\<exists>k. map_of (tree_roots friend_tree_ctor) (group_text g) = Some k \<and> k < length (tree_items friend_tree_ctor)
     \<and> it_text (tree_items friend_tree_ctor ! k) = group_text g
     \<and> it_color (tree_items friend_tree_ctor ! k) = text_color (snd (group_style g))
     \<and> map fst (it_children (tree_items friend_tree_ctor ! k)) = WidgetRoot_List GamePlayLauncher_ctor g"
  by (cases g) (simp_all add: friend_tree_ctor_eq GamePlayLauncher_ctor_def, simp_all add: group_text_def)

text \<open>The rows of the requests are those the window starts with.\<close>

lemma request_item:
  "\<exists>k it. tree_request friend_tree_ctor = Some k \<and> k < length (tree_items friend_tree_ctor)
     \<and> it = tree_items friend_tree_ctor ! k \<and> it_hidden it = item_hidden GamePlayLauncher_ctor
     \<and> map fst (it_children it) = row_text GamePlayLauncher_ctor
     \<and> map snd (it_children it) = row_hidden GamePlayLauncher_ctor"
  by (simp add: friend_tree_ctor_eq GamePlayLauncher_ctor_def)

text \<open>The button with the number \<open>2 i\<close> accepts the request of row \<open>i\<close>, the next one declines it; there are no others.\<close>

fun press :: "os \<Rightarrow> flat \<Rightarrow> request_slot \<Rightarrow> friend_window \<Rightarrow> api_ptr \<Rightarrow> (friend_window \<times> api_ptr) res" where
  "press env fl Slot_Accept1 = PushAcceptFriendRequestButton1 env fl"
| "press env fl Slot_Accept2 = PushAcceptFriendRequestButton2 env fl"
| "press env fl Slot_Accept3 = PushAcceptFriendRequestButton3 env fl"
| "press env fl Slot_Cancel1 = PushCancelFriendRequestButton1 env fl"
| "press env fl Slot_Cancel2 = PushCancelFriendRequestButton2 env fl"
| "press env fl Slot_Cancel3 = PushCancelFriendRequestButton3 env fl"

lemma pressed_button:
  "map_of (AddFriend_Button friend_tree_ctor) b
     = (if b < 6 then Some (if even b then fst (request_buttons (b div 2)) else snd (request_buttons (b div 2))) else None)"
proof (cases "b < 6")
  case True
  then have "b \<in> {0, 1, 2, 3, 4, 5}"
    by auto
  then show ?thesis
    by (auto simp: friend_tree_ctor_eq request_buttons_def)
next
  case False
  then show ?thesis
    by (simp add: friend_tree_ctor_eq)
qed

lemma press_buttons:
  "i < 3 \<Longrightarrow> press env fl (fst (request_buttons i)) = PushFriendRequestAnswer env fl True i"
  "i < 3 \<Longrightarrow> press env fl (snd (request_buttons i)) = PushFriendRequestAnswer env fl False i"
proof -
  assume "i < 3"
  then consider "i = 0" | "i = 1" | "i = 2"
    by linarith
  then show "press env fl (fst (request_buttons i)) = PushFriendRequestAnswer env fl True i"
    and "press env fl (snd (request_buttons i)) = PushFriendRequestAnswer env fl False i"
    by (cases; simp add: request_buttons_def PushAcceptFriendRequestButton1_def PushAcceptFriendRequestButton2_def
        PushAcceptFriendRequestButton3_def PushCancelFriendRequestButton1_def PushCancelFriendRequestButton2_def
        PushCancelFriendRequestButton3_def)+
qed

lemma button_answers:
  assumes "b < 6"
  shows "\<exists>s. map_of (AddFriend_Button friend_tree_ctor) b = Some s
    \<and> press env fl s = PushFriendRequestAnswer env fl (even b) (b div 2)"
  using assms press_buttons [of "b div 2" env fl] by (cases "even b") (simp_all add: pressed_button)

text \<open>Every row that is shown has an icon of its own file, and every content button a picture.\<close>

lemma row_icon: "child_icon (group_text g) (fst (group_style g)) \<in> set Icon_List"
  by (cases g) (simp_all add: child_icon_def Icon_Type_Name_def map_insert_def Icon_List_def group_text_def
      USER_ICON_TYPE_1_def USER_ICON_TYPE_2_def)

lemma content_picture: "j < length (PushContentButton 3 i) \<Longrightarrow> content_image j \<in> set BackGround_List"
proof -
  assume "j < length (PushContentButton 3 i)"
  then have "j < 3"
    by (simp add: PushContentButton_def)
  then consider "j = 0" | "j = 1" | "j = 2"
    by linarith
  then show ?thesis
    by cases (simp_all add: content_image_def BackGround_List_def)
qed

text \<open>No type has the third icon, and a type without a name would have no icon.\<close>

lemma third_icon_unused: "child_icon n k \<noteq> ''Profile_icon3_off''" "child_icon n k \<noteq> ''Profile_icon3_on''"
  by (auto simp: child_icon_def Icon_Type_Name_def map_insert_def Let_def split: if_splits option.splits)

end
