(* ===== verification/Spec2Isabelle.thy ===== *)
theory Spec2Isabelle
  imports DH_ServerProps DH_ClientProps DH_NetProps DH_DBProps DH_LauncherProps DH_TestProps DH_WindowLayout
begin

text \<open>
  DHServer: a verification library for the IOCP network library of this repository, its database access and
  the launcher built on it.

  \<^bold>\<open>The program.\<close> \<open>src/DHNetWork\<close> holds a TCP server (\<open>DHServer\<close>) and a TCP client (\<open>DHClient\<close>) over Windows
  completion ports, with an object pool, a memory pool and the structures they share; \<open>DHNetWork\<close> is the
  adapter that becomes one of the two, \<open>src/DHNetworkAPI\<close> the handle an application links against. A packet is
  a packed header (an eight byte size, a two byte type) and its bytes. The sending side cuts each packet into
  buffers of at most 2048 bytes; the receiving side collects the bytes of a connection in a processing buffer
  of 20480 bytes and queues every complete packet for the application. \<open>src/DHDB\<close> is the account and friend
  database of the login server, \<open>src/GameLauncher\<close> the launcher with its login, account and friend windows, and
  \<open>src/NetWorkTestConsole\<close> two programs over the handle: a server that answers every batch of messages with one
  broadcast, and a client that puts it under load.

  \<^bold>\<open>Conventions.\<close> Objects are records, handlers are functions over them, run in the order of the code; an
  operation that can fail returns a \<open>res\<close>, whose \<open>Fault\<close> names what the code does then (a null pointer, an
  access past the end of a block, a use after free, a double free, a failed assertion of a debug build, a wait
  that nothing ends (\<open>Spin\<close>), a missing return statement). Machine integers are words of their width: sizes
  wrap at \<open>2 ^ 64\<close>, the loop counter of \<open>Accept\<close> at \<open>2 ^ 16\<close>. Memory is an explicit store (\<open>heap\<close>) of packet
  and message blocks, so that leaks, double frees and ownership can be stated. The operating system is the
  parameter \<open>env\<close> (\<open>os\<close>): each system call is recorded and answered by a function of the calls before it; an
  overlapped operation that is accepted goes in flight and completes later. What a theorem needs of the system
  is a named hypothesis (\<open>send_accepted\<close>, \<open>recv_accepted\<close>, \<open>os_fresh\<close>, \<open>os_pending\<close>, \<open>accept_granted\<close>,
  \<open>shutdown_ok\<close>, \<open>refusing\<close>), satisfied by the concrete \<open>os_fine\<close>.

  \<^bold>\<open>Theories.\<close>
  \<^item> \<open>DH_Prelude\<close>: faults, the \<open>bindE\<close> composition and its rules, little-endian words, \<open>memcpy_s\<close>, hash maps as
    association lists. \<open>DH_Constants\<close>: \<open>NetWorkDefine.h\<close>, \<open>DHNetWorkAPIDefine.h\<close> and the wire format
    (\<open>encode_packet\<close>, \<open>decode_packet\<close>). \<open>DH_Heap\<close>: the store and its contract \<open>free_store\<close>. \<open>DH_Winsock\<close>: the
    operating system.
  \<^item> \<open>DH_ObjectPool\<close> (\<open>ObjectPool.h\<close>) with the contract \<open>resource_pool\<close>; \<open>DH_MemoryPool\<close> (\<open>MemoryPool.cpp\<close>);
    \<open>DH_Structs\<close> and \<open>DH_Overlapped\<close> (\<open>SharedDataStruct.h\<close>).
  \<^item> \<open>DH_Stream\<close>: the abstract parser \<open>spec_parse\<close> of a byte stream. Two contracts that server and client both
    interpret: \<open>receive_loop\<close> (in \<open>DH_Overlapped\<close>), what the loop over the processing buffer does, and
    \<open>stream_receiver\<close>, what a receive handler owes to its stream.
  \<^item> \<open>DH_ServerState\<close>, \<open>DH_ServerSock\<close>, \<open>DH_Queues\<close>, \<open>DH_ServerRecv\<close>, \<open>DH_ServerStream\<close>, \<open>DH_ServerSend\<close>,
    \<open>DH_ServerIO\<close>, \<open>DH_ServerLife\<close>, \<open>DH_ServerSystem\<close> (\<open>DHServer.cpp\<close>): its state and data invariant \<open>srv_inv\<close>, the
    socket pool and the connected clients, the two queues, the handlers of the four completions, the send and time
    threads, \<open>Accept\<close> and \<open>End\<close>, and the server as a step relation \<open>srv_step\<close> with the invariant \<open>sys_inv\<close>.
  \<^item> \<open>DH_ClientState\<close>, \<open>DH_ClientRecv\<close>, \<open>DH_ClientSend\<close>, \<open>DH_ClientStream\<close>, \<open>DH_ClientLife\<close>, \<open>DH_ClientSystem\<close>
    (\<open>DHClient.cpp\<close>): the same for the client; its connecting thread is a machine with five program points, so that
    the worker can run between them.
  \<^item> \<open>DH_NetWork\<close> (\<open>DHNetWork.cpp\<close>, \<open>DHNetWorkAPI.cpp\<close>): the adapter and the handle, and the contract \<open>messenger\<close>
    of \<open>Recv\<close>, interpreted for server, client, adapter and handle. \<open>DH_EndToEnd\<close>: both ends of a connection.
  \<^item> \<open>DH_DB\<close> (\<open>DHDBCore.cpp\<close>, with the text of every statement), \<open>DH_DBSpec\<close>: what the operations do to the two
    tables when the database obeys SQL (\<open>sql_behaves\<close>); \<open>DH_DBDemo\<close>: a small server that does; \<open>DH_DBFacade\<close>
    (\<open>DHDB.cpp\<close>): the facade, and the contract \<open>account_store\<close> that core and facade meet.
  \<^item> \<open>DH_Launcher\<close> (\<open>LoginLauncher.cpp\<close>, \<open>AccountCreate.cpp\<close>, \<open>GamePlayLauncher.cpp\<close>), \<open>DH_LauncherSpec\<close>,
    \<open>DH_FriendSpec\<close>, \<open>DH_WindowSpec\<close>: messages, answers, rows of requests, tree of friends, geometry, and the friend
    window as a step relation \<open>win_step\<close>; \<open>DH_RecvLoop\<close>: one turn of its receiving thread; \<open>DH_WindowLayout\<close>: the tree, rows, buttons
    and icons its constructor builds, and that they are what the other theories take for granted.
  \<^item> \<open>DH_ServerInbox\<close>: every message in the inbox of a reachable server fits the processing buffer; \<open>DH_ClientFrame\<close>: what
    a client does on its own (\<open>cli_own\<close>) and what it leaves to the application. \<open>DH_TestServer\<close> (\<open>TestServer/main.cpp\<close>):
    its start, one turn of its loop, the packets it forgets and the whole run \<open>ts_step\<close>; \<open>DH_TestEcho\<close>: client, server
    and test server composed.
  \<^item> \<open>DH_DummyClient\<close> (\<open>DummyClient.cpp\<close>): the four thread functions as machines over their waiting points, the test cases
    and the loop over the keys, composed to \<open>dummy_step\<close> (steps of the program and of the networks below it);
    \<open>DH_DummySpec\<close>: what a good thread is, and that each of its steps succeeds; \<open>DH_DummyRun\<close>: the invariant of the whole
    and when stopping a case ends; \<open>DH_DummyHang\<close>: when it never does.
  \<^item> \<open>DH_Demo\<close>, \<open>DH_ClientDemo\<close>: concrete servers and clients for the instances; \<open>DH_ServerProps\<close>,
    \<open>DH_ClientProps\<close>, \<open>DH_NetProps\<close>, \<open>DH_DBProps\<close>, \<open>DH_LauncherProps\<close>, \<open>DH_TestProps\<close>: the properties of each part; this
    theory: those that span parts.

  \<^bold>\<open>What is shown.\<close> Delivery: whatever way TCP cuts a stream, both receive handlers deliver the sent packets in order
  and once, and so do client and server together, from \<open>SendFunction\<close> or \<open>SendThread\<close> to the other side's queue, and
  from a button of the launcher to the server, and from a client through the test server back to it. Refinement:
  the receive handler computes \<open>spec_parse\<close>, with all three ways a stream can end. Invariants: in every reachable state of server and client every overlapped
  structure and every block has one owner and every connection a receive in flight; the friendship table stays
  symmetric; the friend window stays consistent; the dummy client runs the threads of its test case, each over a
  usable network. Termination: \<open>Accept\<close> returns exactly below 65526 users, the connecting thread ends after \<open>End\<close>,
  a test case of the dummy client ends after the key Q when no thread waits for its first connection. Safety of
  the pools, of \<open>End\<close>, of \<open>Recv\<close>, of the turns of the test server. And the behaviours that are faults of the code, stated as theorems: the wrapping size field, the worker that waits forever, the lost race of the
  client, the use after \<open>End\<close>, the friend requests that accept themselves or take every friend along, the fourth
  request, the messages the test server never releases, the join of the dummy client that never returns.

  \<^bold>\<open>Bounds.\<close> \<open>max_stream_packet\<close> (18433 bytes) is the largest packet for which delivery does not depend on the chunking:
  up to 18432 pending bytes and a full buffer of 2048 fit into the processing buffer of 20480. The fragment
  loops recurse on the remaining size. \<open>ConnectSendThread\<close>, \<open>WorkThread\<close> and the waits of the windows run for a number of
  steps or over a list of what they are given, and the theorems quantify over it; \<open>accept_loop\<close> is a partial function
  because it need not end.

  \<^bold>\<open>Simplifications.\<close> A handler runs as one step; interleaving is between handlers, and for the client also between
  the program points of its connecting thread. Concurrent queues and maps are lists and association lists, with each
  call atomic; the iteration over the connected clients sees the table as it is. The signals of the windows run their
  slots at once. A run ends at its first fault, and the state it reached there is not part of the result. Times are ticks of the system clock.
  In the test programs each network object works on a system state of its own, given as an argument when it is made;
  a \<open>Connect\<close>, \<open>Send\<close>, \<open>Recv\<close> or deletion of a thread is part of one step of that thread, and random numbers and keys are
  arguments.

  \<^bold>\<open>Not modelled.\<close> Printing (\<open>err_display\<close>, \<open>printf_s\<close>) and the texts of errors; styles, fonts
  and the placing of the widgets; the conversion of Korean texts; \<open>GetCoreCount\<close> of the dummy client, which nothing
  calls, and the database test program, which does not fit the interface it calls; flatbuffers and its generated
  schemas (the parameter \<open>flat\<close> of the launcher), oneAPI TBB, the MySQL client library (the parameter
  \<open>mysql\<close>), and the headers of libraries whose sources are not in the repository (\<open>DHLogger\<close>, \<open>DHTimer\<close>, \<open>DHKeyIO\<close>).
\<close>

section \<open>Delivery of packet streams\<close>

text \<open>C1. Whatever way TCP cuts the byte stream of a client into received chunks of at most one
  buffer each, the server's receive handler queues for the application exactly the packets that were
  sent, in order, keeps the receive armed, and has no bytes left over, provided no packet is larger
  than \<open>max_stream_packet\<close> (18433 bytes) and \<open>WSARecv\<close> is accepted.\<close>

theorem server_delivers_stream:
  assumes "srv_ready env x p k s" and "srv_pend x s = []"
    and "list_all chunk_ok cs" and "list_all stream_packet ps"
    and "concat cs = concat (map encode_packet ps)"
  shows "\<exists>s'. feed (srv_on_bytes env x p) s cs = Ok s' \<and> srv_ready env x p k s' \<and> srv_pend x s' = []
           \<and> msgs_of k s' = msgs_of k s @ ps"
  using srv_stream.feed_all [OF assms] .

theorem server_delivers_stream_witness:
  "\<exists>s'. feed (srv_on_bytes os_fine 0 0) demo_server
          [take 5 (encode_packet demo_packet1),
           drop 5 (encode_packet demo_packet1) @ encode_packet demo_packet2] = Ok s'
        \<and> msgs_of 7 s' = [demo_packet1, demo_packet2]"
proof -
  have cs: "list_all chunk_ok [take 5 (encode_packet demo_packet1),
      drop 5 (encode_packet demo_packet1) @ encode_packet demo_packet2]"
    by (auto simp: chunk_ok_def packet_size_def demo_packet1_def demo_packet2_def net_consts
        simp flip: length_greater_0_conv)
  from server_delivers_stream [OF demo_ready demo_pend cs, of "[demo_packet1, demo_packet2]"]
  show ?thesis
    using demo_packets_ok by (auto simp: msgs_of_def)
qed

section \<open>Across components\<close>








text \<open>C19. One broadcast of the server's application and one round of the send queue: every connected client is
  handed the buffers of the packet, once, and nobody else is handed anything.\<close>

theorem broadcast_once_to_each:
  assumes inv: "srv_inv held s" and blk: "user_packet blk p" and env: "send_accepted env"
    and empty: "srv_sends s = []"
  shows "\<exists>s1 s2. Send env (Some blk) SEND_TYPE_BROADCAST j s = Ok (int (length (g_Connected_Client s)), s1)
    \<and> send_queue env (Send_Data_Queue s1) s1 = Ok s2 \<and> srv_inv held s2
    \<and> (\<forall>k. sent_buffers k (ssys s2) = sent_buffers k (ssys s)
         @ (if k \<in> connected s then send_chunks (encode_packet p) else []))"
  using broadcast_reaches_all [OF assms] .

theorem broadcast_once_to_each_witness:
  "\<exists>s1 s2. Send os_fine (Some (encode_packet demo_packet1)) SEND_TYPE_BROADCAST 0 demo_server = Ok (1, s1)
    \<and> send_queue os_fine (Send_Data_Queue s1) s1 = Ok s2
    \<and> sent_buffers 7 (ssys s2) = send_chunks (encode_packet demo_packet1) \<and> sent_buffers 8 (ssys s2) = []"
proof -
  have blk: "user_packet (encode_packet demo_packet1) demo_packet1"
    using demo_packets_ok(3) by (simp add: user_packet_def)
  have empty: "srv_sends demo_server = []" "sent_buffers k (ssys demo_server) = []" for k
    by (simp_all add: srv_sends_def sent_buffers_def send_view_def)
  have "7 \<in> connected demo_server" "8 \<notin> connected demo_server"
    by (simp_all add: connected_def)
  then show ?thesis
    using broadcast_once_to_each [OF demo_inv blk os_fine_send_accepted empty(1), of 0]
    by (auto simp: empty(2))
qed

end
